(* ===== verification/Prelude.thy ===== *)
theory Prelude
  imports Main "HOL-Library.Word" "HOL-Library.Monad_Syntax"
begin

unbundle bit_operations_syntax

section \<open>Prelude: machine integers, byte buffers and loops shared by all components\<close>

text \<open>
  The firmware is built for big-endian 64-bit PowerPC (\<open>src/make.rules\<close>): \<open>char\<close> is
  unsigned, \<open>int\<close> has 32 bits, \<open>long\<close> and \<open>size_t\<close> have 64 bits, and
  \<open>htons\<close>/\<open>htonl\<close> are the identity. This theory names the machine types, gives the
  conversions between C integer types that the components write out, and models a C object
  (an array, a packet, a structure overlaid on bytes) as a byte list whose reads and writes are
  partial: \<open>None\<close> is an access outside the object, which is undefined behaviour in C.
\<close>

type_synonym u8 = "8 word"
type_synonym u16 = "16 word"
type_synonym u32 = "32 word"
type_synonym u64 = "64 word"

text \<open>A C object: its bytes in address order.\<close>

type_synonym bytes = "u8 list"

named_theorems buf_simps \<open>reads and writes of byte buffers\<close>
named_theorems wrap_simps \<open>conversions between C integer types inside their range\<close>
named_theorems be_simps \<open>big-endian composition and decomposition of words\<close>

subsection \<open>Conversions between C integer types on \<open>int\<close>\<close>

text \<open>
  Where offsets and lengths are modelled as \<open>int\<close>, these are the conversions to
  \<open>unsigned int\<close>, \<open>int\<close>, \<open>unsigned long\<close> and \<open>long\<close>.
\<close>

definition u32_of :: "int \<Rightarrow> int" where
  "u32_of x = x mod 4294967296"

definition s32_of :: "int \<Rightarrow> int" where
  "s32_of x = (x + 2147483648) mod 4294967296 - 2147483648"

definition u64_of :: "int \<Rightarrow> int" where
  "u64_of x = x mod 18446744073709551616"

definition s64_of :: "int \<Rightarrow> int" where
  "s64_of x = (x + 9223372036854775808) mod 18446744073709551616 - 9223372036854775808"

lemma u32_of_id [wrap_simps]: "0 \<le> x \<Longrightarrow> x < 4294967296 \<Longrightarrow> u32_of x = x"
  by (simp add: u32_of_def)

lemma s32_of_id [wrap_simps]: "- 2147483648 \<le> x \<Longrightarrow> x < 2147483648 \<Longrightarrow> s32_of x = x"
  by (simp add: s32_of_def)

lemma u64_of_id [wrap_simps]: "0 \<le> x \<Longrightarrow> x < 18446744073709551616 \<Longrightarrow> u64_of x = x"
  by (simp add: u64_of_def)

lemma s64_of_id [wrap_simps]:
  "- 9223372036854775808 \<le> x \<Longrightarrow> x < 9223372036854775808 \<Longrightarrow> s64_of x = x"
  by (simp add: s64_of_def)

lemma u32_of_range [simp]: "0 \<le> u32_of x" "u32_of x < 4294967296"
  by (simp_all add: u32_of_def)

lemma u32_of_idem [simp]: "u32_of (u32_of x) = u32_of x"
  by (simp add: u32_of_def)

subsection \<open>Big-endian composition of words\<close>

definition cat16 :: "u8 \<Rightarrow> u8 \<Rightarrow> u16" where
  "cat16 a b = push_bit 8 (ucast a) OR ucast b"

definition hi8 :: "u16 \<Rightarrow> u8" where
  "hi8 w = ucast (drop_bit 8 w)"

definition lo8 :: "u16 \<Rightarrow> u8" where
  "lo8 w = ucast w"

definition cat32 :: "u16 \<Rightarrow> u16 \<Rightarrow> u32" where
  "cat32 a b = push_bit 16 (ucast a) OR ucast b"

definition hi16 :: "u32 \<Rightarrow> u16" where
  "hi16 w = ucast (drop_bit 16 w)"

definition lo16 :: "u32 \<Rightarrow> u16" where
  "lo16 w = ucast w"

lemma cat16_hi_lo [be_simps]: "cat16 (hi8 w) (lo8 w) = w"
  by (rule bit_word_eqI) (auto simp: cat16_def hi8_def lo8_def bit_simps)

lemma hi8_cat16 [be_simps]: "hi8 (cat16 a b) = a"
  by (rule bit_word_eqI) (auto simp: cat16_def hi8_def lo8_def bit_simps dest: bit_imp_le_length)

lemma lo8_cat16 [be_simps]: "lo8 (cat16 a b) = b"
  by (rule bit_word_eqI) (auto simp: cat16_def hi8_def lo8_def bit_simps)

lemma cat32_hi_lo [be_simps]: "cat32 (hi16 w) (lo16 w) = w"
  by (rule bit_word_eqI) (auto simp: cat32_def hi16_def lo16_def bit_simps)

lemma hi16_cat32 [be_simps]: "hi16 (cat32 a b) = a"
  by (rule bit_word_eqI) (auto simp: cat32_def hi16_def lo16_def bit_simps dest: bit_imp_le_length)

lemma lo16_cat32 [be_simps]: "lo16 (cat32 a b) = b"
  by (rule bit_word_eqI) (auto simp: cat32_def hi16_def lo16_def bit_simps)

definition cat64 :: "u32 \<Rightarrow> u32 \<Rightarrow> u64" where
  "cat64 a b = push_bit 32 (ucast a) OR ucast b"

definition hi32 :: "u64 \<Rightarrow> u32" where
  "hi32 w = ucast (drop_bit 32 w)"

definition lo32 :: "u64 \<Rightarrow> u32" where
  "lo32 w = ucast w"

lemma cat64_hi_lo [be_simps]: "cat64 (hi32 w) (lo32 w) = w"
  by (rule bit_word_eqI) (auto simp: cat64_def hi32_def lo32_def bit_simps)

lemma hi32_cat64 [be_simps]: "hi32 (cat64 a b) = a"
  by (rule bit_word_eqI) (auto simp: cat64_def hi32_def lo32_def bit_simps dest: bit_imp_le_length)

lemma lo32_cat64 [be_simps]: "lo32 (cat64 a b) = b"
  by (rule bit_word_eqI) (auto simp: cat64_def hi32_def lo32_def bit_simps)

text \<open>The bytes of a word in memory order.\<close>

definition be32 :: "u32 \<Rightarrow> bytes" where
  "be32 v = [hi8 (hi16 v), lo8 (hi16 v), hi8 (lo16 v), lo8 (lo16 v)]"

lemma length_be32 [simp]: "length (be32 v) = 4"
  by (simp add: be32_def)

subsection \<open>Byte buffers with checked access\<close>

definition rd8 :: "bytes \<Rightarrow> nat \<Rightarrow> u8 option" where
  "rd8 b i = (if i < length b then Some (b ! i) else None)"

definition rd16 :: "bytes \<Rightarrow> nat \<Rightarrow> u16 option" where
  "rd16 b i = (if i + 1 < length b then Some (cat16 (b ! i) (b ! (i + 1))) else None)"

definition rd32 :: "bytes \<Rightarrow> nat \<Rightarrow> u32 option" where
  "rd32 b i = (if i + 3 < length b
     then Some (cat32 (cat16 (b ! i) (b ! (i + 1))) (cat16 (b ! (i + 2)) (b ! (i + 3))))
     else None)"

definition rdn :: "bytes \<Rightarrow> nat \<Rightarrow> nat \<Rightarrow> bytes option" where
  "rdn b i n = (if i + n \<le> length b then Some (take n (drop i b)) else None)"

definition wrn :: "bytes \<Rightarrow> nat \<Rightarrow> bytes \<Rightarrow> bytes option" where
  "wrn b i xs = (if i + length xs \<le> length b
     then Some (take i b @ xs @ drop (i + length xs) b) else None)"

definition wr8 :: "bytes \<Rightarrow> nat \<Rightarrow> u8 \<Rightarrow> bytes option" where
  "wr8 b i v = wrn b i [v]"

definition wr16 :: "bytes \<Rightarrow> nat \<Rightarrow> u16 \<Rightarrow> bytes option" where
  "wr16 b i v = wrn b i [hi8 v, lo8 v]"

definition wr32 :: "bytes \<Rightarrow> nat \<Rightarrow> u32 \<Rightarrow> bytes option" where
  "wr32 b i v = wrn b i (be32 v)"

lemma wrn_Some_iff [buf_simps]:
  "wrn b i xs = Some b' \<longleftrightarrow>
     i + length xs \<le> length b \<and> b' = take i b @ xs @ drop (i + length xs) b"
  by (auto simp: wrn_def)

lemma wrn_length: "wrn b i xs = Some b' \<Longrightarrow> length b' = length b"
  by (auto simp: wrn_def split: if_splits)

lemma wrn_frame:
  "wrn b i xs = Some b' \<Longrightarrow> j < i \<or> i + length xs \<le> j \<Longrightarrow> b' ! j = b ! j"
  by (auto simp: wrn_def nth_append split: if_splits)

lemma wrn_at: "wrn b i xs = Some b' \<Longrightarrow> j < length xs \<Longrightarrow> b' ! (i + j) = xs ! j"
  by (auto simp: wrn_def nth_append split: if_splits)

lemma rdn_wrn: "wrn b i xs = Some b' \<Longrightarrow> rdn b' i (length xs) = Some xs"
  by (auto simp: wrn_def rdn_def split: if_splits)

lemma rd16_wr16: "wr16 b i v = Some b' \<Longrightarrow> rd16 b' i = Some v"
  by (auto simp: wr16_def rd16_def wrn_def nth_append be_simps split: if_splits)

lemma rd32_wr32: "wr32 b i v = Some b' \<Longrightarrow> rd32 b' i = Some v"
  by (auto simp: wr32_def be32_def rd32_def wrn_def nth_append be_simps numeral_eq_Suc split: if_splits)

lemma rdn_length: "rdn b i n = Some xs \<Longrightarrow> length xs = n"
  by (auto simp: rdn_def split: if_splits)

text \<open>Counting up in a word: a loop index below its limit does not wrap, so the distance to the limit is
  a termination measure.\<close>

lemma unat_inc [wrap_simps]: "(j :: 'a :: len word) < lim \<Longrightarrow> unat (j + 1) = Suc (unat j)"
proof -
  assume "j < lim"
  then have "Suc (unat j) < 2 ^ LENGTH('a)"
    by (metis Suc_leI le_less_trans unsigned_less word_less_nat_alt)
  then show ?thesis by (simp add: unat_word_ariths)
qed

lemma count_up_measure: "(j :: 'a :: len word) < lim \<Longrightarrow> unat lim - unat (j + 1) < unat lim - unat j"
  by (simp add: unat_inc word_less_nat_alt diff_less_mono2)

end
