(* ===== verification/Libc_String.thy ===== *)
theory Libc_String
  imports Prelude
begin

section \<open>The C library: \<open>ctype.h\<close> and \<open>string.h\<close>\<close>

text \<open>
  \<open>src/lib/libc/ctype\<close> and \<open>src/lib/libc/string\<close>. A pointer argument is the byte list
  from the pointer to the end of its object; \<open>None\<close> is an access behind the end of an object.
  The lemmas show that every routine stays inside its objects exactly where it should, and give
  its result in terms of the NUL-terminated string \<open>cstr s\<close> that a pointer denotes.
\<close>

subsection \<open>Character classes\<close>

definition isdigit :: "int \<Rightarrow> int" where
  "isdigit ch = (if ch \<in> {48, 49, 50, 51, 52, 53, 54, 55, 56, 57} then 1 else 0)"

definition isprint :: "int \<Rightarrow> int" where
  "isprint ch = (if ch \<ge> 32 \<and> ch < 127 then 1 else 0)"

definition isspace :: "int \<Rightarrow> int" where
  "isspace ch = (if ch \<in> {32, 12, 10, 13, 9, 11} then 1 else 0)"

definition isxdigit :: "int \<Rightarrow> int" where
  "isxdigit ch =
     (if (ch \<ge> 48 \<and> ch \<le> 57) \<or> (ch \<ge> 65 \<and> ch \<le> 70) \<or> (ch \<ge> 97 \<and> ch \<le> 102) then 1 else 0)"

definition tolower :: "int \<Rightarrow> int" where
  "tolower c = (if c \<ge> 65 \<and> c \<le> 90 then c - 65 + 97 else c)"

definition toupper :: "int \<Rightarrow> int" where
  "toupper cha = (if cha \<ge> 97 \<and> cha \<le> 122 then cha - 97 + 65 else cha)"

lemma toupper_tolower: "toupper (tolower c) = toupper c"
  by (simp add: toupper_def tolower_def)

lemma toupper_0_iff [simp]: "toupper (uint (a :: u8)) = 0 \<longleftrightarrow> a = 0"
proof -
  have "uint a = 0 \<longleftrightarrow> a = 0" by (simp add: uint_0_iff)
  then show ?thesis by (auto simp: toupper_def)
qed

subsection \<open>Memory blocks\<close>

fun memchr :: "bytes \<Rightarrow> int \<Rightarrow> nat \<Rightarrow> nat option option" where
  "memchr p c 0 = Some None"
| "memchr [] c (Suc n) = None"
| "memchr (x # p) c (Suc n) =
     (if x = word_of_int c then Some (Some 0) else map_option (map_option Suc) (memchr p c n))"

fun memcmp :: "bytes \<Rightarrow> bytes \<Rightarrow> nat \<Rightarrow> int option" where
  "memcmp p1 p2 0 = Some 0"
| "memcmp (a # p1) (b # p2) (Suc n) =
     (if a \<noteq> b then Some (uint a - uint b) else memcmp p1 p2 n)"
| "memcmp _ _ (Suc n) = None"

fun memcpy :: "bytes \<Rightarrow> bytes \<Rightarrow> nat \<Rightarrow> bytes option" where
  "memcpy cdest csrc 0 = Some cdest"
| "memcpy (d # cdest) (s # csrc) (Suc n) = map_option (Cons s) (memcpy cdest csrc n)"
| "memcpy _ _ (Suc n) = None"

fun memset :: "bytes \<Rightarrow> int \<Rightarrow> nat \<Rightarrow> bytes option" where
  "memset d c 0 = Some d"
| "memset (x # d) c (Suc n) = map_option (Cons (word_of_int c)) (memset d c n)"
| "memset [] c (Suc n) = None"

text \<open>
  \<open>memmove\<close> may copy inside one object: \<open>m\<close> is that object, \<open>dest\<close> and \<open>src\<close> are
  offsets into it. The descending loop visits \<open>dest + n - 1\<close> first.
\<close>

fun copy_down :: "bytes \<Rightarrow> nat \<Rightarrow> nat \<Rightarrow> nat \<Rightarrow> bytes option" where
  "copy_down m dest src 0 = Some m"
| "copy_down m dest src (Suc n) =
     do { v \<leftarrow> rd8 m (src + n); m' \<leftarrow> wr8 m (dest + n) v; copy_down m' dest src n }"

fun copy_up :: "bytes \<Rightarrow> nat \<Rightarrow> nat \<Rightarrow> nat \<Rightarrow> bytes option" where
  "copy_up m dest src 0 = Some m"
| "copy_up m dest src (Suc n) =
     do { v \<leftarrow> rd8 m src; m' \<leftarrow> wr8 m dest v; copy_up m' (Suc dest) (Suc src) n }"

definition memmove :: "bytes \<Rightarrow> nat \<Rightarrow> nat \<Rightarrow> nat \<Rightarrow> bytes option" where
  "memmove m dest src n =
     (if src < dest \<and> src + n \<ge> dest then copy_down m dest src n else copy_up m dest src n)"

subsection \<open>Strings\<close>

fun strlen_loop :: "bytes \<Rightarrow> u32 \<Rightarrow> u32 option" where
  "strlen_loop [] len = None"
| "strlen_loop (c # s) len = (if c \<noteq> 0 then strlen_loop s (len + 1) else Some len)"

text \<open>The counter is an \<open>int\<close>, converted to \<open>size_t\<close> on return.\<close>

definition strlen :: "bytes \<Rightarrow> u64 option" where
  "strlen s = map_option scast (strlen_loop s 0)"

fun strcmp :: "bytes \<Rightarrow> bytes \<Rightarrow> int option" where
  "strcmp (a # s1) (b # s2) =
     (if a \<noteq> 0 \<and> b \<noteq> 0 \<and> a = b then strcmp s1 s2 else Some (uint a - uint b))"
| "strcmp _ _ = None"

fun strncmp_loop :: "bytes \<Rightarrow> bytes \<Rightarrow> nat \<Rightarrow> int option" where
  "strncmp_loop (a # s1) (b # s2) n =
     (if a \<noteq> 0 \<and> b \<noteq> 0 \<and> n - 1 > 0 \<and> a = b then strncmp_loop s1 s2 (n - 1)
      else Some (uint a - uint b))"
| "strncmp_loop _ _ n = None"

definition strncmp :: "bytes \<Rightarrow> bytes \<Rightarrow> nat \<Rightarrow> int option" where
  "strncmp s1 s2 n = (if n < 1 then Some 0 else strncmp_loop s1 s2 n)"

fun strcasecmp :: "bytes \<Rightarrow> bytes \<Rightarrow> int option" where
  "strcasecmp (a # s1) (b # s2) =
     (if a \<noteq> 0 \<and> b \<noteq> 0 \<and> toupper (uint a) = toupper (uint b) then strcasecmp s1 s2
      else Some (uint a - uint b))"
| "strcasecmp _ _ = None"

fun strncasecmp_loop :: "bytes \<Rightarrow> bytes \<Rightarrow> nat \<Rightarrow> int option" where
  "strncasecmp_loop (a # s1) (b # s2) n =
     (if a \<noteq> 0 \<and> b \<noteq> 0 \<and> n - 1 > 0 \<and> toupper (uint a) = toupper (uint b)
      then strncasecmp_loop s1 s2 (n - 1)
      else Some (toupper (uint a) - toupper (uint b)))"
| "strncasecmp_loop _ _ n = None"

definition strncasecmp :: "bytes \<Rightarrow> bytes \<Rightarrow> nat \<Rightarrow> int option" where
  "strncasecmp s1 s2 n = (if n < 1 then Some 0 else strncasecmp_loop s1 s2 n)"

text \<open>\<open>strchr\<close> and \<open>strrchr\<close> return the offset of the byte found, if any.\<close>

fun strchr :: "bytes \<Rightarrow> int \<Rightarrow> nat option option" where
  "strchr [] c = None"
| "strchr (x # s) c =
     (if x \<noteq> 0 then (if x = word_of_int c then Some (Some 0) else map_option (map_option Suc) (strchr s c))
      else Some None)"

fun strrchr_loop :: "bytes \<Rightarrow> u8 \<Rightarrow> nat \<Rightarrow> nat option option" where
  "strrchr_loop s cb 0 = Some None"
| "strrchr_loop s cb (Suc k) =
     do { x \<leftarrow> rd8 s k; if x = cb then Some (Some k) else strrchr_loop s cb k }"

definition strrchr :: "bytes \<Rightarrow> int \<Rightarrow> nat option option" where
  "strrchr s c = do { l \<leftarrow> strlen s; strrchr_loop s (word_of_int c) (unat l) }"

fun strcpy :: "bytes \<Rightarrow> bytes \<Rightarrow> bytes option" where
  "strcpy (d # dst) (c # src) = (if c \<noteq> 0 then map_option (Cons c) (strcpy dst src) else Some (c # dst))"
| "strcpy _ _ = None"

definition strcat :: "bytes \<Rightarrow> bytes \<Rightarrow> bytes option" where
  "strcat dst src =
     do { p \<leftarrow> strlen dst;
          r \<leftarrow> strcpy (drop (unat p) dst) src;
          Some (take (unat p) dst @ r) }"

fun strncpy :: "bytes \<Rightarrow> bytes \<Rightarrow> nat \<Rightarrow> bytes option" where
  "strncpy dst [] n = None"
| "strncpy dst (c # src) 0 = Some dst"
| "strncpy [] (c # src) (Suc n) = None"
| "strncpy (d # dst) (c # src) (Suc n) =
     (if c \<noteq> 0 then map_option (Cons c) (strncpy dst src n) else memset (d # dst) 0 (Suc n))"

fun strstr_loop :: "bytes \<Rightarrow> bytes \<Rightarrow> nat \<Rightarrow> nat \<Rightarrow> nat option option" where
  "strstr_loop hay needle nlen 0 = Some None"
| "strstr_loop hay needle nlen (Suc k) =
     do { r \<leftarrow> strncmp hay needle nlen;
          if r = 0 then Some (Some 0)
          else map_option (map_option Suc) (strstr_loop (tl hay) needle nlen k) }"

text \<open>The two \<open>NULL\<close> checks come first; \<open>None\<close> inside is the \<open>NULL\<close> result.\<close>

definition strstr :: "bytes option \<Rightarrow> bytes option \<Rightarrow> nat option option" where
  "strstr hay needle =
     (case (hay, needle) of
        (Some h, Some nd) \<Rightarrow>
          do { hlen \<leftarrow> strlen h;
               nlen \<leftarrow> strlen nd;
               if unat nlen < 1 then Some (Some 0)
               else strstr_loop h nd (unat nlen) (unat hlen) }
      | _ \<Rightarrow> Some None)"

text \<open>
  \<open>strtok\<close> works in place on one object \<open>m\<close>; the static pointer \<open>nxtTok\<close> is an offset
  into it, \<open>None\<close> before the first call. \<open>in_pattern\<close> is the inner search loop over
  \<open>pattern\<close>: whether \<open>*pp\<close> is non-zero when it ends.
\<close>

fun in_pattern :: "bytes \<Rightarrow> u8 \<Rightarrow> bool option" where
  "in_pattern [] x = None"
| "in_pattern (p # pattern) x =
     (if p = 0 then Some False else if p = x then Some True else in_pattern pattern x)"

function strtok_loop ::
    "bytes \<Rightarrow> bytes \<Rightarrow> nat \<Rightarrow> nat option \<Rightarrow> (bytes \<times> nat option \<times> nat) option" where
  "strtok_loop m pattern src retVal =
     (if src < length m then
        if m ! src \<noteq> 0 then
          (case in_pattern pattern (m ! src) of
             None \<Rightarrow> None
           | Some sep \<Rightarrow>
               if \<not> sep then
                 (case retVal of
                    None \<Rightarrow> strtok_loop m pattern (Suc src) (Some src)
                  | Some r \<Rightarrow> if m ! (src - 1) = 0 then Some (m, Some r, src)
                             else strtok_loop m pattern (Suc src) (Some r))
               else strtok_loop (m[src := 0]) pattern (Suc src) retVal)
        else Some (m, retVal, src)
      else None)"
  by pat_completeness auto
termination
  by (relation "measure (\<lambda>(m, p, src, r). length m - src)") auto

declare strtok_loop.simps [simp del]

definition strtok ::
    "bytes \<Rightarrow> nat option \<Rightarrow> nat option \<Rightarrow> bytes \<Rightarrow> (bytes \<times> nat option \<times> nat option) option" where
  "strtok m nxtTok src pattern =
     do { start \<leftarrow> (case src of None \<Rightarrow> nxtTok | Some p \<Rightarrow> Some p);
          (m', retVal, nxt) \<leftarrow> strtok_loop m pattern start None;
          Some (m', retVal, Some nxt) }"

subsection \<open>The string a pointer denotes\<close>

definition cstr :: "bytes \<Rightarrow> bytes" where
  "cstr s = takeWhile (\<lambda>c. c \<noteq> 0) s"

abbreviation terminated :: "bytes \<Rightarrow> bool" where
  "terminated s \<equiv> 0 \<in> set s"

lemma cstr_simps [simp]:
  "cstr [] = []"
  "cstr (c # s) = (if c \<noteq> 0 then c # cstr s else [])"
  by (simp_all add: cstr_def)

lemma cstr_nonzero: "0 \<notin> set (cstr s)"
  by (auto simp: cstr_def dest: set_takeWhileD)

lemma cstr_append: "0 \<notin> set x \<Longrightarrow> cstr (x @ 0 # y) = x"
  by (induction x) auto

lemma terminated_split: "terminated s \<Longrightarrow> \<exists>rest. s = cstr s @ 0 # rest"
  by (induction s) auto

lemma length_cstr: "terminated s \<Longrightarrow> length (cstr s) < length s"
  by (induction s) auto

lemma cstr_length_le: "length (cstr s) \<le> length s"
  by (simp add: cstr_def length_takeWhile_le)

lemma nth_cstr: "i < length (cstr s) \<Longrightarrow> cstr s ! i = s ! i"
  by (simp add: cstr_def takeWhile_nth)

subsection \<open>Memory blocks: what they compute\<close>

lemma uint_u8_inj [simp]: "uint (a :: u8) = uint b \<longleftrightarrow> a = b"
  by (simp add: word_uint_eq_iff)

lemma uint_u8_0 [simp]: "uint (a :: u8) = 0 \<longleftrightarrow> a = 0"
  by (simp add: uint_0_iff)

lemma uint_u8_0_rev [simp]: "0 = uint (a :: u8) \<longleftrightarrow> a = 0"
  by (metis uint_u8_0)

lemma memcpy_eq_wrn:
  "memcpy d s n = (if n \<le> length s then wrn d 0 (take n s) else None)"
  by (induction d s n rule: memcpy.induct) (auto simp: wrn_def)

lemma memset_eq_wrn: "memset d c n = wrn d 0 (replicate n (word_of_int c))"
  by (induction d c n rule: memset.induct) (auto simp: wrn_def)

lemma memcmp_0_iff:
  "n \<le> length p \<Longrightarrow> n \<le> length q \<Longrightarrow> memcmp p q n = Some 0 \<longleftrightarrow> take n p = take n q"
  by (induction p q n rule: memcmp.induct) auto

lemma memcmp_Some: "n \<le> length p \<Longrightarrow> n \<le> length q \<Longrightarrow> \<exists>r. memcmp p q n = Some r"
  by (induction p q n rule: memcmp.induct) auto

lemma memchr_Some_iff:
  "memchr p c n = Some (Some i) \<longleftrightarrow>
     i < n \<and> i < length p \<and> p ! i = word_of_int c \<and> (\<forall>j<i. p ! j \<noteq> word_of_int c)"
proof (induction p c n arbitrary: i rule: memchr.induct)
  case (3 x p c n)
  then show ?case by (cases i) (auto simp: All_less_Suc2)
qed auto

lemma rd8_Some [buf_simps]: "rd8 m i = Some v \<longleftrightarrow> i < length m \<and> v = m ! i"
  by (auto simp: rd8_def)

lemma wr8_eq [buf_simps]: "i < length m \<Longrightarrow> wr8 m i v = Some (m[i := v])"
  by (simp add: wr8_def wrn_def upd_conv_take_nth_drop)

lemma wr8_Some_iff: "wr8 m i v = Some m' \<longleftrightarrow> i < length m \<and> m' = m[i := v]"
  by (auto simp: wr8_def wrn_def upd_conv_take_nth_drop)

text \<open>Each loop of \<open>memmove\<close> copies the old contents where the overlap is harmless for it.\<close>

lemma copy_down_spec:
  assumes "src + n \<le> length m" "dest + n \<le> length m" "src < dest \<or> dest + n \<le> src"
  shows "\<exists>m'. copy_down m dest src n = Some m' \<and> length m' = length m \<and>
    (\<forall>k<length m. m' ! k = (if dest \<le> k \<and> k < dest + n then m ! (src + (k - dest)) else m ! k))"
  using assms
proof (induction n arbitrary: m)
  case 0
  then show ?case by auto
next
  case (Suc n)
  let ?m = "m[dest + n := m ! (src + n)]"
  have "copy_down m dest src (Suc n) = copy_down ?m dest src n"
    using Suc.prems by (simp add: rd8_def wr8_eq)
  moreover obtain m' where m': "copy_down ?m dest src n = Some m'" "length m' = length m"
    "\<forall>k<length m. m' ! k = (if dest \<le> k \<and> k < dest + n then ?m ! (src + (k - dest)) else ?m ! k)"
    using Suc.IH [of ?m] Suc.prems by auto
  moreover have "m' ! k = (if dest \<le> k \<and> k < dest + Suc n then m ! (src + (k - dest)) else m ! k)"
    if "k < length m" for k
  proof (cases "k = dest + n")
    case True
    with that m'(3) Suc.prems show ?thesis by simp
  next
    case False
    with that m'(3) Suc.prems show ?thesis by (auto simp: nth_list_update)
  qed
  ultimately show ?case by metis
qed

lemma copy_up_spec:
  assumes "src + n \<le> length m" "dest + n \<le> length m" "dest \<le> src \<or> src + n \<le> dest"
  shows "\<exists>m'. copy_up m dest src n = Some m' \<and> length m' = length m \<and>
    (\<forall>k<length m. m' ! k = (if dest \<le> k \<and> k < dest + n then m ! (src + (k - dest)) else m ! k))"
  using assms
proof (induction n arbitrary: m dest src)
  case 0
  then show ?case by auto
next
  case (Suc n)
  let ?m = "m[dest := m ! src]"
  have "copy_up m dest src (Suc n) = copy_up ?m (Suc dest) (Suc src) n"
    using Suc.prems by (simp add: rd8_def wr8_eq)
  moreover obtain m' where m': "copy_up ?m (Suc dest) (Suc src) n = Some m'" "length m' = length m"
    "\<forall>k<length m. m' ! k = (if Suc dest \<le> k \<and> k < Suc dest + n
       then ?m ! (Suc src + (k - Suc dest)) else ?m ! k)"
    using Suc.IH [of "Suc src" ?m "Suc dest"] Suc.prems by auto
  moreover have "m' ! k = (if dest \<le> k \<and> k < dest + Suc n then m ! (src + (k - dest)) else m ! k)"
    if "k < length m" for k
  proof (cases "k = dest")
    case True
    with that m'(3) show ?thesis by simp
  next
    case False
    have "Suc src + (k - Suc dest) = src + (k - dest)" if "Suc dest \<le> k"
      using that by simp
    with False that m'(3) Suc.prems show ?thesis by (auto simp: nth_list_update)
  qed
  ultimately show ?case by metis
qed

subsection \<open>Strings: what they compute\<close>

lemma strlen_loop_eq:
  "strlen_loop s len = (if terminated s then Some (len + of_nat (length (cstr s))) else None)"
  by (induction s len rule: strlen_loop.induct) (auto simp: algebra_simps)

lemma scast_of_nat_u32:
  assumes "n < 2147483648"
  shows "(scast (of_nat n :: u32) :: u64) = of_nat n"
proof -
  have "sint (of_nat n :: u32) = int n"
    using assms by (simp add: signed_of_nat signed_take_bit_int_eq_self)
  then show ?thesis by (simp add: scast_eq)
qed

lemma strlen_None: "strlen s = None \<longleftrightarrow> \<not> terminated s"
  by (simp add: strlen_def strlen_loop_eq)

lemma strlen_short:
  assumes "terminated s" and "length (cstr s) < 2147483648"
  shows "strlen s = Some (of_nat (length (cstr s)))"
    and "unat (of_nat (length (cstr s)) :: u64) = length (cstr s)"
proof -
  show "strlen s = Some (of_nat (length (cstr s)))"
    using assms by (simp add: strlen_def strlen_loop_eq scast_of_nat_u32)
  show "unat (of_nat (length (cstr s)) :: u64) = length (cstr s)"
    using assms by (simp add: unat_of_nat take_bit_nat_eq_self)
qed

lemma strcmp_Some:
  "terminated s \<Longrightarrow> terminated t \<Longrightarrow> \<exists>r. strcmp s t = Some r"
  by (induction s t rule: strcmp.induct) auto

lemma strcmp_0_iff:
  "terminated s \<Longrightarrow> terminated t \<Longrightarrow> strcmp s t = Some 0 \<longleftrightarrow> cstr s = cstr t"
  by (induction s t rule: strcmp.induct) auto

lemma strcmp_neg_iff:
  "terminated s \<Longrightarrow> terminated t \<Longrightarrow> strcmp s t = Some r \<Longrightarrow>
     r < 0 \<longleftrightarrow> ord_class.lexordp (cstr s) (cstr t)"
proof (induction s t rule: strcmp.induct)
  case (1 a s1 b s2)
  have "0 < uint x" if "x \<noteq> 0" for x :: u8
    using that by (metis uint_u8_0 uint_ge_0 order_le_imp_less_or_eq)
  with 1 show ?case
    by (auto simp: word_less_def split: if_splits) (metis linorder_cases uint_u8_inj)
qed auto

text \<open>Within the first \<open>n\<close> bytes: comparison of the truncated strings.\<close>

definition prefix_ok :: "nat \<Rightarrow> bytes \<Rightarrow> bool" where
  "prefix_ok n s \<longleftrightarrow> terminated s \<or> n \<le> length s"

lemma strncmp_loop_Some:
  "prefix_ok n s \<Longrightarrow> prefix_ok n t \<Longrightarrow> 0 < n \<Longrightarrow> \<exists>r. strncmp_loop s t n = Some r"
proof (induction s t n rule: strncmp_loop.induct)
  case (1 a s1 b s2 n)
  have "prefix_ok (n - 1) s1" "prefix_ok (n - 1) s2" if "a \<noteq> 0" "b \<noteq> 0"
    using 1 that by (auto simp: prefix_ok_def)
  with 1 show ?case by auto
qed (auto simp: prefix_ok_def)

lemma strncmp_loop_0_iff:
  "prefix_ok n s \<Longrightarrow> prefix_ok n t \<Longrightarrow> 0 < n \<Longrightarrow>
     strncmp_loop s t n = Some 0 \<longleftrightarrow> take n (cstr s) = take n (cstr t)"
proof (induction s t n rule: strncmp_loop.induct)
  case (1 a s1 b s2 n)
  then obtain k where n: "n = Suc k" by (cases n) auto
  show ?case
    using 1 n by (cases k) (auto simp: prefix_ok_def)
qed (auto simp: prefix_ok_def)

lemma strncmp_Some: "prefix_ok n s \<Longrightarrow> prefix_ok n t \<Longrightarrow> \<exists>r. strncmp s t n = Some r"
  by (simp add: strncmp_def strncmp_loop_Some)

lemma strncmp_0_iff:
  "prefix_ok n s \<Longrightarrow> prefix_ok n t \<Longrightarrow>
     strncmp s t n = Some 0 \<longleftrightarrow> take n (cstr s) = take n (cstr t)"
  by (simp add: strncmp_def strncmp_loop_0_iff)

text \<open>The copying routines write the string and its terminator, or run over an object's end.\<close>

lemma strcpy_eq_wrn:
  "strcpy dst src = (if terminated src then wrn dst 0 (cstr src @ [0]) else None)"
  by (induction dst src rule: strcpy.induct) (auto simp: wrn_def)

lemma strncpy_eq_wrn:
  "strncpy dst src n =
     (if terminated src \<or> n < length src
      then wrn dst 0 (take n (cstr src) @ replicate (n - length (cstr src)) 0) else None)"
  by (induction dst src n rule: strncpy.induct) (auto simp: wrn_def memset_eq_wrn)

lemma strcat_result:
  assumes "terminated dst" and "terminated src" and "length (cstr dst) < 2147483648"
    and "length (cstr dst) + length (cstr src) < length dst"
  shows "\<exists>r. strcat dst src = Some r \<and> length r = length dst \<and> terminated r \<and>
    cstr r = cstr dst @ cstr src"
proof -
  let ?n = "length (cstr dst)" and ?s = "cstr src @ [0]"
  obtain rest where dst: "dst = cstr dst @ 0 # rest"
    using terminated_split assms(1) by blast
  have tk: "take ?n dst = cstr dst"
    by (subst dst) simp
  have "strcat dst src = Some (cstr dst @ ?s @ drop (length ?s) (drop ?n dst))"
    using assms by (simp add: strcat_def strlen_short strcpy_eq_wrn wrn_def tk)
  moreover have "cstr (cstr dst @ ?s @ drop (length ?s) (drop ?n dst)) = cstr dst @ cstr src"
    using cstr_append [of "cstr dst @ cstr src"] cstr_nonzero by simp
  ultimately show ?thesis
    using assms(4) by simp
qed

lemma cstr_drop: "i \<le> length (cstr s) \<Longrightarrow> cstr (drop i s) = drop i (cstr s)"
  by (induction s arbitrary: i) (auto simp: drop_Cons split: nat.splits)

lemma terminated_drop: "terminated s \<Longrightarrow> i \<le> length (cstr s) \<Longrightarrow> terminated (drop i s)"
  by (induction s arbitrary: i) (auto simp: drop_Cons split: nat.splits if_splits)

lemma strstr_loop_spec:
  assumes "terminated hay" "terminated needle" "nlen = length (cstr needle)" "k \<le> length (cstr hay)"
  shows "\<exists>r. strstr_loop hay needle nlen k = Some r \<and>
    (case r of None \<Rightarrow> \<forall>i<k. take nlen (drop i (cstr hay)) \<noteq> cstr needle
     | Some i \<Rightarrow> i < k \<and> take nlen (drop i (cstr hay)) = cstr needle \<and>
         (\<forall>j<i. take nlen (drop j (cstr hay)) \<noteq> cstr needle))"
  using assms
proof (induction k arbitrary: hay)
  case 0
  then show ?case by simp
next
  case (Suc k)
  then obtain c rest where hay: "hay = c # rest" and c: "c \<noteq> 0"
    by (cases hay) (auto split: if_splits)
  have pk: "prefix_ok nlen hay" "prefix_ok nlen needle"
    using Suc.prems by (simp_all add: prefix_ok_def)
  obtain x where x: "strncmp hay needle nlen = Some x"
    using strncmp_Some [OF pk] by blast
  have x0: "x = 0 \<longleftrightarrow> take nlen (cstr hay) = cstr needle"
    using strncmp_0_iff [OF pk] x Suc.prems(3) by simp
  obtain r where r: "strstr_loop rest needle nlen k = Some r"
    and spec: "case r of None \<Rightarrow> \<forall>i<k. take nlen (drop i (cstr rest)) \<noteq> cstr needle
     | Some i \<Rightarrow> i < k \<and> take nlen (drop i (cstr rest)) = cstr needle \<and>
         (\<forall>j<i. take nlen (drop j (cstr rest)) \<noteq> cstr needle)"
    using Suc.IH [of rest] Suc.prems hay c by (auto split: if_splits)
  show ?case
    using x x0 r spec hay c by (cases r) (auto simp: All_less_Suc2)
qed

subsection \<open>Tokens\<close>

lemma in_pattern_eq:
  "terminated p \<Longrightarrow> x \<noteq> 0 \<Longrightarrow> in_pattern p x = Some (x \<in> set (cstr p))"
  by (induction p x rule: in_pattern.induct) auto

lemma strtok_separators:
  assumes "terminated p" and "set seps \<subseteq> set (cstr p)"
  shows "strtok_loop (pre @ seps @ rest) p (length pre) rv =
    strtok_loop (pre @ replicate (length seps) 0 @ rest) p (length pre + length seps) rv"
  using assms(2)
proof (induction seps arbitrary: pre)
  case Nil
  then show ?case by simp
next
  case (Cons c seps)
  have c: "c \<noteq> 0" "c \<in> set (cstr p)"
    using Cons.prems cstr_nonzero [of p] by auto
  have "strtok_loop (pre @ (c # seps) @ rest) p (length pre) rv =
      strtok_loop ((pre @ [0]) @ seps @ rest) p (length (pre @ [0])) rv"
    using c assms(1)
    by (subst strtok_loop.simps) (simp add: nth_append in_pattern_eq list_update_append)
  also have "\<dots> = strtok_loop ((pre @ [0]) @ replicate (length seps) 0 @ rest) p
      (length (pre @ [0]) + length seps) rv"
    using Cons by (intro Cons.IH) simp
  finally show ?case by (simp add: replicate_append_same)
qed

lemma strtok_token:
  assumes "terminated p" and "set tok \<inter> set (cstr p) = {}" and "0 \<notin> set tok"
    and "pre \<noteq> []" and "last pre \<noteq> 0"
  shows "strtok_loop (pre @ tok @ rest) p (length pre) (Some r) =
    strtok_loop (pre @ tok @ rest) p (length pre + length tok) (Some r)"
  using assms(2-)
proof (induction tok arbitrary: pre)
  case Nil
  then show ?case by simp
next
  case (Cons c tok)
  have "pre ! (length pre - 1) \<noteq> 0"
    using Cons.prems by (simp add: last_conv_nth)
  moreover have "c \<noteq> 0" "c \<notin> set (cstr p)" "length pre - Suc 0 < length pre"
    using Cons.prems by auto
  ultimately have "strtok_loop (pre @ (c # tok) @ rest) p (length pre) (Some r) =
      strtok_loop ((pre @ [c]) @ tok @ rest) p (length (pre @ [c])) (Some r)"
    using assms(1) by (subst strtok_loop.simps) (simp add: nth_append in_pattern_eq)
  also have "\<dots> = strtok_loop ((pre @ [c]) @ tok @ rest) p (length (pre @ [c]) + length tok) (Some r)"
    using Cons by (intro Cons.IH) auto
  finally show ?case by simp
qed

lemma memmove_splice:
  assumes "src + n \<le> length m" and "dest + n \<le> length m"
  shows "memmove m dest src n = Some (take dest m @ take n (drop src m) @ drop (dest + n) m)"
proof -
  obtain m' where m': "memmove m dest src n = Some m'" "length m' = length m"
    "\<forall>k<length m. m' ! k = (if dest \<le> k \<and> k < dest + n then m ! (src + (k - dest)) else m ! k)"
    using copy_down_spec [OF assms] copy_up_spec [OF assms]
    by (cases "src < dest \<and> src + n \<ge> dest") (auto simp: memmove_def)
  have "m' = take dest m @ take n (drop src m) @ drop (dest + n) m"
  proof (rule nth_equalityI)
    show "length m' = length (take dest m @ take n (drop src m) @ drop (dest + n) m)"
      using assms m'(2) by simp
  next
    fix k
    assume "k < length m'"
    moreover have "min (length m - src) n = n" "min (length m) dest = dest"
      using assms by simp_all
    ultimately show "m' ! k = (take dest m @ take n (drop src m) @ drop (dest + n) m) ! k"
      using m' assms by (auto simp: nth_append add.commute)
  qed
  with m'(1) show ?thesis by simp
qed

subsection \<open>Properties\<close>

text \<open>C7: \<open>memmove\<close> is correct for every overlap: if both ranges lie inside the object, the result
  is the object with the \<open>n\<close> bytes at \<open>dest\<close> replaced by the bytes that were at \<open>src\<close>
  before the call, and nothing else changed.\<close>

theorem memmove_exact:
  assumes "src + n \<le> length m" and "dest + n \<le> length m"
  shows "memmove m dest src n = Some (take dest m @ take n (drop src m) @ drop (dest + n) m)"
  using assms by (rule memmove_splice)

theorem memmove_exact_witness:
  "memmove [1, 2, 3, 4, 5] 1 0 3 = Some [1, 1, 2, 3, 5]"
  using memmove_exact [of 0 3 "[1, 2, 3, 4, 5]" 1] by simp

text \<open>On terminated strings \<open>strcmp\<close> stays inside both objects and returns; the result is
  zero exactly for equal strings and negative exactly when the first string is smaller in the
  lexicographic order of unsigned bytes.\<close>

theorem strcmp_order:
  assumes "terminated s" and "terminated t"
  shows "\<exists>r. strcmp s t = Some r \<and> (r = 0 \<longleftrightarrow> cstr s = cstr t) \<and>
    (r < 0 \<longleftrightarrow> ord_class.lexordp (cstr s) (cstr t))"
proof -
  obtain r where r: "strcmp s t = Some r"
    using strcmp_Some [OF assms] by blast
  with strcmp_0_iff [OF assms] strcmp_neg_iff [OF assms r] show ?thesis by auto
qed

theorem strcmp_order_witness:
  "\<exists>r. strcmp [97, 98, 0] [97, 99, 0, 7] = Some r \<and> (r < 0 \<longleftrightarrow> ord_class.lexordp [97, 98 :: u8] [97, 99])"
  using strcmp_order [of "[97, 98, 0]" "[97, 99, 0, 7]"] by auto

text \<open>The needle occurs at offset \<open>i\<close> of the haystack.\<close>

definition occurs_at :: "bytes \<Rightarrow> bytes \<Rightarrow> nat \<Rightarrow> bool" where
  "occurs_at h nd i \<longleftrightarrow> take (length (cstr nd)) (drop i (cstr h)) = cstr nd"

text \<open>C8: \<open>strstr\<close> finds the first occurrence: on terminated strings shorter than 2 GiB it stays
  inside both objects, and returns the least offset at which the needle occurs in the haystack,
  or \<open>NULL\<close> when there is none.\<close>

theorem strstr_first:
  assumes "terminated h" and "terminated nd"
    and "length (cstr h) < 2147483648" and "length (cstr nd) < 2147483648"
  shows "\<exists>r. strstr (Some h) (Some nd) = Some r \<and>
    (case r of None \<Rightarrow> \<forall>i. \<not> occurs_at h nd i
     | Some i \<Rightarrow> i \<le> length (cstr h) \<and> occurs_at h nd i \<and> (\<forall>j<i. \<not> occurs_at h nd j))"
proof (cases "cstr nd = []")
  case True
  then show ?thesis
    using assms by (auto simp: strstr_def strlen_short occurs_at_def)
next
  case False
  have past: "\<not> occurs_at h nd i" if "length (cstr h) \<le> i" for i
    using False that by (auto simp: occurs_at_def)
  obtain r where r: "strstr_loop h nd (length (cstr nd)) (length (cstr h)) = Some r"
    and spec: "case r of None \<Rightarrow> \<forall>i<length (cstr h). \<not> occurs_at h nd i
     | Some i \<Rightarrow> i < length (cstr h) \<and> occurs_at h nd i \<and> (\<forall>j<i. \<not> occurs_at h nd j)"
    using strstr_loop_spec [OF assms(1,2) refl order_refl] unfolding occurs_at_def by blast
  have "\<not> length (cstr nd) < 1"
    using False by (cases "cstr nd") auto
  then have "strstr (Some h) (Some nd) = Some r"
    using r assms strlen_short(2) [of nd] strlen_short(2) [of h] by (simp add: strstr_def strlen_short(1))
  moreover have "\<forall>i. \<not> occurs_at h nd i" if "r = None"
    using spec that past linorder_not_less by auto
  ultimately show ?thesis
    using spec by (auto split: option.splits)
qed

theorem strstr_first_witness:
  "\<exists>r. strstr (Some [1, 2, 1, 2, 3, 0]) (Some [1, 2, 3, 0]) = Some r \<and>
    (case r of None \<Rightarrow> \<forall>i. \<not> occurs_at [1, 2, 1, 2, 3, 0] [1, 2, 3, 0] i
     | Some i \<Rightarrow> i \<le> length (cstr [1, 2, 1, 2, 3, 0]) \<and> occurs_at [1, 2, 1, 2, 3, 0] [1, 2, 3, 0] i \<and>
         (\<forall>j<i. \<not> occurs_at [1, 2, 1, 2, 3, 0] [1, 2, 3, 0] j))"
  using strstr_first [of "[1, 2, 1, 2, 3, 0]" "[1, 2, 3, 0]"] by simp

text \<open>\<open>strtok\<close> returns the next token: from the start position it skips separators,
  returns the position of the maximal run of other bytes, overwrites the separators around it by
  NUL so that the run is a string of its own, and leaves \<open>nxtTok\<close> behind the separators.\<close>

theorem strtok_next_token:
  assumes p: "terminated p" and seps: "set sep1 \<subseteq> set (cstr p)" "set sep2 \<subseteq> set (cstr p)"
    and tok: "tok \<noteq> []" "set tok \<inter> set (cstr p) = {}" "0 \<notin> set tok"
    and rest: "rest \<noteq> []" "hd rest = 0 \<or> sep2 \<noteq> [] \<and> hd rest \<notin> set (cstr p)"
  shows "strtok (pre @ sep1 @ tok @ sep2 @ rest) nxt (Some (length pre)) p =
    Some (pre @ replicate (length sep1) 0 @ tok @ replicate (length sep2) 0 @ rest,
          Some (length pre + length sep1),
          Some (length pre + length sep1 + length tok + length sep2))"
proof -
  obtain c tok' where tok': "tok = c # tok'" using tok(1) by (cases tok) auto
  obtain d rest' where rest': "rest = d # rest'" using rest(1) by (cases rest) auto
  let ?A = "pre @ replicate (length sep1) 0"
  have 1: "strtok_loop (pre @ sep1 @ tok @ sep2 @ rest) p (length pre) None =
      strtok_loop (?A @ tok @ sep2 @ rest) p (length ?A) None"
    using strtok_separators [OF p seps(1)] by simp
  have 2: "strtok_loop (?A @ tok @ sep2 @ rest) p (length ?A) None =
      strtok_loop ((?A @ [c]) @ tok' @ sep2 @ rest) p (length (?A @ [c])) (Some (length ?A))"
    using tok p by (subst strtok_loop.simps) (simp add: tok' nth_append in_pattern_eq)
  have 3: "\<dots> = strtok_loop ((?A @ tok) @ sep2 @ rest) p (length (?A @ tok)) (Some (length ?A))"
    using strtok_token [OF p, of tok' "?A @ [c]"] tok by (simp add: tok' add.assoc)
  have 4: "\<dots> = strtok_loop (?A @ tok @ replicate (length sep2) 0 @ rest) p
      (length (?A @ tok @ sep2)) (Some (length ?A))"
    using strtok_separators [OF p seps(2), of "?A @ tok"] by (simp add: add.assoc)
  have "replicate (length sep2) (0 :: u8) ! (length sep2 - Suc 0) = 0" if "sep2 \<noteq> []"
    using that by simp
  then have 5: "strtok_loop (?A @ tok @ replicate (length sep2) 0 @ rest) p
      (length (?A @ tok @ sep2)) (Some (length ?A)) =
      Some (?A @ tok @ replicate (length sep2) 0 @ rest, Some (length ?A), length (?A @ tok @ sep2))"
    using rest p by (subst strtok_loop.simps)
      (auto simp: rest' nth_append in_pattern_eq neq_Nil_conv Suc_diff_le)
  show ?thesis
    using 1 2 3 4 5 by (simp add: strtok_def)
qed

theorem strtok_next_token_witness:
  "strtok [44, 97, 98, 44, 44, 99, 0] None (Some 0) [44, 0] = Some ([0, 97, 98, 0, 0, 99, 0], Some 1, Some 5)"
  using strtok_next_token [of "[44, 0]" "[44]" "[44, 44]" "[97, 98]" "[99, 0]" "[]" None] by simp

end
