(* ===== verification/Libc_Malloc.thy ===== *)
theory Libc_Malloc
  imports Libc_String
begin

text \<open>The heap of the C library: \<open>malloc.c\<close>, \<open>free.c\<close>, \<open>realloc.c\<close> and \<open>memalign.c\<close> in \<open>src/lib/libc/stdlib\<close> on top of
  \<open>src/slof/sbrk.c\<close>. Pointers are offsets into the static array of \<open>sbrk.c\<close>, \<open>NULL\<close> is \<open>None\<close>. The specification
  is a list of chunks that tiles the initialised part of the heap.\<close>

section \<open>Model\<close>

record heap_state =
  heap_mem :: bytes
  actptr :: "int option"
  act :: "nat option"
  heap_start :: nat
  heap_end :: nat

definition HEAP_SIZE :: nat where
  "HEAP_SIZE = 0x200000"

definition heap_init :: "bytes \<Rightarrow> heap_state" where
  "heap_init m = \<lparr>heap_mem = m, actptr = None, act = None, heap_start = 0, heap_end = 0\<rparr>"

text \<open>\<open>sbrk\<close> takes an \<open>int\<close>; the callers pass a \<open>size_t\<close>. \<open>None\<close> is \<open>(void * )-1\<close>.\<close>

definition sbrk :: "int \<Rightarrow> heap_state \<Rightarrow> int option \<times> heap_state" where
  "sbrk increment s =
     (let p = (case actptr s of None \<Rightarrow> 0 | Some p \<Rightarrow> p);
        s = s\<lparr>actptr := Some p\<rparr>
      in if int HEAP_SIZE < p + increment then (None, s)
         else (Some p, s\<lparr>actptr := Some (p + increment)\<rparr>))"

text \<open>\<open>struct chunk\<close>: four bits \<open>inuse\<close> and 28 bits \<open>length\<close>.\<close>

definition chunk_inuse :: "u32 \<Rightarrow> u32" where
  "chunk_inuse w = drop_bit 28 w"

definition chunk_length :: "u32 \<Rightarrow> nat" where
  "chunk_length w = unat (w AND 0x0FFFFFFF)"

definition set_inuse :: "u32 \<Rightarrow> u32 \<Rightarrow> u32" where
  "set_inuse w v = push_bit 28 v OR (w AND 0x0FFFFFFF)"

definition set_length :: "u32 \<Rightarrow> nat \<Rightarrow> u32" where
  "set_length w n = (w AND 0xF0000000) OR (of_nat n AND 0x0FFFFFFF)"

definition put_inuse :: "bytes \<Rightarrow> nat \<Rightarrow> u32 \<Rightarrow> bytes option" where
  "put_inuse m i v = do { w \<leftarrow> rd32 m i; wr32 m i (set_inuse w v) }"

definition put_length :: "bytes \<Rightarrow> nat \<Rightarrow> nat \<Rightarrow> bytes option" where
  "put_length m i n = do { w \<leftarrow> rd32 m i; wr32 m i (set_length w n) }"

partial_function (option) search_loop :: "bytes \<Rightarrow> nat \<Rightarrow> nat \<Rightarrow> nat \<Rightarrow> nat option" where
  "search_loop m lim sz header = do {
     w \<leftarrow> rd32 m header;
     if (chunk_inuse w \<noteq> 0 \<or> chunk_length w < sz) \<and> header < lim
     then search_loop m lim sz (header + 4 + chunk_length w)
     else Some header }"

declare search_loop.simps [code]

partial_function (option) clean_loop :: "bytes \<Rightarrow> nat \<Rightarrow> nat \<Rightarrow> nat option \<Rightarrow> bool \<Rightarrow> (bytes \<times> bool) option" where
  "clean_loop m lim header firstfree check =
     (if header < lim
      then do {
        w \<leftarrow> rd32 m header;
        (m, firstfree, check) \<leftarrow>
          (if chunk_inuse w = 0
           then (case firstfree of
               None \<Rightarrow> Some (m, Some header, check)
             | Some f \<Rightarrow> do {
                 wf \<leftarrow> rd32 m f;
                 m \<leftarrow> put_length m f (chunk_length wf + (chunk_length w + 4));
                 Some (m, firstfree, True) })
           else Some (m, None, check));
        w \<leftarrow> rd32 m header;
        clean_loop m lim (header + 4 + chunk_length w) firstfree check }
      else Some (m, check))"

declare clean_loop.simps [code]

definition clean :: "heap_state \<Rightarrow> (bool \<times> heap_state) option" where
  "clean s = do {
     a \<leftarrow> act s;
     (m, check) \<leftarrow> clean_loop (heap_mem s) a (heap_start s) None False;
     Some (check, s\<lparr>heap_mem := m\<rparr>) }"

text \<open>The tail of \<open>malloc\<close> that takes a free chunk, splitting it if it is too big.\<close>

definition take_chunk :: "heap_state \<Rightarrow> nat \<Rightarrow> nat \<Rightarrow> nat \<Rightarrow> (nat option \<times> heap_state) option" where
  "take_chunk s header sz blksize = do {
     w \<leftarrow> rd32 (heap_mem s) header;
     if blksize < chunk_length w
     then do {
       let alt = chunk_length w;
       m \<leftarrow> put_inuse (heap_mem s) header 1;
       m \<leftarrow> put_length m header sz;
       let data = header + 4;
       let header = data + sz;
       m \<leftarrow> put_inuse m header 0;
       m \<leftarrow> put_length m header (nat (u64_of (int alt - int blksize)));
       Some (Some data, s\<lparr>heap_mem := m\<rparr>) }
     else do {
       m \<leftarrow> put_inuse (heap_mem s) header 1;
       Some (Some (header + 4), s\<lparr>heap_mem := m\<rparr>) } }"

text \<open>The first call: get the initial region.\<close>

definition first_call :: "heap_state \<Rightarrow> nat \<Rightarrow> bool \<times> heap_state" where
  "first_call s blksize =
     (if act s = None
      then
        let initsize = (blksize + 0x1000) mod 2 ^ 64 div 0x1000 * 0x1000
        in case sbrk (s32_of (int initsize)) s of
             (None, s) \<Rightarrow> (False, s)
           | (Some p, s) \<Rightarrow> (True, s\<lparr>heap_start := nat p, heap_end := nat p + initsize, act := Some (nat p)\<rparr>)
      else (True, s))"

partial_function (option) malloc :: "heap_state \<Rightarrow> nat \<Rightarrow> (nat option \<times> heap_state) option" where
  "malloc s sz = (let blksize = (sz + 4) mod 2 ^ 64; (ok, s) = first_call s blksize in
     if \<not> ok then Some (None, s)
     else do {
       a \<leftarrow> act s;
       if heap_end s < a + blksize
       then do {
         header \<leftarrow> search_loop (heap_mem s) a sz (heap_start s);
         if a \<le> header
         then do {
           (merged, s) \<leftarrow> clean s;
           if merged then malloc s sz
           else
             let (p, s) = sbrk (s32_of (int blksize)) s
             in if p = Some (int (heap_end s)) then malloc (s\<lparr>heap_end := heap_end s + blksize\<rparr>) sz
                else Some (None, s) }
         else take_chunk s header sz blksize }
       else do {
         m \<leftarrow> put_inuse (heap_mem s) a 1;
         m \<leftarrow> put_length m a sz;
         Some (Some (a + 4), s\<lparr>heap_mem := m, act := Some (a + blksize)\<rparr>) } })"

declare malloc.simps [code]

definition free :: "heap_state \<Rightarrow> nat option \<Rightarrow> heap_state option" where
  "free s ptr = (case ptr of None \<Rightarrow> Some s
     | Some p \<Rightarrow> if p < 4 then None else do { m \<leftarrow> put_inuse (heap_mem s) (p - 4) 0; Some (s\<lparr>heap_mem := m\<rparr>) })"

definition realloc :: "heap_state \<Rightarrow> nat option \<Rightarrow> nat \<Rightarrow> (nat option \<times> heap_state) option" where
  "realloc s ptr sz = do {
     p \<leftarrow> ptr;
     if p < 4 then None
     else do {
       w \<leftarrow> rd32 (heap_mem s) (p - 4);
       if sz \<le> chunk_length w then Some (Some p, s)
       else do {
         (newptr, s) \<leftarrow> malloc s sz;
         case newptr of None \<Rightarrow> Some (None, s)
         | Some q \<Rightarrow> do {
             w \<leftarrow> rd32 (heap_mem s) (p - 4);
             m \<leftarrow> copy_up (heap_mem s) q p (chunk_length w);
             m \<leftarrow> put_inuse m (p - 4) 0;
             Some (Some q, s\<lparr>heap_mem := m\<rparr>) } } } }"

text \<open>\<open>memalign\<close> rounds the address, so it depends on the address \<open>base\<close> of the array; the result is an address.\<close>

definition memalign :: "u64 \<Rightarrow> heap_state \<Rightarrow> nat \<Rightarrow> nat \<Rightarrow> (u64 \<times> heap_state) option" where
  "memalign base s blocksize n = do {
     (p, s) \<leftarrow> malloc s ((n + blocksize) mod 2 ^ 64);
     let x = (case p of None \<Rightarrow> 0 | Some p \<Rightarrow> base + of_nat p);
     Some ((x + of_nat blocksize - 1) AND NOT (of_nat blocksize - 1), s) }"

section \<open>Specification: chunks\<close>

type_synonym chunk = "bool \<times> nat"

fun tiles :: "bytes \<Rightarrow> nat \<Rightarrow> chunk list \<Rightarrow> nat \<Rightarrow> bool" where
  "tiles m a [] e \<longleftrightarrow> a = e"
| "tiles m a ((u, l) # cs) e \<longleftrightarrow>
     (\<exists>w. rd32 m a = Some w \<and> (chunk_inuse w \<noteq> 0) = u \<and> chunk_length w = l) \<and> tiles m (a + 4 + l) cs e"

definition span :: "chunk list \<Rightarrow> nat" where
  "span cs = (\<Sum>(u, l)\<leftarrow>cs. 4 + l)"

text \<open>The blocks in use: pointer and length.\<close>

fun live :: "nat \<Rightarrow> chunk list \<Rightarrow> (nat \<times> nat) set" where
  "live a [] = {}"
| "live a ((u, l) # cs) = (if u then {(a + 4, l)} else {}) \<union> live (a + 4 + l) cs"

text \<open>Joining neighbouring free chunks.\<close>

definition join :: "nat \<Rightarrow> chunk list \<Rightarrow> chunk list" where
  "join l cs = (case cs of (False, k) # r \<Rightarrow> (False, l + 4 + k) # r | _ \<Rightarrow> (False, l) # cs)"

fun merge :: "chunk list \<Rightarrow> chunk list" where
  "merge [] = []"
| "merge ((u, l) # cs) = (if u then (u, l) # merge cs else join l (merge cs))"

lemma join_simps [simp]:
  "join l [] = [(False, l)]" "join l ((True, k) # r) = (False, l) # (True, k) # r" "join l ((False, k) # r) = (False, l + 4 + k) # r"
  by (simp_all add: join_def)

lemma join_cases:
  obtains "cs = []" "join l cs = [(False, l)]" | k r where "cs = (True, k) # r" "join l cs = (False, l) # cs"
    | k r where "cs = (False, k) # r" "join l cs = (False, l + 4 + k) # r"
  by (cases cs rule: merge.cases) (auto simp: join_def)

lemma join_join: "join l (join k cs) = join (l + 4 + k) cs"
  by (cases cs k rule: join_cases) auto

lemma span_simps [simp]: "span [] = 0" "span ((u, l) # cs) = 4 + l + span cs" "span (xs @ ys) = span xs + span ys"
  by (simp_all add: span_def)

lemma tiles_end: "tiles m a cs e \<Longrightarrow> e = a + span cs"
  by (induction m a cs e rule: tiles.induct) auto

lemma tiles_append: "tiles m a (xs @ ys) e \<longleftrightarrow> tiles m a xs (a + span xs) \<and> tiles m (a + span xs) ys e"
  by (induction xs arbitrary: a) (auto simp: add.assoc)

lemma live_append: "live a (xs @ ys) = live a xs \<union> live (a + span xs) ys"
  by (induction xs arbitrary: a) (auto simp: add.assoc)

lemma rd32_cong: "length m' = length m \<Longrightarrow> (\<And>j. i \<le> j \<Longrightarrow> j < i + 4 \<Longrightarrow> m' ! j = m ! j) \<Longrightarrow> rd32 m' i = rd32 m i"
  by (simp add: rd32_def)

lemma tiles_cong:
  "tiles m a cs e \<Longrightarrow> length m' = length m \<Longrightarrow> (\<And>j. a \<le> j \<Longrightarrow> j < e \<Longrightarrow> m' ! j = m ! j) \<Longrightarrow> tiles m' a cs e"
proof (induction m a cs e rule: tiles.induct)
  case (2 m a u l cs e)
  have e: "e = a + 4 + l + span cs" using tiles_end[OF 2(2)] by simp
  have "rd32 m' a = rd32 m a" using 2(3,4) e by (intro rd32_cong) auto
  then show ?case using 2 by simp
qed simp

lemma live_range: "(p, n) \<in> live a cs \<Longrightarrow> a + 4 \<le> p \<and> p + n \<le> a + span cs"
  by (induction a cs rule: live.induct) (fastforce split: if_splits)+

lemma join_facts: "live a (join l cs) = live (a + 4 + l) cs" "span (join l cs) = 4 + l + span cs" "length (join l cs) \<le> Suc (length cs)"
  by (cases cs l rule: join_cases; simp add: add.assoc)+

lemma merge_facts: "live a (merge cs) = live a cs" "span (merge cs) = span cs" "length (merge cs) \<le> length cs"
proof -
  show "live a (merge cs) = live a cs" by (induction cs arbitrary: a rule: merge.induct) (simp_all add: join_facts)
  show "span (merge cs) = span cs" by (induction cs rule: merge.induct) (simp_all add: join_facts)
  show "length (merge cs) \<le> length cs"
    by (induction cs rule: merge.induct) (auto intro: order_trans[OF join_facts(3)])
qed

section \<open>Chunk headers\<close>


lemma low28: "w AND 0x0FFFFFFF = take_bit 28 (w :: u32)"
proof -
  have "(0x0FFFFFFF :: u32) = mask 28" by (simp add: mask_eq_exp_minus_1)
  then show ?thesis by (simp only: take_bit_eq_mask)
qed

lemma high4: "bit (0xF0000000 :: u32) i \<longleftrightarrow> 28 \<le> i \<and> i < 32"
proof -
  have e: "(0xF0000000 :: u32) = push_bit 28 (mask 4)" by (simp add: mask_eq_exp_minus_1 push_bit_eq_mult)
  show ?thesis unfolding e bit_push_bit_iff bit_mask_iff by auto
qed

lemma chunk_length_less: "chunk_length w < 2 ^ 28"
  unfolding chunk_length_def low28 unsigned_take_bit_eq by (rule take_bit_nat_less_exp)

lemma chunk_set_inuse:
  assumes "v = 0 \<or> v = 1"
  shows "chunk_inuse (set_inuse w v) = v" "chunk_length (set_inuse w v) = chunk_length w"
proof -
  have v: "bit v i \<Longrightarrow> i = 0" for i using assms by (auto simp: bit_1_iff)
  show "chunk_inuse (set_inuse w v) = v"
    unfolding chunk_inuse_def set_inuse_def low28 by (rule bit_word_eqI) (auto simp: bit_simps dest: v)
  have "set_inuse w v AND 0x0FFFFFFF = w AND 0x0FFFFFFF"
    unfolding set_inuse_def low28 by (rule bit_word_eqI) (auto simp: bit_simps)
  then show "chunk_length (set_inuse w v) = chunk_length w" by (simp only: chunk_length_def)
qed

lemma chunk_set_length:
  shows "chunk_inuse (set_length w n) = chunk_inuse w" "n < 2 ^ 28 \<Longrightarrow> chunk_length (set_length w n) = n"
proof -
  define H where "H = (0xF0000000 :: u32)"
  have e: "set_length w n = (w AND H) OR take_bit 28 (of_nat n)" by (simp only: set_length_def low28 H_def)
  have b: "bit H i \<longleftrightarrow> 28 \<le> i \<and> i < 32" for i unfolding H_def by (rule high4)
  show "chunk_inuse (set_length w n) = chunk_inuse w"
    unfolding chunk_inuse_def e by (rule bit_word_eqI) (auto simp: bit_simps b dest: bit_imp_le_length)
  have "set_length w n AND 0x0FFFFFFF = of_nat n AND 0x0FFFFFFF"
    unfolding e low28 by (rule bit_word_eqI) (auto simp: bit_simps b)
  then show "n < 2 ^ 28 \<Longrightarrow> chunk_length (set_length w n) = n"
    unfolding chunk_length_def low28 by (simp add: unsigned_take_bit_eq unat_of_nat take_bit_nat_eq_self)
qed

text \<open>Header writes: they succeed inside the heap and change only the four bytes.\<close>

lemma put_word:
  assumes "rd32 m i = Some w"
  shows "\<exists>m'. wr32 m i v = Some m' \<and> rd32 m' i = Some v \<and> length m' = length m \<and> (\<forall>j. j < i \<or> i + 4 \<le> j \<longrightarrow> m' ! j = m ! j)"
proof -
  have "i + 4 \<le> length m" using assms by (auto simp: rd32_def split: if_splits)
  then obtain m' where m': "wr32 m i v = Some m'" by (simp add: wr32_def wrn_def)
  then show ?thesis using rd32_wr32[OF m'] wrn_length wrn_frame[of m i "be32 v" m'] by (auto simp: wr32_def)
qed

lemma put_inuse_ok:
  assumes "rd32 m i = Some w" "v = 0 \<or> v = 1"
  shows "\<exists>m' w'. put_inuse m i v = Some m' \<and> rd32 m' i = Some w' \<and> chunk_inuse w' = v \<and> chunk_length w' = chunk_length w \<and>
    length m' = length m \<and> (\<forall>j. j < i \<or> i + 4 \<le> j \<longrightarrow> m' ! j = m ! j)"
  using put_word[OF assms(1), of "set_inuse w v"] assms chunk_set_inuse[OF assms(2)] by (auto simp: put_inuse_def)

lemma put_length_ok:
  assumes "rd32 m i = Some w" "n < 2 ^ 28"
  shows "\<exists>m' w'. put_length m i n = Some m' \<and> rd32 m' i = Some w' \<and> chunk_inuse w' = chunk_inuse w \<and> chunk_length w' = n \<and>
    length m' = length m \<and> (\<forall>j. j < i \<or> i + 4 \<le> j \<longrightarrow> m' ! j = m ! j)"
  using put_word[OF assms(1), of "set_length w n"] assms chunk_set_length(1)[of w n] chunk_set_length(2)[of n w] by (auto simp: put_length_def)

text \<open>Writing a whole header.\<close>

lemma put_header:
  assumes "i + 4 \<le> length m" "v = 0 \<or> v = 1" "n < 2 ^ 28"
  shows "\<exists>m1 m2 w. put_inuse m i v = Some m1 \<and> put_length m1 i n = Some m2 \<and> rd32 m2 i = Some w \<and> chunk_inuse w = v \<and>
    chunk_length w = n \<and> length m2 = length m \<and> (\<forall>j. j < i \<or> i + 4 \<le> j \<longrightarrow> m2 ! j = m ! j)"
proof -
  obtain w where w: "rd32 m i = Some w" using assms(1) by (simp add: rd32_def)
  obtain m1 w1 where m1: "put_inuse m i v = Some m1" "rd32 m1 i = Some w1" "chunk_inuse w1 = v" "length m1 = length m"
    "\<forall>j. j < i \<or> i + 4 \<le> j \<longrightarrow> m1 ! j = m ! j" using put_inuse_ok[OF w assms(2)] by blast
  obtain m2 w2 where "put_length m1 i n = Some m2" "rd32 m2 i = Some w2" "chunk_inuse w2 = chunk_inuse w1" "chunk_length w2 = n"
    "length m2 = length m1" "\<forall>j. j < i \<or> i + 4 \<le> j \<longrightarrow> m2 ! j = m1 ! j" using put_length_ok[OF m1(2) assms(3)] by blast
  then show ?thesis using m1 by (intro exI[of _ m1] exI[of _ m2]) auto
qed

section \<open>The loops\<close>

lemma search_loop_spec:
  assumes "tiles m a cs e" "e + 4 \<le> length m"
  shows "\<exists>xs ys. cs = xs @ ys \<and> search_loop m e n a = Some (a + span xs) \<and>
    (ys = [] \<or> (\<exists>l ys'. ys = (False, l) # ys' \<and> n \<le> l))"
  using assms(1)
proof (induction cs arbitrary: a)
  case Nil
  then have "a = e" by simp
  then obtain w where "rd32 m a = Some w" using assms(2) by (simp add: rd32_def)
  then show ?case using \<open>a = e\<close> by (subst search_loop.simps) simp
next
  case (Cons c cs)
  obtain u l where c: "c = (u, l)" by fastforce
  obtain w where w: "rd32 m a = Some w" "(chunk_inuse w \<noteq> 0) = u" "chunk_length w = l" and t: "tiles m (a + 4 + l) cs e"
    using Cons.prems c by auto
  have ae: "a < e" using tiles_end[OF t] by simp
  show ?case
  proof (cases "u \<or> l < n")
    case True
    then have "search_loop m e n a = search_loop m e n (a + 4 + l)" using w ae by (subst search_loop.simps) auto
    moreover obtain xs ys where "cs = xs @ ys" "search_loop m e n (a + 4 + l) = Some (a + 4 + l + span xs)"
      "ys = [] \<or> (\<exists>l ys'. ys = (False, l) # ys' \<and> n \<le> l)" using Cons.IH[OF t] by blast
    ultimately show ?thesis using c by (intro exI[of _ "(u, l) # xs"] exI[of _ ys]) (auto simp: add.assoc)
  next
    case False
    then have "search_loop m e n a = Some a" using w by (subst search_loop.simps) auto
    then show ?thesis using False c by (intro exI[of _ "[]"] exI[of _ "c # cs"]) auto
  qed
qed

text \<open>\<open>clean\<close>, with and without a free chunk at \<open>f\<close> that ends at the current header.\<close>

lemma clean_loop_spec:
  assumes "tiles m h cs e" "e \<le> length m" "length m < 2 ^ 28"
  shows "\<exists>m' b. clean_loop m e h None chk = Some (m', b) \<and> tiles m' h (merge cs) e \<and> length m' = length m \<and>
      (b \<longleftrightarrow> chk \<or> length (merge cs) < length cs) \<and> (\<forall>j. j < h \<or> e \<le> j \<longrightarrow> m' ! j = m ! j) \<and>
      (\<forall>(p, n)\<in>live h cs. \<forall>j. p \<le> j \<and> j < p + n \<longrightarrow> m' ! j = m ! j)"
    and "tiles m f [(False, l)] h \<Longrightarrow> \<exists>m' b. clean_loop m e h (Some f) chk = Some (m', b) \<and> tiles m' f (join l (merge cs)) e \<and>
      length m' = length m \<and> (b \<longleftrightarrow> chk \<or> length (join l (merge cs)) < Suc (length cs)) \<and>
      (\<forall>j. j < f \<or> e \<le> j \<longrightarrow> m' ! j = m ! j) \<and> (\<forall>(p, n)\<in>live h cs. \<forall>j. p \<le> j \<and> j < p + n \<longrightarrow> m' ! j = m ! j)"
  using assms
proof (induction cs arbitrary: m h f l chk)
  case Nil
  {
    case 1
    then show ?case by (subst clean_loop.simps) auto
  next
    case 2
    then show ?case by (subst clean_loop.simps) auto
  }
next
  case (Cons c cs)
  obtain u k where c: "c = (u, k)" by fastforce
  {
    case 1
    obtain w where w: "rd32 m h = Some w" "(chunk_inuse w \<noteq> 0) = u" "chunk_length w = k" and t: "tiles m (h + 4 + k) cs e"
      using 1(1) c by auto
    have he: "h < e" using tiles_end[OF t] by simp
    show ?case
    proof (cases u)
      case True
      have step: "clean_loop m e h None chk = clean_loop m e (h + 4 + k) None chk" using w he True by (subst clean_loop.simps) simp
      obtain m' b where r: "clean_loop m e (h + 4 + k) None chk = Some (m', b)" "tiles m' (h + 4 + k) (merge cs) e" "length m' = length m"
        "b \<longleftrightarrow> chk \<or> length (merge cs) < length cs" "\<forall>j. j < h + 4 + k \<or> e \<le> j \<longrightarrow> m' ! j = m ! j"
        "\<forall>(p, n)\<in>live (h + 4 + k) cs. \<forall>j. p \<le> j \<and> j < p + n \<longrightarrow> m' ! j = m ! j"
        using Cons.IH(1)[OF t 1(2,3)] by blast
      have "rd32 m' h = rd32 m h" using r(3,5) by (intro rd32_cong) auto
      then show ?thesis using r w True c step by (intro exI[of _ m'] exI[of _ b]) auto
    next
      case False
      have step: "clean_loop m e h None chk = clean_loop m e (h + 4 + k) (Some h) chk" using w he False by (subst clean_loop.simps) simp
      have "tiles m h [(False, k)] (h + 4 + k)" using w False by auto
      from Cons.IH(2)[OF this t 1(2,3)] show ?thesis using False c step by simp
    qed
  next
    case 2
    obtain w where w: "rd32 m h = Some w" "(chunk_inuse w \<noteq> 0) = u" "chunk_length w = k" and t: "tiles m (h + 4 + k) cs e"
      using 2(2) c by auto
    obtain wf where wf: "rd32 m f = Some wf" "chunk_inuse wf = 0" "chunk_length wf = l" "h = f + 4 + l" using 2(1) by auto
    have he: "h + 4 + k \<le> e" using tiles_end[OF t] by simp
    show ?case
    proof (cases u)
      case True
      have step: "clean_loop m e h (Some f) chk = clean_loop m e (h + 4 + k) None chk" using w he True by (subst clean_loop.simps) simp
      obtain m' b where r: "clean_loop m e (h + 4 + k) None chk = Some (m', b)" "tiles m' (h + 4 + k) (merge cs) e" "length m' = length m"
        "b \<longleftrightarrow> chk \<or> length (merge cs) < length cs" "\<forall>j. j < h + 4 + k \<or> e \<le> j \<longrightarrow> m' ! j = m ! j"
        "\<forall>(p, n)\<in>live (h + 4 + k) cs. \<forall>j. p \<le> j \<and> j < p + n \<longrightarrow> m' ! j = m ! j"
        using Cons.IH(1)[OF t 2(3,4)] by blast
      have "rd32 m' h = rd32 m h" "rd32 m' f = rd32 m f" using r(3,5) wf(4) by (auto intro!: rd32_cong)
      then show ?thesis using r w wf True c step by (intro exI[of _ m'] exI[of _ b]) auto
    next
      case False
      obtain m1 w1 where m1: "put_length m f (l + (k + 4)) = Some m1" "rd32 m1 f = Some w1" "chunk_inuse w1 = 0" "chunk_length w1 = l + (k + 4)"
        "length m1 = length m" "\<forall>j. j < f \<or> f + 4 \<le> j \<longrightarrow> m1 ! j = m ! j"
        using put_length_ok[OF wf(1), of "l + (k + 4)"] wf he 2(3,4) by fastforce
      have "rd32 m1 h = rd32 m h" using m1(5,6) wf(4) by (intro rd32_cong) auto
      then have step: "clean_loop m e h (Some f) chk = clean_loop m1 e (h + 4 + k) (Some f) True"
        using w wf m1(1) he False by (subst clean_loop.simps) simp
      have t1: "tiles m1 (h + 4 + k) cs e" using tiles_cong[OF t m1(5)] m1(6) wf(4) by auto
      have "tiles m1 f [(False, l + 4 + k)] (h + 4 + k)" using m1 wf(4) by (auto simp: algebra_simps)
      from Cons.IH(2)[OF this t1, of True] obtain m' b where
        r: "clean_loop m1 e (h + 4 + k) (Some f) True = Some (m', b)" "tiles m' f (join (l + 4 + k) (merge cs)) e" "length m' = length m1" "b"
        "\<forall>j. j < f \<or> e \<le> j \<longrightarrow> m' ! j = m1 ! j" "\<forall>(p, n)\<in>live (h + 4 + k) cs. \<forall>j. p \<le> j \<and> j < p + n \<longrightarrow> m' ! j = m1 ! j"
        using 2(3,4) m1(5) by auto
      have "m' ! j = m ! j" if "(p, n) \<in> live (h + 4 + k) cs" "p \<le> j" "j < p + n" for p n j
        using r(6) that m1(6) wf(4) live_range[OF that(1)] by fastforce
      moreover have "length (join l (merge (c # cs))) < Suc (length (c # cs))"
        using c False join_facts(3)[of "l + 4 + k" "merge cs"] merge_facts(3)[of cs] by (simp add: join_join)
      ultimately show ?thesis using r m1 he wf(4) False c step
        by (intro exI[of _ m'] exI[of _ b]) (auto simp: join_join)
    qed
  }
qed

section \<open>Allocation\<close>

text \<open>The invariant: the chunks \<open>cs\<close> tile the heap from its start to \<open>act\<close>, and \<open>sbrk\<close> has handed out everything
  up to \<open>heap_end\<close> to \<open>malloc\<close>.\<close>

definition heap_inv :: "heap_state \<Rightarrow> chunk list \<Rightarrow> bool" where
  "heap_inv s cs \<longleftrightarrow> length (heap_mem s) = HEAP_SIZE \<and>
     (case act s of None \<Rightarrow> cs = [] \<and> (actptr s = None \<or> actptr s = Some 0)
      | Some a \<Rightarrow> tiles (heap_mem s) (heap_start s) cs a \<and> a \<le> heap_end s \<and> heap_end s \<le> HEAP_SIZE \<and>
          actptr s = Some (int (heap_end s)))"

definition blocks :: "heap_state \<Rightarrow> chunk list \<Rightarrow> (nat \<times> nat) set" where
  "blocks s cs = live (heap_start s) cs"

text \<open>The bytes of the blocks in \<open>B\<close> are the same.\<close>

definition kept :: "(nat \<times> nat) set \<Rightarrow> bytes \<Rightarrow> bytes \<Rightarrow> bool" where
  "kept B m m' \<longleftrightarrow> (\<forall>(p, n)\<in>B. \<forall>j. p \<le> j \<and> j < p + n \<longrightarrow> m' ! j = m ! j)"

text \<open>The result of an allocation: nothing, or a new block of at least \<open>n\<close> bytes apart from all others.\<close>

definition alloc_result :: "nat \<Rightarrow> heap_state \<Rightarrow> chunk list \<Rightarrow> nat option \<Rightarrow> heap_state \<Rightarrow> bool" where
  "alloc_result n s cs r s' \<longleftrightarrow> (\<exists>cs'. heap_inv s' cs' \<and> kept (blocks s cs) (heap_mem s) (heap_mem s') \<and>
     (case r of None \<Rightarrow> blocks s' cs' = blocks s cs
      | Some p \<Rightarrow> \<exists>l\<ge>n. blocks s' cs' = insert (p, l) (blocks s cs) \<and> p + l \<le> HEAP_SIZE \<and>
          (\<forall>(q, k)\<in>blocks s cs. p + l \<le> q \<or> q + k + 4 \<le> p)))"

lemma alloc_resultI:
  assumes "heap_inv s' cs'" "kept (blocks s cs) (heap_mem s) (heap_mem s')" "blocks s' cs' = insert (p, l) (blocks s cs)"
    and "n \<le> l" "p + l \<le> HEAP_SIZE" "\<And>q k. (q, k) \<in> blocks s cs \<Longrightarrow> p + l \<le> q \<or> q + k + 4 \<le> p"
  shows "alloc_result n s cs (Some p) s'"
  unfolding alloc_result_def using assms by (intro exI[of _ cs']) auto

lemma kept_refl [simp]: "kept B m m" by (auto simp: kept_def)

lemma keptD: "kept B m m' \<Longrightarrow> (p, n) \<in> B \<Longrightarrow> p \<le> j \<Longrightarrow> j < p + n \<Longrightarrow> m' ! j = m ! j"
  by (auto simp: kept_def)

lemma kept_mono: "kept B m m' \<Longrightarrow> A \<subseteq> B \<Longrightarrow> kept A m m'"
  by (auto simp: kept_def)

lemma kept_trans: "kept B m m1 \<Longrightarrow> kept B m1 m2 \<Longrightarrow> kept B m m2"
  by (fastforce simp: kept_def)

lemma kept_outside:
  assumes "\<And>j. j < i \<or> e \<le> j \<Longrightarrow> m' ! j = m ! j" "\<And>p n. (p, n) \<in> B \<Longrightarrow> p + n \<le> i \<or> e \<le> p"
  shows "kept B m m'"
  using assms by (fastforce simp: kept_def)

lemma s32_of_small: "n < 2147483648 \<Longrightarrow> s32_of (int n) = int n"
  by (simp add: s32_of_id)

text \<open>The uninitialised part has room.\<close>

lemma malloc_fresh:
  assumes inv: "heap_inv s cs" "act s = Some a" and room: "a + (n + 4) \<le> heap_end s"
  shows "\<exists>p s'. malloc s n = Some (Some p, s') \<and> alloc_result n s cs (Some p) s'"
proof -
  let ?m = "heap_mem s"
  have h: "length ?m = HEAP_SIZE" "tiles ?m (heap_start s) cs a" "heap_end s \<le> HEAP_SIZE" "actptr s = Some (int (heap_end s))"
    using inv by (auto simp: heap_inv_def)
  have small: "n + 4 \<le> HEAP_SIZE" "HEAP_SIZE = 2097152" using room h(3) by (simp_all add: HEAP_SIZE_def)
  then have b: "(n + 4) mod 18446744073709551616 = n + 4" by (intro mod_less) simp
  have n28: "n < 2 ^ 28" using small by simp
  obtain m1 m2 w where m: "put_inuse ?m a 1 = Some m1" "put_length m1 a n = Some m2" "rd32 m2 a = Some w" "chunk_inuse w = 1"
    "chunk_length w = n" "length m2 = length ?m" "\<forall>j. j < a \<or> a + 4 \<le> j \<longrightarrow> m2 ! j = ?m ! j"
    using put_header[of a ?m 1 n] n28 room h(1,3) by auto
  let ?s = "s\<lparr>heap_mem := m2, act := Some (a + (n + 4))\<rparr>"
  have r: "malloc s n = Some (Some (a + 4), ?s)"
    using inv(2) room m(1,2) by (subst malloc.simps) (simp add: b first_call_def Let_def)
  have ae: "a = heap_start s + span cs" by (rule tiles_end[OF h(2)])
  have "tiles m2 (heap_start s) cs a" using tiles_cong[OF h(2) m(6)] m(7) by auto
  then have "tiles m2 (heap_start s) (cs @ [(True, n)]) (a + (n + 4))"
    unfolding tiles_append using m(3-5) ae by auto
  then have "heap_inv ?s (cs @ [(True, n)])" using h m(6) room by (simp add: heap_inv_def)
  moreover have "blocks ?s (cs @ [(True, n)]) = insert (a + 4, n) (blocks s cs)" by (simp add: blocks_def live_append ae)
  moreover have below: "q + k \<le> a" if "(q, k) \<in> blocks s cs" for q k
    using live_range[of q k "heap_start s" cs] that ae unfolding blocks_def by blast
  moreover have "kept (blocks s cs) ?m (heap_mem ?s)" using m(7) below by (intro kept_outside[of a "a + 4"]) auto
  ultimately have "alloc_result n s cs (Some (a + 4)) ?s"
    using room h(3) by (intro alloc_resultI) (assumption | fastforce)+
  then show ?thesis using r by blast
qed

text \<open>Taking a free chunk.\<close>

lemma chunk_apart:
  assumes "(q, k) \<in> live a (xs @ (False, l) # ys)"
  shows "q + k \<le> a + span xs \<or> a + span xs + 4 + l + 4 \<le> q"
proof -
  consider "(q, k) \<in> live a xs" | "(q, k) \<in> live (a + span xs + 4 + l) ys" using assms by (auto simp: live_append)
  then show ?thesis by cases (auto dest!: live_range)
qed

lemma take_chunk_ok:
  assumes inv: "heap_inv s cs" "act s = Some a" and cs: "cs = xs @ (False, l) # ys" "n \<le> l"
  shows "\<exists>s'. take_chunk s (heap_start s + span xs) n (n + 4) = Some (Some (heap_start s + span xs + 4), s') \<and>
    alloc_result n s cs (Some (heap_start s + span xs + 4)) s'"
proof -
  let ?m = "heap_mem s" and ?h = "heap_start s + span xs"
  have h: "length ?m = HEAP_SIZE" "tiles ?m (heap_start s) cs a" "a \<le> heap_end s" "heap_end s \<le> HEAP_SIZE" "actptr s = Some (int (heap_end s))"
    using inv by (auto simp: heap_inv_def)
  have t: "tiles ?m (heap_start s) xs ?h" "tiles ?m (?h + 4 + l) ys a" using h(2) unfolding cs(1) tiles_append by auto
  obtain w where w: "rd32 ?m ?h = Some w" "chunk_inuse w = 0" "chunk_length w = l" using h(2) unfolding cs(1) tiles_append by auto
  have end': "?h + 4 + l \<le> a" using tiles_end[OF t(2)] by simp
  have small: "HEAP_SIZE = 2097152" by (simp add: HEAP_SIZE_def)
  have apart: "q + k \<le> ?h \<or> ?h + 4 + l + 4 \<le> q" if "(q, k) \<in> blocks s cs" for q k
    using chunk_apart that unfolding blocks_def cs(1) by blast
  show ?thesis
  proof (cases "n + 4 < l")
    case True
    obtain m1 m2 w2 where m: "put_inuse ?m ?h 1 = Some m1" "put_length m1 ?h n = Some m2" "rd32 m2 ?h = Some w2" "chunk_inuse w2 = 1"
      "chunk_length w2 = n" "length m2 = length ?m" "\<forall>j. j < ?h \<or> ?h + 4 \<le> j \<longrightarrow> m2 ! j = ?m ! j"
      using put_header[of ?h ?m 1 n] end' h(1,3,4) True small by auto
    let ?g = "?h + 4 + n" and ?r = "l - (n + 4)"
    have bounds: "?g + 4 \<le> length m2" "?r < 2 ^ 28" using end' h(1,3,4) True small m(6) by auto
    obtain m3 m4 w4 where g: "put_inuse m2 ?g 0 = Some m3" "put_length m3 ?g ?r = Some m4" "rd32 m4 ?g = Some w4" "chunk_inuse w4 = 0"
      "chunk_length w4 = ?r" "length m4 = length m2" "\<forall>j. j < ?g \<or> ?g + 4 \<le> j \<longrightarrow> m4 ! j = m2 ! j"
      using put_header[of ?g m2 0 ?r] bounds by blast
    have e: "?h + 4 + n + 4 + ?r = ?h + 4 + l" using True by simp
    have u: "nat (u64_of (int l - int (n + 4))) = ?r" using True end' h small by (simp add: u64_of_id nat_diff_distrib)
    let ?s = "s\<lparr>heap_mem := m4\<rparr>" and ?cs = "xs @ (True, n) # (False, ?r) # ys"
    have r: "take_chunk s ?h n (n + 4) = Some (Some (?h + 4), ?s)"
      unfolding take_chunk_def Let_def w(1) using True w(3) m(1,2) g(1,2) u by simp
    have "rd32 m4 ?h = rd32 m2 ?h" using g(6,7) by (intro rd32_cong) auto
    moreover have "tiles m4 (heap_start s) xs ?h" using tiles_cong[OF t(1), of m4] m(6,7) g(6,7) by auto
    moreover have "tiles m4 (?h + 4 + l) ys a" using tiles_cong[OF t(2), of m4] m(6,7) g(6,7) True by auto
    ultimately have "tiles m4 (heap_start s) ?cs a" unfolding tiles_append tiles.simps e using m(3-5) g(3-5) by auto
    then have "heap_inv ?s ?cs" using h inv(2) m(6) g(6) by (simp add: heap_inv_def)
    moreover have hs: "heap_start ?s = heap_start s" by simp
    have "blocks ?s ?cs = insert (?h + 4, n) (blocks s cs)"
      by (simp only: blocks_def live_append cs(1) live.simps hs e if_True if_False) blast
    moreover have "m4 ! j = ?m ! j" if "j < ?h \<or> ?h + 4 + l \<le> j" for j
    proof -
      have "j < ?g \<or> ?g + 4 \<le> j" "j < ?h \<or> ?h + 4 \<le> j" using that True by linarith+
      then show ?thesis using m(7) g(7) by metis
    qed
    then have "kept (blocks s cs) ?m (heap_mem ?s)" using apart by (intro kept_outside[of ?h "?h + 4 + l"]) (simp, fastforce)
    moreover have "?h + 4 + n \<le> q \<or> q + k + 4 \<le> ?h + 4" if "(q, k) \<in> blocks s cs" for q k using apart[OF that] True by linarith
    moreover have "?h + 4 + n \<le> HEAP_SIZE" using end' h(3,4) True by linarith
    ultimately have "alloc_result n s cs (Some (?h + 4)) ?s" by (intro alloc_resultI[where l = n] order.refl)
    then show ?thesis using r by blast
  next
    case False
    obtain m1 w1 where m: "put_inuse ?m ?h 1 = Some m1" "rd32 m1 ?h = Some w1" "chunk_inuse w1 = 1" "chunk_length w1 = l"
      "length m1 = length ?m" "\<forall>j. j < ?h \<or> ?h + 4 \<le> j \<longrightarrow> m1 ! j = ?m ! j"
      using put_inuse_ok[OF w(1), of 1] w(3) by auto
    let ?s = "s\<lparr>heap_mem := m1\<rparr>" and ?cs = "xs @ (True, l) # ys"
    have r: "take_chunk s ?h n (n + 4) = Some (Some (?h + 4), ?s)"
      unfolding take_chunk_def Let_def w(1) using False w(3) m(1) by simp
    have "tiles m1 (heap_start s) xs ?h" using tiles_cong[OF t(1), of m1] m(5,6) by auto
    moreover have "tiles m1 (?h + 4 + l) ys a" using tiles_cong[OF t(2), of m1] m(5,6) by auto
    ultimately have "tiles m1 (heap_start s) ?cs a" unfolding tiles_append using m(2-4) by auto
    then have "heap_inv ?s ?cs" using h inv(2) m(5) by (simp add: heap_inv_def)
    moreover have "blocks ?s ?cs = insert (?h + 4, l) (blocks s cs)" by (auto simp: blocks_def live_append cs(1))
    moreover have "kept (blocks s cs) ?m m1" using m(6) apart by (intro kept_outside[of ?h "?h + 4"]) (blast, force)
    then have "kept (blocks s cs) ?m (heap_mem ?s)" by simp
    moreover have "?h + 4 + l \<le> q \<or> q + k + 4 \<le> ?h + 4" if "(q, k) \<in> blocks s cs" for q k using apart[OF that] by linarith
    moreover have "?h + 4 + l \<le> HEAP_SIZE" using end' h(3,4) by linarith
    ultimately have "alloc_result n s cs (Some (?h + 4)) ?s" using cs(2) by (intro alloc_resultI[where l = l])
    then show ?thesis using r by blast
  qed
qed

text \<open>One round of \<open>malloc\<close> on an initialised heap.\<close>

lemma malloc_unfold:
  assumes "act s = Some a" "heap_end s < a + (n + 4)" "n + 4 < 2147483648"
  shows "malloc s n = do {
    header \<leftarrow> search_loop (heap_mem s) a n (heap_start s);
    if a \<le> header
    then do {
      (merged, s) \<leftarrow> clean s;
      if merged then malloc s n
      else let (p, s) = sbrk (int (n + 4)) s
        in if p = Some (int (heap_end s)) then malloc (s\<lparr>heap_end := heap_end s + (n + 4)\<rparr>) n else Some (None, s) }
    else take_chunk s header n (n + 4) }"
proof -
  have "(n + 4) mod 18446744073709551616 = n + 4" using assms(3) by (intro mod_less) simp
  moreover have "s32_of (int (n + 4)) = int (n + 4)" using assms(3) by (rule s32_of_small)
  ultimately show ?thesis using assms(1,2) by (subst malloc.simps) (simp add: first_call_def Let_def cong: if_cong del: of_nat_add)
qed

lemma clean_ok:
  assumes "heap_inv s cs" "act s = Some a"
  shows "\<exists>b s'. clean s = Some (b, s') \<and> heap_inv s' (merge cs) \<and> blocks s' (merge cs) = blocks s cs \<and> act s' = act s \<and>
    heap_end s' = heap_end s \<and> heap_start s' = heap_start s \<and> kept (blocks s cs) (heap_mem s) (heap_mem s') \<and>
    (b \<longrightarrow> length (merge cs) < length cs)"
proof -
  have h: "length (heap_mem s) = HEAP_SIZE" "tiles (heap_mem s) (heap_start s) cs a" "a \<le> heap_end s" "heap_end s \<le> HEAP_SIZE"
    "actptr s = Some (int (heap_end s))" using assms by (auto simp: heap_inv_def)
  have "a \<le> length (heap_mem s)" "length (heap_mem s) < 2 ^ 28" using h by (simp_all add: HEAP_SIZE_def)
  from clean_loop_spec(1)[OF h(2) this, of False] obtain m' b where
    c: "clean_loop (heap_mem s) a (heap_start s) None False = Some (m', b)" "tiles m' (heap_start s) (merge cs) a"
      "length m' = length (heap_mem s)" "b \<longleftrightarrow> length (merge cs) < length cs"
      "\<forall>(p, n)\<in>live (heap_start s) cs. \<forall>j. p \<le> j \<and> j < p + n \<longrightarrow> m' ! j = heap_mem s ! j" by auto
  have "kept (blocks s cs) (heap_mem s) m'" using c(5) by (simp add: kept_def blocks_def)
  then show ?thesis using c h assms(2)
    by (intro exI[of _ b] exI[of _ "s\<lparr>heap_mem := m'\<rparr>"]) (simp add: clean_def heap_inv_def blocks_def merge_facts)
qed

lemma alloc_result_trans:
  assumes "alloc_result n s1 cs1 r s'" "blocks s1 cs1 = blocks s cs" "kept (blocks s cs) (heap_mem s) (heap_mem s1)"
  shows "alloc_result n s cs r s'"
  using assms(1) kept_trans[OF assms(3)] unfolding alloc_result_def assms(2) by blast

lemma malloc_ready:
  assumes "heap_inv s cs" "act s = Some a" "n + 4 < 2147483648" "a + 4 \<le> HEAP_SIZE"
  shows "\<exists>r s'. malloc s n = Some (r, s') \<and> alloc_result n s cs r s'"
  using assms(1,2)
proof (induction "length cs" arbitrary: s cs rule: less_induct)
  case less
  show ?case
  proof (cases "a + (n + 4) \<le> heap_end s")
    case True
    then show ?thesis using malloc_fresh[OF less.prems True] by blast
  next
    case False
    have h: "length (heap_mem s) = HEAP_SIZE" "tiles (heap_mem s) (heap_start s) cs a" "a \<le> heap_end s" "heap_end s \<le> HEAP_SIZE"
      "actptr s = Some (int (heap_end s))" using less.prems by (auto simp: heap_inv_def)
    have u: "heap_end s < a + (n + 4)" using False by simp
    note unf = malloc_unfold[OF less.prems(2) u assms(3)]
    obtain xs ys where x: "cs = xs @ ys" "search_loop (heap_mem s) a n (heap_start s) = Some (heap_start s + span xs)"
      "ys = [] \<or> (\<exists>l ys'. ys = (False, l) # ys' \<and> n \<le> l)"
      using search_loop_spec[OF h(2), of n] assms(4) h(1) by metis
    have ae: "a = heap_start s + span cs" by (rule tiles_end[OF h(2)])
    show ?thesis
    proof (cases ys)
      case (Cons y ys')
      then obtain l where l: "ys = (False, l) # ys'" "n \<le> l" using x(3) by auto
      then have "\<not> a \<le> heap_start s + span xs" using ae x(1) by simp
      then have "malloc s n = take_chunk s (heap_start s + span xs) n (n + 4)" unfolding unf x(2) by simp
      then show ?thesis using take_chunk_ok[OF less.prems, of xs l ys' n] l x(1) by auto
    next
      case Nil
      then have full: "a \<le> heap_start s + span xs" using ae x(1) by simp
      obtain b s1 where c: "clean s = Some (b, s1)" "heap_inv s1 (merge cs)" "blocks s1 (merge cs) = blocks s cs" "act s1 = Some a"
        "heap_end s1 = heap_end s" "heap_start s1 = heap_start s" "kept (blocks s cs) (heap_mem s) (heap_mem s1)"
        "b \<longrightarrow> length (merge cs) < length cs" using clean_ok[OF less.prems] less.prems(2) by auto
      have ap: "actptr s1 = Some (int (heap_end s))" using c(2,4,5) by (simp add: heap_inv_def)
      show ?thesis
      proof (cases b)
        case True
        then have "malloc s n = malloc s1 n" unfolding unf x(2) using full c(1) by simp
        then show ?thesis using less.hyps[OF _ c(2,4)] c(8) True alloc_result_trans[OF _ c(3,7)] by fastforce
      next
        case nb: False
        show ?thesis
        proof (cases "heap_end s + (n + 4) \<le> HEAP_SIZE")
          case True
          let ?s = "s1\<lparr>actptr := Some (int (heap_end s) + int (n + 4)), heap_end := heap_end s + (n + 4)\<rparr>"
          have "malloc s n = malloc ?s n"
            unfolding unf x(2) using full c(1,5) nb True ap by (simp add: sbrk_def Let_def)
          moreover have "heap_inv ?s (merge cs)" using c(2,4,5) True by (simp add: heap_inv_def)
          moreover have "alloc_result n s cs r s'" if "alloc_result n ?s (merge cs) r s'" for r s'
            using that by (rule alloc_result_trans) (simp_all add: c(6,7)[unfolded blocks_def] blocks_def merge_facts)
          ultimately show ?thesis using malloc_fresh[of ?s "merge cs" a n] c(4) h(3) by fastforce
        next
          case False
          let ?s = "s1\<lparr>actptr := Some (int (heap_end s))\<rparr>"
          have "malloc s n = Some (None, ?s)"
            unfolding unf x(2) using full c(1,5) nb False ap by (simp add: sbrk_def Let_def)
          moreover have "heap_inv ?s (merge cs)" "blocks ?s (merge cs) = blocks s cs" using c(2,3,4,5) by (simp_all add: heap_inv_def blocks_def)
          ultimately show ?thesis using c(7) by (auto simp: alloc_result_def)
        qed
      qed
    qed
  qed
qed

lemma live_split: "(p, n) \<in> live a cs \<Longrightarrow> \<exists>xs ys. cs = xs @ (True, n) # ys \<and> p = a + span xs + 4"
proof (induction cs arbitrary: a)
  case (Cons c cs)
  obtain u l where c: "c = (u, l)" by fastforce
  show ?case
  proof (cases "u \<and> p = a + 4 \<and> n = l")
    case True
    then show ?thesis using c by (intro exI[of _ "[]"] exI[of _ cs]) simp
  next
    case False
    then have "(p, n) \<in> live (a + 4 + l) cs" using Cons.prems c by (auto split: if_splits)
    then obtain xs ys where "cs = xs @ (True, n) # ys" "p = a + 4 + l + span xs + 4" using Cons.IH by blast
    then show ?thesis using c by (intro exI[of _ "c # xs"] exI[of _ ys]) simp
  qed
qed simp

lemma live_header: "(q, k) \<in> live a (xs @ c # ys) \<Longrightarrow> q + k \<le> a + span xs \<or> a + span xs + 4 \<le> q"
  by (cases c) (auto simp: live_append dest!: live_range split: if_splits)

lemma s32_of_negative: "2147483648 \<le> n \<Longrightarrow> n < 4294967296 \<Longrightarrow> s32_of (int n) < 0"
proof -
  assume n: "2147483648 \<le> n" "n < 4294967296"
  have "(int n + 2147483648) mod 4294967296 = (int n - 2147483648 + 4294967296) mod 4294967296" by (simp add: add.commute)
  also have "\<dots> = int n - 2147483648" using n unfolding mod_add_self2 by (intro mod_pos_pos_trivial) auto
  finally show ?thesis using n unfolding s32_of_def by simp
qed

text \<open>The size of the initial region.\<close>

lemma round_page:
  defines "i \<equiv> \<lambda>b :: nat. (b + 4096) div 4096 * 4096"
  shows "b < i b" "i b \<le> b + 4096"
proof -
  have "(b + 4096) div 4096 * 4096 + (b + 4096) mod 4096 = b + 4096" by (rule div_mult_mod_eq)
  moreover have "(b + 4096) mod 4096 < 4096" by simp
  ultimately show "b < i b" "i b \<le> b + 4096" unfolding i_def by linarith+
qed

text \<open>The first call.\<close>

lemma malloc_first:
  assumes inv: "heap_inv s cs" "act s = None" and n: "n + 4 + 4096 < 2 ^ 31"
  shows "\<exists>r s'. malloc s n = Some (r, s') \<and> alloc_result n s cs r s'"
proof -
  let ?i = "(n + 4 + 4096) div 4096 * 4096"
  have s: "cs = []" "actptr s = None \<or> actptr s = Some 0" "length (heap_mem s) = HEAP_SIZE" using inv by (auto simp: heap_inv_def)
  have b: "(n + 4) mod 18446744073709551616 = n + 4" "(n + 4 + 4096) mod 18446744073709551616 = n + 4 + 4096"
    using n by (simp_all add: mod_less)
  have "n + 4 + 4096 < 2147483648" using n by simp
  then have i: "n + 4 < ?i" "?i < 2147483648" using round_page[of "n + 4"] by linarith+
  have s32: "s32_of (int ?i) = int ?i" by (rule s32_of_small[OF i(2)])
  have p: "(case actptr s of None \<Rightarrow> 0 | Some p \<Rightarrow> p) = 0" using s(2) by auto
  show ?thesis
  proof (cases "?i \<le> HEAP_SIZE")
    case True
    let ?s = "s\<lparr>actptr := Some (int ?i), heap_start := 0, heap_end := ?i, act := Some 0\<rparr>"
    have "first_call s (n + 4) = (True, ?s)"
      using inv(2) b(2) s32 p True by (simp add: first_call_def sbrk_def Let_def)
    moreover have "first_call ?s (n + 4) = (True, ?s)" by (simp add: first_call_def)
    ultimately have "malloc s n = malloc ?s n" using b(1) by (subst (1 2) malloc.simps) simp
    moreover have "heap_inv ?s []" using s(3) True by (simp add: heap_inv_def)
    then obtain r s' where "malloc ?s n = Some (Some r, s')" "alloc_result n ?s [] (Some r) s'" using malloc_fresh[of ?s "[]" 0 n] i(1) by auto
    ultimately show ?thesis using s(1) by (auto simp: alloc_result_def blocks_def kept_def)
  next
    case False
    let ?s = "s\<lparr>actptr := Some 0\<rparr>"
    have "first_call s (n + 4) = (False, ?s)" using inv(2) b(2) s32 p False by (simp add: first_call_def sbrk_def Let_def)
    then have "malloc s n = Some (None, ?s)" using b(1) by (subst malloc.simps) simp
    moreover have "alloc_result n s cs None ?s" using s inv(2) by (auto simp: alloc_result_def heap_inv_def blocks_def)
    ultimately show ?thesis by blast
  qed
qed

lemma free_ok:
  assumes inv: "heap_inv s cs" and p: "(p, n) \<in> blocks s cs"
  shows "\<exists>s' cs'. free s (Some p) = Some s' \<and> heap_inv s' cs' \<and> blocks s' cs' = blocks s cs - {(p, n)} \<and>
    kept (blocks s cs) (heap_mem s) (heap_mem s')"
proof -
  obtain a where a: "act s = Some a" using inv p by (cases "act s") (auto simp: heap_inv_def blocks_def)
  let ?m = "heap_mem s"
  have h: "length ?m = HEAP_SIZE" "tiles ?m (heap_start s) cs a" "a \<le> heap_end s" "heap_end s \<le> HEAP_SIZE" "actptr s = Some (int (heap_end s))"
    using inv a by (auto simp: heap_inv_def)
  obtain xs ys where x: "cs = xs @ (True, n) # ys" "p = heap_start s + span xs + 4"
    using p live_split unfolding blocks_def by blast
  let ?h = "heap_start s + span xs"
  have t: "tiles ?m (heap_start s) xs ?h" "tiles ?m (?h + 4 + n) ys a" using h(2) unfolding x(1) tiles_append by auto
  obtain w where w: "rd32 ?m ?h = Some w" "chunk_length w = n" using h(2) unfolding x(1) tiles_append by auto
  obtain m1 w1 where m: "put_inuse ?m ?h 0 = Some m1" "rd32 m1 ?h = Some w1" "chunk_inuse w1 = 0" "chunk_length w1 = n"
    "length m1 = length ?m" "\<forall>j. j < ?h \<or> ?h + 4 \<le> j \<longrightarrow> m1 ! j = ?m ! j"
    using put_inuse_ok[OF w(1), of 0] w(2) by auto
  let ?s = "s\<lparr>heap_mem := m1\<rparr>" and ?cs = "xs @ (False, n) # ys"
  have "tiles m1 (heap_start s) xs ?h" using tiles_cong[OF t(1), of m1] m(5,6) by auto
  moreover have "tiles m1 (?h + 4 + n) ys a" using tiles_cong[OF t(2), of m1] m(5,6) by auto
  ultimately have "tiles m1 (heap_start s) ?cs a" unfolding tiles_append using m(2-4) by auto
  then have "heap_inv ?s ?cs" using h a m(5) by (simp add: heap_inv_def)
  moreover have "(p, n) \<notin> live (heap_start s) xs" "(p, n) \<notin> live (?h + 4 + n) ys"
    using live_range[of p n] x(2) by (fastforce, fastforce)
  then have "blocks ?s ?cs = blocks s cs - {(p, n)}" by (auto simp: blocks_def live_append x)
  moreover have "kept (blocks s cs) ?m m1"
    using m(6) live_header[of _ _ "heap_start s" xs "(True, n)" ys] by (intro kept_outside[of ?h "?h + 4"]) (auto simp: blocks_def x(1))
  moreover have "free s (Some p) = Some ?s" using m(1) x(2) by (simp add: free_def)
  ultimately show ?thesis by auto
qed

text \<open>A client writes its own block.\<close>

lemma live_word: "tiles m a cs e \<Longrightarrow> (p, n) \<in> live a cs \<Longrightarrow> \<exists>w. rd32 m (p - 4) = Some w \<and> chunk_length w = n"
  by (auto dest!: live_split simp: tiles_append)

lemma tiles_write:
  assumes t: "tiles m a cs e" and q: "(q, l) \<in> live a cs"
    and m': "length m' = length m" "\<And>j. j < q \<or> q + l \<le> j \<Longrightarrow> m' ! j = m ! j"
  shows "tiles m' a cs e"
proof -
  obtain xs ys where x: "cs = xs @ (True, l) # ys" "q = a + span xs + 4" using live_split[OF q] by blast
  obtain w where w: "rd32 m (a + span xs) = Some w" "chunk_inuse w \<noteq> 0" "chunk_length w = l"
    "tiles m a xs (a + span xs)" "tiles m (a + span xs + 4 + l) ys e" using t unfolding x(1) tiles_append by auto
  have "rd32 m' (a + span xs) = Some w" using rd32_cong[OF m'(1), of "a + span xs"] m'(2) x(2) w(1) by simp
  moreover have "tiles m' a xs (a + span xs)" using tiles_cong[OF w(4) m'(1)] m'(2) x(2) by simp
  moreover have "tiles m' (a + span xs + 4 + l) ys e" using tiles_cong[OF w(5) m'(1)] m'(2) x(2) by simp
  ultimately show ?thesis unfolding x(1) tiles_append using w(2,3) by simp
qed

lemma blocks_act: "heap_inv s cs \<Longrightarrow> b \<in> blocks s cs \<Longrightarrow> \<exists>a. act s = Some a"
  by (cases "act s") (auto simp: heap_inv_def blocks_def)

lemma heap_inv_write:
  assumes inv: "heap_inv s cs" and q: "(q, l) \<in> blocks s cs"
    and m': "length m' = length (heap_mem s)" "\<And>j. j < q \<or> q + l \<le> j \<Longrightarrow> m' ! j = heap_mem s ! j"
  shows "heap_inv (s\<lparr>heap_mem := m'\<rparr>) cs"
proof -
  obtain a where a: "act s = Some a" using blocks_act[OF inv q] by blast
  then show ?thesis using inv m'(1) tiles_write[OF _ _ m', of "heap_start s" cs a] q by (simp add: heap_inv_def blocks_def)
qed

lemma heap_inv_block:
  assumes "heap_inv s cs" "(p, k) \<in> blocks s cs"
  shows "\<exists>w. rd32 (heap_mem s) (p - 4) = Some w \<and> chunk_length w = k" "4 \<le> p" "p + k \<le> length (heap_mem s)" "length (heap_mem s) = HEAP_SIZE"
proof -
  obtain a where a: "act s = Some a" using blocks_act[OF assms] by blast
  have t: "tiles (heap_mem s) (heap_start s) cs a" "a \<le> HEAP_SIZE" "length (heap_mem s) = HEAP_SIZE" using assms(1) a by (auto simp: heap_inv_def)
  have p: "(p, k) \<in> live (heap_start s) cs" using assms(2) by (simp add: blocks_def)
  show "\<exists>w. rd32 (heap_mem s) (p - 4) = Some w \<and> chunk_length w = k" by (rule live_word[OF t(1) p])
  show "4 \<le> p" "p + k \<le> length (heap_mem s)" "length (heap_mem s) = HEAP_SIZE" using live_range[OF p] tiles_end[OF t(1)] t by auto
qed

lemma alloc_result_SomeE:
  assumes "alloc_result n s cs (Some q) s'"
  obtains l cs' where "heap_inv s' cs'" "kept (blocks s cs) (heap_mem s) (heap_mem s')" "n \<le> l" "blocks s' cs' = insert (q, l) (blocks s cs)"
    "q + l \<le> HEAP_SIZE" "\<And>p k. (p, k) \<in> blocks s cs \<Longrightarrow> q + l \<le> p \<or> p + k + 4 \<le> q"
  using assms unfolding alloc_result_def option.case by (elim exE conjE) (rule that, assumption+, blast)

lemma nth_beyond: "length xs = length ys \<Longrightarrow> length xs \<le> j \<Longrightarrow> xs ! j = ys ! j"
  by (induction xs ys arbitrary: j rule: list_induct2) (auto simp: nth_Cons split: nat.split)

lemma malloc_ok:
  assumes "heap_inv s cs" "n + 4 + 4096 < 2 ^ 31" "case act s of None \<Rightarrow> True | Some a \<Rightarrow> a + 4 \<le> HEAP_SIZE"
  shows "\<exists>r s'. malloc s n = Some (r, s') \<and> alloc_result n s cs r s'"
  using malloc_first[OF assms(1) _ assms(2)] malloc_ready[OF assms(1), of _ n] assms(2,3) by (cases "act s") auto

lemma realloc_ok:
  assumes inv: "heap_inv s cs" and p: "(p, k) \<in> blocks s cs" and grow: "k < n"
    and m: "malloc s n = Some (Some q, s1)" "alloc_result n s cs (Some q) s1"
  shows "\<exists>s' cs' l. realloc s (Some p) n = Some (Some q, s') \<and> heap_inv s' cs' \<and> n \<le> l \<and>
    blocks s' cs' = insert (q, l) (blocks s cs - {(p, k)}) \<and> kept (blocks s cs - {(p, k)}) (heap_mem s) (heap_mem s') \<and>
    (\<forall>i<k. heap_mem s' ! (q + i) = heap_mem s ! (p + i))"
proof -
  obtain l cs1 where r: "heap_inv s1 cs1" "kept (blocks s cs) (heap_mem s) (heap_mem s1)" "n \<le> l" "blocks s1 cs1 = insert (q, l) (blocks s cs)"
    "q + l \<le> HEAP_SIZE" "\<And>p k. (p, k) \<in> blocks s cs \<Longrightarrow> q + l \<le> p \<or> p + k + 4 \<le> q" by (rule alloc_result_SomeE[OF m(2)]) (rule that)
  note h0 = heap_inv_block[OF inv p]
  have p1: "(p, k) \<in> blocks s1 cs1" using p r(4) by simp
  note h1 = heap_inv_block[OF r(1) p1]
  obtain w w1 where w: "rd32 (heap_mem s) (p - 4) = Some w" "chunk_length w = k" "rd32 (heap_mem s1) (p - 4) = Some w1" "chunk_length w1 = k"
    using h0(1) h1(1) by blast
  obtain m2 where m2: "copy_up (heap_mem s1) q p k = Some m2" "length m2 = length (heap_mem s1)"
    "\<forall>j<length (heap_mem s1). m2 ! j = (if q \<le> j \<and> j < q + k then heap_mem s1 ! (p + (j - q)) else heap_mem s1 ! j)"
  proof -
    have "q + k \<le> length (heap_mem s1)" "q \<le> p \<or> p + k \<le> q" using h1(4) r(3,5) r(6)[OF p] grow by linarith+
    then show ?thesis using copy_up_spec[OF h1(3)] that by blast
  qed
  let ?s2 = "s1\<lparr>heap_mem := m2\<rparr>"
  have old: "m2 ! j = heap_mem s1 ! j" if "j < q \<or> q + l \<le> j" for j
  proof (cases "j < length m2")
    case True
    moreover have "\<not> (q \<le> j \<and> j < q + k)" using that grow r(3) by linarith
    ultimately show ?thesis using m2(2,3) by (simp only: if_False simp_thms)
  next
    case False
    then show ?thesis using nth_beyond[OF m2(2)] by simp
  qed
  have inv2: "heap_inv ?s2 cs1" using heap_inv_write[OF r(1), of q l m2] r(4) m2(2) old by blast
  have b2: "blocks ?s2 cs1 = insert (q, l) (blocks s cs)" using r(4) by (simp add: blocks_def)
  then obtain s3 cs3 where f: "free ?s2 (Some p) = Some s3" "heap_inv s3 cs3" "blocks s3 cs3 = insert (q, l) (blocks s cs) - {(p, k)}"
    "kept (insert (q, l) (blocks s cs)) m2 (heap_mem s3)" using free_ok[OF inv2, of p k] p by auto
  obtain m3 where m3: "put_inuse m2 (p - 4) 0 = Some m3" "s3 = s1\<lparr>heap_mem := m3\<rparr>"
    using f(1) h0(2) by (auto simp: free_def bind_eq_Some_conv)
  have "realloc s (Some p) n = Some (Some q, s3)"
    using h0(2) w m(1) m2(1) m3 grow by (simp add: realloc_def)
  moreover have "(q, l) \<notin> {(p, k)}" using grow r(3) by simp
  then have "blocks s3 cs3 = insert (q, l) (blocks s cs - {(p, k)})" unfolding f(3) insert_Diff_if by (simp only: if_False)
  moreover have "heap_mem s3 ! j = heap_mem s ! j" if "(x, y) \<in> blocks s cs" "x \<le> j" "j < x + y" for x y j
  proof -
    have "heap_mem s3 ! j = m2 ! j" using keptD[OF f(4)] that by blast
    also have "\<dots> = heap_mem s1 ! j" using r(6)[OF that(1)] that(2,3) by (intro old) auto
    also have "\<dots> = heap_mem s ! j" using keptD[OF r(2)] that by blast
    finally show ?thesis .
  qed
  moreover have "heap_mem s3 ! (q + i) = heap_mem s ! (p + i)" if "i < k" for i
  proof -
    have "heap_mem s3 ! (q + i) = m2 ! (q + i)" using keptD[OF f(4), of q l "q + i"] that grow r(3) by simp
    also have "\<dots> = heap_mem s1 ! (p + i)" using m2(3) that grow r(3,5) h1(4) by simp
    also have "\<dots> = heap_mem s ! (p + i)" using keptD[OF r(2) p, of "p + i"] that by simp
    finally show ?thesis .
  qed
  ultimately show ?thesis using f(2) r(3) unfolding kept_def by blast
qed

text \<open>A heap with one block of eight bytes, for the witnesses.\<close>

definition one_block :: heap_state where
  "one_block = \<lparr>heap_mem = [0x10, 0, 0, 8] @ replicate 2097148 0, actptr = Some 4096, act = Some 12, heap_start = 0, heap_end = 4096\<rparr>"

lemma one_block_inv: "heap_inv one_block [(True, 8)]" "blocks one_block [(True, 8)] = {(4, 8)}" "act one_block = Some 12"
proof -
  have "rd32 (heap_mem one_block) 0 = Some 0x10000008" by (simp add: one_block_def rd32_def) code_simp
  then show "heap_inv one_block [(True, 8)]"
    by (simp add: heap_inv_def one_block_def chunk_inuse_def chunk_length_def HEAP_SIZE_def)
  show "blocks one_block [(True, 8)] = {(4, 8)}" "act one_block = Some 12" by (simp_all add: blocks_def one_block_def)
qed

section \<open>Properties\<close>



text \<open>\<open>free\<close> releases exactly its block: the block is no longer in use, all others are, and no byte of a block
  changes.\<close>

theorem free_correct:
  assumes "heap_inv s cs" "(p, n) \<in> blocks s cs"
  shows "\<exists>s' cs'. free s (Some p) = Some s' \<and> heap_inv s' cs' \<and> blocks s' cs' = blocks s cs - {(p, n)} \<and>
    kept (blocks s cs) (heap_mem s) (heap_mem s')"
  using free_ok[OF assms] .

theorem free_correct_witness: "\<exists>s' cs'. free one_block (Some 4) = Some s' \<and> heap_inv s' cs' \<and> blocks s' cs' = {}"
  using free_correct[OF one_block_inv(1), of 4 8] unfolding one_block_inv(2) by auto



text \<open>The first request for more than 2 GiB succeeds: the \<open>size_t\<close> passed to \<open>sbrk\<close> becomes a negative \<open>int\<close>, so
  \<open>malloc\<close> returns a pointer into the heap of 2 MiB for a block that does not fit.\<close>

theorem malloc_huge_request:
  assumes "length (heap_mem s) = HEAP_SIZE" "act s = None" "actptr s = None" "2 ^ 31 \<le> n" "n + 4 + 4096 < 2 ^ 32"
  shows "\<exists>s'. malloc s n = Some (Some 4, s') \<and> HEAP_SIZE < n"
proof -
  let ?i = "(n + 4 + 4096) div 4096 * 4096"
  have b: "(n + 4) mod 18446744073709551616 = n + 4" "(n + 4 + 4096) mod 18446744073709551616 = n + 4 + 4096"
    using assms(5) by (simp_all add: mod_less)
  have "2147483648 \<le> n" "n + 4 + 4096 < 4294967296" using assms(4,5) by simp_all
  then have i: "n + 4 < ?i" "?i < 4294967296" "2147483648 \<le> ?i" using round_page[of "n + 4"] by linarith+
  have "s32_of (int ?i) < 0" by (rule s32_of_negative[OF i(3,2)])
  then have f: "first_call s (n + 4) = (True, s\<lparr>actptr := Some (s32_of (int ?i)), heap_start := 0, heap_end := ?i, act := Some 0\<rparr>)"
    using assms(2,3) b(2) by (simp add: first_call_def sbrk_def Let_def HEAP_SIZE_def)
  obtain w where w: "rd32 (heap_mem s) 0 = Some w" using assms(1) by (simp add: rd32_def HEAP_SIZE_def)
  obtain m1 w1 where m1: "put_inuse (heap_mem s) 0 1 = Some m1" "rd32 m1 0 = Some w1" using put_inuse_ok[OF w, of 1] by auto
  obtain m2 where "put_length m1 0 n = Some m2" using put_word[OF m1(2), of "set_length w1 n"] m1(2) by (auto simp: put_length_def)
  then have "malloc s n = Some (Some 4, s\<lparr>actptr := Some (s32_of (int ?i)), heap_start := 0, heap_end := ?i, act := Some (n + 4), heap_mem := m2\<rparr>)"
    using i(1) m1(1) f b(1) by (subst malloc.simps) (simp add: Let_def)
  then show ?thesis using assms(4) by (simp add: HEAP_SIZE_def)
qed

theorem malloc_huge_request_witness: "\<exists>s'. malloc (heap_init (replicate HEAP_SIZE 0)) 3000000000 = Some (Some 4, s')"
  using malloc_huge_request[of "heap_init (replicate HEAP_SIZE 0)" 3000000000] by (simp add: heap_init_def)

end
