(* ===== verification/Byte_Store.thy ===== *)
theory Byte_Store
  imports Prelude
begin

section \<open>Interface: a bounded store of bytes\<close>

text \<open>
  The contract the environment-variable code has with the NVRAM access functions: inside the
  store's size a write is seen by the reads at its offset and by no other read, and no write
  changes the size or breaks the store's invariant. The lemmas are about the copy loops
  \<open>for (i = 0; i < n; i++) write(base + i, f(i))\<close> of the clients.
\<close>

locale byte_store =
  fixes rd :: "'s \<Rightarrow> int \<Rightarrow> u8"
    and wr :: "'s \<Rightarrow> int \<Rightarrow> u8 \<Rightarrow> 's"
    and store_size :: "'s \<Rightarrow> int"
    and invar :: "'s \<Rightarrow> bool"
  assumes rd_wr: "invar s \<Longrightarrow> 0 \<le> i \<Longrightarrow> i < store_size s \<Longrightarrow> 0 \<le> j \<Longrightarrow> j < store_size s \<Longrightarrow>
      rd (wr s i v) j = (if j = i then v else rd s j)"
    and size_wr: "store_size (wr s i v) = store_size s"
    and invar_wr: "invar s \<Longrightarrow> invar (wr s i v)"
begin

lemma size_fill: "store_size (fold (\<lambda>i s. wr s (base + int i) (f i)) [0..<n] s) = store_size s"
  by (induction n) (auto simp: size_wr)

lemma invar_fill: "invar s \<Longrightarrow> invar (fold (\<lambda>i s. wr s (base + int i) (f i)) [0..<n] s)"
  by (induction n) (auto simp: invar_wr)

lemma rd_fill:
  assumes "invar s" and "0 \<le> base" and "base + int n \<le> store_size s" and "0 \<le> j" and "j < store_size s"
  shows "rd (fold (\<lambda>i s. wr s (base + int i) (f i)) [0..<n] s) j =
    (if base \<le> j \<and> j < base + int n then f (nat (j - base)) else rd s j)"
  using assms(3)
proof (induction n)
  case 0
  then show ?case by auto
next
  case (Suc n)
  let ?t = "fold (\<lambda>i s. wr s (base + int i) (f i)) [0..<n] s"
  have "rd (wr ?t (base + int n) (f n)) j = (if j = base + int n then f n else rd ?t j)"
    using Suc.prems assms by (intro rd_wr) (auto simp: size_fill intro: invar_fill)
  then show ?case
    using Suc by auto
qed

lemmas fill_facts = size_fill invar_fill rd_fill

end

end
