(* ===== verification/Nvram.thy ===== *)
theory Nvram
  imports Libc_String Byte_Store
begin

section \<open>NVRAM partitions (\<open>src/lib/libnvram/nvram.c\<close>)\<close>

text \<open>
  The configuration modelled is the memory-mapped NVRAM of board-js2x (neither \<open>RTAS_NVRAM\<close>
  nor \<open>DISABLE_NVRAM\<close>). The NVRAM is a sequence of partitions, each with a 16-byte header:
  type, checksum, length in blocks of 16 bytes (header included), name (12 bytes). Offsets and
  lengths are \<open>int\<close>, with the C conversions written out. A loop that may not end is a
  \<open>partial_function\<close>: \<open>None\<close> is a call that does not return (or a string that is read
  behind its end).
\<close>

subsection \<open>State and access functions\<close>

record nvram =
  nv_mem :: "int \<Rightarrow> u8"
  NVRAM_LENGTH :: int
  nvram_buffer :: "int \<Rightarrow> u8"
  nvram_buffer_locked :: u8

record partition_t =
  part_addr :: int
  part_len :: int

definition nvram_read_byte :: "nvram \<Rightarrow> int \<Rightarrow> u8" where
  "nvram_read_byte s offset = (let p = u32_of offset in
     if p > u64_of (NVRAM_LENGTH s - 1) then 0 else nv_mem s p)"

definition nvram_read_word :: "nvram \<Rightarrow> int \<Rightarrow> u16" where
  "nvram_read_word s offset = (let p = u32_of offset in
     if p > u64_of (NVRAM_LENGTH s - 2) then 0 else cat16 (nv_mem s p) (nv_mem s (p + 1)))"

definition nvram_read_dword :: "nvram \<Rightarrow> int \<Rightarrow> u32" where
  "nvram_read_dword s offset = (let p = u32_of offset in
     if p > u64_of (NVRAM_LENGTH s - 4) then 0
     else cat32 (cat16 (nv_mem s p) (nv_mem s (p + 1))) (cat16 (nv_mem s (p + 2)) (nv_mem s (p + 3))))"

definition nvram_write_byte :: "nvram \<Rightarrow> int \<Rightarrow> u8 \<Rightarrow> nvram" where
  "nvram_write_byte s offset data = (let p = u32_of offset in
     if p > u64_of (NVRAM_LENGTH s - 1) then s else s\<lparr>nv_mem := (nv_mem s)(p := data)\<rparr>)"

definition nvram_write_word :: "nvram \<Rightarrow> int \<Rightarrow> u16 \<Rightarrow> nvram" where
  "nvram_write_word s offset data = (let p = u32_of offset in
     if p > u64_of (NVRAM_LENGTH s - 2) then s
     else s\<lparr>nv_mem := (nv_mem s)(p := hi8 data, p + 1 := lo8 data)\<rparr>)"

definition nvram_write_dword :: "nvram \<Rightarrow> int \<Rightarrow> u32 \<Rightarrow> nvram" where
  "nvram_write_dword s offset data = (let p = u32_of offset in
     if p > u64_of (NVRAM_LENGTH s - 4) then s
     else s\<lparr>nv_mem := (nv_mem s)(p := hi8 (hi16 data), p + 1 := lo8 (hi16 data),
                              p + 2 := hi8 (lo16 data), p + 3 := lo8 (lo16 data))\<rparr>)"

definition nvram_read_qword :: "nvram \<Rightarrow> int \<Rightarrow> u64" where
  "nvram_read_qword s offset = (let p = u32_of offset; b = (\<lambda>i. nv_mem s (p + i)) in
     if p > u64_of (NVRAM_LENGTH s - 8) then 0
     else cat64 (cat32 (cat16 (b 0) (b 1)) (cat16 (b 2) (b 3))) (cat32 (cat16 (b 4) (b 5)) (cat16 (b 6) (b 7))))"

definition nvram_write_qword :: "nvram \<Rightarrow> int \<Rightarrow> u64 \<Rightarrow> nvram" where
  "nvram_write_qword s offset data =
     (let p = u32_of offset; h = hi32 data; l = lo32 data in
      if p > u64_of (NVRAM_LENGTH s - 8) then s
      else s\<lparr>nv_mem := (nv_mem s)(p := hi8 (hi16 h), p + 1 := lo8 (hi16 h), p + 2 := hi8 (lo16 h),
             p + 3 := lo8 (lo16 h), p + 4 := hi8 (hi16 l), p + 5 := lo8 (hi16 l),
             p + 6 := hi8 (lo16 l), p + 7 := lo8 (lo16 l))\<rparr>)"

text \<open>The buffer: \<open>True\<close> is the pointer \<open>nvram_buffer\<close>, \<open>False\<close> is \<open>NULL\<close>.\<close>

definition get_nvram_buffer :: "nvram \<Rightarrow> int \<Rightarrow> bool \<times> nvram" where
  "get_nvram_buffer s l =
     (if u32_of l > NVRAM_LENGTH s then (False, s)
      else if nvram_buffer_locked s \<noteq> 0 then (False, s)
      else (True, s\<lparr>nvram_buffer_locked := 0xff\<rparr>))"

definition free_nvram_buffer :: "nvram \<Rightarrow> nvram" where
  "free_nvram_buffer s = s\<lparr>nvram_buffer_locked := 0\<rparr>"

text \<open>
  \<open>nvramlog_printf\<close> hands each character of the formatted message to \<open>asm_cout\<close>, which is
  assembly code (\<open>llfw/nvramlog.S\<close>) and a parameter here. The message is given as the bytes that
  \<open>vsprintf\<close> produces.
\<close>

definition nvramlog_printf :: "(u8 \<Rightarrow> nvram \<Rightarrow> nvram) \<Rightarrow> bytes \<Rightarrow> nvram \<Rightarrow> nvram" where
  "nvramlog_printf asm_cout buff s = fold asm_cout buff s"

subsection \<open>Partition headers\<close>

definition get_partition_type :: "nvram \<Rightarrow> int \<Rightarrow> u8" where
  "get_partition_type s offset = nvram_read_byte s offset"

definition get_partition_header_checksum :: "nvram \<Rightarrow> int \<Rightarrow> u8" where
  "get_partition_header_checksum s offset = nvram_read_byte s (offset + 1)"

definition get_partition_len :: "nvram \<Rightarrow> int \<Rightarrow> u16" where
  "get_partition_len s offset = nvram_read_word s (offset + 2)"

definition get_partition_name :: "nvram \<Rightarrow> int \<Rightarrow> bytes" where
  "get_partition_name s offset = map (\<lambda>i. nvram_read_byte s (offset + 4 + int i)) [0..<12]"

definition calc_partition_header_checksum :: "nvram \<Rightarrow> int \<Rightarrow> u8" where
  "calc_partition_header_checksum s offset =
     (let plainsum = fold (\<lambda>i sum. sum + ucast (nvram_read_byte s (offset + int i))) [2..<16]
            (ucast (nvram_read_byte s offset) :: u16)
      in ucast (drop_bit 8 plainsum + (plainsum AND 0xff)))"

partial_function (option) calc_used_loop :: "nvram \<Rightarrow> int \<Rightarrow> int option" where
  "calc_used_loop s walk =
     (if walk < NVRAM_LENGTH s then
        if nvram_read_byte s walk = 0
           \<or> get_partition_header_checksum s walk \<noteq> calc_partition_header_checksum s walk
        then Some walk
        else if get_partition_len s walk = 0 then Some walk
        else calc_used_loop s (u32_of (walk + uint (get_partition_len s walk) * 16))
      else Some walk)"

definition calc_used_nvram_space :: "nvram \<Rightarrow> int option" where
  "calc_used_nvram_space s = calc_used_loop s 0"

text \<open>
  \<open>type\<close> is an \<open>unsigned int\<close> (\<open>-1\<close> is \<open>0xFFFFFFFF\<close>); a \<open>NULL\<close> name is \<open>None\<close>. The
  length of the result is computed in \<open>unsigned int\<close> and then converted to \<open>long\<close>.
\<close>

partial_function (option) get_partition_loop ::
    "nvram \<Rightarrow> int \<Rightarrow> bytes option \<Rightarrow> int \<Rightarrow> partition_t option" where
  "get_partition_loop s ty name walk =
     (if walk < NVRAM_LENGTH s then
        if get_partition_header_checksum s walk \<noteq> calc_partition_header_checksum s walk
        then Some \<lparr>part_addr = 0, part_len = -1\<rparr>
        else if ty \<noteq> 0 \<and> get_partition_len s walk = 0 then Some \<lparr>part_addr = 0, part_len = -1\<rparr>
        else do {
          differs \<leftarrow> (if ty \<noteq> 0xFFFFFFFF \<and> ty \<noteq> uint (get_partition_type s walk) then Some True
                     else case name of
                            None \<Rightarrow> Some False
                          | Some n \<Rightarrow> map_option (\<lambda>r. r \<noteq> 0) (strncmp (get_partition_name s walk) n 12));
          if differs then get_partition_loop s ty name (u32_of (walk + uint (get_partition_len s walk) * 16))
          else Some \<lparr>part_addr = u32_of (walk + 16), part_len = u32_of (uint (get_partition_len s walk) * 16 - 16)\<rparr>
        }
      else Some \<lparr>part_addr = 0, part_len = -1\<rparr>)"

definition get_partition :: "nvram \<Rightarrow> int \<Rightarrow> bytes option \<Rightarrow> partition_t option" where
  "get_partition s ty name = get_partition_loop s (u32_of ty) name 0"

definition get_partition_fs :: "nvram \<Rightarrow> bytes \<Rightarrow> nat \<Rightarrow> partition_t option" where
  "get_partition_fs s name namelen =
     do { buf \<leftarrow> memcpy (replicate (namelen + 1) 0) name namelen;
          buf' \<leftarrow> wr8 buf namelen 0;
          get_partition s (-1) (Some buf') }"

subsection \<open>Erasing\<close>

definition erase_nvram :: "nvram \<Rightarrow> int \<Rightarrow> int \<Rightarrow> nvram" where
  "erase_nvram s offset l = fold (\<lambda>i s. nvram_write_byte s (offset + int i) 0) [0..<nat l] s"

definition wipe_nvram :: "nvram \<Rightarrow> nvram" where
  "wipe_nvram s = erase_nvram s 0 (NVRAM_LENGTH s)"

definition wipe_partition :: "nvram \<Rightarrow> partition_t \<Rightarrow> bool \<Rightarrow> nvram" where
  "wipe_partition s pt header_only =
     (let pstart = s32_of (part_addr pt - 16);
          l = (if header_only then 16 else s32_of (16 + part_len pt))
      in erase_nvram s pstart l)"

definition clear_nvram_partition :: "nvram \<Rightarrow> partition_t \<Rightarrow> int \<times> nvram" where
  "clear_nvram_partition s part =
     (if part_addr part = 0 then (0, s) else (1, erase_nvram s (s32_of (part_addr part)) (s32_of (part_len part))))"

subsection \<open>Creating, deleting and growing partitions\<close>

text \<open>\<open>ALIGN(len + PARTITION_HEADER_SIZE, 16)\<close> in \<open>unsigned int\<close>.\<close>

definition part_plen :: "int \<Rightarrow> int" where
  "part_plen l = u32_of (l + 16 + 15) div 16 * 16"

definition create_nvram_partition ::
    "nvram \<Rightarrow> int \<Rightarrow> bytes \<Rightarrow> int \<Rightarrow> (partition_t \<times> nvram) option" where
  "create_nvram_partition s ty name l0 =
     do { let l = u32_of l0;
          let plen = part_plen l;
          offset \<leftarrow> calc_used_nvram_space s;
          if u32_of (NVRAM_LENGTH s - offset) < plen then Some (\<lparr>part_addr = 0, part_len = 0\<rparr>, s)
          else do {
            n \<leftarrow> strlen name;
            let s1 = nvram_write_byte s offset (word_of_int ty);
            let s2 = nvram_write_word s1 (offset + 2) (word_of_int (plen div 16));
            let s3 = fold (\<lambda>i s. nvram_write_byte s (offset + 4 + int i) (name ! i)) [0..<unat n] s2;
            let s4 = nvram_write_byte s3 (offset + 1) (calc_partition_header_checksum s3 offset);
            Some (\<lparr>part_addr = u32_of (offset + 16), part_len = l\<rparr>, s4)
          } }"

text \<open>The name \<open>"free space"\<close> with its terminator.\<close>

definition free_space_name :: bytes where
  "free_space_name = [102, 114, 101, 101, 32, 115, 112, 97, 99, 101, 0]"

definition create_free_partition :: "nvram \<Rightarrow> (bool \<times> nvram) option" where
  "create_free_partition s =
     do { used \<leftarrow> calc_used_nvram_space s;
          let free_space = s32_of (NVRAM_LENGTH s - used - 16);
          (free_part, s') \<leftarrow> create_nvram_partition s 0x7f free_space_name free_space;
          Some (part_addr free_part \<noteq> 0, s') }"

definition new_nvram_partition :: "nvram \<Rightarrow> int \<Rightarrow> bytes \<Rightarrow> int \<Rightarrow> (partition_t \<times> nvram) option" where
  "new_nvram_partition s ty name l =
     do { free_part \<leftarrow> get_partition s 0x7f None;
          let s1 = (if part_len free_part \<noteq> 0 \<and> part_len free_part \<noteq> -1 then wipe_partition s free_part True else s);
          (new_part, s2) \<leftarrow> create_nvram_partition s1 ty name l;
          let new_part' = (if part_len new_part \<noteq> l then new_part\<lparr>part_len := 0, part_addr := 0\<rparr> else new_part);
          (_, s3) \<leftarrow> create_free_partition s2;
          Some (new_part', s3) }"

definition new_nvram_partition_fs ::
    "nvram \<Rightarrow> int \<Rightarrow> bytes \<Rightarrow> nat \<Rightarrow> int \<Rightarrow> (partition_t \<times> nvram) option" where
  "new_nvram_partition_fs s ty name namelen l =
     (if min 12 namelen \<le> length name
      then new_nvram_partition s ty
             (map (\<lambda>i. if i < namelen then name ! i else 0) [0..<12] @ [0]) l
      else None)"

definition delete_nvram_partition :: "nvram \<Rightarrow> partition_t \<Rightarrow> (int \<times> nvram) option" where
  "delete_nvram_partition s pt =
     (if part_len pt = 0 \<or> part_len pt = -1 then Some (0, s)
      else do {
        let start = u32_of (part_addr pt + part_len pt);
        let s1 = fold (\<lambda>k s. let i = start + int k in
                   nvram_write_byte s (i - part_len pt - 16) (nvram_read_byte s i))
                   [0..<nat (NVRAM_LENGTH s - start)] s;
        let s2 = erase_nvram s1 (s32_of (NVRAM_LENGTH s - part_len pt - 16)) (s32_of (part_len pt - 16));
        free_part \<leftarrow> get_partition s2 0x7f None;
        let s3 = wipe_partition s2 free_part False;
        (_, s4) \<leftarrow> create_free_partition s3;
        Some (1, s4)
      })"

definition increase_nvram_partition_size :: "nvram \<Rightarrow> partition_t \<Rightarrow> int \<Rightarrow> (int \<times> nvram) option" where
  "increase_nvram_partition_size s pt newsize =
     (if newsize < part_len pt then Some (0, s)
      else do {
        free_part \<leftarrow> get_partition s 0x7f None;
        if part_len free_part = -1 \<or> part_len free_part < newsize - part_len pt then Some (0, s)
        else do {
          let free_offset = s32_of (part_addr free_part - 16);
          let end_offset = s32_of (part_addr pt + part_len pt);
          let (ok, s1) =
            (if free_offset > end_offset then
               let bufferlen = free_offset - end_offset; (got, t) = get_nvram_buffer s bufferlen in
               if \<not> got then (False, s)
               else
                 let t1 = fold (\<lambda>j t. t\<lparr>nvram_buffer := (nvram_buffer t)
                             (int j := nvram_read_byte t (end_offset + int j))\<rparr>) [0..<nat bufferlen] t;
                     t2 = wipe_partition t1 free_part True;
                     t3 = fold (\<lambda>j t. nvram_write_byte t (part_addr pt + newsize + int j)
                             (nvram_buffer t (int j))) [0..<nat bufferlen] t2
                 in (True, free_nvram_buffer t3)
             else (True, wipe_partition s free_part True));
          if \<not> ok then Some (0, s1)
          else do {
            let s2 = erase_nvram s1 (s32_of (part_addr pt + part_len pt)) (s32_of (newsize - part_len pt));
            let s3 = nvram_write_word s2 (part_addr pt - 16 + 2) (word_of_int newsize);
            (_, s4) \<leftarrow> create_free_partition s3;
            Some (1, s4)
          }
        }
      })"

definition init_cpulog_partition :: "nvram \<Rightarrow> partition_t \<Rightarrow> nvram" where
  "init_cpulog_partition s cpulog =
     (let offset = u32_of (part_addr cpulog);
          s1 = nvram_write_word s (offset + 0) 0x40;
          s2 = nvram_write_word s1 (offset + 2) 0x00
      in nvram_write_dword s2 (offset + 4) 0x01)"

text \<open>
  \<open>reset_nvram\<close>; the partition constants are those of
  \<open>board-js2x/include/nvramlog.h\<close>: \<open>"ibm,CPU0log"\<close> and \<open>"ibm,CPU1log"\<close> of \<open>0x2000\<close> and \<open>0x500\<close>
  blocks, signature \<open>0x51\<close>. The names of the two log partitions are the 12 bytes of the packed
  \<open>header\<close> structure, whose last byte is zero.
\<close>

definition cpulog_name :: "u8 \<Rightarrow> bytes" where
  "cpulog_name digit = [0x69, 0x62, 0x6D, 0x2C, 0x43, 0x50, 0x55, digit, 0x6C, 0x6F, 0x67, 0x00]"

definition common_name :: bytes where
  "common_name = [99, 111, 109, 109, 111, 110, 0]"

text \<open>The bytes of \<open>"Creating common NVRAM partition"\<close>, CR, LF.\<close>

definition reset_message :: bytes where
  "reset_message = [67, 114, 101, 97, 116, 105, 110, 103, 32, 99, 111, 109, 109, 111, 110, 32,
     78, 86, 82, 65, 77, 32, 112, 97, 114, 116, 105, 116, 105, 111, 110, 13, 10]"

definition reset_nvram :: "(u8 \<Rightarrow> nvram \<Rightarrow> nvram) \<Rightarrow> nvram \<Rightarrow> nvram option" where
  "reset_nvram asm_cout s =
     do { let s0 = erase_nvram s 0 (NVRAM_LENGTH s);
          (cpulog0, s1) \<leftarrow> create_nvram_partition s0 0x51 (cpulog_name 0x30) (0x2000 * 16 - 16);
          (cpulog1, s2) \<leftarrow> create_nvram_partition s1 0x51 (cpulog_name 0x31) (0x500 * 16 - 16);
          let s3 = init_cpulog_partition s2 cpulog0;
          let s4 = init_cpulog_partition s3 cpulog1;
          let s5 = nvramlog_printf asm_cout reset_message s4;
          (_, s6) \<leftarrow> create_nvram_partition s5 0x70 common_name (0x01000 - 16);
          (_, s7) \<leftarrow> create_free_partition s6;
          Some s7 }"

definition get_nvram_size :: "nvram \<Rightarrow> int" where
  "get_nvram_size s = u32_of (NVRAM_LENGTH s)"

subsection \<open>The access functions as a byte store\<close>

text \<open>The sizes for which no offset computation of the partition walk wraps around.\<close>

definition nv_ok :: "nvram \<Rightarrow> bool" where
  "nv_ok s \<longleftrightarrow> 16 \<le> NVRAM_LENGTH s \<and> NVRAM_LENGTH s \<le> 0x7fffffff"

lemma read_byte_in: "nv_ok s \<Longrightarrow> 0 \<le> i \<Longrightarrow> i < NVRAM_LENGTH s \<Longrightarrow> nvram_read_byte s i = nv_mem s i"
  by (simp add: nvram_read_byte_def nv_ok_def wrap_simps)

lemma read_byte_out: "nv_ok s \<Longrightarrow> NVRAM_LENGTH s \<le> u32_of i \<Longrightarrow> nvram_read_byte s i = 0"
  by (simp add: nvram_read_byte_def nv_ok_def wrap_simps)

lemma write_byte_in:
  "nv_ok s \<Longrightarrow> 0 \<le> i \<Longrightarrow> i < NVRAM_LENGTH s \<Longrightarrow>
     nvram_write_byte s i v = s\<lparr>nv_mem := (nv_mem s)(i := v)\<rparr>"
  by (simp add: nvram_write_byte_def nv_ok_def wrap_simps)

lemma length_write [simp]:
  "NVRAM_LENGTH (nvram_write_byte s i v) = NVRAM_LENGTH s"
  "NVRAM_LENGTH (nvram_write_word s i w) = NVRAM_LENGTH s"
  "NVRAM_LENGTH (nvram_write_dword s i d) = NVRAM_LENGTH s"
  by (simp_all add: nvram_write_byte_def nvram_write_word_def nvram_write_dword_def Let_def)

lemma nv_ok_write [simp]:
  "nv_ok (nvram_write_byte s i v) = nv_ok s"
  "nv_ok (nvram_write_word s i w) = nv_ok s"
  "nv_ok (nvram_write_dword s i d) = nv_ok s"
  by (simp_all add: nv_ok_def)

interpretation nv: byte_store nvram_read_byte nvram_write_byte NVRAM_LENGTH nv_ok
proof unfold_locales
  fix s i j v
  assume "nv_ok s" "0 \<le> i" "i < NVRAM_LENGTH s" "0 \<le> j" "j < NVRAM_LENGTH s"
  then show "nvram_read_byte (nvram_write_byte s i v) j = (if j = i then v else nvram_read_byte s j)"
    using nv_ok_write(1) [of s i v] length_write(1) [of s i v]
    by (simp add: read_byte_in write_byte_in)
qed simp_all

lemma write_word_bytes:
  assumes "nv_ok s" "0 \<le> i" "i + 1 < NVRAM_LENGTH s"
  shows "nvram_write_word s i w = nvram_write_byte (nvram_write_byte s i (hi8 w)) (i + 1) (lo8 w)"
proof -
  have "nv_ok (nvram_write_byte s i (hi8 w))" using assms by simp
  with assms show ?thesis
    by (simp add: nvram_write_word_def write_byte_in nv_ok_def wrap_simps)
qed

lemma read_word_bytes:
  assumes "nv_ok s" "0 \<le> i" "i + 1 < NVRAM_LENGTH s"
  shows "nvram_read_word s i = cat16 (nvram_read_byte s i) (nvram_read_byte s (i + 1))"
  using assms by (simp add: nvram_read_word_def read_byte_in nv_ok_def wrap_simps)

text \<open>A word written is the word read, and an out-of-range access reads zero and writes nothing.\<close>

lemma dword_roundtrip:
  assumes "nv_ok s" "0 \<le> i" "i + 3 < NVRAM_LENGTH s"
  shows "nvram_read_dword (nvram_write_dword s i d) i = d"
  using assms by (simp add: nvram_read_dword_def nvram_write_dword_def nv_ok_def wrap_simps be_simps)

lemma qword_roundtrip:
  assumes "nv_ok s" "0 \<le> i" "i + 7 < NVRAM_LENGTH s"
  shows "nvram_read_qword (nvram_write_qword s i q) i = q"
  using assms
  by (simp add: nvram_read_qword_def nvram_write_qword_def nv_ok_def wrap_simps be_simps Let_def)

lemma length_erase [simp]: "NVRAM_LENGTH (erase_nvram s off n) = NVRAM_LENGTH s"
  by (simp add: erase_nvram_def nv.size_fill)

lemma nv_ok_erase [simp]: "nv_ok (erase_nvram s off n) = nv_ok s"
  by (simp add: nv_ok_def)

lemma read_erase:
  assumes "nv_ok s" "0 \<le> off" "0 \<le> n" "off + n \<le> NVRAM_LENGTH s" "0 \<le> j" "j < NVRAM_LENGTH s"
  shows "nvram_read_byte (erase_nvram s off n) j =
    (if off \<le> j \<and> j < off + n then 0 else nvram_read_byte s j)"
  using assms nv.rd_fill [of s off "nat n" j "\<lambda>_. 0"] by (simp add: erase_nvram_def)

end
