(* ===== verification/Nvram_Partitions.thy ===== *)
theory Nvram_Partitions
  imports Nvram
begin

section \<open>The NVRAM as a list of partitions\<close>

text \<open>
  The abstract view of the NVRAM is the list of the partitions it holds. \<open>chain s off ps e\<close> says
  that the headers found from \<open>off\<close> on describe the partitions \<open>ps\<close> and end at \<open>e\<close>, and
  \<open>nv_wf\<close> that behind them the NVRAM is erased. The lemmas show that the walk functions read this
  list and that creating partitions appends to it.
\<close>

record pdesc =
  pd_type :: u8
  pd_blocks :: int
  pd_name :: bytes

definition header_ok :: "nvram \<Rightarrow> int \<Rightarrow> bool" where
  "header_ok s off \<longleftrightarrow> get_partition_header_checksum s off = calc_partition_header_checksum s off"

definition header_at :: "nvram \<Rightarrow> int \<Rightarrow> pdesc \<Rightarrow> bool" where
  "header_at s off p \<longleftrightarrow>
     0 \<le> off \<and> 0 < pd_blocks p \<and> off + 16 * pd_blocks p \<le> NVRAM_LENGTH s \<and> pd_type p \<noteq> 0 \<and>
     get_partition_type s off = pd_type p \<and> uint (get_partition_len s off) = pd_blocks p \<and>
     get_partition_name s off = pd_name p \<and> header_ok s off"

fun chain :: "nvram \<Rightarrow> int \<Rightarrow> pdesc list \<Rightarrow> int \<Rightarrow> bool" where
  "chain s off [] e \<longleftrightarrow> off = e"
| "chain s off (p # ps) e \<longleftrightarrow> header_at s off p \<and> chain s (off + 16 * pd_blocks p) ps e"

definition erased :: "nvram \<Rightarrow> int \<Rightarrow> bool" where
  "erased s e \<longleftrightarrow> (\<forall>k. e \<le> k \<and> k < NVRAM_LENGTH s \<longrightarrow> nvram_read_byte s k = 0)"

definition nv_wf :: "nvram \<Rightarrow> pdesc list \<Rightarrow> int \<Rightarrow> bool" where
  "nv_wf s ps e \<longleftrightarrow> nv_ok s \<and> 16 dvd NVRAM_LENGTH s \<and> chain s 0 ps e \<and> e \<le> NVRAM_LENGTH s \<and> erased s e"

subsection \<open>Headers depend on their sixteen bytes only\<close>

definition same_bytes :: "nvram \<Rightarrow> nvram \<Rightarrow> int \<Rightarrow> int \<Rightarrow> bool" where
  "same_bytes s t a b \<longleftrightarrow> NVRAM_LENGTH t = NVRAM_LENGTH s \<and>
     (\<forall>k. a \<le> k \<and> k < b \<longrightarrow> nvram_read_byte t k = nvram_read_byte s k)"

lemma same_bytes_mono: "same_bytes s t a b \<Longrightarrow> a \<le> a' \<Longrightarrow> b' \<le> b \<Longrightarrow> same_bytes s t a' b'"
  by (auto simp: same_bytes_def)

lemma same_bytes_nv_ok: "same_bytes s t a b \<Longrightarrow> nv_ok t = nv_ok s"
  by (simp add: same_bytes_def nv_ok_def)

text \<open>The checksum leaves out the checksum byte itself.\<close>

lemma calc_checksum_skip:
  assumes "\<And>k. off \<le> k \<Longrightarrow> k < off + 16 \<Longrightarrow> k \<noteq> off + 1 \<Longrightarrow> nvram_read_byte t k = nvram_read_byte s k"
  shows "calc_partition_header_checksum t off = calc_partition_header_checksum s off"
  using assms by (simp add: calc_partition_header_checksum_def)

lemma calc_checksum_cong:
  "same_bytes s t off (off + 16) \<Longrightarrow>
     calc_partition_header_checksum t off = calc_partition_header_checksum s off"
  by (rule calc_checksum_skip) (simp add: same_bytes_def)

lemma header_at_cong:
  assumes "same_bytes s t off (off + 16)" and "nv_ok s" and "0 \<le> off" and "off + 16 \<le> NVRAM_LENGTH s"
  shows "header_at t off p = header_at s off p"
proof -
  have "get_partition_name t off = get_partition_name s off"
    using assms(1) by (auto simp: get_partition_name_def same_bytes_def)
  moreover have "nv_ok t" and L: "NVRAM_LENGTH t = NVRAM_LENGTH s"
    using assms(1,2) same_bytes_nv_ok by (auto simp: same_bytes_def)
  then have "get_partition_len t off = get_partition_len s off"
    using assms read_word_bytes [of t "off + 2"] read_word_bytes [of s "off + 2"]
    by (simp add: get_partition_len_def same_bytes_def)
  ultimately show ?thesis
    using assms(1) calc_checksum_cong [OF assms(1)]
    by (simp add: header_at_def header_ok_def get_partition_type_def
        get_partition_header_checksum_def same_bytes_def)
qed

lemma header_at_room: "header_at s off p \<Longrightarrow> off + 16 \<le> NVRAM_LENGTH s \<and> off < off + 16 * pd_blocks p"
  by (auto simp: header_at_def)

lemma chain_le: "chain s off ps e \<Longrightarrow> off \<le> e"
proof (induction ps arbitrary: off)
  case (Cons p ps)
  then have "off + 16 * pd_blocks p \<le> e" by simp
  with Cons.prems show ?case by (auto simp: header_at_def)
qed simp

lemma chain_dvd: "chain s off ps e \<Longrightarrow> 16 dvd e - off"
proof (induction ps arbitrary: off)
  case (Cons p ps)
  then have "16 dvd (e - (off + 16 * pd_blocks p)) + 16 * pd_blocks p"
    by (intro dvd_add) auto
  then show ?case by simp
qed simp

lemma wf_room: "nv_wf s ps e \<Longrightarrow> e < NVRAM_LENGTH s \<Longrightarrow> e + 16 \<le> NVRAM_LENGTH s"
  using chain_dvd [of s 0 ps e] by (auto simp: nv_wf_def dvd_def)

lemma chain_append:
  "chain s off (ps @ qs) e \<longleftrightarrow> (\<exists>m. chain s off ps m \<and> chain s m qs e)"
  by (induction ps arbitrary: off) auto

lemma chain_cong:
  assumes "same_bytes s t off e" and "nv_ok s" and "0 \<le> off" and "chain s off ps e"
  shows "chain t off ps e"
  using assms(1,3,4)
proof (induction ps arbitrary: off)
  case Nil
  then show ?case by simp
next
  case (Cons p ps)
  let ?n = "off + 16 * pd_blocks p"
  have n: "off + 16 \<le> ?n" "?n \<le> e" "header_at s off p"
    using Cons.prems chain_le [of s ?n ps e] by (auto simp: header_at_def)
  have "header_at t off p"
    using n Cons.prems assms(2) header_at_room
    by (subst header_at_cong [where s = s]) (auto intro: same_bytes_mono)
  moreover have "same_bytes s t ?n e"
    using n by (intro same_bytes_mono [OF Cons.prems(1)]) auto
  ultimately show ?case
    using Cons n by simp
qed

subsection \<open>The walk functions read the list\<close>

text \<open>
  Every partition is at least one block long, so the walk over the used space ends for every
  contents of the NVRAM.
\<close>

lemma calc_used_loop_total:
  assumes "nv_ok s" and "0 \<le> walk"
  shows "\<exists>u. calc_used_loop s walk = Some u"
  using assms(2)
proof (induction "nat (NVRAM_LENGTH s - walk)" arbitrary: walk rule: less_induct)
  case less
  let ?n = "uint (get_partition_len s walk)"
  have n: "?n < 65536" "0 \<le> ?n"
    using uint_lt2p [of "get_partition_len s walk"] by simp_all
  show ?case
  proof (cases "walk < NVRAM_LENGTH s \<and> get_partition_len s walk \<noteq> 0")
    case True
    then have "0 < ?n"
      using n by (metis order_le_imp_less_or_eq uint_0_iff)
    moreover have "u32_of (walk + ?n * 16) = walk + ?n * 16"
      using True n assms(1) less.prems by (intro u32_of_id) (auto simp: nv_ok_def)
    ultimately have "\<exists>u. calc_used_loop s (u32_of (walk + ?n * 16)) = Some u"
      using True less.prems by (intro less.hyps) auto
    then show ?thesis
      by (subst calc_used_loop.simps) auto
  next
    case False
    then show ?thesis by (subst calc_used_loop.simps) auto
  qed
qed

lemma calc_used_loop_chain:
  assumes "nv_ok s" and "0 \<le> off" and "chain s off ps e"
    and "NVRAM_LENGTH s \<le> e \<or> nvram_read_byte s e = 0"
  shows "calc_used_loop s off = Some e"
  using assms(2,3)
proof (induction ps arbitrary: off)
  case Nil
  then show ?case using assms(4) by (subst calc_used_loop.simps) auto
next
  case (Cons p ps)
  let ?n = "off + 16 * pd_blocks p"
  have hd: "header_at s off p" and ch: "chain s ?n ps e"
    using Cons.prems by simp_all
  have "u32_of (off + uint (get_partition_len s off) * 16) = ?n"
    using hd assms(1) by (subst u32_of_id) (auto simp: header_at_def nv_ok_def)
  moreover have "get_partition_len s off \<noteq> 0"
    using hd by (auto simp: header_at_def)
  ultimately show ?case
    using hd ch header_at_room [OF hd] Cons.IH [of ?n] Cons.prems
    by (subst calc_used_loop.simps) (auto simp: header_at_def header_ok_def get_partition_type_def)
qed

lemma calc_used_wf: "nv_wf s ps e \<Longrightarrow> calc_used_nvram_space s = Some e"
  unfolding nv_wf_def calc_used_nvram_space_def
  by (rule calc_used_loop_chain) (auto simp: erased_def)

text \<open>Looking a partition up: the first one that matches type and name.\<close>

definition pd_matches :: "int \<Rightarrow> bytes option \<Rightarrow> pdesc \<Rightarrow> bool" where
  "pd_matches ty name p \<longleftrightarrow>
     (ty = 0xFFFFFFFF \<or> ty = uint (pd_type p)) \<and>
     (case name of None \<Rightarrow> True | Some n \<Rightarrow> take 12 (cstr (pd_name p)) = take 12 (cstr n))"

fun find_part :: "int \<Rightarrow> bytes option \<Rightarrow> int \<Rightarrow> pdesc list \<Rightarrow> partition_t" where
  "find_part ty name off [] = \<lparr>part_addr = 0, part_len = -1\<rparr>"
| "find_part ty name off (p # ps) =
     (if pd_matches ty name p then \<lparr>part_addr = off + 16, part_len = 16 * pd_blocks p - 16\<rparr>
      else find_part ty name (off + 16 * pd_blocks p) ps)"

definition name_ok :: "bytes option \<Rightarrow> bool" where
  "name_ok name \<longleftrightarrow> (case name of None \<Rightarrow> True | Some n \<Rightarrow> prefix_ok 12 n)"

lemma length_partition_name [simp]: "length (get_partition_name s off) = 12"
  by (simp add: get_partition_name_def)

lemma name_compare:
  assumes "name_ok name"
  shows "(case name of None \<Rightarrow> Some False
          | Some n \<Rightarrow> map_option (\<lambda>r. r \<noteq> 0) (strncmp (get_partition_name s off) n 12)) =
    Some (case name of None \<Rightarrow> False
          | Some n \<Rightarrow> take 12 (cstr (get_partition_name s off)) \<noteq> take 12 (cstr n))"
proof (cases name)
  case (Some n)
  have ok: "prefix_ok 12 (get_partition_name s off)" "prefix_ok 12 n"
    using assms Some by (simp_all add: name_ok_def prefix_ok_def)
  then obtain r where "strncmp (get_partition_name s off) n 12 = Some r"
    using strncmp_Some by blast
  with strncmp_0_iff [OF ok] Some show ?thesis by auto
qed simp

lemma erased_header:
  assumes "nv_ok s" and "erased s e" and "0 \<le> e" and "e + 16 \<le> NVRAM_LENGTH s"
  shows "header_ok s e" and "get_partition_len s e = 0"
proof -
  have z: "nvram_read_byte s k = 0" if "e \<le> k" "k < e + 16" for k
    using assms that by (auto simp: erased_def)
  show "header_ok s e"
    by (simp add: header_ok_def get_partition_header_checksum_def calc_partition_header_checksum_def z)
  show "get_partition_len s e = 0"
    using assms by (simp add: get_partition_len_def read_word_bytes z cat16_def)
qed

lemma get_partition_loop_chain:
  assumes "nv_wf s all e" and "ty \<noteq> 0" and "name_ok name" and "0 \<le> off" and "chain s off ps e"
  shows "get_partition_loop s ty name off = Some (find_part ty name off ps)"
  using assms(4,5)
proof (induction ps arbitrary: off)
  case Nil
  have "off < NVRAM_LENGTH s \<Longrightarrow> off + 16 \<le> NVRAM_LENGTH s"
    using wf_room [OF assms(1)] Nil by simp
  with Nil show ?case
    using assms erased_header [of s e]
    by (subst get_partition_loop.simps) (auto simp: nv_wf_def header_ok_def)
next
  case (Cons p ps)
  let ?n = "off + 16 * pd_blocks p"
  have hd: "header_at s off p" and ch: "chain s ?n ps e"
    using Cons.prems by simp_all
  have wrap: "u32_of (off + uint (get_partition_len s off) * 16) = ?n" "u32_of (off + 16) = off + 16"
    "u32_of (uint (get_partition_len s off) * 16 - 16) = 16 * pd_blocks p - 16"
    using hd assms(1) by (subst u32_of_id; auto simp: header_at_def nv_wf_def nv_ok_def)+
  have "get_partition_len s off \<noteq> 0"
    using hd by (auto simp: header_at_def)
  then show ?case
    using hd wrap header_at_room [OF hd] Cons.IH [of ?n] Cons.prems name_compare [OF assms(3), of s off]
    by (subst get_partition_loop.simps)
      (auto simp: header_at_def header_ok_def pd_matches_def split: option.splits)
qed

subsection \<open>Creating a partition appends to the list\<close>

lemma part_plen_bounds:
  assumes "0 \<le> l" and "l < 4294967265"
  shows "16 \<le> part_plen l" "l + 16 \<le> part_plen l" "part_plen l < l + 32" "16 dvd part_plen l"
proof -
  have "part_plen l = (l + 31) div 16 * 16"
    using assms by (simp add: part_plen_def u32_of_id)
  then show "16 \<le> part_plen l" "l + 16 \<le> part_plen l" "part_plen l < l + 32" "16 dvd part_plen l"
    using assms by simp_all
qed

text \<open>The state after the header has been written at \<open>e\<close>, byte by byte.\<close>

definition written_header :: "nvram \<Rightarrow> int \<Rightarrow> u8 \<Rightarrow> u16 \<Rightarrow> bytes \<Rightarrow> nvram \<Rightarrow> bool" where
  "written_header s e ty blocks name t \<longleftrightarrow> NVRAM_LENGTH t = NVRAM_LENGTH s \<and>
     (\<forall>j. 0 \<le> j \<and> j < NVRAM_LENGTH s \<longrightarrow> nvram_read_byte t j =
        (if j = e then ty else if j = e + 1 then calc_partition_header_checksum t e
         else if j = e + 2 then hi8 blocks else if j = e + 3 then lo8 blocks
         else if e + 4 \<le> j \<and> j < e + 4 + int (length name) then name ! nat (j - (e + 4))
         else nvram_read_byte s j))"

lemma create_writes_header:
  assumes ok: "nv_ok s" and used: "calc_used_nvram_space s = Some e" "0 \<le> e"
    and l: "0 \<le> l" "l < 4294967265" "part_plen l \<le> NVRAM_LENGTH s - e"
    and name: "terminated name" "length (cstr name) \<le> 12"
  shows "\<exists>t. create_nvram_partition s ty name l = Some (\<lparr>part_addr = e + 16, part_len = l\<rparr>, t) \<and>
    written_header s e (word_of_int ty) (word_of_int (part_plen l div 16)) (cstr name) t"
proof -
  let ?b = "word_of_int (part_plen l div 16) :: u16" and ?n = "length (cstr name)"
  define s1 where "s1 = nvram_write_byte s e (word_of_int ty)"
  define s2 where "s2 = nvram_write_word s1 (e + 2) ?b"
  define s3 where "s3 = fold (\<lambda>i s. nvram_write_byte s (e + 4 + int i) (name ! i)) [0..<?n] s2"
  define s4 where "s4 = nvram_write_byte s3 (e + 1) (calc_partition_header_checksum s3 e)"
  note sdefs = s1_def s2_def s3_def s4_def
  have room: "e + 16 \<le> NVRAM_LENGTH s"
    using part_plen_bounds [OF l(1,2)] l(3) by simp
  have L: "NVRAM_LENGTH s1 = NVRAM_LENGTH s" "NVRAM_LENGTH s2 = NVRAM_LENGTH s"
    "NVRAM_LENGTH s3 = NVRAM_LENGTH s" "NVRAM_LENGTH s4 = NVRAM_LENGTH s"
    by (simp_all add: sdefs nv.size_fill)
  then have oks: "nv_ok s1" "nv_ok s2" "nv_ok s3" "nv_ok s4"
    using ok by (simp_all add: nv_ok_def)
  have r1: "nvram_read_byte s1 j = (if j = e then word_of_int ty else nvram_read_byte s j)"
    if "0 \<le> j" "j < NVRAM_LENGTH s" for j
    using that ok room used by (simp add: s1_def nv.rd_wr)
  have r2: "nvram_read_byte s2 j = (if j = e + 3 then lo8 ?b else if j = e + 2 then hi8 ?b
      else nvram_read_byte s1 j)" if "0 \<le> j" "j < NVRAM_LENGTH s" for j
    using that oks L room used by (simp add: s2_def write_word_bytes nv.rd_wr)
  have r3: "nvram_read_byte s3 j = (if e + 4 \<le> j \<and> j < e + 4 + int ?n then name ! nat (j - (e + 4))
      else nvram_read_byte s2 j)" if "0 \<le> j" "j < NVRAM_LENGTH s" for j
    unfolding s3_def using that oks L room used name(2) by (subst nv.rd_fill) auto
  have r4: "nvram_read_byte s4 j = (if j = e + 1 then calc_partition_header_checksum s3 e
      else nvram_read_byte s3 j)" if "0 \<le> j" "j < NVRAM_LENGTH s" for j
    using that oks L room used by (simp add: s4_def nv.rd_wr)
  have calc: "calc_partition_header_checksum s4 e = calc_partition_header_checksum s3 e"
    using r4 room used by (intro calc_checksum_skip) auto
  have "written_header s e (word_of_int ty) ?b (cstr name) s4"
    using r1 r2 r3 r4 L calc by (auto simp: written_header_def nth_cstr)
  moreover have "create_nvram_partition s ty name l = Some (\<lparr>part_addr = e + 16, part_len = l\<rparr>, s4)"
    using used l room ok strlen_short [of name] name
    by (simp add: create_nvram_partition_def sdefs wrap_simps nv_ok_def Let_def)
  ultimately show ?thesis by blast
qed

lemma written_header_frame:
  assumes "written_header s e ty b name t" and "0 \<le> e" and "length name \<le> 12"
  shows "e \<le> NVRAM_LENGTH s \<Longrightarrow> same_bytes s t 0 e" and "same_bytes s t (e + 16) (NVRAM_LENGTH s)"
  using assms by (auto simp: written_header_def same_bytes_def)

lemma written_header_at:
  assumes "written_header s e ty (word_of_int blocks) name t" and "nv_ok s" and "0 \<le> e"
    and "0 < blocks" and "blocks < 65536" and "e + 16 * blocks \<le> NVRAM_LENGTH s" and "ty \<noteq> 0"
    and "length name \<le> 12"
  shows "header_at t e \<lparr>pd_type = ty, pd_blocks = blocks,
    pd_name = map (\<lambda>i. if i < length name then name ! i else nvram_read_byte s (e + 4 + int i)) [0..<12]\<rparr>"
proof -
  have L: "NVRAM_LENGTH t = NVRAM_LENGTH s" and ok: "nv_ok t"
    using assms by (auto simp: written_header_def nv_ok_def)
  have rd: "nvram_read_byte t j =
      (if j = e then ty else if j = e + 1 then calc_partition_header_checksum t e
         else if j = e + 2 then hi8 (word_of_int blocks) else if j = e + 3 then lo8 (word_of_int blocks)
         else if e + 4 \<le> j \<and> j < e + 4 + int (length name) then name ! nat (j - (e + 4))
         else nvram_read_byte s j)" if "e \<le> j" "j < e + 16" for j
    using assms that by (simp add: written_header_def)
  have "get_partition_len t e = word_of_int blocks"
    using ok L assms by (simp add: get_partition_len_def read_word_bytes rd be_simps)
  moreover have "uint (word_of_int blocks :: u16) = blocks"
    using assms by (simp add: uint_word_of_int)
  moreover have "get_partition_name t e =
      map (\<lambda>i. if i < length name then name ! i else nvram_read_byte s (e + 4 + int i)) [0..<12]"
    unfolding get_partition_name_def by (rule map_cong [OF refl]) (simp only: set_upt, auto simp: rd)
  ultimately show ?thesis
    using assms L rd
    by (simp add: header_at_def header_ok_def get_partition_type_def get_partition_header_checksum_def)
qed

text \<open>The name field of a partition created on erased space.\<close>

definition pad12 :: "bytes \<Rightarrow> bytes" where
  "pad12 n = n @ replicate (12 - length n) 0"

lemma map_pad12:
  assumes "length n \<le> 12"
  shows "map (\<lambda>i. if i < length n then n ! i else 0) [0..<12] = pad12 n"
proof (rule nth_equalityI)
  show "length (map (\<lambda>i. if i < length n then n ! i else 0) [0..<12]) = length (pad12 n)"
    using assms by (simp add: pad12_def)
next
  fix i
  assume "i < length (map (\<lambda>i. if i < length n then n ! i else 0) [0..<12])"
  then show "map (\<lambda>i. if i < length n then n ! i else 0) [0..<12] ! i = pad12 n ! i"
    using assms by (simp add: pad12_def nth_append)
qed

lemma create_wf:
  assumes wf: "nv_wf s ps e"
    and l: "0 \<le> l" "l < 0x100000" "part_plen l \<le> NVRAM_LENGTH s - e" "part_plen l < 0x100000"
    and name: "terminated name" "length (cstr name) \<le> 12" and ty: "(word_of_int ty :: u8) \<noteq> 0"
  shows "\<exists>t. create_nvram_partition s ty name l = Some (\<lparr>part_addr = e + 16, part_len = l\<rparr>, t) \<and>
    NVRAM_LENGTH t = NVRAM_LENGTH s \<and> erased t (e + 16) \<and>
    nv_wf t (ps @ [\<lparr>pd_type = word_of_int ty, pd_blocks = part_plen l div 16,
        pd_name = pad12 (cstr name)\<rparr>]) (e + part_plen l)"
proof -
  let ?b = "part_plen l div 16" and ?n = "cstr name"
  have ok: "nv_ok s" and e: "0 \<le> e" and er: "erased s e"
    using wf chain_le [of s 0 ps e] by (simp_all add: nv_wf_def)
  have pl: "16 \<le> part_plen l" "16 * ?b = part_plen l"
    using part_plen_bounds [of l] l by (auto simp: dvd_mult_div_cancel)
  obtain t where t: "create_nvram_partition s ty name l = Some (\<lparr>part_addr = e + 16, part_len = l\<rparr>, t)"
    and w: "written_header s e (word_of_int ty) (word_of_int ?b) ?n t"
    using create_writes_header [OF ok calc_used_wf [OF wf] e l(1)] l name by fastforce
  have L: "NVRAM_LENGTH t = NVRAM_LENGTH s" using w by (simp add: written_header_def)
  have frame: "same_bytes s t 0 e" "same_bytes s t (e + 16) (NVRAM_LENGTH s)"
    using written_header_frame [OF w e name(2)] wf by (simp_all add: nv_wf_def)
  have "map (\<lambda>i. if i < length ?n then ?n ! i else nvram_read_byte s (e + 4 + int i)) [0..<12] =
      map (\<lambda>i. if i < length ?n then ?n ! i else 0) [0..<12]"
    using er e l(3) pl(1) by (intro map_cong refl) (simp only: set_upt, auto simp: erased_def)
  also have "\<dots> = pad12 ?n" by (rule map_pad12 [OF name(2)])
  finally have "header_at t e \<lparr>pd_type = word_of_int ty, pd_blocks = ?b, pd_name = pad12 ?n\<rparr>"
    using written_header_at [OF w ok e] pl l ty name(2) by simp
  moreover have "chain t 0 ps e"
    using chain_cong [OF frame(1) ok] wf by (simp add: nv_wf_def)
  moreover have er': "erased t (e + 16)"
    using frame(2) er L e by (auto simp: erased_def same_bytes_def)
  then have "erased t (e + part_plen l)"
    using pl(1) by (auto simp: erased_def)
  ultimately have "nv_wf t (ps @ [\<lparr>pd_type = word_of_int ty, pd_blocks = ?b, pd_name = pad12 ?n\<rparr>])
      (e + part_plen l)"
    using wf L pl l same_bytes_nv_ok [OF frame(1)] by (auto simp: nv_wf_def chain_append)
  with t L er' show ?thesis by blast
qed

lemma create_full:
  assumes wf: "nv_wf s ps e" and l: "0 \<le> l" "l < 4294967265" "NVRAM_LENGTH s - e < part_plen l"
  shows "create_nvram_partition s ty name l = Some (\<lparr>part_addr = 0, part_len = 0\<rparr>, s)"
proof -
  have "u32_of (NVRAM_LENGTH s - e) = NVRAM_LENGTH s - e" "u32_of l = l"
    using wf l chain_le [of s 0 ps e] by (auto simp: nv_wf_def nv_ok_def intro!: u32_of_id)
  then show ?thesis
    using l calc_used_wf [OF wf] by (simp add: create_nvram_partition_def)
qed

text \<open>The rest of the NVRAM becomes the free-space partition.\<close>

definition free_pd :: "int \<Rightarrow> pdesc" where
  "free_pd blocks = \<lparr>pd_type = 0x7f, pd_blocks = blocks, pd_name = pad12 (cstr free_space_name)\<rparr>"

lemma free_space_name_ok: "terminated free_space_name" "length (cstr free_space_name) \<le> 12"
  by (simp_all add: free_space_name_def)

lemma create_free_wf:
  assumes wf: "nv_wf s ps e" and room: "e < NVRAM_LENGTH s" "NVRAM_LENGTH s - e < 0x100000"
  shows "\<exists>t. create_free_partition s = Some (True, t) \<and> NVRAM_LENGTH t = NVRAM_LENGTH s \<and> erased t (e + 16) \<and>
    nv_wf t (ps @ [free_pd ((NVRAM_LENGTH s - e) div 16)]) (NVRAM_LENGTH s)"
proof -
  let ?l = "NVRAM_LENGTH s - e - 16"
  have e: "0 \<le> e" "16 dvd e" "16 dvd NVRAM_LENGTH s" "e + 16 \<le> NVRAM_LENGTH s"
    using wf wf_room [OF wf room(1)] chain_le [of s 0 ps e] chain_dvd [of s 0 ps e]
    by (auto simp: nv_wf_def)
  have pl: "part_plen ?l = NVRAM_LENGTH s - e"
  proof -
    have "16 dvd NVRAM_LENGTH s - e" using e by simp
    then obtain k where "NVRAM_LENGTH s - e = 16 * k" ..
    then show ?thesis using e room by (simp add: part_plen_def wrap_simps)
  qed
  have "s32_of ?l = ?l" using e room by (intro s32_of_id) auto
  moreover obtain t where "create_nvram_partition s 0x7f free_space_name ?l =
      Some (\<lparr>part_addr = e + 16, part_len = ?l\<rparr>, t)" "NVRAM_LENGTH t = NVRAM_LENGTH s"
    "erased t (e + 16)" "nv_wf t (ps @ [free_pd ((NVRAM_LENGTH s - e) div 16)]) (NVRAM_LENGTH s)"
    using create_wf [OF wf, of ?l free_space_name "0x7f"] e room pl free_space_name_ok
    by (auto simp: free_pd_def)
  ultimately show ?thesis
    using calc_used_wf [OF wf] e by (simp add: create_free_partition_def)
qed

subsection \<open>Allocation from the free-space partition\<close>

text \<open>
  The state the callers keep between operations: partitions \<open>ps\<close> up to \<open>e\<close>, then one free-space
  partition of \<open>b\<close> blocks that reaches the end of the NVRAM and whose contents are erased.
\<close>

definition nv_full :: "nvram \<Rightarrow> pdesc list \<Rightarrow> int \<Rightarrow> int \<Rightarrow> bool" where
  "nv_full s ps e b \<longleftrightarrow> nv_ok s \<and> 16 dvd NVRAM_LENGTH s \<and> chain s 0 ps e \<and>
     header_at s e (free_pd b) \<and> e + 16 * b = NVRAM_LENGTH s \<and> erased s (e + 16) \<and>
     (\<forall>p\<in>set ps. pd_type p \<noteq> 0x7f)"

lemma find_part_skip:
  assumes "chain s off ps e" and "\<forall>p\<in>set ps. \<not> pd_matches ty name p"
  shows "find_part ty name off (ps @ qs) = find_part ty name e qs"
  using assms by (induction ps arbitrary: off) auto

text \<open>Behind the end of the NVRAM the list is complete whatever the memory holds.\<close>

lemma wf_of_full_chain:
  "nv_ok s \<Longrightarrow> 16 dvd NVRAM_LENGTH s \<Longrightarrow> chain s 0 ps (NVRAM_LENGTH s) \<Longrightarrow> nv_wf s ps (NVRAM_LENGTH s)"
  by (auto simp: nv_wf_def erased_def)

lemma full_wf: "nv_full s ps e b \<Longrightarrow> nv_wf s (ps @ [free_pd b]) (NVRAM_LENGTH s)"
  by (rule wf_of_full_chain) (auto simp: nv_full_def chain_append free_pd_def)

lemma full_find_free:
  assumes "nv_full s ps e b"
  shows "get_partition s 0x7f None = Some \<lparr>part_addr = e + 16, part_len = 16 * b - 16\<rparr>"
proof -
  have "\<forall>p\<in>set ps. \<not> pd_matches 0x7f None p"
    using assms by (force simp: nv_full_def pd_matches_def word_uint_eq_iff)
  then have "find_part 0x7f None 0 (ps @ [free_pd b]) = \<lparr>part_addr = e + 16, part_len = 16 * b - 16\<rparr>"
    using assms find_part_skip [of s 0 ps e] by (simp add: nv_full_def pd_matches_def free_pd_def)
  moreover have "chain s 0 (ps @ [free_pd b]) (NVRAM_LENGTH s)"
    using full_wf [OF assms] by (simp add: nv_wf_def)
  ultimately show ?thesis
    using get_partition_loop_chain [OF full_wf [OF assms], of "0x7f" None 0]
    by (simp add: get_partition_def name_ok_def u32_of_id)
qed

lemma full_wipe:
  assumes "nv_full s ps e b" and "NVRAM_LENGTH s < 0x80000000"
  shows "nv_wf (wipe_partition s \<lparr>part_addr = e + 16, part_len = n\<rparr> True) ps e"
    and "NVRAM_LENGTH (wipe_partition s \<lparr>part_addr = e + 16, part_len = n\<rparr> True) = NVRAM_LENGTH s"
proof -
  let ?t = "wipe_partition s \<lparr>part_addr = e + 16, part_len = n\<rparr> True"
  have e: "0 \<le> e" "e + 16 \<le> NVRAM_LENGTH s" "e \<le> NVRAM_LENGTH s"
    using assms header_at_room [of s e "free_pd b"] chain_le [of s 0 ps e] by (auto simp: nv_full_def)
  then have t: "?t = erase_nvram s e 16"
    using assms(2) by (simp add: wipe_partition_def s32_of_id)
  then show L: "NVRAM_LENGTH ?t = NVRAM_LENGTH s" by simp
  have rd: "nvram_read_byte ?t j = (if e \<le> j \<and> j < e + 16 then 0 else nvram_read_byte s j)"
    if "0 \<le> j" "j < NVRAM_LENGTH s" for j
    using that e assms(1) read_erase [of s e 16 j] by (simp add: t nv_full_def)
  then have "same_bytes s ?t 0 e"
    using e L by (simp add: same_bytes_def)
  then show "nv_wf ?t ps e"
    using assms e L rd chain_cong [of s ?t 0 e ps] same_bytes_nv_ok [of s ?t 0 e]
    by (auto simp: nv_wf_def nv_full_def erased_def)
qed

lemma wf_free_full:
  assumes "nv_wf s ps e" and "e < NVRAM_LENGTH s" and "NVRAM_LENGTH s - e < 0x100000"
    and "\<forall>p\<in>set ps. pd_type p \<noteq> 0x7f"
  shows "\<exists>t. create_free_partition s = Some (True, t) \<and> NVRAM_LENGTH t = NVRAM_LENGTH s \<and>
    nv_full t ps e ((NVRAM_LENGTH s - e) div 16)"
proof -
  obtain t where t: "create_free_partition s = Some (True, t)" "NVRAM_LENGTH t = NVRAM_LENGTH s"
    "erased t (e + 16)" and wf: "nv_wf t (ps @ [free_pd ((NVRAM_LENGTH s - e) div 16)]) (NVRAM_LENGTH s)"
    using create_free_wf [OF assms(1-3)] by blast
  obtain m where m: "chain t 0 ps m" "chain t m [free_pd ((NVRAM_LENGTH s - e) div 16)] (NVRAM_LENGTH s)"
    using wf by (auto simp: nv_wf_def chain_append)
  have "16 dvd NVRAM_LENGTH s - e"
    using assms(1) chain_dvd [of s 0 ps e] by (auto simp: nv_wf_def)
  then have "16 * ((NVRAM_LENGTH s - e) div 16) = NVRAM_LENGTH s - e"
    by simp
  moreover from this m have "m = e"
    by (simp add: free_pd_def)
  ultimately have "nv_full t ps e ((NVRAM_LENGTH s - e) div 16)"
    using t m wf assms(4) by (auto simp: nv_full_def nv_wf_def)
  with t show ?thesis by blast
qed

lemma new_partition_full:
  assumes full: "nv_full s ps e b" and L: "NVRAM_LENGTH s \<le> 0x100000" "16 * b < 0x100000" and b: "1 < b"
    and l: "0 \<le> l" "l < 0x100000"
    and name: "terminated name" "length (cstr name) \<le> 12"
    and ty: "(word_of_int ty :: u8) \<noteq> 0" "(word_of_int ty :: u8) \<noteq> 0x7f"
  shows "part_plen l < 16 * b \<Longrightarrow>
      \<exists>t. new_nvram_partition s ty name l = Some (\<lparr>part_addr = e + 16, part_len = l\<rparr>, t) \<and>
      nv_full t (ps @ [\<lparr>pd_type = word_of_int ty, pd_blocks = part_plen l div 16, pd_name = pad12 (cstr name)\<rparr>])
        (e + part_plen l) (b - part_plen l div 16)"
    and "16 * b < part_plen l \<Longrightarrow> l \<noteq> 0 \<Longrightarrow>
      \<exists>t. new_nvram_partition s ty name l = Some (\<lparr>part_addr = 0, part_len = 0\<rparr>, t) \<and> nv_full t ps e b"
proof -
  let ?w = "wipe_partition s \<lparr>part_addr = e + 16, part_len = 16 * b - 16\<rparr> True"
  let ?p = "\<lparr>pd_type = word_of_int ty, pd_blocks = part_plen l div 16, pd_name = pad12 (cstr name)\<rparr>"
  have w: "nv_wf ?w ps e" "NVRAM_LENGTH ?w = NVRAM_LENGTH s"
    using full_wipe [OF full] L by auto
  have e: "NVRAM_LENGTH s - e = 16 * b" "0 \<le> e" and ps: "\<forall>p\<in>set ps. pd_type p \<noteq> 0x7f"
    using full by (auto simp: nv_full_def header_at_def)
  have pl: "16 * (part_plen l div 16) = part_plen l" "16 \<le> part_plen l"
    using part_plen_bounds [of l] l by simp_all
  have new: "new_nvram_partition s ty name l =
      do { (new_part, s2) \<leftarrow> create_nvram_partition ?w ty name l;
           let new_part' = (if part_len new_part \<noteq> l then new_part\<lparr>part_len := 0, part_addr := 0\<rparr> else new_part);
           (_, s3) \<leftarrow> create_free_partition s2;
           Some (new_part', s3) }"
    using full_find_free [OF full] b by (simp add: new_nvram_partition_def)
  show "\<exists>t. new_nvram_partition s ty name l = Some (\<lparr>part_addr = e + 16, part_len = l\<rparr>, t) \<and>
      nv_full t (ps @ [?p]) (e + part_plen l) (b - part_plen l div 16)" if fit: "part_plen l < 16 * b"
  proof -
    obtain t where t: "create_nvram_partition ?w ty name l = Some (\<lparr>part_addr = e + 16, part_len = l\<rparr>, t)"
      "NVRAM_LENGTH t = NVRAM_LENGTH s" "nv_wf t (ps @ [?p]) (e + part_plen l)"
      using create_wf [OF w(1) l _ _ name ty(1)] w(2) e fit L by fastforce
    moreover have "(NVRAM_LENGTH s - (e + part_plen l)) div 16 = b - part_plen l div 16"
      using e pl by simp
    moreover obtain u where "create_free_partition t = Some (True, u)"
      "nv_full u (ps @ [?p]) (e + part_plen l) ((NVRAM_LENGTH t - (e + part_plen l)) div 16)"
      using wf_free_full [OF t(3)] t(2) e fit L pl ps ty(2) by auto
    ultimately show ?thesis
      by (simp add: new)
  qed
  show "\<exists>t. new_nvram_partition s ty name l = Some (\<lparr>part_addr = 0, part_len = 0\<rparr>, t) \<and> nv_full t ps e b"
    if "16 * b < part_plen l" "l \<noteq> 0"
  proof -
    have "create_nvram_partition ?w ty name l = Some (\<lparr>part_addr = 0, part_len = 0\<rparr>, ?w)"
      using create_full [OF w(1)] l that e w(2) by simp
    moreover obtain u where "create_free_partition ?w = Some (True, u)" "nv_full u ps e b"
      using wf_free_full [OF w(1)] w(2) e b L ps by auto
    ultimately show ?thesis
      using that by (simp add: new)
  qed
qed

subsection \<open>Resetting the NVRAM\<close>

lemma erase_all_wf:
  assumes "nv_ok s" and "16 dvd NVRAM_LENGTH s"
  shows "nv_wf (erase_nvram s 0 (NVRAM_LENGTH s)) [] 0"
  using assms read_erase [of s 0 "NVRAM_LENGTH s"] by (auto simp: nv_wf_def erased_def nv_ok_def)

text \<open>Writes that leave every header and the erased rest alone leave the list alone.\<close>

definition same_headers :: "nvram \<Rightarrow> nvram \<Rightarrow> bool" where
  "same_headers s t \<longleftrightarrow> same_bytes s t 0 16 \<and> same_bytes s t 0x20000 0x20010 \<and>
     same_bytes s t 0x25000 (NVRAM_LENGTH s)"

lemma same_headers_refl: "same_headers s s"
  by (simp add: same_headers_def same_bytes_def)

lemma same_headers_trans: "same_headers s t \<Longrightarrow> same_headers t u \<Longrightarrow> same_headers s u"
  by (simp add: same_headers_def same_bytes_def)

lemma same_headers_wf:
  assumes "same_headers s t" and "nv_wf s [p, q] 0x25000" and "pd_blocks p = 0x2000"
  shows "nv_wf t [p, q] 0x25000"
proof -
  have s: "nv_ok s" "header_at s 0 p" "header_at s 0x20000 q" "erased s 0x25000"
    "0x25000 \<le> NVRAM_LENGTH s" "pd_blocks q = 0x500"
    using assms by (auto simp: nv_wf_def)
  have f: "same_bytes s t 0 16" "same_bytes s t 0x20000 0x20010" "same_bytes s t 0x25000 (NVRAM_LENGTH s)"
    using assms(1) by (simp_all add: same_headers_def)
  have "header_at t 0 p" "header_at t 0x20000 q"
    using header_at_cong [of s t 0 p] header_at_cong [of s t "0x20000" q] f s by simp_all
  moreover have "erased t 0x25000" "NVRAM_LENGTH t = NVRAM_LENGTH s"
    using f(3) s(4) by (simp_all add: erased_def same_bytes_def)
  ultimately show ?thesis
    using assms(2,3) s same_bytes_nv_ok [OF f(1)] by (simp add: nv_wf_def)
qed

text \<open>What \<open>reset_nvram\<close> relies on of \<open>asm_cout\<close>: a logged character changes only the contents of
  the two log partitions.\<close>

definition log_writer :: "(u8 \<Rightarrow> nvram \<Rightarrow> nvram) \<Rightarrow> bool" where
  "log_writer out \<longleftrightarrow> (\<forall>c s. same_headers s (out c s))"

lemma nvramlog_same_headers: "log_writer out \<Longrightarrow> same_headers s (nvramlog_printf out msg s)"
  unfolding nvramlog_printf_def
  by (induction msg arbitrary: s) (auto simp: log_writer_def same_headers_refl intro: same_headers_trans)

lemma same_headers_write:
  assumes "nv_ok s" and "0x25000 \<le> NVRAM_LENGTH s"
    and "16 \<le> i \<and> i < 0x20000 \<or> 0x20010 \<le> i \<and> i < 0x25000"
  shows "same_headers s (nvram_write_byte s i v)"
  using assms nv.rd_wr [of s i _ v] by (auto simp: same_headers_def same_bytes_def)

lemma write_dword_bytes:
  assumes "nv_ok s" "0 \<le> i" "i + 3 < NVRAM_LENGTH s"
  shows "nvram_write_dword s i d =
    nvram_write_word (nvram_write_word s i (hi16 d)) (i + 2) (lo16 d)"
  using assms
  by (simp add: nvram_write_word_def nvram_write_dword_def nv_ok_def wrap_simps add.commute)

lemma init_cpulog_same_headers:
  assumes "nv_ok s" and "0x25000 \<le> NVRAM_LENGTH s" and "part_addr p = 16 \<or> part_addr p = 0x20010"
  shows "same_headers s (init_cpulog_partition s p)"
proof -
  have w: "same_headers u (nvram_write_word u i x)"
    if "nv_ok u" "NVRAM_LENGTH u = NVRAM_LENGTH s" "16 \<le> i \<and> i + 1 < 0x20000 \<or> 0x20010 \<le> i \<and> i + 1 < 0x25000"
    for u i x
    using that assms write_word_bytes [of u i x] same_headers_write [of u i "hi8 x"]
      same_headers_write [of "nvram_write_byte u i (hi8 x)" "i + 1" "lo8 x"]
    by (auto intro: same_headers_trans)
  have off: "u32_of (part_addr p) = part_addr p"
    using assms(3) by (auto simp: u32_of_id)
  define a where "a = part_addr p"
  let ?s1 = "nvram_write_word s (a + 0) 0x40"
  let ?s2 = "nvram_write_word ?s1 (a + 2) 0"
  let ?s3 = "nvram_write_word ?s2 (a + 4) (hi16 1)"
  have "0 \<le> a + 4" "a + 4 + 3 < NVRAM_LENGTH s"
    using assms by (auto simp: a_def)
  then have eq: "init_cpulog_partition s p = nvram_write_word ?s3 (a + 4 + 2) (lo16 1)"
    using assms(1) off write_dword_bytes [of ?s2 "a + 4" 1]
    by (simp add: init_cpulog_partition_def Let_def a_def)
  have pos: "16 \<le> a + i \<and> a + i + 1 < 0x20000 \<or> 0x20010 \<le> a + i \<and> a + i + 1 < 0x25000"
    if "i \<in> {0, 2, 4, 4 + 2}" for i
    using assms(3) that unfolding a_def by auto
  have t1: "same_headers s ?s1"
    using assms(1) pos [of 0] by (intro w) auto
  have t2: "same_headers ?s1 ?s2"
    using assms(1) pos [of 2] by (intro w) auto
  have t3: "same_headers ?s2 ?s3"
    using assms(1) pos [of 4] by (intro w) auto
  have t4: "same_headers ?s3 (nvram_write_word ?s3 (a + 4 + 2) (lo16 1))"
    using assms(1) pos [of "4 + 2"] by (intro w) (auto simp: add.assoc)
  show ?thesis
    unfolding eq by (rule same_headers_trans [OF same_headers_trans [OF same_headers_trans [OF t1 t2] t3] t4])
qed

lemma cpulog_name_ok: "terminated (cpulog_name d)" "length (cstr (cpulog_name d)) \<le> 12"
  by (simp_all add: cpulog_name_def)

lemma common_name_ok: "terminated common_name" "length (cstr common_name) \<le> 12"
  by (simp_all add: common_name_def)

definition reset_layout :: "pdesc list" where
  "reset_layout =
     [\<lparr>pd_type = 0x51, pd_blocks = 0x2000, pd_name = pad12 (cstr (cpulog_name 0x30))\<rparr>,
      \<lparr>pd_type = 0x51, pd_blocks = 0x500, pd_name = pad12 (cstr (cpulog_name 0x31))\<rparr>,
      \<lparr>pd_type = 0x70, pd_blocks = 0x100, pd_name = pad12 (cstr common_name)\<rparr>]"

lemma reset_steps:
  assumes ok: "nv_ok s" and L: "NVRAM_LENGTH s = 0x100000" and out: "log_writer out"
  shows "\<exists>t. reset_nvram out s = Some t \<and> nv_full t reset_layout 0x26000 0xDA00"
proof -
  let ?p0 = "reset_layout ! 0" and ?p1 = "reset_layout ! 1" and ?p2 = "reset_layout ! 2"
  define s0 where "s0 = erase_nvram s 0 (NVRAM_LENGTH s)"
  have plen: "part_plen (0x2000 * 16 - 16) = 0x20000" "part_plen (0x500 * 16 - 16) = 0x5000"
    "part_plen (0x01000 - 16) = 0x1000"
    by (simp_all add: part_plen_def u32_of_def)
  have "nv_wf s0 [] 0" "NVRAM_LENGTH s0 = 0x100000"
    using erase_all_wf [OF ok] L by (simp_all add: s0_def)
  then obtain s1 where s1: "create_nvram_partition s0 0x51 (cpulog_name 0x30) (0x2000 * 16 - 16) =
      Some (\<lparr>part_addr = 16, part_len = 0x2000 * 16 - 16\<rparr>, s1)"
    "nv_wf s1 [?p0] 0x20000" "NVRAM_LENGTH s1 = 0x100000"
    using create_wf [of s0 "[]" 0 "0x2000 * 16 - 16" "cpulog_name 0x30" "0x51"] cpulog_name_ok plen
    by (fastforce simp: reset_layout_def)
  then obtain s2 where s2: "create_nvram_partition s1 0x51 (cpulog_name 0x31) (0x500 * 16 - 16) =
      Some (\<lparr>part_addr = 0x20010, part_len = 0x500 * 16 - 16\<rparr>, s2)"
    "nv_wf s2 [?p0, ?p1] 0x25000" "NVRAM_LENGTH s2 = 0x100000"
    using create_wf [OF s1(2), of "0x500 * 16 - 16" "cpulog_name 0x31" "0x51"] cpulog_name_ok plen
    by (fastforce simp: reset_layout_def)
  define s3 where "s3 = init_cpulog_partition s2 \<lparr>part_addr = 16, part_len = 0x2000 * 16 - 16\<rparr>"
  define s4 where "s4 = init_cpulog_partition s3 \<lparr>part_addr = 0x20010, part_len = 0x500 * 16 - 16\<rparr>"
  define s5 where "s5 = nvramlog_printf out reset_message s4"
  have "same_headers s2 s3"
    unfolding s3_def using s2 by (intro init_cpulog_same_headers) (auto simp: nv_wf_def)
  moreover from this have "NVRAM_LENGTH s3 = 0x100000" "nv_ok s3"
    using s2 by (auto simp: same_headers_def same_bytes_def nv_wf_def nv_ok_def)
  then have "same_headers s3 s4"
    unfolding s4_def by (intro init_cpulog_same_headers) auto
  moreover have "same_headers s4 s5"
    unfolding s5_def by (rule nvramlog_same_headers [OF out])
  ultimately have "same_headers s2 s5"
    by (metis same_headers_trans)
  then have s5: "nv_wf s5 [?p0, ?p1] 0x25000" "NVRAM_LENGTH s5 = 0x100000"
    using same_headers_wf [of s2 s5] s2 by (auto simp: reset_layout_def same_headers_def same_bytes_def)
  then obtain s6 where s6: "create_nvram_partition s5 0x70 common_name (0x01000 - 16) =
      Some (\<lparr>part_addr = 0x25010, part_len = 0x01000 - 16\<rparr>, s6)"
    "nv_wf s6 reset_layout 0x26000" "NVRAM_LENGTH s6 = 0x100000"
    using create_wf [OF s5(1), of "0x01000 - 16" common_name "0x70"] common_name_ok plen
    by (fastforce simp: reset_layout_def)
  then obtain t where "create_free_partition s6 = Some (True, t)" "nv_full t reset_layout 0x26000 0xDA00"
    using wf_free_full [OF s6(2)] by (auto simp: reset_layout_def)
  then show ?thesis
    using s1(1) s2(1) s6(1) by (simp add: reset_nvram_def s0_def s3_def s4_def s5_def)
qed

subsection \<open>Walks that end and walks that do not\<close>

lemma get_partition_loop_total:
  assumes "nv_ok s" and "0 \<le> walk" and "ty \<noteq> 0" and "name_ok name"
  shows "\<exists>p. get_partition_loop s ty name walk = Some p"
  using assms(2)
proof (induction "nat (NVRAM_LENGTH s - walk)" arbitrary: walk rule: less_induct)
  case less
  let ?n = "uint (get_partition_len s walk)"
  have n: "?n < 65536" "0 \<le> ?n"
    using uint_lt2p [of "get_partition_len s walk"] by simp_all
  obtain d where d: "(case name of None \<Rightarrow> Some False
      | Some n \<Rightarrow> map_option (\<lambda>r. r \<noteq> 0) (strncmp (get_partition_name s walk) n 12)) = Some d"
    using name_compare [OF assms(4), of s walk] by blast
  show ?case
  proof (cases "walk < NVRAM_LENGTH s \<and> get_partition_len s walk \<noteq> 0")
    case True
    then have "0 < ?n"
      using n by (metis order_le_imp_less_or_eq uint_0_iff)
    moreover have "u32_of (walk + ?n * 16) = walk + ?n * 16"
      using True n assms(1) less.prems by (intro u32_of_id) (auto simp: nv_ok_def)
    ultimately have "\<exists>p. get_partition_loop s ty name (u32_of (walk + ?n * 16)) = Some p"
      using True less.prems by (intro less.hyps) auto
    with d show ?thesis
      by (subst get_partition_loop.simps) auto
  next
    case False
    then show ?thesis using assms(3) by (subst get_partition_loop.simps) auto
  qed
qed

lemma get_partition_loop_stuck:
  assumes "get_partition_loop s ty name walk = Some p"
    and "walk < NVRAM_LENGTH s" "0 \<le> walk" "NVRAM_LENGTH s \<le> 4294967296"
    and "header_ok s walk" "get_partition_len s walk = 0" "get_partition_type s walk \<noteq> 0" "ty = 0"
  shows False
proof -
  let ?bad = "\<lambda>s ty walk. walk < NVRAM_LENGTH s \<and> 0 \<le> walk \<and> NVRAM_LENGTH s \<le> 4294967296 \<and>
    header_ok s walk \<and> get_partition_len s walk = 0 \<and> get_partition_type s walk \<noteq> 0 \<and> ty = 0"
  have "\<not> ?bad s ty walk"
    by (rule get_partition_loop.raw_induct
          [where P = "\<lambda>s ty name walk p. \<not> ?bad s ty walk", OF _ assms(1)])
       (auto simp: header_ok_def u32_of_id uint_0_iff split: if_splits, blast)
  with assms show False by blast
qed

subsection \<open>Growing a partition\<close>

text \<open>The checksum as a function of the header fields.\<close>

definition fields_checksum :: "u8 \<Rightarrow> u16 \<Rightarrow> bytes \<Rightarrow> u8" where
  "fields_checksum ty blocks name =
     (let plainsum = fold (\<lambda>b sum. sum + ucast b) (hi8 blocks # lo8 blocks # name) (ucast ty :: u16)
      in ucast (drop_bit 8 plainsum + (plainsum AND 0xff)))"

lemma upt_12: "[0..<12] = [0, 1, 2, 3, 4, 5, 6, 7, 8, 9, 10, 11]"
  by (simp add: upt_rec)

lemma calc_from_fields:
  assumes "nv_ok s" and "0 \<le> off" and "off + 16 \<le> NVRAM_LENGTH s"
  shows "calc_partition_header_checksum s off =
    fields_checksum (get_partition_type s off) (get_partition_len s off) (get_partition_name s off)"
proof -
  have "off + 2 + 1 = off + 3" by simp
  then have "get_partition_len s off = cat16 (nvram_read_byte s (off + 2)) (nvram_read_byte s (off + 3))"
    using assms read_word_bytes [of s "off + 2"] by (simp only: get_partition_len_def)
  moreover have "get_partition_name s off = map (\<lambda>k. nvram_read_byte s (off + k)) [4, 5, 6, 7, 8, 9, 10, 11, 12, 13, 14, 15]"
    by (simp add: get_partition_name_def upt_12 add.commute)
  ultimately show ?thesis
    by (simp add: calc_partition_header_checksum_def fields_checksum_def get_partition_type_def be_simps)
qed

lemma increase_breaks:
  assumes full: "nv_full s [p] e b" and L: "NVRAM_LENGTH s < 0x100000"
    and sz: "16 * pd_blocks p - 16 \<le> newsize" "newsize - (16 * pd_blocks p - 16) \<le> 16 * b - 16"
    and sum: "fields_checksum (pd_type p) (word_of_int newsize) (pd_name p) \<noteq>
         fields_checksum (pd_type p) (word_of_int (pd_blocks p)) (pd_name p)"
  shows "\<exists>t. increase_nvram_partition_size s \<lparr>part_addr = 16, part_len = 16 * pd_blocks p - 16\<rparr> newsize = Some (1, t) \<and>
    get_partition t (uint (pd_type p)) None = Some \<lparr>part_addr = 0, part_len = -1\<rparr>"
proof -
  let ?part = "\<lparr>part_addr = 16, part_len = 16 * pd_blocks p - 16\<rparr>"
  have hp: "header_at s 0 p" and e: "e = 16 * pd_blocks p" and eb: "e + 16 * b = NVRAM_LENGTH s"
    and ok: "nv_ok s" and b: "0 < b" and blk: "0 < pd_blocks p" and dv: "16 dvd NVRAM_LENGTH s"
    and ty: "pd_type p \<noteq> 0x7f" "pd_type p \<noteq> 0"
    using full by (auto simp: nv_full_def header_at_def free_pd_def)
  define s1 where "s1 = wipe_partition s \<lparr>part_addr = e + 16, part_len = 16 * b - 16\<rparr> True"
  define s2 where "s2 = erase_nvram s1 e (newsize - (16 * pd_blocks p - 16))"
  define s3 where "s3 = nvram_write_word s2 2 (word_of_int newsize)"
  have s1: "nv_wf s1 [p] e" "NVRAM_LENGTH s1 = NVRAM_LENGTH s"
    unfolding s1_def using full_wipe [OF full] L by auto
  then have L3: "NVRAM_LENGTH s2 = NVRAM_LENGTH s" "NVRAM_LENGTH s3 = NVRAM_LENGTH s"
    and ok3: "nv_ok s2" "nv_ok s3"
    using ok by (simp_all add: s2_def s3_def nv_ok_def)
  have rd: "nvram_read_byte s3 j = (if j = 3 then lo8 (word_of_int newsize) else if j = 2 then hi8 (word_of_int newsize)
      else nvram_read_byte s1 j)" if "0 \<le> j" "j < 16" for j
    using that s1 L3 ok3 sz e eb blk b read_erase [of s1 e "newsize - (16 * pd_blocks p - 16)"]
    by (simp add: s3_def s2_def write_word_bytes nv.rd_wr nv_wf_def)
  have h1: "header_at s1 0 p" using s1 by (simp add: nv_wf_def)
  have "get_partition_len s3 0 = word_of_int newsize"
    using rd ok3 L3 eb e b blk by (simp add: get_partition_len_def read_word_bytes be_simps)
  moreover have "get_partition_type s3 0 = pd_type p" "get_partition_name s3 0 = pd_name p"
    using rd h1 by (auto simp: header_at_def get_partition_type_def get_partition_name_def upt_12)
  moreover have "get_partition_header_checksum s3 0 =
      fields_checksum (pd_type p) (word_of_int (pd_blocks p)) (pd_name p)"
  proof -
    have "get_partition_header_checksum s3 0 = get_partition_header_checksum s1 0"
      using rd by (simp add: get_partition_header_checksum_def)
    also have "\<dots> = calc_partition_header_checksum s1 0"
      using h1 by (simp add: header_at_def header_ok_def)
    also have "\<dots> = fields_checksum (pd_type p) (get_partition_len s1 0) (pd_name p)"
      using calc_from_fields [of s1 0] h1 s1 e eb blk b by (auto simp: header_at_def nv_wf_def)
    also have "get_partition_len s1 0 = word_of_int (pd_blocks p)"
      using h1 by (metis header_at_def word_of_int_uint)
    finally show ?thesis .
  qed
  ultimately have "get_partition_header_checksum s3 0 \<noteq> calc_partition_header_checksum s3 0"
    using sum calc_from_fields [of s3 0] ok3 L3 e eb blk b by simp
  then have used: "calc_used_nvram_space s3 = Some 0"
    unfolding calc_used_nvram_space_def using L3 e eb blk b by (subst calc_used_loop.simps) simp
  let ?l = "NVRAM_LENGTH s - 16"
  have pl: "part_plen ?l = NVRAM_LENGTH s"
    using dv e eb blk b L by (auto simp: part_plen_def wrap_simps elim!: dvdE)
  obtain t where t: "create_nvram_partition s3 0x7f free_space_name ?l = Some (\<lparr>part_addr = 16, part_len = ?l\<rparr>, t)"
    and w: "written_header s3 0 0x7f (word_of_int (NVRAM_LENGTH s div 16)) (cstr free_space_name) t"
    using create_writes_header [OF ok3(2) used, of ?l free_space_name "0x7f"] free_space_name_ok L L3 pl e eb blk b
    by auto
  define q where "q = \<lparr>pd_type = 0x7f, pd_blocks = NVRAM_LENGTH s div 16,
    pd_name = map (\<lambda>i. if i < length (cstr free_space_name) then cstr free_space_name ! i
      else nvram_read_byte s3 (0 + 4 + int i)) [0..<12]\<rparr>"
  have "header_at t 0 q"
    unfolding q_def using written_header_at [OF w ok3(2)] free_space_name_ok(2) L L3 dv e eb blk b by auto
  then have "nv_wf t [q] (NVRAM_LENGTH t)"
    using w L3 dv ok3(2) by (intro wf_of_full_chain) (auto simp: written_header_def nv_ok_def q_def)
  then have "get_partition t (uint (pd_type p)) None = Some (find_part (uint (pd_type p)) None 0 [q])"
    using get_partition_loop_chain [of t "[q]" "NVRAM_LENGTH t" "uint (pd_type p)" None 0 "[q]"] ty
      uint_lt2p [of "pd_type p"]
    by (simp add: get_partition_def name_ok_def nv_wf_def u32_of_id)
  moreover have "uint (pd_type p) \<noteq> 0xFFFFFFFF" "uint (pd_type p) \<noteq> uint (0x7f :: u8)"
    using uint_lt2p [of "pd_type p"] ty by (simp, simp only: uint_u8_inj, simp)
  ultimately have "get_partition t (uint (pd_type p)) None = Some \<lparr>part_addr = 0, part_len = -1\<rparr>"
    by (simp add: pd_matches_def q_def)
  moreover have "increase_nvram_partition_size s ?part newsize = Some (1, t)"
    using full_find_free [OF full] sz t used e eb L L3 blk b
    by (simp add: increase_nvram_partition_size_def create_free_partition_def s1_def s2_def s3_def wrap_simps)
  ultimately show ?thesis by blast
qed

subsection \<open>Properties\<close>

text \<open>An erased NVRAM of 256 bytes, for the witnesses.\<close>

definition blank_nvram :: nvram where
  "blank_nvram = \<lparr>nv_mem = \<lambda>_. 0, NVRAM_LENGTH = 256, nvram_buffer = \<lambda>_. 0, nvram_buffer_locked = 0\<rparr>"

lemma blank_wf: "nv_wf blank_nvram [] 0" "NVRAM_LENGTH blank_nvram = 256"
  by (simp_all add: nv_wf_def nv_ok_def erased_def nvram_read_byte_def blank_nvram_def Let_def)

lemma blank_full:
  "\<exists>s. create_free_partition blank_nvram = Some (True, s) \<and> NVRAM_LENGTH s = 256 \<and> nv_full s [] 0 16"
  using wf_free_full [OF blank_wf(1)] blank_wf(2) by simp

text \<open>Creating a partition appends it. On an NVRAM that holds the partitions \<open>ps\<close> up to \<open>e\<close> and is
  erased behind them, \<open>create_nvram_partition\<close> of a partition that fits returns its data address and
  length, and afterwards the NVRAM holds \<open>ps\<close> followed by the new partition (with type, rounded-up
  block count, padded name and a valid checksum), erased behind it.\<close>

theorem create_appends:
  assumes "nv_wf s ps e" and "0 \<le> l" and "l < 0x100000"
    and "part_plen l \<le> NVRAM_LENGTH s - e" and "part_plen l < 0x100000"
    and "terminated name" and "length (cstr name) \<le> 12" and "(word_of_int ty :: u8) \<noteq> 0"
  shows "\<exists>t. create_nvram_partition s ty name l = Some (\<lparr>part_addr = e + 16, part_len = l\<rparr>, t) \<and>
    nv_wf t (ps @ [\<lparr>pd_type = word_of_int ty, pd_blocks = part_plen l div 16, pd_name = pad12 (cstr name)\<rparr>])
      (e + part_plen l)"
  using create_wf [OF assms] by blast

theorem create_appends_witness:
  "\<exists>t. create_nvram_partition blank_nvram 0x70 common_name 20 = Some (\<lparr>part_addr = 16, part_len = 20\<rparr>, t) \<and>
    nv_wf t [\<lparr>pd_type = 0x70, pd_blocks = 3, pd_name = pad12 (cstr common_name)\<rparr>] 48"
proof -
  have "part_plen 20 = 48" by (simp add: part_plen_def u32_of_def)
  with create_appends [OF blank_wf(1), of 20 common_name "0x70"] blank_wf(2) common_name_ok
  show ?thesis by simp
qed

text \<open>C2: Looking up a partition refines the search in the partition list: for every non-zero type and
  every name, \<open>get_partition\<close> returns the data address and length of the first partition of the list
  that matches, and \<open>{0, -1}\<close> when none does.\<close>

theorem get_partition_refines:
  assumes "nv_wf s ps e" and "u32_of ty \<noteq> 0" and "name_ok name"
  shows "get_partition s ty name = Some (find_part (u32_of ty) name 0 ps)"
  unfolding get_partition_def
  using get_partition_loop_chain [OF assms, of 0 ps] assms(1) by (simp add: nv_wf_def)

theorem get_partition_refines_witness:
  "get_partition blank_nvram (-1) (Some common_name) = Some \<lparr>part_addr = 0, part_len = -1\<rparr>"
  using get_partition_refines [OF blank_wf(1), of "-1" "Some common_name"] common_name_ok
  by (simp add: u32_of_def name_ok_def prefix_ok_def)

text \<open>C1: \<open>new_nvram_partition\<close> keeps the invariant "partitions, then one erased free-space partition
  up to the end of the NVRAM": a request that fits with room to spare is appended and the free space
  shrinks by its blocks; a request that does not fit returns \<open>{0, 0}\<close> and leaves partitions and free
  space as they were.\<close>

theorem new_partition_invariant:
  assumes "nv_full s ps e b" and "NVRAM_LENGTH s \<le> 0x100000" and "16 * b < 0x100000" and "1 < b"
    and "0 < l" and "l < 0x100000" and "terminated name" and "length (cstr name) \<le> 12"
    and "(word_of_int ty :: u8) \<noteq> 0" and "(word_of_int ty :: u8) \<noteq> 0x7f"
  shows "(part_plen l < 16 * b \<longrightarrow>
      (\<exists>t. new_nvram_partition s ty name l = Some (\<lparr>part_addr = e + 16, part_len = l\<rparr>, t) \<and>
        nv_full t (ps @ [\<lparr>pd_type = word_of_int ty, pd_blocks = part_plen l div 16, pd_name = pad12 (cstr name)\<rparr>])
          (e + part_plen l) (b - part_plen l div 16))) \<and>
    (16 * b < part_plen l \<longrightarrow>
      (\<exists>t. new_nvram_partition s ty name l = Some (\<lparr>part_addr = 0, part_len = 0\<rparr>, t) \<and> nv_full t ps e b))"
  using new_partition_full [OF assms(1-4), of l name ty] assms(5-) by auto

theorem new_partition_invariant_witness:
  "\<exists>s t u. nv_full s [] 0 16 \<and>
    new_nvram_partition s 0x70 common_name 20 = Some (\<lparr>part_addr = 16, part_len = 20\<rparr>, t) \<and>
    nv_full t [\<lparr>pd_type = 0x70, pd_blocks = 3, pd_name = pad12 (cstr common_name)\<rparr>] 48 13 \<and>
    new_nvram_partition s 0x70 common_name 300 = Some (\<lparr>part_addr = 0, part_len = 0\<rparr>, u) \<and>
    nv_full u [] 0 16"
proof -
  obtain s where s: "nv_full s [] 0 16" "NVRAM_LENGTH s = 256" using blank_full by blast
  have "part_plen 20 = 48" "part_plen 300 = 320" by (simp_all add: part_plen_def u32_of_def)
  then show ?thesis
    using s new_partition_invariant [OF s(1), of 20 common_name "0x70"]
      new_partition_invariant [OF s(1), of 300 common_name "0x70"] common_name_ok
    by fastforce
qed

text \<open>C3: After \<open>reset_nvram\<close> the 1 MiB NVRAM of the JS2x boards holds exactly the two CPU log
  partitions, the partition \<open>common\<close> and the free-space partition that takes the rest, for every
  previous contents, provided that logging a character writes inside the log partitions only.\<close>

theorem reset_nvram_layout:
  assumes "NVRAM_LENGTH s = 0x100000" and "log_writer asm_cout"
  shows "\<exists>t. reset_nvram asm_cout s = Some t \<and> nv_full t reset_layout 0x26000 0xDA00"
  using reset_steps [of s asm_cout] assms by (simp add: nv_ok_def)

theorem reset_nvram_layout_witness:
  "\<exists>t. reset_nvram (\<lambda>c s. if NVRAM_LENGTH s = 0x100000 then nvram_write_byte s 0x50 c else s)
      (blank_nvram\<lparr>NVRAM_LENGTH := 0x100000\<rparr>) = Some t \<and> nv_full t reset_layout 0x26000 0xDA00"
proof (rule reset_nvram_layout)
  show "log_writer (\<lambda>c s. if NVRAM_LENGTH s = 0x100000 then nvram_write_byte s 0x50 c else s)"
    using same_headers_write by (simp add: log_writer_def same_headers_refl nv_ok_def)
qed simp

text \<open>C6: The partition walks end on every contents of the NVRAM: \<open>calc_used_nvram_space\<close> always
  returns, and \<open>get_partition\<close> returns for every type other than zero.\<close>

theorem partition_walks_terminate:
  assumes "nv_ok s" and "u32_of ty \<noteq> 0" and "name_ok name"
  shows "(\<exists>u. calc_used_nvram_space s = Some u) \<and> (\<exists>p. get_partition s ty name = Some p)"
  unfolding calc_used_nvram_space_def get_partition_def
  using calc_used_loop_total [of s 0] get_partition_loop_total [of s 0] assms by simp

theorem partition_walks_terminate_witness:
  "(\<exists>u. calc_used_nvram_space (blank_nvram\<lparr>nv_mem := \<lambda>k. word_of_int k\<rparr>) = Some u) \<and>
   (\<exists>p. get_partition (blank_nvram\<lparr>nv_mem := \<lambda>k. word_of_int k\<rparr>) 0x70 None = Some p)"
  by (rule partition_walks_terminate) (simp_all add: nv_ok_def blank_nvram_def u32_of_def name_ok_def)

text \<open>Searching for free unpartitioned space (type 0) can run forever: if the first header has a
  type, a valid checksum and length zero, \<open>get_partition(0, ...)\<close> does not return.\<close>

theorem get_partition_zero_diverges:
  assumes "nv_ok s" and "header_ok s 0" and "get_partition_len s 0 = 0" and "get_partition_type s 0 \<noteq> 0"
  shows "get_partition s 0 name = None"
proof (rule ccontr)
  assume "get_partition s 0 name \<noteq> None"
  then obtain p where "get_partition_loop s 0 name 0 = Some p"
    by (auto simp: get_partition_def u32_of_def)
  then show False
    using get_partition_loop_stuck [of s 0 name 0 p] assms by (simp add: nv_ok_def)
qed

theorem get_partition_zero_diverges_witness:
  "get_partition (blank_nvram\<lparr>nv_mem := (\<lambda>_. 0)(0 := 5, 1 := 5)\<rparr>) 0 None = None"
proof (rule get_partition_zero_diverges)
  let ?s = "blank_nvram\<lparr>nv_mem := (\<lambda>_. 0)(0 := 5, 1 := 5)\<rparr>"
  show "nv_ok ?s" "get_partition_len ?s 0 = 0" "get_partition_type ?s 0 \<noteq> 0"
    by (simp_all add: nv_ok_def blank_nvram_def get_partition_len_def get_partition_type_def
        nvram_read_word_def nvram_read_byte_def u32_of_def u64_of_def cat16_def)
  show "header_ok ?s 0"
    by (simp add: header_ok_def get_partition_header_checksum_def calc_partition_header_checksum_def
        nvram_read_byte_def blank_nvram_def u32_of_def u64_of_def)
qed

text \<open>Growing a partition loses it. With one partition before the free space,
  \<open>increase_nvram_partition_size\<close> to a size that fits reports success, but the new length is written
  in bytes instead of blocks and the header checksum is left as it was: whenever the checksum of the
  changed header differs from the old one, the walk stops at that header, the free-space header is
  written over it, and the partition can no longer be found.\<close>

theorem increase_loses_partition:
  assumes "nv_full s [p] e b" and "NVRAM_LENGTH s < 0x100000"
    and "16 * pd_blocks p - 16 \<le> newsize" and "newsize - (16 * pd_blocks p - 16) \<le> 16 * b - 16"
    and "fields_checksum (pd_type p) (word_of_int newsize) (pd_name p) \<noteq>
         fields_checksum (pd_type p) (word_of_int (pd_blocks p)) (pd_name p)"
  shows "\<exists>t. increase_nvram_partition_size s \<lparr>part_addr = 16, part_len = 16 * pd_blocks p - 16\<rparr> newsize = Some (1, t) \<and>
    get_partition t (uint (pd_type p)) None = Some \<lparr>part_addr = 0, part_len = -1\<rparr>"
  using increase_breaks [OF assms] .

theorem increase_loses_partition_witness:
  "\<exists>s t. nv_full s [\<lparr>pd_type = 0x70, pd_blocks = 2, pd_name = pad12 (cstr common_name)\<rparr>] 32 14 \<and>
    increase_nvram_partition_size s \<lparr>part_addr = 16, part_len = 16\<rparr> 32 = Some (1, t) \<and>
    get_partition t 0x70 None = Some \<lparr>part_addr = 0, part_len = -1\<rparr>"
proof -
  let ?p = "\<lparr>pd_type = 0x70, pd_blocks = 2, pd_name = pad12 (cstr common_name)\<rparr>"
  have "part_plen 16 = 32" by (simp add: part_plen_def u32_of_def)
  moreover obtain t where t: "create_nvram_partition blank_nvram 0x70 common_name 16 =
      Some (\<lparr>part_addr = 16, part_len = 16\<rparr>, t)" "NVRAM_LENGTH t = 256" "nv_wf t [?p] 32"
    using create_wf [OF blank_wf(1), of 16 common_name "0x70"] blank_wf(2) common_name_ok calculation
    by fastforce
  moreover obtain s where s: "nv_full s [?p] 32 14" "NVRAM_LENGTH s = 256"
    using wf_free_full [OF t(3)] t(2) by auto
  moreover have "fields_checksum 0x70 32 (pad12 (cstr common_name)) \<noteq> fields_checksum 0x70 2 (pad12 (cstr common_name))"
    by code_simp
  ultimately show ?thesis
    using increase_loses_partition [OF s(1), of 32] by auto
qed

end
