(* ===== verification/Envvar.thy ===== *)
theory Envvar
  imports Nvram_Partitions
begin

section \<open>Environment variables (\<open>src/lib/libnvram/envvar.c\<close>)\<close>

text \<open>
  An environment partition holds strings \<open>name=value\<close>, each ended by a NUL, and ends with an empty
  string. The operations take a partition, the name and its length, and the value and its length;
  \<open>None\<close> is a call that does not return or that leaves one of its buffers.
\<close>

subsection \<open>Operations\<close>

text \<open>
  The inner loop \<open>while ((data = nvram_read_byte(offset++)) && len < 256) temp[len++] = data\<close>, shared
  by the two search functions: the offset behind the byte that ended it and the bytes stored.
\<close>

function env_read :: "nvram \<Rightarrow> int \<Rightarrow> bytes \<Rightarrow> int \<times> bytes" where
  "env_read s offset acc =
     (let data = nvram_read_byte s offset in
      if data \<noteq> 0 \<and> length acc < 256 then env_read s (offset + 1) (acc @ [data])
      else (offset + 1, acc))"
  by pat_completeness auto
termination
  by (relation "measure (\<lambda>(s, offset, acc). 256 - length acc)") auto

declare env_read.simps [simp del]

text \<open>
  \<open>temp\<close> is cleared once per call and overwritten, not terminated, for each string.
\<close>

partial_function (option) get_past_env_loop ::
    "nvram \<Rightarrow> bytes \<Rightarrow> nat \<Rightarrow> int \<Rightarrow> bytes \<Rightarrow> int option" where
  "get_past_env_loop s envvar evlen offset temp =
     (let (offset', acc) = env_read s offset []; temp' = acc @ drop (length acc) temp in
      do { r \<leftarrow> strncmp envvar temp' evlen;
           if r = 0 then Some offset'
           else if length acc \<noteq> 0 then get_past_env_loop s envvar evlen offset' temp'
           else Some (-1) })"

definition get_past_env_pos :: "nvram \<Rightarrow> partition_t \<Rightarrow> bytes \<Rightarrow> nat \<Rightarrow> int option" where
  "get_past_env_pos s part envvar evlen =
     get_past_env_loop s envvar evlen (s32_of (part_addr part)) (replicate 256 0)"

text \<open>
  \<open>temp\<close> is a static array of 257 bytes; the result is the pointer \<open>temp + pos + 1\<close>, given as the
  bytes of \<open>temp\<close> from there on, and \<open>temp\<close> itself.
\<close>

fun find_eq :: "bytes \<Rightarrow> nat \<Rightarrow> nat" where
  "find_eq temp 0 = 0"
| "find_eq [] (Suc n) = 0"
| "find_eq (c # temp) (Suc n) = (if c \<noteq> 61 then Suc (find_eq temp n) else 0)"

partial_function (option) nvram_get_env_loop ::
    "nvram \<Rightarrow> bytes \<Rightarrow> nat \<Rightarrow> int \<Rightarrow> bytes \<Rightarrow> (bytes option \<times> bytes) option" where
  "nvram_get_env_loop s envvar evlen offset temp =
     (let (offset', acc) = env_read s offset []; temp' = acc @ 0 # drop (length acc + 1) temp in
      do { r \<leftarrow> strncmp envvar temp' evlen;
           if r = 0 then Some (Some (drop (find_eq temp' (length acc) + 1) temp'), temp')
           else if length acc \<noteq> 0 then nvram_get_env_loop s envvar evlen offset' temp'
           else Some (None, temp') })"

definition nvram_get_env ::
    "nvram \<Rightarrow> bytes \<Rightarrow> partition_t \<Rightarrow> bytes \<Rightarrow> nat \<Rightarrow> (bytes option \<times> bytes) option" where
  "nvram_get_env s temp part envvar evlen =
     (if part_addr part = 0 then Some (None, temp)
      else nvram_get_env_loop s envvar evlen (s32_of (part_addr part)) temp)"

fun find_last_loop :: "nvram \<Rightarrow> u8 \<Rightarrow> int \<Rightarrow> nat \<Rightarrow> int" where
  "find_last_loop s lst offset 0 = -1"
| "find_last_loop s lst offset (Suc n) =
     (let current = nvram_read_byte s offset in
      if lst = 0 \<and> current = 0 then offset
      else find_last_loop s current (offset + 1) n)"

definition find_last_envvar :: "nvram \<Rightarrow> partition_t \<Rightarrow> int" where
  "find_last_envvar s part =
     (let start = s32_of (part_addr part); stop = s32_of (part_addr part + part_len part) in
      find_last_loop s (nvram_read_byte s (part_addr part)) start (nat (stop - start)))"

text \<open>The write loops \<open>nvram_write_byte(offset++, xs[i])\<close> for \<open>i < n\<close>.\<close>

definition nvram_write_bytes :: "nvram \<Rightarrow> int \<Rightarrow> bytes \<Rightarrow> nat \<Rightarrow> nvram" where
  "nvram_write_bytes s offset xs n =
     fold (\<lambda>i s. nvram_write_byte s (offset + int i) (xs ! i)) [0..<n] s"

definition nvram_add_env ::
    "nvram \<Rightarrow> partition_t \<Rightarrow> bytes \<Rightarrow> nat \<Rightarrow> bytes \<Rightarrow> nat \<Rightarrow> (int \<times> nvram) option" where
  "nvram_add_env s part envvar evlen value vallen =
     (let last = u32_of (find_last_envvar s part);
          freespace = u32_of (part_addr part + part_len part - last);
          l = u32_of (int evlen + int vallen + 2)
      in if freespace < l then Some (-1, s)
         else if evlen \<le> length envvar \<and> vallen \<le> length value then
           let s1 = nvram_write_bytes s last envvar evlen;
               s2 = nvram_write_byte s1 (last + int evlen) 61;
               s3 = nvram_write_bytes s2 (last + int evlen + 1) value vallen
           in Some (0, s3)
         else None)"

partial_function (option) back_to :: "(u8 \<Rightarrow> bool) \<Rightarrow> nvram \<Rightarrow> int \<Rightarrow> int option" where
  "back_to stop s current =
     (if stop (nvram_read_byte s current) then Some current else back_to stop s (current - 1))"

text \<open>
  The copy loops over \<open>nvram_buffer\<close>. In \<open>nvram_del_env\<close> the result of \<open>get_nvram_buffer\<close> is not
  checked: copying through a \<open>NULL\<close> pointer is \<open>None\<close>.
\<close>

definition fill_buffer :: "nvram \<Rightarrow> int \<Rightarrow> nat \<Rightarrow> nvram" where
  "fill_buffer s from n =
     fold (\<lambda>i s. s\<lparr>nvram_buffer := (nvram_buffer s)(int i := nvram_read_byte s (from + int i))\<rparr>) [0..<n] s"

definition drain_buffer :: "nvram \<Rightarrow> int \<Rightarrow> nat \<Rightarrow> nvram" where
  "drain_buffer s to n =
     fold (\<lambda>i s. nvram_write_byte s (to + int i) (nvram_buffer s (int i))) [0..<n] s"

definition nvram_del_env :: "nvram \<Rightarrow> partition_t \<Rightarrow> bytes \<Rightarrow> nat \<Rightarrow> (int \<times> nvram) option" where
  "nvram_del_env s part envvar evlen =
     (if part_addr part = 0 then Some (-1, s)
      else do {
        let last = find_last_envvar s part;
        pos \<leftarrow> get_past_env_pos s part envvar evlen;
        c \<leftarrow> back_to (\<lambda>b. b = 0) s (pos - 1);
        let current = c + 1;
        let (got, s1) = get_nvram_buffer s (last - pos);
        if \<not> got \<and> 0 < last - pos then None
        else do {
          let s2 = fill_buffer s1 pos (nat (last - pos));
          let s3 = drain_buffer s2 current (nat (last - pos));
          let s4 = free_nvram_buffer s3;
          Some (0, erase_nvram s4 last (current + last - pos))
        }
      })"

definition nvram_set_env ::
    "nvram \<Rightarrow> bytes \<Rightarrow> partition_t \<Rightarrow> bytes \<Rightarrow> nat \<Rightarrow> bytes \<Rightarrow> nat \<Rightarrow> (int \<times> nvram) option" where
  "nvram_set_env s temp part envvar evlen value vallen =
     (if part_addr part = 0 then Some (-1, s)
      else do {
        (oldvalue, temp') \<leftarrow> nvram_get_env s temp part envvar evlen;
        case oldvalue of
          None \<Rightarrow> nvram_add_env s part envvar evlen value vallen
        | Some old \<Rightarrow> do {
            l \<leftarrow> strlen old;
            same \<leftarrow> (if unat l = vallen then map_option (\<lambda>r. r = 0) (strncmp old value vallen) else Some False);
            if same then Some (0, s)
            else do {
              let last = u32_of (find_last_envvar s part);
              p \<leftarrow> get_past_env_pos s part envvar evlen;
              let buffersize = u32_of (last - p);
              let (got, s1) = get_nvram_buffer s buffersize;
              if \<not> got then Some (-1, s1)
              else if vallen \<le> length value then do {
                let s2 = fill_buffer s1 (u32_of p) (nat buffersize);
                c \<leftarrow> back_to (\<lambda>b. b = 61) s2 (u32_of p);
                let cur = c + 1;
                let s3 = nvram_write_bytes s2 cur value vallen;
                let s4 = nvram_write_byte s3 (cur + int vallen) 0;
                let s5 = drain_buffer s4 (cur + int vallen + 1) (nat buffersize);
                let s6 = free_nvram_buffer s5;
                let stop = u32_of (cur + int vallen + 1 + buffersize);
                Some (0, if stop < last
                         then fold (\<lambda>i s. nvram_write_byte s (stop + int i) 0) [0..<nat (last - stop)] s6
                         else s6)
              } else None
            }
          }
      })"

subsection \<open>The strings of a partition\<close>

definition string_at :: "nvram \<Rightarrow> int \<Rightarrow> bytes \<Rightarrow> bool" where
  "string_at s off e \<longleftrightarrow> e \<noteq> [] \<and> 0 \<notin> set e \<and> length e \<le> 256 \<and>
     (\<forall>i<length e. nvram_read_byte s (off + int i) = e ! i) \<and>
     nvram_read_byte s (off + int (length e)) = 0"

fun env_block :: "nvram \<Rightarrow> int \<Rightarrow> bytes list \<Rightarrow> bool" where
  "env_block s off [] \<longleftrightarrow> nvram_read_byte s off = 0"
| "env_block s off (e # es) \<longleftrightarrow> string_at s off e \<and> env_block s (off + int (length e) + 1) es"

fun env_end :: "int \<Rightarrow> bytes list \<Rightarrow> int" where
  "env_end off [] = off"
| "env_end off (e # es) = env_end (off + int (length e) + 1) es"

text \<open>The first string that starts with the key, and what follows its first \<open>=\<close>.\<close>

fun env_lookup :: "bytes list \<Rightarrow> bytes \<Rightarrow> bytes option" where
  "env_lookup [] key = None"
| "env_lookup (e # es) key =
     (if take (length key) e = key then Some (tl (dropWhile (\<lambda>c. c \<noteq> 61) e)) else env_lookup es key)"

lemma env_end_ge: "off \<le> env_end off es"
  by (induction off es rule: env_end.induct) auto

lemma env_end_append: "env_end off (es @ [e]) = env_end off es + int (length e) + 1"
  by (induction off es rule: env_end.induct) auto

lemma env_read_string:
  assumes "0 \<notin> set e" and "length acc + length e \<le> 256"
    and "\<forall>i<length e. nvram_read_byte s (off + int i) = e ! i"
    and "nvram_read_byte s (off + int (length e)) = 0"
  shows "env_read s off acc = (off + int (length e) + 1, acc @ e)"
  using assms
proof (induction e arbitrary: off acc)
  case Nil
  then show ?case by (subst env_read.simps) simp
next
  case (Cons c e)
  have c: "nvram_read_byte s off = c" "c \<noteq> 0"
    using Cons.prems(3) [rule_format, of 0] Cons.prems(1) by auto
  have "\<forall>i<length e. nvram_read_byte s (off + 1 + int i) = e ! i"
    using Cons.prems(3) by (auto simp: add.assoc dest: spec [of _ "Suc _"])
  then have "env_read s (off + 1) (acc @ [c]) = (off + 1 + int (length e) + 1, (acc @ [c]) @ e)"
    using Cons.prems by (intro Cons.IH) (auto simp: add.assoc)
  then show ?case
    using c Cons.prems(2) by (subst env_read.simps) (simp add: Let_def)
qed

lemma env_read_at: "string_at s off e \<Longrightarrow> env_read s off [] = (off + int (length e) + 1, e)"
  by (subst env_read_string [where e = e]) (auto simp: string_at_def)

lemma env_read_empty: "nvram_read_byte s off = 0 \<Longrightarrow> env_read s off [] = (off + 1, [])"
  by (subst env_read.simps) simp

lemma take_cstr: "0 \<notin> set (take n s) \<Longrightarrow> take n (cstr s) = take n s"
  by (induction s arbitrary: n) (auto simp: take_Cons split: nat.splits)

lemma cstr_zero_append: "0 \<notin> set e \<Longrightarrow> cstr (e @ 0 # r) = e"
  by (rule cstr_append)

lemma find_eq_dropWhile:
  "61 \<in> set e \<Longrightarrow> drop (find_eq (e @ r) (length e) + 1) (e @ r) = tl (dropWhile (\<lambda>c. c \<noteq> 61) e) @ r"
  by (induction e) auto

lemma set_tl_dropWhile: "set (tl (dropWhile P e)) \<subseteq> set e"
  by (induction e) auto

text \<open>What the name argument must be: \<open>evlen\<close> non-zero bytes, at least one.\<close>

definition key_ok :: "bytes \<Rightarrow> nat \<Rightarrow> bool" where
  "key_ok envvar evlen \<longleftrightarrow> 0 < evlen \<and> evlen \<le> length envvar \<and> 0 \<notin> set (take evlen envvar)"

lemma key_compare:
  assumes "key_ok envvar evlen" and "0 \<notin> set e"
  shows "\<exists>r. strncmp envvar (e @ 0 # t) evlen = Some r \<and> (r = 0 \<longleftrightarrow> take evlen e = take evlen envvar)"
proof -
  have ok: "prefix_ok evlen envvar" "prefix_ok evlen (e @ 0 # t)"
    using assms by (auto simp: prefix_ok_def key_ok_def)
  then obtain r where "strncmp envvar (e @ 0 # t) evlen = Some r"
    using strncmp_Some by blast
  with strncmp_0_iff [OF ok] assms show ?thesis
    by (auto simp: key_ok_def take_cstr cstr_zero_append)
qed

lemma get_env_loop_block:
  assumes "env_block s off es" and "key_ok envvar evlen" and "\<forall>e\<in>set es. 61 \<in> set e"
  shows "\<exists>r t. nvram_get_env_loop s envvar evlen off temp = Some (r, t) \<and>
    map_option cstr r = env_lookup es (take evlen envvar)"
  using assms(1,3)
proof (induction es arbitrary: off temp)
  case Nil
  obtain r where "strncmp envvar ([] @ 0 # drop 1 temp) evlen = Some r" "r \<noteq> 0"
    using key_compare [OF assms(2), of "[]" "drop 1 temp"] assms(2) by (auto simp: key_ok_def)
  with Nil show ?case
    by (subst nvram_get_env_loop.simps) (simp add: env_read_empty)
next
  case (Cons e es)
  let ?t = "e @ 0 # drop (length e + 1) temp"
  have e: "string_at s off e" "0 \<notin> set e" "e \<noteq> []" "61 \<in> set e"
    using Cons.prems by (auto simp: string_at_def)
  obtain r where r: "strncmp envvar ?t evlen = Some r" "r = 0 \<longleftrightarrow> take evlen e = take evlen envvar"
    using key_compare [OF assms(2) e(2)] by blast
  have k: "length (take evlen envvar) = evlen" using assms(2) by (simp add: key_ok_def)
  have 0: "0 \<notin> set (tl (dropWhile (\<lambda>c. c \<noteq> 61) e))"
    using e(2) set_tl_dropWhile [of "\<lambda>c. c \<noteq> 61" e] by blast
  show ?case
  proof (cases "r = 0")
    case True
    with r e 0 k show ?thesis
      by (subst nvram_get_env_loop.simps)
        (simp add: env_read_at find_eq_dropWhile [simplified] cstr_append)
  next
    case False
    have "nvram_get_env_loop s envvar evlen off temp =
        nvram_get_env_loop s envvar evlen (off + int (length e) + 1) ?t"
      using False r e by (subst nvram_get_env_loop.simps) (simp add: env_read_at)
    with False r k Cons show ?thesis by simp
  qed
qed

lemma find_last_string:
  assumes "0 \<notin> set e" and "\<forall>i<length e. nvram_read_byte s (off + int i) = e ! i"
  shows "find_last_loop s l off (length e + n) =
    find_last_loop s (if e = [] then l else last e) (off + int (length e)) n"
  using assms
proof (induction e arbitrary: off l)
  case Nil
  then show ?case by simp
next
  case (Cons c e)
  have c: "nvram_read_byte s off = c" "c \<noteq> 0"
    using Cons.prems(2) [rule_format, of 0] Cons.prems(1) by auto
  have "\<forall>i<length e. nvram_read_byte s (off + 1 + int i) = e ! i"
    using Cons.prems(2) by (auto simp: add.assoc dest: spec [of _ "Suc _"])
  with Cons c show ?case by (simp add: Let_def add.assoc)
qed

lemma find_last_block:
  assumes "env_block s off es" and "es = [] \<longrightarrow> l = 0"
  shows "find_last_loop s l off (nat (env_end off es - off) + Suc m) = env_end off es"
  using assms
proof (induction es arbitrary: off l)
  case Nil
  then show ?case by simp
next
  case (Cons e es)
  let ?o = "off + int (length e) + 1"
  have e: "0 \<notin> set e" "e \<noteq> []" "\<forall>i<length e. nvram_read_byte s (off + int i) = e ! i"
    "nvram_read_byte s (off + int (length e)) = 0"
    using Cons.prems by (auto simp: string_at_def)
  have n: "nat (env_end ?o es - off) + Suc m = length e + Suc (nat (env_end ?o es - ?o) + Suc m)"
    using env_end_ge [of ?o es] by simp
  have "last e \<noteq> 0" using e(1,2) last_in_set by metis
  then have "find_last_loop s l off (length e + Suc (nat (env_end ?o es - ?o) + Suc m)) =
      find_last_loop s 0 ?o (nat (env_end ?o es - ?o) + Suc m)"
    unfolding find_last_string [OF e(1,3)] using e(2,4) by simp
  also have "\<dots> = env_end ?o es"
    using Cons by (intro Cons.IH) simp_all
  finally show ?case
    by (simp only: env_end.simps n)
qed

lemma env_block_cong:
  assumes "env_block s off es" and "same_bytes s t off (env_end off es)" and "env_block t (env_end off es) fs"
  shows "env_block t off (es @ fs)"
  using assms
proof (induction es arbitrary: off)
  case Nil
  then show ?case by simp
next
  case (Cons e es)
  let ?o = "off + int (length e) + 1"
  have "string_at t off e"
    using Cons.prems(1,2) env_end_ge [of ?o es] by (auto simp: string_at_def same_bytes_def)
  moreover have "same_bytes s t ?o (env_end ?o es)"
    using Cons.prems(2) by (rule same_bytes_mono) auto
  ultimately show ?case using Cons by simp
qed

subsection \<open>Adding a variable\<close>

lemma length_write_bytes [simp]: "NVRAM_LENGTH (nvram_write_bytes s off xs n) = NVRAM_LENGTH s"
  by (simp add: nvram_write_bytes_def nv.size_fill)

lemma nv_ok_write_bytes [simp]: "nv_ok (nvram_write_bytes s off xs n) = nv_ok s"
  by (simp add: nv_ok_def)

lemma read_write_bytes:
  assumes "nv_ok s" "0 \<le> off" "off + int n \<le> NVRAM_LENGTH s" "0 \<le> j" "j < NVRAM_LENGTH s"
  shows "nvram_read_byte (nvram_write_bytes s off xs n) j =
    (if off \<le> j \<and> j < off + int n then xs ! nat (j - off) else nvram_read_byte s j)"
  unfolding nvram_write_bytes_def using assms by (rule nv.rd_fill)

text \<open>
  An environment partition: its data lies inside the NVRAM, holds the strings \<open>es\<close> with their empty
  end string, and is erased behind them.
\<close>

definition env_part :: "nvram \<Rightarrow> partition_t \<Rightarrow> bytes list \<Rightarrow> bool" where
  "env_part s part es \<longleftrightarrow> nv_ok s \<and> 0 < part_addr part \<and> 0 < part_len part \<and>
     part_addr part + part_len part \<le> NVRAM_LENGTH s \<and>
     env_block s (part_addr part) es \<and> env_end (part_addr part) es < part_addr part + part_len part \<and>
     (\<forall>k. env_end (part_addr part) es \<le> k \<and> k < part_addr part + part_len part \<longrightarrow> nvram_read_byte s k = 0) \<and>
     (\<forall>e\<in>set es. 61 \<in> set e)"

lemma env_part_range:
  assumes "env_part s part es"
  shows "s32_of (part_addr part) = part_addr part"
    and "s32_of (part_addr part + part_len part) = part_addr part + part_len part"
    and "u32_of (part_addr part) = part_addr part"
  using assms by (auto simp: env_part_def nv_ok_def intro!: s32_of_id u32_of_id)

lemma find_last_env:
  assumes "env_part s part es"
  shows "find_last_envvar s part = env_end (part_addr part) es"
proof -
  let ?a = "part_addr part" and ?e = "env_end (part_addr part) es"
  define m where "m = nat (?a + part_len part - ?e) - 1"
  have "nat (?a + part_len part - ?a) = nat (?e - ?a) + Suc m"
    using assms env_end_ge [of ?a es] by (auto simp: env_part_def m_def)
  moreover have "es = [] \<longrightarrow> nvram_read_byte s ?a = 0"
    using assms by (auto simp: env_part_def)
  ultimately show ?thesis
    using assms find_last_block [of s ?a es "nvram_read_byte s ?a" m] env_part_range [OF assms]
    by (simp add: find_last_envvar_def env_part_def)
qed

lemma add_env_part:
  assumes ep: "env_part s part es" and key: "key_ok envvar evlen" "61 \<notin> set (take evlen envvar)"
    and val: "vallen \<le> length value" "0 \<notin> set (take vallen value)" "evlen + vallen < 256"
    and fits: "env_end (part_addr part) es + int evlen + int vallen + 2 < part_addr part + part_len part"
  shows "\<exists>t. nvram_add_env s part envvar evlen value vallen = Some (0, t) \<and>
    env_part t part (es @ [take evlen envvar @ 61 # take vallen value])"
proof -
  let ?a = "part_addr part" and ?e = "env_end (part_addr part) es"
  let ?new = "take evlen envvar @ 61 # take vallen value"
  define s1 where "s1 = nvram_write_bytes s ?e envvar evlen"
  define s2 where "s2 = nvram_write_byte s1 (?e + int evlen) 61"
  define t where "t = nvram_write_bytes s2 (?e + int evlen + 1) value vallen"
  have e: "0 < ?e" "?a \<le> ?e" "?a + part_len part \<le> NVRAM_LENGTH s" and ok: "nv_ok s"
    and z: "\<And>k. ?e \<le> k \<Longrightarrow> k < ?a + part_len part \<Longrightarrow> nvram_read_byte s k = 0"
    using ep env_end_ge [of ?a es] by (auto simp: env_part_def)
  have L: "NVRAM_LENGTH s1 = NVRAM_LENGTH s" "NVRAM_LENGTH s2 = NVRAM_LENGTH s" "NVRAM_LENGTH t = NVRAM_LENGTH s"
    by (simp_all add: s1_def s2_def t_def)
  have oks: "nv_ok s1" "nv_ok s2" "nv_ok t" using ok L by (simp_all add: nv_ok_def)
  have rd: "nvram_read_byte t j =
      (if ?e \<le> j \<and> j < ?e + int (length ?new) then ?new ! nat (j - ?e) else nvram_read_byte s j)"
    if j: "0 \<le> j" "j < NVRAM_LENGTH s" for j
  proof -
    have r1: "nvram_read_byte s1 j = (if ?e \<le> j \<and> j < ?e + int evlen then envvar ! nat (j - ?e) else nvram_read_byte s j)"
      unfolding s1_def using j e ok fits by (intro read_write_bytes) auto
    have r2: "nvram_read_byte s2 j = (if j = ?e + int evlen then 61 else nvram_read_byte s1 j)"
      unfolding s2_def using j e fits oks L by (intro nv.rd_wr) auto
    have r3: "nvram_read_byte t j = (if ?e + int evlen + 1 \<le> j \<and> j < ?e + int evlen + 1 + int vallen
        then value ! nat (j - (?e + int evlen + 1)) else nvram_read_byte s2 j)"
      unfolding t_def using j e fits oks L by (intro read_write_bytes) auto
    have k: "evlen \<le> length envvar" using key by (simp add: key_ok_def)
    consider "j < ?e" | "?e \<le> j" "j < ?e + int evlen" | "j = ?e + int evlen"
      | "?e + int evlen + 1 \<le> j" "j < ?e + int evlen + 1 + int vallen" | "?e + int evlen + 1 + int vallen \<le> j"
      by linarith
    then show ?thesis
    proof cases
      case 4
      define i where "i = nat (j - (?e + int evlen + 1))"
      have i: "j = ?e + int evlen + 1 + int i" "i < vallen" using 4 by (simp_all add: i_def)
      have "nat (j - ?e) = Suc (evlen + i)" "nat (j - (?e + int evlen + 1)) = i" using i by simp_all
      then show ?thesis using r3 i k val(1) by (simp add: nth_append min_def)
    next
      case 2
      then have "nat (j - ?e) < evlen" by simp
      with 2 show ?thesis using r1 r2 r3 k val(1) by (simp add: nth_append min_def)
    qed (use r1 r2 r3 k val(1) in \<open>auto simp: nth_append min_def\<close>)
  qed
  have "string_at t ?e ?new"
    using rd [of "?e + int _"] rd e fits key val z
    by (auto simp: string_at_def key_ok_def)
  moreover have en: "env_end ?a (es @ [?new]) = ?e + int (length ?new) + 1"
    by (rule env_end_append)
  moreover have zt: "nvram_read_byte t k = 0" if "?e + int (length ?new) \<le> k" "k < ?a + part_len part" for k
    using that rd [of k] z [of k] e by auto
  moreover have len: "int (length ?new) = int evlen + int vallen + 1"
    using key val by (simp add: key_ok_def min_def)
  ultimately have "env_block t ?e [?new]"
    using fits by simp
  moreover have "same_bytes s t ?a ?e"
    using rd e L ep by (auto simp: same_bytes_def env_part_def)
  ultimately have "env_part t part (es @ [?new])"
    using ep env_block_cong [of s ?a es t "[?new]"] oks L en zt len fits
    by (auto simp: env_part_def)
  moreover have "u32_of ?e = ?e" "u32_of (?a + part_len part - ?e) = ?a + part_len part - ?e"
    using e ok fits by (auto simp: nv_ok_def intro!: u32_of_id)
  moreover have "u32_of (int evlen + int vallen + 2) = int evlen + int vallen + 2"
    using val(3) by (intro u32_of_id) auto
  ultimately show ?thesis
    using find_last_env [OF ep] fits key val
    by (auto simp: nvram_add_env_def Let_def s1_def s2_def t_def key_ok_def)
qed

lemma get_env_part:
  assumes "env_part s part es" and "key_ok envvar evlen"
  shows "\<exists>r t. nvram_get_env s temp part envvar evlen = Some (r, t) \<and>
    map_option cstr r = env_lookup es (take evlen envvar)"
  using assms get_env_loop_block [of s "part_addr part" es] env_part_range [OF assms(1)]
  by (auto simp: nvram_get_env_def env_part_def)

lemma env_lookup_new:
  assumes "env_lookup es key = None" and "61 \<notin> set key"
  shows "env_lookup (es @ [key @ 61 # v]) key = Some v"
proof -
  have "dropWhile (\<lambda>c. c \<noteq> 61) (key @ 61 # v) = 61 # v"
    using assms(2) by (induction key) auto
  with assms show ?thesis by (induction es) (auto split: if_splits)
qed

lemma find_last_none:
  assumes "\<forall>k. off \<le> k \<and> k < off + int n \<longrightarrow> \<not> (nvram_read_byte s (k - 1) = 0 \<and> nvram_read_byte s k = 0)"
    and "0 < n \<longrightarrow> \<not> (l = 0 \<and> nvram_read_byte s off = 0)"
  shows "find_last_loop s l off n = -1"
  using assms
proof (induction n arbitrary: off l)
  case 0
  then show ?case by simp
next
  case (Suc n)
  have "find_last_loop s (nvram_read_byte s off) (off + 1) n = -1"
    using Suc.prems(1) by (intro Suc.IH) (auto dest: spec [of _ "off + 1"])
  then show ?case
    using Suc.prems by (auto simp: Let_def)
qed

text \<open>Offsets are taken modulo \<open>2^32\<close>; the write at offset \<open>-1\<close> is dropped.\<close>

lemma write_byte_wrap: "nvram_write_byte s (i + 4294967296) v = nvram_write_byte s i v"
  by (simp add: nvram_write_byte_def u32_of_def)

lemma write_bytes_wrap: "nvram_write_bytes s (i + 4294967296) xs n = nvram_write_bytes s i xs n"
proof -
  have "nvram_write_byte u (i + 4294967296 + int k) v = nvram_write_byte u (i + int k) v" for u k v
    using write_byte_wrap [of u "i + int k" v] by (simp add: ac_simps)
  then show ?thesis by (simp add: nvram_write_bytes_def)
qed

lemma write_bytes_skip:
  assumes "nv_ok s" and "n < length xs"
  shows "nvram_write_bytes s (-1) xs (Suc n) = nvram_write_bytes s 0 (tl xs) n"
proof -
  have drop: "nvram_write_byte s (-1) v = s" for v
    using assms(1) by (simp add: nvram_write_byte_def u32_of_def u64_of_def nv_ok_def)
  have "[0..<Suc n] = 0 # map Suc [0..<n]"
    by (simp add: upt_conv_Cons map_Suc_upt del: upt_Suc)
  then have "nvram_write_bytes s (-1) xs (Suc n) =
      fold (\<lambda>i s. nvram_write_byte s (int i) (xs ! Suc i)) [0..<n] s"
    by (simp add: nvram_write_bytes_def fold_map comp_def drop del: upt_Suc)
  also have "\<dots> = nvram_write_bytes s 0 (tl xs) n"
    unfolding nvram_write_bytes_def using assms(2) by (intro fold_cong) (auto simp: nth_tl)
  finally show ?thesis .
qed

subsection \<open>Properties\<close>


lemma blank_env_part: "env_part blank_nvram \<lparr>part_addr = 16, part_len = 64\<rparr> []"
  by (simp add: env_part_def blank_nvram_def nv_ok_def nvram_read_byte_def Let_def)


text \<open>C5: Add, then get: if no string of the partition starts with the name and the new string fits with
  its end marker, \<open>nvram_add_env\<close> succeeds, appends the string \<open>name=value\<close>, and \<open>nvram_get_env\<close> of the
  name then returns the value.\<close>

theorem add_env_roundtrip:
  assumes "env_part s part es" and "key_ok envvar evlen" and "61 \<notin> set (take evlen envvar)"
    and "vallen \<le> length value" and "0 \<notin> set (take vallen value)" and "evlen + vallen < 256"
    and "env_end (part_addr part) es + int evlen + int vallen + 2 < part_addr part + part_len part"
    and "env_lookup es (take evlen envvar) = None"
  shows "\<exists>t r u. nvram_add_env s part envvar evlen value vallen = Some (0, t) \<and>
    env_part t part (es @ [take evlen envvar @ 61 # take vallen value]) \<and>
    nvram_get_env t temp part envvar evlen = Some (Some r, u) \<and> cstr r = take vallen value"
proof -
  obtain t where t: "nvram_add_env s part envvar evlen value vallen = Some (0, t)"
    "env_part t part (es @ [take evlen envvar @ 61 # take vallen value])"
    using add_env_part [OF assms(1-7)] by blast
  moreover obtain r u where "nvram_get_env t temp part envvar evlen = Some (r, u)"
    "map_option cstr r = env_lookup (es @ [take evlen envvar @ 61 # take vallen value]) (take evlen envvar)"
    using get_env_part [OF t(2) assms(2)] by blast
  moreover have "env_lookup (es @ [take evlen envvar @ 61 # take vallen value]) (take evlen envvar) =
      Some (take vallen value)"
    by (rule env_lookup_new [OF assms(8,3)])
  ultimately show ?thesis by auto
qed

theorem add_env_roundtrip_witness:
  "\<exists>t r u. nvram_add_env blank_nvram \<lparr>part_addr = 16, part_len = 64\<rparr> [97, 98] 2 [49, 50, 51] 3 = Some (0, t) \<and>
    env_part t \<lparr>part_addr = 16, part_len = 64\<rparr> [[97, 98, 61, 49, 50, 51]] \<and>
    nvram_get_env t (replicate 257 0) \<lparr>part_addr = 16, part_len = 64\<rparr> [97, 98] 2 = Some (Some r, u) \<and>
    cstr r = [49, 50, 51]"
  using add_env_roundtrip [OF blank_env_part, of "[97, 98]" 2 3 "[49, 50, 51]" "replicate 257 0"]
  by (simp add: key_ok_def)

text \<open>Adding to a partition without end marker writes outside it: when the data of the partition holds
  no two consecutive zero bytes, \<open>find_last_envvar\<close> returns \<open>-1\<close>, the free-space check passes, and
  \<open>nvram_add_env\<close> reports success after writing the name from its second byte on over the start of the
  NVRAM, where the header of the first partition is.\<close>

theorem add_env_overwrites_start:
  assumes "nv_ok s" and "0 < part_addr part" and "0 < part_len part"
    and "part_addr part + part_len part \<le> NVRAM_LENGTH s"
    and "nvram_read_byte s (part_addr part) \<noteq> 0"
    and "\<forall>k. part_addr part \<le> k \<and> k < part_addr part + part_len part \<longrightarrow>
           \<not> (nvram_read_byte s (k - 1) = 0 \<and> nvram_read_byte s k = 0)"
    and "1 < evlen" and "evlen \<le> length envvar" and "vallen \<le> length value"
    and "int evlen + int vallen + 1 \<le> part_addr part + part_len part"
  shows "\<exists>t. nvram_add_env s part envvar evlen value vallen = Some (0, t) \<and>
    nvram_read_byte t 0 = envvar ! 1"
proof -
  let ?a = "part_addr part"
  have L: "NVRAM_LENGTH s \<le> 0x7fffffff" "int evlen + int vallen + 1 \<le> NVRAM_LENGTH s"
    using assms by (auto simp: nv_ok_def)
  have "find_last_envvar s part = -1"
    using assms L find_last_none [of ?a "nat (part_len part)" s "nvram_read_byte s ?a"]
    by (simp add: find_last_envvar_def s32_of_id)
  then have lst: "u32_of (find_last_envvar s part) = -1 + 4294967296"
    by (simp add: u32_of_def)
  have "u32_of (?a + part_len part - (-1 + 4294967296)) = ?a + part_len part + 1"
    using assms L mod_mult_self1 [of "?a + part_len part + 1" "-1" 4294967296] by (simp add: u32_of_def)
  moreover have "u32_of (int evlen + int vallen + 2) = int evlen + int vallen + 2"
    using L by (intro u32_of_id) auto
  ultimately have add: "nvram_add_env s part envvar evlen value vallen = Some (0,
      nvram_write_bytes (nvram_write_byte (nvram_write_bytes s (-1 + 4294967296) envvar evlen)
        (-1 + 4294967296 + int evlen) 61) (-1 + 4294967296 + int evlen + 1) value vallen)"
    using assms lst by (simp add: nvram_add_env_def Let_def)
  define s1 where "s1 = nvram_write_bytes s 0 (tl envvar) (evlen - 1)"
  define s2 where "s2 = nvram_write_byte s1 (int evlen - 1) 61"
  have s1: "nvram_write_bytes s (-1 + 4294967296) envvar evlen = s1"
    using assms write_bytes_skip [of s "evlen - 1" envvar]
    by (simp only: write_bytes_wrap s1_def) (simp add: nth_tl)
  have "-1 + 4294967296 + int evlen + 1 = int evlen + 4294967296"
    "-1 + 4294967296 + int evlen = (int evlen - 1) + 4294967296"
    by simp_all
  then have t: "nvram_add_env s part envvar evlen value vallen = Some (0, nvram_write_bytes s2 (int evlen) value vallen)"
    unfolding add s1 s2_def by (simp only: write_bytes_wrap write_byte_wrap)
  have ok: "nv_ok s1" "nv_ok s2" "NVRAM_LENGTH s1 = NVRAM_LENGTH s" "NVRAM_LENGTH s2 = NVRAM_LENGTH s"
    using assms(1) by (simp_all add: s1_def s2_def)
  have "nvram_read_byte (nvram_write_bytes s2 (int evlen) value vallen) 0 = nvram_read_byte s2 0"
    using ok L assms(7) by (subst read_write_bytes) auto
  also have "\<dots> = nvram_read_byte s1 0"
    unfolding s2_def using ok L assms(7) by (subst nv.rd_wr) auto
  also have "\<dots> = envvar ! 1"
    unfolding s1_def using assms(1,7,8) L by (subst read_write_bytes) (auto simp: nth_tl)
  finally show ?thesis using t by blast
qed

theorem add_env_overwrites_start_witness:
  "\<exists>t. nvram_add_env (blank_nvram\<lparr>nv_mem := \<lambda>_. 5\<rparr>) \<lparr>part_addr = 32, part_len = 16\<rparr> [97, 98] 2 [49] 1 = Some (0, t) \<and>
    nvram_read_byte t 0 = 98"
proof -
  have rd: "nvram_read_byte (blank_nvram\<lparr>nv_mem := \<lambda>_. 5\<rparr>) k = 5" if "0 \<le> k" "k < 256" for k
    using that by (simp add: nvram_read_byte_def blank_nvram_def wrap_simps)
  show ?thesis
    using add_env_overwrites_start [of "blank_nvram\<lparr>nv_mem := \<lambda>_. 5\<rparr>" "\<lparr>part_addr = 32, part_len = 16\<rparr>"
        2 "[97, 98]" 1 "[49]"] rd
    by (simp add: nv_ok_def blank_nvram_def)
qed

end
