(* ===== verification/Libc_Stdlib.thy ===== *)
theory Libc_Stdlib
  imports Libc_String
begin

text \<open>Number parsing and the pseudo-random generator of \<open>src/lib/libc/stdlib\<close>: \<open>strtol\<close>, \<open>strtoul\<close>,
  \<open>atoi\<close>, \<open>atol\<close>, \<open>rand\<close> and \<open>srand\<close>. A parser returns the number and the position that the C code leaves
  in \<open>*PTR\<close>; arithmetic on \<open>long\<close> wraps as on the target. \<open>None\<close> is a read beyond the string object.\<close>

section \<open>The code\<close>

text \<open>The loop over white space: the rest of the string and its position.\<close>

fun skip_white :: "bytes \<Rightarrow> nat \<Rightarrow> (bytes \<times> nat) option" where
  "skip_white [] pos = None"
| "skip_white (c # s) pos =
     (if c = 32 \<or> c = 9 \<or> c = 10 \<or> c = 13 then skip_white s (Suc pos) else Some (c # s, pos))"

text \<open>\<open>(**PTR == '0') && (*((*PTR)+1) == 'x')\<close>\<close>

fun has_0x :: "bytes \<Rightarrow> bool option" where
  "has_0x [] = None"
| "has_0x (c # s) = (if c \<noteq> 48 then Some False else case s of [] \<Rightarrow> None | d # _ \<Rightarrow> Some (d = 120))"

definition char_digit :: "u8 \<Rightarrow> int option" where
  "char_digit c =
     (if 48 \<le> c \<and> c \<le> 57 then Some (uint c - 48)
      else if 97 \<le> c \<and> c \<le> 122 then Some (uint c - 97 + 10)
      else if 65 \<le> c \<and> c \<le> 90 then Some (uint c - 65 + 10)
      else None)"

text \<open>The digit loop; \<open>wrap\<close> is the conversion to \<open>long\<close> or to \<open>unsigned long\<close>.\<close>

fun digit_loop :: "(int \<Rightarrow> int) \<Rightarrow> int \<Rightarrow> bytes \<Rightarrow> int \<Rightarrow> nat \<Rightarrow> (int \<times> nat) option" where
  "digit_loop wrap BASE [] rval pos = None"
| "digit_loop wrap BASE (c # s) rval pos =
     (if c = 0 then Some (rval, pos)
      else case char_digit c of
        None \<Rightarrow> Some (rval, pos)
      | Some digit \<Rightarrow>
          if digit < BASE then digit_loop wrap BASE s (wrap (rval * BASE + digit)) (Suc pos)
          else Some (rval, pos))"

text \<open>Both base prefixes: base 0 is decided by "0x", base 16 may have "0x" (again).\<close>

definition base_prefix :: "int \<Rightarrow> bytes \<Rightarrow> nat \<Rightarrow> (int \<times> bytes \<times> nat) option" where
  "base_prefix BASE s pos = do {
     (BASE, s, pos) \<leftarrow>
       (if BASE = 0
        then do { x \<leftarrow> has_0x s; Some (if x then (16, drop 2 s, pos + 2) else (10, s, pos)) }
        else Some (BASE, s, pos));
     if BASE = 16
     then do { x \<leftarrow> has_0x s; Some (if x then (BASE, drop 2 s, pos + 2) else (BASE, s, pos)) }
     else Some (BASE, s, pos) }"

definition strtol :: "bytes \<Rightarrow> int \<Rightarrow> (int \<times> nat) option" where
  "strtol S BASE =
     (if BASE < 0 \<or> 36 < BASE then Some (0, 0)
      else do {
        (s, pos) \<leftarrow> skip_white S 0;
        c \<leftarrow> rd8 s 0;
        let negative = (c = 45);
        let (s, pos) = (if negative then (drop 1 s, pos + 1) else (s, pos));
        (BASE, s, pos) \<leftarrow> base_prefix BASE s pos;
        (rval, pos) \<leftarrow> digit_loop s64_of BASE s 0 pos;
        Some (if negative then s64_of (rval * -1) else rval, pos) })"

definition strtoul :: "bytes \<Rightarrow> int \<Rightarrow> (int \<times> nat) option" where
  "strtoul S BASE =
     (if BASE < 0 \<or> 36 < BASE then Some (0, 0)
      else do {
        (s, pos) \<leftarrow> skip_white S 0;
        (BASE, s, pos) \<leftarrow> base_prefix BASE s pos;
        digit_loop u64_of BASE s 0 pos })"

definition atoi :: "bytes \<Rightarrow> int option" where
  "atoi str = map_option (\<lambda>(v, _). s32_of v) (strtol str 0)"

definition atol :: "bytes \<Rightarrow> int option" where
  "atol str = map_option fst (strtol str 0)"

text \<open>\<open>rand\<close> returns the number and the new state of \<open>_rand\<close>.\<close>

definition rand :: "u64 \<Rightarrow> int \<times> u64" where
  "rand r = (let r' = r * 1237732973 + 34563 in (uint ((ucast (drop_bit 16 r') :: u32) AND 32767), r'))"

definition srand :: "u32 \<Rightarrow> u64" where
  "srand seed = ucast seed"

section \<open>Numerals\<close>

text \<open>The digits of a number, most significant first, and their characters.\<close>

fun digits :: "nat \<Rightarrow> nat \<Rightarrow> nat list" where
  "digits b n = (if b < 2 \<or> n < b then [n] else digits b (n div b) @ [n mod b])"

declare digits.simps [simp del]

definition digit_char :: "nat \<Rightarrow> u8" where
  "digit_char d = of_nat (if d < 10 then 48 + d else 87 + d)"

definition num_value :: "nat \<Rightarrow> nat list \<Rightarrow> nat" where
  "num_value b ds = foldl (\<lambda>a d. a * b + d) 0 ds"

definition numeral_of :: "nat \<Rightarrow> nat \<Rightarrow> bytes" where
  "numeral_of b n = map digit_char (digits b n)"

lemma num_value_snoc [simp]: "num_value b (ds @ [d]) = num_value b ds * b + d"
  by (simp add: num_value_def)

lemma num_value_digits: "num_value b (digits b n) = n"
proof (induction b n rule: digits.induct)
  case (1 b n)
  then show ?case
    by (cases "b < 2 \<or> n < b") (simp_all add: digits.simps[of b n] num_value_def[of b "[n]"])
qed

lemma digits_small: "2 \<le> b \<Longrightarrow> d \<in> set (digits b n) \<Longrightarrow> d < b"
proof (induction b n rule: digits.induct)
  case (1 b n)
  then show ?case by (cases "n < b") (auto simp: digits.simps[of b n])
qed

lemma digits_nonempty [simp]: "digits b n \<noteq> []"
  by (simp add: digits.simps[of b n])

lemma unat_digit_char: "d < 36 \<Longrightarrow> unat (digit_char d) = (if d < 10 then 48 + d else 87 + d)"
  by (simp add: digit_char_def unat_of_nat)

lemma char_digit_char: "d < 36 \<Longrightarrow> char_digit (digit_char d) = Some (int d)"
  by (auto simp: char_digit_def word_le_nat_alt unat_digit_char uint_nat)

lemma digit_char_nonzero: "d < 36 \<Longrightarrow> digit_char d \<noteq> 0"
  using unat_digit_char[of d] by (auto split: if_splits)

lemma num_value_acc: "foldl (\<lambda>a d. a * b + d) x ds = x * b ^ length ds + num_value b ds"
proof (induction ds arbitrary: x rule: rev_induct)
  case (snoc d ds)
  then show ?case by (simp add: algebra_simps)
qed (simp add: num_value_def)

text \<open>What stops the digit loop.\<close>

definition no_digit :: "int \<Rightarrow> u8 \<Rightarrow> bool" where
  "no_digit BASE c = (case char_digit c of None \<Rightarrow> True | Some d \<Rightarrow> BASE \<le> d)"

lemma digit_loop_stop: "no_digit BASE c \<Longrightarrow> digit_loop wrap BASE (c # s) rval pos = Some (rval, pos)"
  by (auto simp: no_digit_def split: option.splits)

lemma digit_loop_numeral:
  assumes "b \<le> 36" "\<And>d. d \<in> set ds \<Longrightarrow> d < b" "no_digit (int b) c"
    and bound: "int (foldl (\<lambda>a d. a * b + d) x ds) < lim"
    and wrap: "\<And>v. 0 \<le> v \<Longrightarrow> v < lim \<Longrightarrow> wrap v = v"
  shows "digit_loop wrap (int b) (map digit_char ds @ c # s) (int x) pos =
    Some (int (foldl (\<lambda>a d. a * b + d) x ds), pos + length ds)"
  using assms(2) bound
proof (induction ds arbitrary: x pos)
  case Nil
  then show ?case using digit_loop_stop[OF assms(3)] by simp
next
  case (Cons d ds)
  have d: "d < 36" "d < b" using Cons.prems assms(1) by force+
  have "1 \<le> b ^ length ds" using d by simp
  then have "x * b + d \<le> (x * b + d) * b ^ length ds" by (metis mult_le_mono2 mult.right_neutral)
  then have "x * b + d \<le> foldl (\<lambda>a d. a * b + d) (x * b + d) ds"
    unfolding num_value_acc[of b "x * b + d"] by linarith
  then have "int (x * b + d) \<le> int (foldl (\<lambda>a d. a * b + d) x (d # ds))"
    by (simp only: foldl_Cons of_nat_le_iff)
  then have "int (x * b + d) < lim" using Cons.prems(2) by (rule le_less_trans)
  then have w: "wrap (int x * int b + int d) = int (x * b + d)" using wrap[of "int (x * b + d)"] by simp
  have "digit_loop wrap (int b) (map digit_char (d # ds) @ c # s) (int x) pos =
      digit_loop wrap (int b) (map digit_char ds @ c # s) (int (x * b + d)) (Suc pos)"
    using d w by (simp add: char_digit_char digit_char_nonzero del: of_nat_add of_nat_mult)
  then show ?case using Cons.IH[of "x * b + d" "Suc pos"] Cons.prems by simp
qed

definition white :: "bytes \<Rightarrow> bool" where
  "white ws \<longleftrightarrow> set ws \<subseteq> {32, 9, 10, 13}"

lemma skip_white_eq:
  "white ws \<Longrightarrow> c \<notin> {32, 9, 10, 13} \<Longrightarrow> skip_white (ws @ c # s) pos = Some (c # s, pos + length ws)"
  by (induction ws arbitrary: pos) (auto simp: white_def)

lemma digit_char_range:
  assumes "d < 36"
  shows "digit_char d \<notin> {32, 9, 10, 13, 45}" "d < 33 \<Longrightarrow> digit_char d \<noteq> 120"
proof -
  have "unat (digit_char d) \<noteq> unat c" if "c \<in> {32, 9, 10, 13, 45}" for c :: u8
    using that unat_digit_char[OF assms] by auto
  then show "digit_char d \<notin> {32, 9, 10, 13, 45}" by blast
  show "digit_char d \<noteq> 120" if "d < 33"
    using unat_digit_char[OF assms] that by (auto simp: word_unat_eq_iff split: if_splits)
qed

lemma has_0x_numeral:
  assumes "\<And>d. d \<in> set ds \<Longrightarrow> d < 33" "ds \<noteq> []" "c \<noteq> 120"
  shows "has_0x (map digit_char ds @ c # s) = Some False"
proof -
  obtain d es where ds: "ds = d # es" using assms(2) by (cases ds) auto
  show ?thesis
  proof (cases es)
    case Nil
    then show ?thesis using ds assms(3) by simp
  next
    case (Cons e fs)
    then have "digit_char e \<noteq> 120" using digit_char_range(2)[of e] assms(1)[of e] ds by simp
    then show ?thesis using ds Cons by simp
  qed
qed

lemma base_prefix_numeral:
  assumes b: "2 \<le> b" "b \<le> 36" and c: "b = 16 \<Longrightarrow> c \<noteq> 120"
  shows "base_prefix (int b) (numeral_of b n @ c # s) pos = Some (int b, numeral_of b n @ c # s, pos)"
proof (cases "b = 16")
  case True
  have "d < 33" if "d \<in> set (digits b n)" for d using digits_small[OF b(1) that] True by simp
  then have "has_0x (numeral_of b n @ c # s) = Some False"
    unfolding numeral_of_def using c True by (intro has_0x_numeral) auto
  then show ?thesis using True by (simp add: base_prefix_def)
next
  case False
  then show ?thesis using b by (simp add: base_prefix_def)
qed

lemma digit_loop_numeral_of:
  assumes b: "2 \<le> b" "b \<le> 36" and c: "no_digit (int b) c" and n: "int n < lim"
    and wrap: "\<And>v. 0 \<le> v \<Longrightarrow> v < lim \<Longrightarrow> wrap v = v"
  shows "digit_loop wrap (int b) (numeral_of b n @ c # s) 0 pos =
    Some (int n, pos + length (digits b n))"
  using digit_loop_numeral[of b "digits b n" c 0 lim wrap s pos] b c n wrap digits_small[OF b(1)]
    num_value_digits[of b n]
  by (simp add: numeral_of_def num_value_def)

text \<open>Parsing a numeral with leading white space, for both parsers.\<close>

lemma strtoul_numeral:
  assumes b: "2 \<le> b" "b \<le> 36" and c: "no_digit (int b) c" "b = 16 \<Longrightarrow> c \<noteq> 120"
    and ws: "white ws" and n: "n < 2 ^ 64"
  shows "strtoul (ws @ numeral_of b n @ c # s) (int b) = Some (int n, length ws + length (digits b n))"
proof -
  obtain d es where ds: "digits b n = d # es" by (cases "digits b n") auto
  then have "d < 36" using digits_small[of b d n] b by simp
  then have "skip_white (ws @ numeral_of b n @ c # s) 0 = Some (numeral_of b n @ c # s, length ws)"
    using skip_white_eq[OF ws, of "digit_char d" "map digit_char es @ c # s" 0] digit_char_range(1)[of d] ds
    by (simp add: numeral_of_def)
  moreover have "digit_loop u64_of (int b) (numeral_of b n @ c # s) 0 (length ws) =
      Some (int n, length ws + length (digits b n))"
    using n by (intro digit_loop_numeral_of[OF b c(1), where lim = "2 ^ 64"]) (simp_all add: u64_of_def)
  ultimately show ?thesis using b base_prefix_numeral[OF b c(2)] by (simp add: strtoul_def)
qed

lemma strtol_parses:
  assumes b: "2 \<le> b" "b \<le> 36" and c: "no_digit (int b) c" "b = 16 \<Longrightarrow> c \<noteq> 120"
    and ws: "white ws" and n: "n < 2 ^ 63" and sg: "sg = (if neg then [45] else [])"
  shows "strtol (ws @ sg @ numeral_of b n @ c # s) (int b) =
    Some (if neg then - int n else int n, length ws + length sg + length (digits b n))"
proof -
  obtain d es where ds: "digits b n = d # es" by (cases "digits b n") auto
  have d: "digit_char d \<notin> {32, 9, 10, 13, 45}" using digits_small[of b d n] b ds by (intro digit_char_range) simp
  have num: "numeral_of b n = digit_char d # map digit_char es" using ds by (simp add: numeral_of_def)
  have skip: "skip_white (ws @ sg @ numeral_of b n @ c # s) 0 = Some (sg @ numeral_of b n @ c # s, length ws)"
    using skip_white_eq[OF ws, of 45 "numeral_of b n @ c # s" 0]
      skip_white_eq[OF ws, of "digit_char d" "map digit_char es @ c # s" 0] d sg num by (cases neg) simp_all
  have loop: "digit_loop s64_of (int b) (numeral_of b n @ c # s) 0 p = Some (int n, p + length (digits b n))" for p
    using n by (intro digit_loop_numeral_of[OF b c(1), where lim = "2 ^ 63"]) (simp_all add: s64_of_id)
  note pre = base_prefix_numeral[OF b c(2)]
  have ni: "s64_of (- int n) = - int n" using n by (intro s64_of_id) simp_all
  show ?thesis
  proof (cases neg)
    case True
    then show ?thesis using b skip pre loop ni sg by (simp add: strtol_def rd8_def)
  next
    case False
    have "rd8 (numeral_of b n @ c # s) 0 = Some (digit_char d)" using num by (simp add: rd8_def)
    then show ?thesis using False b skip pre loop d sg by (simp add: strtol_def)
  qed
qed

text \<open>C17: \<open>strtol\<close> reads back numerals: for every base from 2 to 36, white space, an optional minus sign
  and the digits of a number below \<open>2 ^ 63\<close>, followed by a character that is no digit of the base, give
  exactly this number with its sign, and the end pointer is the first character after the digits.\<close>

theorem strtol_numeral:
  assumes b: "2 \<le> b" "b \<le> 36" and c: "no_digit (int b) c" "b = 16 \<Longrightarrow> c \<noteq> 120"
    and ws: "white ws" and n: "n < 2 ^ 63" and sg: "sg = (if neg then [45] else [])"
  shows "strtol (ws @ sg @ numeral_of b n @ c # s) (int b) =
    Some (if neg then - int n else int n, length ws + length sg + length (digits b n))"
  using assms by (rule strtol_parses)

theorem strtol_numeral_witness:
  "strtol ([32, 9] @ [45] @ numeral_of 10 1234 @ 59 # []) (int 10) =
    Some (if True then - int 1234 else int 1234, length [32 :: u8, 9] + length [45 :: u8] + length (digits 10 1234))"
  by (rule strtol_numeral) (simp_all add: no_digit_def char_digit_def white_def)

text \<open>The generator stays in its documented range.\<close>

lemma rand_range: "0 \<le> fst (rand r) \<and> fst (rand r) \<le> 32767"
proof -
  have "(ucast (drop_bit 16 (r * 1237732973 + 34563)) :: u32) AND 32767 \<le> 32767"
    by (rule word_and_le1)
  then show ?thesis by (simp add: rand_def Let_def word_le_def)
qed

end
