(* ===== verification/Libc_Stdio.thy ===== *)
theory Libc_Stdio
  imports Libc_Stdlib
begin

text \<open>Formatted output, \<open>src/lib/libc/stdio/vsnprintf.c\<close> and its wrappers. The output state is the buffer
  object and the offset of the buffer pointer in it; a write outside the object is \<open>None\<close>. A variadic
  argument is the 64-bit value that \<open>va_arg(arg, void *)\<close> reads; \<open>strs\<close> gives the bytes that an argument
  points to.\<close>

section \<open>The code\<close>

type_synonym out = "bytes \<times> nat"

definition put :: "u8 \<Rightarrow> out \<Rightarrow> out option" where
  "put c st = do { b \<leftarrow> wr8 (fst st) (snd st) c; Some (b, Suc (snd st)) }"

text \<open>\<open>for (i = 0; i < n && (size_t)(*buffer - bstart) < bufsize; i++)\<close> with the constant character.\<close>

fun fill_loop :: "nat \<Rightarrow> u8 \<Rightarrow> nat \<Rightarrow> nat \<Rightarrow> out \<Rightarrow> out option" where
  "fill_loop 0 c bstart bufsize st = Some st"
| "fill_loop (Suc n) c bstart bufsize st =
     (if snd st - bstart < bufsize then put c st \<bind> fill_loop n c bstart bufsize else Some st)"

definition print_str_fill :: "out \<Rightarrow> nat \<Rightarrow> bytes \<Rightarrow> bytes \<Rightarrow> u8 \<Rightarrow> out option" where
  "print_str_fill st bufsize sizec str c = do {
     (w, _) \<leftarrow> strtoul sizec 10;
     l \<leftarrow> strlen str;
     let sizei = u32_of w; let len = u32_of (uint l);
     if len < sizei then fill_loop (nat (sizei - len)) c (snd st) bufsize st else Some st }"

fun str_loop :: "bytes \<Rightarrow> nat \<Rightarrow> nat \<Rightarrow> out \<Rightarrow> out option" where
  "str_loop [] bstart bufsize st = Some st"
| "str_loop (c # s) bstart bufsize st =
     (if snd st - bstart < bufsize then put c st \<bind> str_loop s bstart bufsize else Some st)"

text \<open>The loop runs over the first \<open>strlen(str)\<close> characters.\<close>

definition print_str :: "out \<Rightarrow> nat \<Rightarrow> bytes \<Rightarrow> out option" where
  "print_str st bufsize str = do { l \<leftarrow> strlen str; s \<leftarrow> rdn str 0 (unat l); str_loop s (snd st) bufsize st }"

partial_function (option) intlen_loop :: "nat \<Rightarrow> nat \<Rightarrow> nat \<Rightarrow> nat option" where
  "intlen_loop val base i =
     (if 0 < val then (if base = 0 then None else intlen_loop (val div base) base (Suc i)) else Some i)"

definition print_intlen :: "nat \<Rightarrow> nat \<Rightarrow> nat option" where
  "print_intlen val base = do { i \<leftarrow> intlen_loop val base 0; Some (if i = 0 then 1 else i) }"

definition zeichen :: bytes where
  "zeichen = [48, 49, 50, 51, 52, 53, 54, 55, 56, 57, 97, 98, 99, 100, 101, 102]"

text \<open>The \<open>do ... while\<close> loop that writes the digits from the last to the first; \<open>i\<close> is the index before
  the decrement.\<close>

partial_function (option) itoa_loop :: "bytes \<Rightarrow> nat \<Rightarrow> nat \<Rightarrow> nat \<Rightarrow> nat \<Rightarrow> bool \<Rightarrow> bytes option" where
  "itoa_loop b p i val base upper = do {
     c \<leftarrow> rd8 zeichen (val mod base);
     let c = (if upper then word_of_int (toupper (uint c)) else c);
     b \<leftarrow> (if i = 0 then None else wr8 b (p + (i - 1)) c);
     if val div base \<noteq> 0 then itoa_loop b p (i - 1) (val div base) base upper else Some b }"

definition print_itoa :: "out \<Rightarrow> nat \<Rightarrow> nat \<Rightarrow> nat \<Rightarrow> bool \<Rightarrow> (int \<times> out) option" where
  "print_itoa st bufsize val base upper =
     (if base \<le> 2 \<or> 16 < base then Some (0, st)
      else do {
        len \<leftarrow> print_intlen val base;
        if bufsize < len then Some (0, st)
        else do {
          b \<leftarrow> itoa_loop (fst st) (snd st) len val base upper;
          Some (1, (b, snd st + len)) } })"

definition print_fill :: "out \<Rightarrow> nat \<Rightarrow> bytes \<Rightarrow> nat \<Rightarrow> nat \<Rightarrow> u8 \<Rightarrow> nat \<Rightarrow> out option" where
  "print_fill st bufsize sizec sz base c optlen = do {
     (w, _) \<leftarrow> strtoul sizec 10;
     l \<leftarrow> print_intlen sz base;
     let sizei = s32_of w; let len = s32_of (int l + int optlen);
     if len < sizei then fill_loop (nat (sizei - len)) c (snd st) bufsize st else Some st }"

text \<open>\<open>convert[length_mod]\<close>\<close>

definition convert :: "nat \<Rightarrow> u64" where
  "convert n = of_nat (2 ^ (8 * n) - 1)"

text \<open>Width padding and digits of one integer conversion; \<open>start\<close> and \<open>bufsize\<close> are those of
  \<open>print_format\<close>.\<close>

definition print_number :: "nat \<Rightarrow> nat \<Rightarrow> bytes \<Rightarrow> nat \<Rightarrow> nat \<Rightarrow> u8 \<Rightarrow> bool \<Rightarrow> out \<Rightarrow> out option" where
  "print_number start bufsize sizec val base sign upper st = do {
     st \<leftarrow> print_fill st (bufsize - (snd st - start)) sizec val base sign 0;
     (_, st) \<leftarrow> print_itoa st (bufsize - (snd st - start)) val base upper;
     Some st }"

record pf =
  pf_sizec :: bytes
  length_mod :: nat
  upper :: bool

text \<open>The body of the loop of \<open>print_format\<close> for the conversion characters.\<close>

definition print_conv ::
    "(u64 \<Rightarrow> bytes) \<Rightarrow> nat \<Rightarrow> nat \<Rightarrow> u8 \<Rightarrow> u64 \<Rightarrow> u8 \<Rightarrow> pf \<Rightarrow> out \<Rightarrow> out option" where
  "print_conv strs start bufsize sign var c f st = (let sizec = pf_sizec f @ [0] in
     if c = 117 \<or> c = 100 \<or> c = 105
     then if c \<noteq> 117 \<and> push_bit (length_mod f * 8 - 1) 1 AND var \<noteq> 0
       then do {
         st \<leftarrow> put 45 st;
         print_number start bufsize sizec (unat (- var AND convert (length_mod f))) 10 sign (upper f) st }
       else print_number start bufsize sizec (unat var) 10 sign (upper f) st
     else if c = 88 \<or> c = 120
     then print_number start bufsize sizec (unat (var AND convert (length_mod f))) 16 sign (upper f \<or> c = 88) st
     else if c = 79 \<or> c = 111
     then print_number start bufsize sizec (unat (var AND convert (length_mod f))) 8 sign (upper f) st
     else if c = 112
     then do {
       st \<leftarrow> print_fill st (bufsize - (snd st - start)) sizec (unat var) 16 32 2;
       st \<leftarrow> print_str st (bufsize - (snd st - start)) [48, 120, 0];
       (_, st) \<leftarrow> print_itoa st (bufsize - (snd st - start)) (unat var) 16 (upper f);
       Some st }
     else if c = 99
     then do {
       st \<leftarrow> print_fill st (bufsize - (snd st - start)) sizec 1 10 32 0;
       put (ucast var) st }
     else do {
       st \<leftarrow> print_str_fill st (bufsize - (snd st - start)) sizec (strs var) 32;
       print_str st (bufsize - (snd st - start)) (strs var) })"

definition is_conv :: "u8 \<Rightarrow> bool" where
  "is_conv c \<longleftrightarrow> c \<in> {117, 100, 105, 88, 120, 79, 111, 112, 99, 115}"

function format_loop ::
    "(u64 \<Rightarrow> bytes) \<Rightarrow> nat \<Rightarrow> nat \<Rightarrow> u8 \<Rightarrow> u64 \<Rightarrow> bytes \<Rightarrow> pf \<Rightarrow> out \<Rightarrow> out option" where
  "format_loop strs start bufsize sign var [] f st = None"
| "format_loop strs start bufsize sign var (c # form) f st =
     (if c \<noteq> 0 \<and> snd st - start < bufsize then
        if is_conv c
        then do {
          st \<leftarrow> print_conv strs start bufsize sign var c f st;
          format_loop strs start bufsize sign var form (f\<lparr>upper := upper f \<or> c = 88\<rparr>) st }
        else if c = 108
        then (case form of [] \<Rightarrow> None | d # form' \<Rightarrow>
          format_loop strs start bufsize sign var (if d = 108 then form' else form) (f\<lparr>length_mod := 8\<rparr>) st)
        else if c = 104
        then (case form of [] \<Rightarrow> None | d # form' \<Rightarrow>
          format_loop strs start bufsize sign var (if d = 104 then form' else form)
            (f\<lparr>length_mod := (if d = 104 then 1 else 2)\<rparr>) st)
        else if c = 122
        then format_loop strs start bufsize sign var form (f\<lparr>length_mod := 8\<rparr>) st
        else if 48 \<le> c \<and> c \<le> 57
        then (if length (pf_sizec f) < 32
          then format_loop strs start bufsize sign var form (f\<lparr>pf_sizec := pf_sizec f @ [c]\<rparr>) st else None)
        else format_loop strs start bufsize sign var form f st
      else Some st)"
  by pat_completeness auto
termination
  by (relation "measure (\<lambda>(_, _, _, _, _, form, _). length form)") auto

text \<open>\<open>print_format\<close>: \<open>format\<close> starts with the percent sign.\<close>

definition print_format :: "(u64 \<Rightarrow> bytes) \<Rightarrow> out \<Rightarrow> nat \<Rightarrow> bytes \<Rightarrow> u64 \<Rightarrow> out option" where
  "print_format strs st bufsize format var = do {
     let form = drop 1 format;
     c \<leftarrow> rd8 form 0;
     let f = \<lparr>pf_sizec = [], length_mod = 4, upper = False\<rparr>;
     if c = 48 \<or> c = 46
     then format_loop strs (snd st) bufsize 48 var (drop 1 form) f st
     else format_loop strs (snd st) bufsize 32 var form f st }"

text \<open>The loop that copies one conversion specification: the characters after the percent sign, the
  conversion character and the rest of the format.\<close>

fun collect_spec :: "bytes \<Rightarrow> (bytes \<times> u8 \<times> bytes) option" where
  "collect_spec [] = None"
| "collect_spec (c # s) =
     (if is_conv c \<or> c = 37 then Some ([], c, s)
      else do { (f, k, r) \<leftarrow> collect_spec s; Some (c # f, k, r) })"

lemma collect_spec_shorter: "collect_spec s = Some (f, k, r) \<Longrightarrow> length r < length s"
  by (induction s arbitrary: f k r) (fastforce split: if_splits bind_splits)+

function printf_loop :: "(u64 \<Rightarrow> bytes) \<Rightarrow> nat \<Rightarrow> nat \<Rightarrow> bytes \<Rightarrow> u64 list \<Rightarrow> out \<Rightarrow> out option" where
  "printf_loop strs bstart bufsize [] args st = None"
| "printf_loop strs bstart bufsize (c # ptr) args st =
     (if c \<noteq> 0 \<and> snd st - bstart < bufsize then
        if c = 37
        then (case collect_spec ptr of None \<Rightarrow> None | Some (f, k, rest) \<Rightarrow>
          if 20 < length f + 3 then None
          else if k = 37
          then (case put 37 st of None \<Rightarrow> None | Some st' \<Rightarrow> printf_loop strs bstart bufsize rest args st')
          else (case args of [] \<Rightarrow> None | a # args' \<Rightarrow>
            case print_format strs st (bufsize - (snd st - bstart)) (37 # f @ [k, 0]) a of
              None \<Rightarrow> None | Some st' \<Rightarrow> printf_loop strs bstart bufsize rest args' st'))
        else (case put c st of None \<Rightarrow> None | Some st' \<Rightarrow> printf_loop strs bstart bufsize ptr args st')
      else Some st)"
  by pat_completeness auto
termination
  by (relation "measure (\<lambda>(_, _, _, ptr, _). length ptr)") (auto dest: collect_spec_shorter)

definition vsnprintf ::
    "(u64 \<Rightarrow> bytes) \<Rightarrow> bytes option \<Rightarrow> nat \<Rightarrow> bytes \<Rightarrow> u64 list \<Rightarrow> (int \<times> bytes option) option" where
  "vsnprintf strs buffer bufsize format arg =
     (case buffer of None \<Rightarrow> Some (0, None)
      | Some b \<Rightarrow> if bufsize = 0 then Some (0, buffer)
        else do {
          (b, p) \<leftarrow> printf_loop strs 0 (bufsize - 1) format arg (b, 0);
          b \<leftarrow> wr8 b p 0;
          Some (s32_of (int p), Some b) })"

definition vsprintf where
  "vsprintf strs buffer format arg = vsnprintf strs buffer 0x7fffffff format arg"

definition snprintf where
  "snprintf strs buff sz format arg =
     (if buff = None \<or> format = None then Some (-1, buff) else vsnprintf strs buff sz (the format) arg)"

definition sprintf where
  "sprintf strs buff format arg =
     (if buff = None \<or> format = None then Some (-1, buff) else vsprintf strs buff (the format) arg)"

declare intlen_loop.simps [code] itoa_loop.simps [code]

section \<open>Writes stay inside the buffer\<close>

definition ext :: "nat \<Rightarrow> out \<Rightarrow> out \<Rightarrow> bool" where
  "ext lim st st' \<longleftrightarrow> snd st \<le> snd st' \<and> snd st' \<le> lim \<and> length (fst st') = length (fst st) \<and>
     (\<forall>i. i < snd st \<or> lim \<le> i \<longrightarrow> fst st' ! i = fst st ! i)"

definition ok :: "nat \<Rightarrow> out \<Rightarrow> out option \<Rightarrow> bool" where
  "ok lim st r \<longleftrightarrow> (\<exists>st'. r = Some st' \<and> ext lim st st')"

definition room :: "nat \<Rightarrow> out \<Rightarrow> bool" where
  "room lim st \<longleftrightarrow> snd st \<le> lim \<and> lim \<le> length (fst st)"

lemma ext_refl: "snd st \<le> lim \<Longrightarrow> ext lim st st"
  by (simp add: ext_def)

lemma ext_trans: "ext lim a b \<Longrightarrow> ext lim b c \<Longrightarrow> ext lim a c"
  unfolding ext_def by (metis le_trans less_le_trans)

lemma ext_room: "room lim st \<Longrightarrow> ext lim st st' \<Longrightarrow> room lim st'"
  by (simp add: room_def ext_def)

lemma ok_Some: "room lim st \<Longrightarrow> ok lim st (Some st)"
  by (simp add: ok_def room_def ext_refl)

lemma ok_step: "ext lim st st' \<Longrightarrow> ok lim st' r \<Longrightarrow> ok lim st r"
  using ext_trans unfolding ok_def by blast

lemma ok_bind:
  assumes "room lim st" "ok lim st r" "\<And>st'. ext lim st st' \<Longrightarrow> room lim st' \<Longrightarrow> ok lim st' (g st')"
  shows "ok lim st (r \<bind> g)"
proof -
  obtain st' where st': "r = Some st'" "ext lim st st'" using assms(2) by (auto simp: ok_def)
  then obtain st'' where "g st' = Some st''" "ext lim st' st''"
    using assms(3)[OF st'(2) ext_room[OF assms(1) st'(2)]] by (auto simp: ok_def)
  then show ?thesis using st' ext_trans by (auto simp: ok_def)
qed

lemma ok_put: "room lim st \<Longrightarrow> snd st < lim \<Longrightarrow> ok lim st (put c st)"
  by (auto simp: ok_def ext_def put_def room_def wr8_eq)

lemma ok_fill_loop: "room (bstart + n) st \<Longrightarrow> bstart \<le> snd st \<Longrightarrow> ok (bstart + n) st (fill_loop m c bstart n st)"
proof (induction m arbitrary: st)
  case 0
  then show ?case by (simp add: ok_Some)
next
  case (Suc m)
  show ?case
  proof (cases "snd st - bstart < n")
    case True
    then have "ok (bstart + n) st (put c st)" using Suc.prems by (intro ok_put) auto
    then show ?thesis using Suc True by (auto intro!: ok_bind simp: ext_def)
  next
    case False
    then show ?thesis using Suc.prems by (simp add: ok_Some)
  qed
qed

lemma ok_str_loop: "room (bstart + n) st \<Longrightarrow> bstart \<le> snd st \<Longrightarrow> ok (bstart + n) st (str_loop s bstart n st)"
proof (induction s arbitrary: st)
  case Nil
  then show ?case by (simp add: ok_Some)
next
  case (Cons c s)
  show ?case
  proof (cases "snd st - bstart < n")
    case True
    then have "ok (bstart + n) st (put c st)" using Cons.prems by (intro ok_put) auto
    then show ?thesis using Cons True by (auto intro!: ok_bind simp: ext_def)
  next
    case False
    then show ?thesis using Cons.prems by (simp add: ok_Some)
  qed
qed

lemma skip_white_total: "terminated s \<Longrightarrow> \<exists>r p. skip_white s pos = Some (r, p) \<and> terminated r"
  by (induction s arbitrary: pos) auto

lemma digit_loop_total: "terminated s \<Longrightarrow> \<exists>r. digit_loop wrap BASE s v pos = Some r"
  by (induction s arbitrary: v pos) (auto split: option.splits)

lemma strtoul_total: "terminated s \<Longrightarrow> \<exists>v p. strtoul s 10 = Some (v, p)"
  using skip_white_total[of s 0] digit_loop_total
  by (fastforce simp: strtoul_def base_prefix_def)

lemma intlen_loop_eq:
  assumes "2 \<le> base"
  shows "intlen_loop val base i = Some (i + (if val = 0 then 0 else length (digits base val)))"
  using assms
proof (induction base val arbitrary: i rule: digits.induct)
  case (1 b n)
  show ?case
  proof (cases "n < b")
    case True
    then show ?thesis using 1(2) by (subst intlen_loop.simps) (simp add: digits.simps[of b n] intlen_loop.simps)
  next
    case False
    then have "n div b \<noteq> 0" using 1(2) by (simp add: div_eq_0_iff)
    then show ?thesis using 1(1)[OF _ 1(2), of "Suc i"] 1(2) False
      by (subst intlen_loop.simps) (simp add: digits.simps[of b n])
  qed
qed

lemma print_intlen_eq: "2 \<le> base \<Longrightarrow> print_intlen val base = Some (length (digits base val))"
  by (simp add: print_intlen_def intlen_loop_eq digits.simps[of base 0])

definition case_char :: "bool \<Rightarrow> nat \<Rightarrow> u8" where
  "case_char up d = (if up then word_of_int (toupper (uint (digit_char d))) else digit_char d)"

lemma zeichen_nth: "d < 16 \<Longrightarrow> rd8 zeichen d = Some (digit_char d)"
  unfolding rd8_def zeichen_def digit_char_def by (auto simp: less_Suc_eq numeral_eq_Suc)

lemma itoa_loop_eq:
  assumes "2 \<le> base" "base \<le> 16" "p + length (digits base val) \<le> length b"
  shows "itoa_loop b p (length (digits base val)) val base up =
    Some (take p b @ map (case_char up) (digits base val) @ drop (p + length (digits base val)) b)"
  using assms
proof (induction base val arbitrary: b rule: digits.induct)
  case (1 base val)
  have z: "rd8 zeichen (val mod base) = Some (digit_char (val mod base))"
    using 1(2,3) by (intro zeichen_nth) (metis less_le_trans mod_less_divisor not_less_eq_eq numeral_2_eq_2 zero_less_Suc le_less_trans)
  show ?case
  proof (cases "val < base")
    case True
    then show ?thesis using 1(2-4) z
      by (subst itoa_loop.simps)
        (simp add: digits.simps[of base val] case_char_def wr8_eq upd_conv_take_nth_drop)
  next
    case False
    let ?l = "length (digits base (val div base))"
    let ?b = "b[p + ?l := case_char up (val mod base)]"
    have d: "digits base val = digits base (val div base) @ [val mod base]"
      using False 1(2) by (simp add: digits.simps[of base val])
    have "val div base \<noteq> 0" using False 1(2) by (simp add: div_eq_0_iff)
    then have "itoa_loop b p (length (digits base val)) val base up = itoa_loop ?b p ?l (val div base) base up"
      using 1(4) z d by (subst itoa_loop.simps) (simp add: case_char_def wr8_eq)
    also have "\<dots> = Some (take p ?b @ map (case_char up) (digits base (val div base)) @ drop (p + ?l) ?b)"
      using 1 False d by (intro 1(1)) auto
    finally show ?thesis using 1(4) d by (simp add: drop_update_swap upd_conv_take_nth_drop min_def Cons_nth_drop_Suc)
  qed
qed

definition good_str :: "bytes \<Rightarrow> bool" where
  "good_str s \<longleftrightarrow> terminated s \<and> length (cstr s) < 2 ^ 31"

lemma good_strlen: "good_str s \<Longrightarrow> strlen s = Some (of_nat (length (cstr s))) \<and> unat (of_nat (length (cstr s)) :: u64) = length (cstr s)"
  by (auto simp: good_str_def strlen_short unat_of_nat)

lemma ok_print_str_fill:
  assumes "room (snd st + n) st" "terminated sizec" "good_str str"
  shows "ok (snd st + n) st (print_str_fill st n sizec str c)"
proof -
  obtain v p where "strtoul sizec 10 = Some (v, p)" using strtoul_total[OF assms(2)] by blast
  then show ?thesis using assms(1) good_strlen[OF assms(3)]
    by (simp add: print_str_fill_def Let_def ok_fill_loop ok_Some)
qed

lemma ok_print_str:
  assumes "room (snd st + n) st" "good_str str"
  shows "ok (snd st + n) st (print_str st n str)"
  using assms(1) good_strlen[OF assms(2)] cstr_length_le[of str]
  by (simp add: print_str_def rdn_def ok_str_loop)

lemma ok_print_fill:
  assumes "room (snd st + n) st" "terminated sizec" "2 \<le> base"
  shows "ok (snd st + n) st (print_fill st n sizec val base c optlen)"
proof -
  obtain v p where "strtoul sizec 10 = Some (v, p)" using strtoul_total[OF assms(2)] by blast
  then show ?thesis using assms(1) print_intlen_eq[OF assms(3)]
    by (simp add: print_fill_def Let_def ok_fill_loop ok_Some)
qed

lemma ok_print_itoa:
  assumes "room (snd st + n) st" "2 < base" "base \<le> 16"
  shows "ok (snd st + n) st (print_itoa st n val base up \<bind> (\<lambda>(_, st). Some st))"
proof (cases "n < length (digits base val)")
  case True
  then show ?thesis using assms print_intlen_eq[of base val] by (simp add: print_itoa_def ok_Some)
next
  case False
  let ?l = "length (digits base val)"
  have "snd st + ?l \<le> length (fst st)" using False assms(1) by (simp add: room_def)
  then show ?thesis using False assms itoa_loop_eq[of base "snd st" val "fst st" up] print_intlen_eq[of base val]
    by (auto simp: print_itoa_def ok_def ext_def nth_append)
qed

lemma room_window: "room (start + n) st \<Longrightarrow> start \<le> snd st \<Longrightarrow> snd st + (n - (snd st - start)) = start + n"
  by (simp add: room_def)

text \<open>The printing steps inside the window \<open>start .. start + n\<close> of \<open>print_format\<close>.\<close>

lemma ok_fill_window:
  "room (start + n) st \<Longrightarrow> start \<le> snd st \<Longrightarrow> terminated sizec \<Longrightarrow> 2 \<le> base \<Longrightarrow>
    ok (start + n) st (print_fill st (n - (snd st - start)) sizec val base c optlen)"
  using ok_print_fill[of st "n - (snd st - start)" sizec base val c optlen] room_window[of start n st] by simp

lemma ok_str_window:
  "room (start + n) st \<Longrightarrow> start \<le> snd st \<Longrightarrow> good_str str \<Longrightarrow>
    ok (start + n) st (print_str st (n - (snd st - start)) str)"
  using ok_print_str[of st "n - (snd st - start)" str] room_window[of start n st] by simp

lemma ok_str_fill_window:
  "room (start + n) st \<Longrightarrow> start \<le> snd st \<Longrightarrow> terminated sizec \<Longrightarrow> good_str str \<Longrightarrow>
    ok (start + n) st (print_str_fill st (n - (snd st - start)) sizec str c)"
  using ok_print_str_fill[of st "n - (snd st - start)" sizec str c] room_window[of start n st] by simp

lemma ok_itoa_window:
  "room (start + n) st \<Longrightarrow> start \<le> snd st \<Longrightarrow> 2 < base \<Longrightarrow> base \<le> 16 \<Longrightarrow>
    ok (start + n) st (print_itoa st (n - (snd st - start)) val base up \<bind> (\<lambda>(_, st). Some st))"
  using ok_print_itoa[of st "n - (snd st - start)" base val up] room_window[of start n st] by simp

lemma ext_start: "ext lim st st' \<Longrightarrow> s \<le> snd st \<Longrightarrow> s \<le> snd st'"
  by (simp add: ext_def)

lemmas ok_windows = ok_fill_window ok_str_window ok_str_fill_window ok_itoa_window

lemma ok_print_number:
  "room (start + n) st \<Longrightarrow> start \<le> snd st \<Longrightarrow> terminated sizec \<Longrightarrow> 2 < base \<Longrightarrow> base \<le> 16 \<Longrightarrow>
    ok (start + n) st (print_number start n sizec val base sign up st)"
  unfolding print_number_def by (intro ok_bind ok_windows) (auto simp: ext_def)

lemma no_width: "strtoul [0] 10 = Some (0, 0)"
  by (simp add: strtoul_def base_prefix_def)

lemma good_0x: "good_str [48, 120, 0]"
  by (simp add: good_str_def)

lemma ok_print_conv:
  assumes st: "room (start + n) st" "start \<le> snd st" "snd st < start + n" and c: "is_conv c"
    and cc: "c = 99 \<Longrightarrow> pf_sizec f = []" and s: "c = 115 \<Longrightarrow> good_str (strs var)"
  shows "ok (start + n) st (print_conv strs start n sign var c f st)"
proof -
  let ?z = "pf_sizec f @ [0]"
  have z: "terminated ?z" by simp
  consider "c \<in> {117, 100, 105}" | "c \<in> {88, 120, 79, 111}" | "c = 112" | "c = 99" | "c = 115"
    using c by (auto simp: is_conv_def)
  then show ?thesis
  proof cases
    case 1
    have "ok (start + n) st (put 45 st \<bind> (\<lambda>st. print_number start n ?z v 10 sign u st))" for v u
      using st by (intro ok_bind ok_put ok_print_number) (auto simp: ext_def)
    moreover have "ok (start + n) st (print_number start n ?z v 10 sign u st)" for v u
      using st by (intro ok_print_number) auto
    ultimately show ?thesis using 1 by (auto simp: print_conv_def Let_def)
  next
    case 2
    have "ok (start + n) st (print_number start n ?z v b sign u st)" if "b = 16 \<or> b = 8" for v u b
      using st that by (intro ok_print_number) auto
    then show ?thesis using 2 by (auto simp: print_conv_def Let_def)
  next
    case 3
    have "ok (start + n) st (print_fill st (n - (snd st - start)) ?z (unat var) 16 32 2 \<bind> (\<lambda>st.
       print_str st (n - (snd st - start)) [48, 120, 0] \<bind> (\<lambda>st.
       print_itoa st (n - (snd st - start)) (unat var) 16 (upper f) \<bind> (\<lambda>(_, st). Some st))))"
      using st good_0x by (intro ok_bind ok_windows) (auto simp: ext_def)
    then show ?thesis using 3 by (simp add: print_conv_def Let_def)
  next
    case 4
    then have "print_fill st (n - (snd st - start)) ?z 1 10 32 0 = Some st"
      using cc by (simp add: print_fill_def no_width print_intlen_eq s32_of_def digits.simps[of 10 "Suc 0"])
    then show ?thesis using 4 ok_put[OF st(1,3)] by (simp add: print_conv_def Let_def)
  next
    case 5
    have "ok (start + n) st (print_str_fill st (n - (snd st - start)) ?z (strs var) 32 \<bind> (\<lambda>st.
       print_str st (n - (snd st - start)) (strs var)))"
      using st s[OF 5] by (intro ok_bind ok_windows) (auto simp: ext_def)
    then show ?thesis using 5 by (simp add: print_conv_def Let_def)
  qed
qed

definition no_dec_digit :: "bytes \<Rightarrow> bool" where
  "no_dec_digit s \<longleftrightarrow> (\<forall>c\<in>set s. \<not> (48 \<le> c \<and> c \<le> 57))"

definition spec_ok :: "(u64 \<Rightarrow> bytes) \<Rightarrow> u64 \<Rightarrow> bytes \<Rightarrow> bool" where
  "spec_ok strs var form \<longleftrightarrow> terminated form \<and> length form \<le> 20 \<and>
     (99 \<in> set form \<longrightarrow> no_dec_digit form) \<and> (115 \<in> set form \<longrightarrow> good_str (strs var))"

lemma spec_ok_tl: "spec_ok strs var (c # form) \<Longrightarrow> c \<noteq> 0 \<Longrightarrow> spec_ok strs var form"
  by (auto simp: spec_ok_def no_dec_digit_def)

lemma ok_format_loop:
  assumes "spec_ok strs var form" "room (start + n) st" "start \<le> snd st"
    and "99 \<in> set form \<Longrightarrow> pf_sizec f = []" "length (pf_sizec f) + length form \<le> 32"
  shows "ok (start + n) st (format_loop strs start n sign var form f st)"
  using assms
proof (induction strs start n sign var form f st rule: format_loop.induct)
  case (1 strs start bufsize sign var f st)
  then show ?case by (simp add: spec_ok_def)
next
  case (2 strs start bufsize sign var c form f st)
  let ?lim = "start + bufsize"
  note prems = 2(7-11)
  show ?case
  proof (cases "c \<noteq> 0 \<and> snd st - start < bufsize")
    case False
    then show ?thesis using ok_Some[OF prems(2)] by auto
  next
    case True
    then have tl: "spec_ok strs var form" using spec_ok_tl[OF prems(1)] by simp
    then obtain d form' where form: "form = d # form'" by (cases form) (auto simp: spec_ok_def)
    have tl2: "spec_ok strs var form'" if "d \<noteq> 0" using spec_ok_tl[of strs var d form'] tl form that by simp
    have pc: "99 \<in> set form \<Longrightarrow> pf_sizec f = []" using prems(4) by simp
    consider "is_conv c" | "\<not> is_conv c" "c = 108" | "\<not> is_conv c" "c = 104" | "\<not> is_conv c" "c = 122"
      | "\<not> is_conv c" "c \<noteq> 108" "c \<noteq> 104" "c \<noteq> 122" "48 \<le> c \<and> c \<le> 57"
      | "\<not> is_conv c" "c \<noteq> 108" "c \<noteq> 104" "c \<noteq> 122" "\<not> (48 \<le> c \<and> c \<le> 57)" by blast
    then show ?thesis
    proof cases
      case c: 1
      have "ok ?lim st (print_conv strs start bufsize sign var c f st)"
        using c True prems by (intro ok_print_conv) (auto simp: spec_ok_def)
      then obtain st' where st': "print_conv strs start bufsize sign var c f st = Some st'" "ext ?lim st st'"
        by (auto simp: ok_def)
      note e = ext_start[OF st'(2) prems(3)] ext_room[OF prems(2) st'(2)]
      have "ok ?lim st' (format_loop strs start bufsize sign var form (f\<lparr>upper := upper f \<or> c = 88\<rparr>) st')"
        using 2(1)[OF True c, of st'] st' tl e prems(5) pc by simp
      then show ?thesis using c True st' by (auto intro: ok_step)
    next
      case c: 2
      have "ok ?lim st (format_loop strs start bufsize sign var (if d = 108 then form' else form) (f\<lparr>length_mod := 8\<rparr>) st)"
        using c True form tl tl2 prems pc by (intro 2(2)[OF True c(1,2) form]) (auto split: if_splits)
      then show ?thesis using c True form by (subst format_loop.simps) (simp del: format_loop.simps)
    next
      case c: 3
      have "ok ?lim st (format_loop strs start bufsize sign var (if d = 104 then form' else form)
            (f\<lparr>length_mod := (if d = 104 then 1 else 2)\<rparr>) st)"
        using c True form tl tl2 prems pc by (intro 2(3)[OF True c(1) _ c(2) form]) (auto split: if_splits)
      then show ?thesis using c True form by (subst format_loop.simps) (simp del: format_loop.simps)
    next
      case c: 4
      then show ?thesis using True tl prems pc 2(4)[OF True c(1) _ _ c(2)] by simp
    next
      case c: 5
      have "99 \<notin> set form" using c(5) prems(1) by (auto simp: spec_ok_def no_dec_digit_def)
      moreover have "length (pf_sizec f) < 32" using prems(5) by simp
      ultimately show ?thesis using c True tl prems(2,3,5) 2(5)[OF True c(1-5)] by simp
    next
      case c: 6
      then show ?thesis using True tl prems pc 2(6)[OF True c(1-5)] by auto
    qed
  qed
qed

lemma ok_print_format:
  assumes "spec_ok strs var form" "room (snd st + n) st"
  shows "ok (snd st + n) st (print_format strs st n (37 # form) var)"
proof -
  obtain c form' where form: "form = c # form'" using assms(1) by (cases form) (auto simp: spec_ok_def)
  let ?f = "\<lparr>pf_sizec = [], length_mod = 4, upper = False\<rparr>"
  have "ok (snd st + n) st (format_loop strs (snd st) n sign var x ?f st)" if "spec_ok strs var x" for x sign
    using assms(2) that by (intro ok_format_loop) (auto simp: spec_ok_def)
  then show ?thesis using form assms(1) spec_ok_tl[of strs var c form']
    by (auto simp: print_format_def Let_def rd8_def simp del: format_loop.simps)
qed

text \<open>The formats for which the output is bounded: every conversion is complete, has its argument and fits
  the buffer \<open>formstr\<close>, strings are terminated and shorter than 2 GiB, and \<open>%c\<close> has no width.\<close>

function fmt_safe :: "(u64 \<Rightarrow> bytes) \<Rightarrow> bytes \<Rightarrow> u64 list \<Rightarrow> bool" where
  "fmt_safe strs [] args = False"
| "fmt_safe strs (c # ptr) args =
     (c = 0 \<or>
      (if c = 37
       then (case collect_spec ptr of None \<Rightarrow> False
         | Some (f, k, rest) \<Rightarrow>
             if k = 37 then length f \<le> 17 \<and> fmt_safe strs rest args
             else (case args of [] \<Rightarrow> False
               | a # args' \<Rightarrow> length f \<le> 17 \<and> (k = 99 \<longrightarrow> no_dec_digit f) \<and>
                   (k = 115 \<longrightarrow> good_str (strs a)) \<and> fmt_safe strs rest args'))
       else fmt_safe strs ptr args))"
  by pat_completeness auto
termination
  by (relation "measure (\<lambda>(_, ptr, _). length ptr)") (auto dest: collect_spec_shorter)

lemma collect_spec_no_conv: "collect_spec s = Some (f, k, r) \<Longrightarrow> \<forall>c\<in>set f. \<not> is_conv c"
  by (induction s arbitrary: f k r) (fastforce split: if_splits bind_splits)+

lemma ok_printf_loop:
  assumes "fmt_safe strs fmt args" "room n st"
  shows "ok n st (printf_loop strs 0 n fmt args st)"
  using assms
proof (induction strs "0 :: nat" n fmt args st rule: printf_loop.induct)
  case (1 strs bufsize args st)
  then show ?case by simp
next
  case (2 strs bufsize c ptr args st)
  note prems = 2(4,5)
  show ?case
  proof (cases "c \<noteq> 0 \<and> snd st - 0 < bufsize")
    case False
    then show ?thesis using ok_Some[OF prems(2)] by auto
  next
    case run: True
    have put: "ok bufsize st (put x st)" for x using run prems(2) by (intro ok_put) auto
    show ?thesis
    proof (cases "c = 37")
      case False
      obtain st' where st': "put c st = Some st'" "ext bufsize st st'" using put[of c] unfolding ok_def by blast
      have "ok bufsize st' (printf_loop strs 0 bufsize ptr args st')"
        using 2(3)[OF run False st'(1)] prems run False ext_room[OF prems(2) st'(2)] by simp
      then show ?thesis using run False st' by (auto intro: ok_step)
    next
      case True
      with prems run obtain f k rest where col: "collect_spec ptr = Some (f, k, rest)"
        by (auto split: option.splits)
      show ?thesis
      proof (cases "k = 37")
        case k: True
        obtain st' where st': "put 37 st = Some st'" "ext bufsize st st'" using put[of 37] unfolding ok_def by blast
        have "ok bufsize st' (printf_loop strs 0 bufsize rest args st')"
          using 2(1)[OF run True col refl refl _ k st'(1)] prems run True col k ext_room[OF prems(2) st'(2)] by simp
        then show ?thesis using run True k st' prems col by (auto intro: ok_step)
      next
        case k: False
        with prems run True col obtain a args' where args: "args = a # args'"
          and s: "length f \<le> 17" "k = 99 \<longrightarrow> no_dec_digit f" "k = 115 \<longrightarrow> good_str (strs a)" "fmt_safe strs rest args'"
          by (auto split: list.splits)
        have "99 \<notin> set f" "115 \<notin> set f" using collect_spec_no_conv[OF col] by (auto simp: is_conv_def)
        then have "spec_ok strs a (f @ [k, 0])" using s(1-3) by (auto simp: spec_ok_def no_dec_digit_def)
        then have "ok bufsize st (print_format strs st (bufsize - snd st) (37 # f @ [k, 0]) a)"
          using ok_print_format[of strs a "f @ [k, 0]" st "bufsize - snd st"] prems(2) by (simp add: room_def)
        then obtain st' where st': "print_format strs st (bufsize - snd st) (37 # f @ [k, 0]) a = Some st'"
          "ext bufsize st st'" by (auto simp: ok_def)
        have "ok bufsize st' (printf_loop strs 0 bufsize rest args' st')"
          using 2(2)[OF run True col refl refl _ k args] st' s ext_room[OF prems(2) st'(2)] by simp
        then show ?thesis using run True k st' col args s(1) by (auto intro: ok_step)
      qed
    qed
  qed
qed

section \<open>Properties\<close>

text \<open>C18: Formatted output stays in the buffer. For every safe format, \<open>vsnprintf\<close> with a buffer of \<open>n\<close>
  bytes returns, the count is below \<open>n\<close>, the output is terminated at the count, and no byte from \<open>n\<close> on
  is changed.\<close>

theorem vsnprintf_bounded:
  assumes "0 < n" "n \<le> length b" "n < 2 ^ 31" "fmt_safe strs fmt args"
  shows "\<exists>k b'. vsnprintf strs (Some b) n fmt args = Some (int k, Some b') \<and> k < n \<and> b' ! k = 0 \<and>
    length b' = length b \<and> (\<forall>i \<ge> n. b' ! i = b ! i)"
proof -
  have "ok (n - 1) (b, 0) (printf_loop strs 0 (n - 1) fmt args (b, 0))"
    using assms by (intro ok_printf_loop) (auto simp: room_def)
  then obtain b1 p where p: "printf_loop strs 0 (n - 1) fmt args (b, 0) = Some (b1, p)" "p \<le> n - 1"
    "length b1 = length b" "\<forall>i \<ge> n - 1. b1 ! i = b ! i" by (auto simp: ok_def ext_def)
  then have "vsnprintf strs (Some b) n fmt args = Some (int p, Some (b1[p := 0]))"
    using assms by (simp add: vsnprintf_def wr8_eq s32_of_id)
  moreover have "\<forall>i \<ge> n. b1[p := 0] ! i = b ! i" using p assms by auto
  ultimately show ?thesis using p assms by (intro exI[of _ p] exI[of _ "b1[p := 0]"]) auto
qed

theorem vsnprintf_bounded_witness:
  "\<exists>k b'. vsnprintf (\<lambda>_. [104, 105, 0]) (Some (replicate 8 255)) 6 [37, 115, 61, 37, 48, 52, 120, 0] [1, 171] =
      Some (int k, Some b') \<and> k < 6 \<and> b' ! k = 0 \<and>
    length b' = length (replicate 8 (255 :: u8)) \<and> (\<forall>i \<ge> 6. b' ! i = replicate 8 255 ! i)"
  by (rule vsnprintf_bounded) (simp_all add: good_str_def is_conv_def)

lemma fill_loop_all:
  "p \<le> k \<Longrightarrow> k - p \<le> m \<Longrightarrow> k \<le> length c \<Longrightarrow>
    fill_loop m x 0 k (c, p) = Some (take p c @ replicate (k - p) x @ drop k c, k)"
proof (induction m arbitrary: c p)
  case (Suc m)
  show ?case
  proof (cases "p = k")
    case False
    then have r: "replicate (k - p) x = x # replicate (k - Suc p) x"
      using Suc.prems by (metis Suc_diff_Suc le_neq_implies_less replicate_Suc)
    have "fill_loop (Suc m) x 0 k (c, p) = fill_loop m x 0 k (c[p := x], Suc p)"
      using Suc.prems False by (simp add: put_def wr8_eq)
    also have "\<dots> = Some (take (Suc p) (c[p := x]) @ replicate (k - Suc p) x @ drop k (c[p := x]), k)"
      using Suc.prems False by (intro Suc.IH) auto
    finally show ?thesis using Suc.prems False r by (simp add: take_Suc_conv_app_nth)
  qed simp
qed simp

text \<open>A width on \<open>%c\<close> overruns the buffer: \<open>vsnprintf\<close> with the format "%9c" and a buffer of 2 to 9
  bytes fills the whole buffer with padding, stores the character in the last byte and the terminator
  behind the buffer.\<close>

theorem vsnprintf_wide_char_overrun:
  assumes "2 \<le> length b" "length b \<le> 9"
  shows "vsnprintf strs (Some b) (length b) [37, 57, 99, 0] [v] = None"
proof -
  let ?n = "length b - 1"
  have w: "strtoul [57, 0] 10 = Some (9, 1)" by code_simp
  have "print_fill (b, 0) ?n [57, 0] 1 10 32 0 = Some (replicate ?n 32 @ drop ?n b, ?n)"
    using w fill_loop_all[of 0 ?n 8 b 32] assms by (simp add: print_fill_def print_intlen_eq digits.simps[of 10 "Suc 0"] s32_of_def)
  moreover have "put (ucast v) (replicate ?n 32 @ drop ?n b, ?n) = Some (replicate ?n 32 @ [ucast v], length b)"
    using assms by (simp add: put_def wr8_def wrn_def)
  ultimately have "print_format strs (b, 0) ?n [37, 57, 99, 0] v = Some (replicate ?n 32 @ [ucast v], length b)"
    using assms by (simp add: print_format_def rd8_def is_conv_def print_conv_def)
  then have "printf_loop strs 0 ?n [37, 57, 99, 0] [v] (b, 0) = Some (replicate ?n 32 @ [ucast v], length b)"
    using assms by (simp add: is_conv_def)
  then show ?thesis using assms by (auto simp: vsnprintf_def wr8_def wrn_def)
qed

theorem vsnprintf_wide_char_overrun_witness:
  "vsnprintf (\<lambda>_. []) (Some [0, 0, 0]) (length [0 :: u8, 0, 0]) [37, 57, 99, 0] [65] = None"
  by (rule vsnprintf_wide_char_overrun) simp_all

section \<open>Printing and parsing\<close>

lemma length_digits: "2 \<le> b \<Longrightarrow> 0 < k \<Longrightarrow> n < b ^ k \<Longrightarrow> length (digits b n) \<le> k"
proof (induction b n arbitrary: k rule: digits.induct)
  case (1 b n)
  show ?case
  proof (cases "n < b")
    case True
    then show ?thesis using 1 by (simp add: digits.simps[of b n])
  next
    case False
    then obtain j where k: "k = Suc j" "0 < j" using 1(2-4) by (cases k; cases "k - 1") auto
    then have "n div b < b ^ j" using 1(4) by (simp add: less_mult_imp_div_less mult.commute)
    then show ?thesis using 1(1)[of j] 1(2) False k by (simp add: digits.simps[of b n])
  qed
qed

lemma vsnprintf_finish:
  "printf_loop strs 0 (n - 1) fmt args (b, 0) = Some (b1, p) \<Longrightarrow> wr8 b1 p 0 = Some b2 \<Longrightarrow> 0 < n \<Longrightarrow> p < 2 ^ 31 \<Longrightarrow>
    vsnprintf strs (Some b) n fmt args = Some (int p, Some b2)"
  by (simp add: vsnprintf_def s32_of_id)

lemma map_case_char: "map (case_char False) (digits b n) = numeral_of b n"
  by (simp add: numeral_of_def case_char_def)

lemma print_number_plain:
  assumes "p + length (digits 10 val) \<le> n" "n \<le> length b" "val < 2 ^ 64"
  shows "print_number 0 n [0] val 10 sign False (b, p) =
    Some (take p b @ numeral_of 10 val @ drop (p + length (digits 10 val)) b, p + length (digits 10 val))"
proof -
  have "val < 10 ^ 20" using assms(3) by simp
  then have "length (digits 10 val) \<le> 20" by (intro length_digits) auto
  moreover have "0 < length (digits 10 val)" by simp
  ultimately have "print_fill (b, p) (n - p) [0] val 10 sign 0 = Some (b, p)"
    by (simp add: print_fill_def no_width print_intlen_eq s32_of_id)
  moreover have "itoa_loop b p (length (digits 10 val)) val 10 False =
      Some (take p b @ numeral_of 10 val @ drop (p + length (digits 10 val)) b)"
    using assms itoa_loop_eq[of 10 p val b False] by (simp add: map_case_char)
  ultimately show ?thesis using assms by (simp add: print_number_def print_itoa_def print_intlen_eq)
qed

lemma sign_bit: "push_bit 63 1 AND v \<noteq> 0 \<longleftrightarrow> sint (v :: u64) < 0"
proof -
  have "push_bit 63 1 AND v \<noteq> 0 \<longleftrightarrow> bit v 63"
    by (metis and.commute and_exp_eq_0_iff_not_bit push_bit_of_1)
  also have "\<dots> \<longleftrightarrow> bit (sint v) 63" by (simp add: bit_sint_iff)
  also have "\<dots> \<longleftrightarrow> sint v < 0" by (simp add: not_le sint_uint signed_take_bit_negative_iff bit_signed_take_bit_iff)
  finally show ?thesis .
qed

lemma unat_word_of_int: "0 \<le> x \<Longrightarrow> x < 2 ^ 64 \<Longrightarrow> unat (word_of_int x :: u64) = nat x"
  by (simp add: unsigned_of_int take_bit_int_eq_self)

lemma sint_range: "- (2 ^ 63) \<le> sint (v :: u64) \<and> sint v < 2 ^ 63"
  using sint_greater_eq[of v] sint_less[of v] by simp

lemma minus_sint: "sint (v :: u64) < 0 \<Longrightarrow> unat (- v AND convert 8) = nat (- sint v)"
proof -
  assume neg: "sint v < 0"
  have r: "0 \<le> - sint v" "- sint v < 2 ^ 64" using neg sint_range[of v] by auto
  have "- v = word_of_int (- sint v)" by simp
  then have "unat (- v) = nat (- sint v)" using unat_word_of_int[OF r] by (simp only:)
  moreover have "convert 8 = -1" by (simp add: convert_def)
  ultimately show ?thesis by simp
qed

lemma plus_sint: "0 \<le> sint (v :: u64) \<Longrightarrow> unat v = nat (sint v)"
  using sint_range[of v] unat_word_of_int[of "sint v"] by simp

text \<open>C19: What \<open>%ld\<close> prints, \<open>strtol\<close> reads: for every 64-bit value but the smallest and a buffer of at
  least 22 bytes, \<open>vsnprintf\<close> returns, and \<open>strtol\<close> in base 10 on the buffer gives the value back with the
  end pointer at the returned count.\<close>

theorem printf_strtol_roundtrip:
  assumes n: "22 \<le> n" "n \<le> length b" "n < 2 ^ 31" and v: "sint v \<noteq> - (2 ^ 63)"
  shows "\<exists>k b'. vsnprintf strs (Some b) n [37, 108, 100, 0] [v] = Some (int k, Some b') \<and>
    strtol b' 10 = Some (sint v, k)"
proof -
  let ?neg = "sint v < 0" and ?m = "nat \<bar>sint v\<bar>"
  let ?sg = "if ?neg then [45] else [] :: bytes" and ?l = "length (digits 10 ?m)"
  let ?p = "length ?sg + ?l"
  have m: "?m < 2 ^ 63" using sint_range[of v] v by auto
  then have l: "?l \<le> 20" by (intro length_digits) auto
  have num: "print_conv strs 0 (n - 1) 32 v 100 \<lparr>pf_sizec = [], length_mod = 8, upper = False\<rparr> (b, 0) =
      Some (?sg @ numeral_of 10 ?m @ drop ?p b, ?p)"
  proof (cases ?neg)
    case True
    have "wr8 b 0 45 = Some (b[0 := 45])" using n by (intro wr8_eq) linarith
    then have "put 45 (b, 0) = Some (b[0 := 45], 1)" by (simp add: put_def)
    moreover have "print_number 0 (n - 1) [0] ?m 10 32 False (b[0 := 45], 1) = Some (?sg @ numeral_of 10 ?m @ drop ?p b, ?p)"
      using True n l m by (subst print_number_plain) (cases b; auto)+
    ultimately show ?thesis using True sign_bit[of v] minus_sint[of v] by (simp add: print_conv_def)
  next
    case False
    then show ?thesis using n l m sign_bit[of v] plus_sint[of v]
      by (simp add: print_conv_def print_number_plain)
  qed
  then have "print_format strs (b, 0) (n - 1) [37, 108, 100, 0] v = Some (?sg @ numeral_of 10 ?m @ drop ?p b, ?p)"
    using n by (simp add: print_format_def rd8_def is_conv_def)
  then have "printf_loop strs 0 (n - 1) [37, 108, 100, 0] [v] (b, 0) = Some (?sg @ numeral_of 10 ?m @ drop ?p b, ?p)"
    using n by (simp add: is_conv_def)
  moreover have "wr8 (?sg @ numeral_of 10 ?m @ drop ?p b) ?p 0 = Some (?sg @ numeral_of 10 ?m @ 0 # drop (Suc ?p) b)"
    using n l by (cases ?neg) (simp_all add: wr8_def wrn_def numeral_of_def)
  ultimately have "vsnprintf strs (Some b) n [37, 108, 100, 0] [v] =
      Some (int ?p, Some (?sg @ numeral_of 10 ?m @ 0 # drop (Suc ?p) b))"
    using n l by (intro vsnprintf_finish) (auto simp del: printf_loop.simps)
  moreover have "strtol ([] @ ?sg @ numeral_of 10 ?m @ 0 # drop (Suc ?p) b) (int 10) =
      Some (if ?neg then - int ?m else int ?m, length ([] :: bytes) + length ?sg + ?l)"
    using m by (intro strtol_parses) (simp_all add: no_digit_def char_digit_def white_def)
  ultimately show ?thesis by (cases ?neg) auto
qed

theorem printf_strtol_roundtrip_witness:
  "\<exists>k b'. vsnprintf (\<lambda>_. []) (Some (replicate 32 0)) 32 [37, 108, 100, 0] [-1234] = Some (int k, Some b') \<and>
    strtol b' 10 = Some (sint (-1234 :: u64), k)"
  by (rule printf_strtol_roundtrip) simp_all

end
