(* ===== verification/Alloc_Interface.thy ===== *)
theory Alloc_Interface
  imports Prelude
begin

text \<open>The interface of an allocator of address windows: \<open>alloc\<close> returns an address or all ones, \<open>free\<close>
  takes the address and the size back. The laws speak of the set of free units and of the units that a
  window covers; from them the clients get that live windows never share a unit and that no unit is lost,
  for every interleaving of requests and releases.\<close>

type_synonym window = "u64 \<times> u64"

inductive alloc_run ::
    "('s \<Rightarrow> u64 \<Rightarrow> (u64 \<times> 's) option) \<Rightarrow> ('s \<Rightarrow> u64 \<Rightarrow> u64 \<Rightarrow> 's option) \<Rightarrow> 's \<Rightarrow> 's \<Rightarrow> window list \<Rightarrow> bool"
  for alloc free s0 where
  run_start: "alloc_run alloc free s0 s0 []"
| run_alloc: "alloc_run alloc free s0 s ws \<Longrightarrow> alloc s z = Some (a, s') \<Longrightarrow> a \<noteq> -1 \<Longrightarrow>
    alloc_run alloc free s0 s' ((a, z) # ws)"
| run_refused: "alloc_run alloc free s0 s ws \<Longrightarrow> alloc s z = Some (-1, s') \<Longrightarrow>
    alloc_run alloc free s0 s' ws"
| run_free: "alloc_run alloc free s0 s (us @ (a, z) # vs) \<Longrightarrow> free s a z = Some s' \<Longrightarrow>
    alloc_run alloc free s0 s' (us @ vs)"

definition separate :: "(u64 \<Rightarrow> u64 \<Rightarrow> nat set) \<Rightarrow> window list \<Rightarrow> bool" where
  "separate span ws \<longleftrightarrow> sorted_wrt (\<lambda>(a, z) (b, y). span a z \<inter> span b y = {}) ws"

definition covered :: "(u64 \<Rightarrow> u64 \<Rightarrow> nat set) \<Rightarrow> window list \<Rightarrow> nat set" where
  "covered span ws = (\<Union>(a, z)\<in>set ws. span a z)"

lemma covered_Nil [simp]: "covered span [] = {}"
  and covered_Cons [simp]: "covered span ((a, z) # ws) = span a z \<union> covered span ws"
  and covered_append [simp]: "covered span (us @ vs) = covered span us \<union> covered span vs"
  by (auto simp: covered_def)

lemma separate_Nil [simp]: "separate span []"
  by (simp add: separate_def)

lemma separate_Cons: "separate span ((a, z) # ws) \<longleftrightarrow> span a z \<inter> covered span ws = {} \<and> separate span ws"
  by (auto simp: separate_def covered_def)

lemma separate_drop:
  "separate span (us @ (a, z) # vs) \<Longrightarrow>
    separate span (us @ vs) \<and> span a z \<inter> covered span (us @ vs) = {}"
  by (fastforce simp: separate_def sorted_wrt_append covered_def)

locale window_allocator =
  fixes alloc :: "'s \<Rightarrow> u64 \<Rightarrow> (u64 \<times> 's) option"
    and free :: "'s \<Rightarrow> u64 \<Rightarrow> u64 \<Rightarrow> 's option"
    and invar :: "'s \<Rightarrow> bool"
    and avail :: "'s \<Rightarrow> nat set"
    and span :: "'s \<Rightarrow> u64 \<Rightarrow> u64 \<Rightarrow> nat set"
    and fits :: "'s \<Rightarrow> u64 \<Rightarrow> u64 \<Rightarrow> bool"
  assumes alloc_total: "invar s \<Longrightarrow> \<exists>r. alloc s z = Some r"
    and alloc_refused: "invar s \<Longrightarrow> alloc s z = Some (-1, s') \<Longrightarrow> s' = s"
    and alloc_taken: "invar s \<Longrightarrow> alloc s z = Some (a, s') \<Longrightarrow> a \<noteq> -1 \<Longrightarrow>
      invar s' \<and> fits s a z \<and> span s a z \<subseteq> avail s \<and> avail s' = avail s - span s a z \<and>
      span s' = span s \<and> fits s' = fits s"
    and free_given: "invar s \<Longrightarrow> fits s a z \<Longrightarrow> span s a z \<inter> avail s = {} \<Longrightarrow>
      \<exists>s'. free s a z = Some s' \<and> invar s' \<and> avail s' = avail s \<union> span s a z \<and>
      span s' = span s \<and> fits s' = fits s"
begin

lemma run_invariant:
  assumes "alloc_run alloc free s0 s ws" "invar s0"
  shows "invar s \<and> span s = span s0 \<and> fits s = fits s0 \<and> separate (span s0) ws \<and>
    (\<forall>(a, z)\<in>set ws. fits s0 a z) \<and> avail s \<inter> covered (span s0) ws = {} \<and>
    avail s \<union> covered (span s0) ws = avail s0"
  using assms
proof (induction rule: alloc_run.induct)
  case run_start
  then show ?case by simp
next
  case (run_alloc s ws z a s')
  then have IH: "invar s \<and> span s = span s0 \<and> fits s = fits s0 \<and> separate (span s0) ws \<and>
    (\<forall>(a, z)\<in>set ws. fits s0 a z) \<and> avail s \<inter> covered (span s0) ws = {} \<and>
    avail s \<union> covered (span s0) ws = avail s0" by simp
  with alloc_taken[of s z a s'] run_alloc.hyps(2,3)
  have t: "invar s' \<and> fits s0 a z \<and> span s0 a z \<subseteq> avail s \<and> avail s' = avail s - span s0 a z \<and>
      span s' = span s0 \<and> fits s' = fits s0" by simp
  have "separate (span s0) ((a, z) # ws)" using IH t by (auto simp: separate_Cons)
  then show ?case using IH t by auto
next
  case (run_refused s ws z s')
  then show ?case using alloc_refused by blast
next
  case (run_free s us a z vs s')
  then have IH: "invar s \<and> span s = span s0 \<and> fits s = fits s0 \<and> separate (span s0) (us @ (a, z) # vs) \<and>
    (\<forall>(a, z)\<in>set (us @ (a, z) # vs). fits s0 a z) \<and> avail s \<inter> covered (span s0) (us @ (a, z) # vs) = {} \<and>
    avail s \<union> covered (span s0) (us @ (a, z) # vs) = avail s0" by simp
  with free_given[of s a z] run_free.hyps(2)
  have t: "invar s' \<and> avail s' = avail s \<union> span s0 a z \<and> span s' = span s0 \<and> fits s' = fits s0" by auto
  from IH separate_drop have "separate (span s0) (us @ vs) \<and> span s0 a z \<inter> covered (span s0) (us @ vs) = {}"
    by blast
  then show ?case using IH t by auto
qed

text \<open>Releasing every live window gives the initial free set back.\<close>

lemma release_all:
  assumes "alloc_run alloc free s0 s ws" "invar s0"
  shows "\<exists>s'. alloc_run alloc free s0 s' [] \<and> avail s' = avail s0"
  using assms(1)
proof (induction ws arbitrary: s rule: list.induct)
  case Nil
  then show ?case using run_invariant[OF Nil assms(2)] by auto
next
  case (Cons w ws)
  obtain a z where w: "w = (a, z)" by (cases w)
  note I = run_invariant[OF Cons.prems assms(2)]
  then obtain s' where "free s a z = Some s'" using free_given[of s a z] w by fastforce
  then have "alloc_run alloc free s0 s' ([] @ ws)"
    using Cons.prems w by (intro alloc_run.run_free[of alloc free s0 s "[]" a z ws]) auto
  then show ?case using Cons.IH by simp
qed

end

end
