(* ===== verification/Allocator.thy ===== *)
theory Allocator
  imports Alloc_Interface
begin

text \<open>The bitmap allocator of \<open>slof/allocator.c\<close>, which hands out DMA windows and device memory in
  blocks. A set bit is a free block. Handles are addresses of \<open>struct bitmap\<close>: the heap of bitmaps is a
  map from handles to records; \<open>SLOF_alloc_mem\<close>, which calls the Forth engine, is a parameter. An access
  outside the bitmap array makes the result \<open>None\<close>.\<close>

section \<open>The code\<close>

record bitmap =
  start :: u64
  bm_bytes :: u64
  bm_size :: u64
  block_size :: u64
  free_blocks :: u64
  bmw :: "u64 list"

type_synonym bm_heap = "u64 \<rightharpoonup> bitmap"

definition BIT :: "u64 \<Rightarrow> u64" where
  "BIT x = push_bit (unat x) 1"

text \<open>The index parameter \<open>n\<close> of the bit operations is an \<open>int\<close>, divided as an \<open>unsigned long\<close>.\<close>

definition BM_WORD :: "u32 \<Rightarrow> nat" where
  "BM_WORD n = unat ((scast n :: u64) div 64)"

definition BM_WORD_MODULO :: "u32 \<Rightarrow> u64" where
  "BM_WORD_MODULO n = (scast n :: u64) mod 64"

definition BM_NUM_BITS :: "u64 \<Rightarrow> u64 \<Rightarrow> u64" where
  "BM_NUM_BITS reqsize bsize = reqsize div bsize + (if reqsize mod bsize \<noteq> 0 then 1 else 0)"

definition bm_clear_bit :: "u64 list \<Rightarrow> u32 \<Rightarrow> u64 list option" where
  "bm_clear_bit w n =
     (if BM_WORD n < length w
      then Some (w[BM_WORD n := w ! BM_WORD n AND NOT (BIT (BM_WORD_MODULO n))]) else None)"

definition bm_set_bit :: "u64 list \<Rightarrow> u32 \<Rightarrow> u64 list option" where
  "bm_set_bit w n =
     (if BM_WORD n < length w
      then Some (w[BM_WORD n := w ! BM_WORD n OR BIT (BM_WORD_MODULO n)]) else None)"

definition bm_test_bit :: "u64 list \<Rightarrow> u32 \<Rightarrow> bool option" where
  "bm_test_bit w n =
     (if BM_WORD n < length w
      then Some (w ! BM_WORD n AND BIT (BM_WORD_MODULO n) \<noteq> 0) else None)"

text \<open>The inner loop of \<open>bm_find_bits\<close>: the value of \<open>j\<close> where it stops.\<close>

function run_end :: "u64 list \<Rightarrow> u32 \<Rightarrow> u32 \<Rightarrow> u32 option" where
  "run_end w j lim =
     (if j < lim
      then do { t \<leftarrow> bm_test_bit w j; if \<not> t then Some j else run_end w (j + 1) lim }
      else Some j)"
  by auto
termination
  by (relation "measure (\<lambda>(w, j, lim). unat lim - unat j)") (auto simp: count_up_measure)

text \<open>The outer loop; the result is \<open>found\<close>, an \<open>int\<close>.\<close>

function find_from :: "u64 list \<Rightarrow> u32 \<Rightarrow> u32 \<Rightarrow> u32 \<Rightarrow> int option" where
  "find_from w i n_bits total_bits =
     (if i < total_bits
      then do {
        t \<leftarrow> bm_test_bit w i;
        if \<not> t then find_from w (i + 1) n_bits total_bits
        else if total_bits < i + n_bits then Some (-1)
        else do {
          j \<leftarrow> run_end w i (i + n_bits);
          if j = i + n_bits then Some (sint i)
          else find_from w (i + 1) n_bits total_bits } }
      else Some (-1))"
  by pat_completeness auto
termination
  by (relation "measure (\<lambda>(w, i, n_bits, total_bits). unat total_bits - unat i)")
    (auto simp: count_up_measure)

declare run_end.simps [simp del] find_from.simps [simp del]

definition bm_find_bits :: "bitmap \<Rightarrow> u32 \<Rightarrow> int option" where
  "bm_find_bits bm n_bits =
     find_from (bmw bm) 0 n_bits (ucast (BM_NUM_BITS (bm_bytes bm) (block_size bm)))"

definition SLOF_bm_allocator_init ::
    "(u64 \<Rightarrow> u64) \<Rightarrow> bm_heap \<Rightarrow> u64 \<Rightarrow> u64 \<Rightarrow> u64 \<Rightarrow> u64 \<times> bm_heap" where
  "SLOF_bm_allocator_init SLOF_alloc_mem heap st sz blocksize0 =
     (if sz = 0 then (0, heap)
      else let
        blocksize = (if blocksize0 = 0 then 4096 else blocksize0);
        n_bits = BM_NUM_BITS sz blocksize;
        bms = n_bits div 64 + (if n_bits mod 64 \<noteq> 0 then 1 else 0);
        alloc_size = 40 + bms * 8;
        bm = SLOF_alloc_mem alloc_size
      in if bm = 0 then (0, heap)
         else (bm, heap(bm \<mapsto> \<lparr>start = st, bm_bytes = sz, bm_size = bms, block_size = blocksize,
                               free_blocks = n_bits, bmw = replicate (unat bms) (-1)\<rparr>)))"

text \<open>The marking loops of \<open>SLOF_bm_alloc\<close> and \<open>SLOF_bm_free\<close>: \<open>i\<close> is an \<open>unsigned int\<close>, the limit an
  \<open>unsigned long\<close>.\<close>

partial_function (option) mark_loop ::
    "(u64 list \<Rightarrow> u32 \<Rightarrow> u64 list option) \<Rightarrow> u64 list \<Rightarrow> u32 \<Rightarrow> u64 \<Rightarrow> u64 list option" where
  "mark_loop mark w i lim =
     (if ucast i < lim
      then do { w' \<leftarrow> mark w i; mark_loop mark w' (i + 1) lim }
      else Some w)"

declare mark_loop.simps [code]

definition bm_alloc :: "bitmap \<Rightarrow> u64 \<Rightarrow> (u64 \<times> bitmap) option" where
  "bm_alloc bm sz = (let n_bits = BM_NUM_BITS sz (block_size bm) in
     if free_blocks bm < n_bits then Some (-1, bm)
     else do {
       bitpos \<leftarrow> bm_find_bits bm (ucast n_bits);
       if bitpos = -1 then Some (-1, bm)
       else do {
         w \<leftarrow> mark_loop bm_clear_bit (bmw bm) (word_of_int bitpos) (word_of_int bitpos + n_bits);
         Some (start bm + word_of_int bitpos * block_size bm,
               bm\<lparr>bmw := w, free_blocks := free_blocks bm - n_bits\<rparr>) } })"

definition SLOF_bm_alloc :: "bm_heap \<Rightarrow> u64 \<Rightarrow> u64 \<Rightarrow> (u64 \<times> bm_heap) option" where
  "SLOF_bm_alloc heap handle sz =
     (if handle = 0 then Some (-1, heap)
      else do {
        bm \<leftarrow> heap handle;
        (addr, bm') \<leftarrow> bm_alloc bm sz;
        Some (addr, heap(handle \<mapsto> bm')) })"

definition bm_free :: "bitmap \<Rightarrow> u64 \<Rightarrow> u64 \<Rightarrow> bitmap option" where
  "bm_free bm addr sz = (let n_bits = BM_NUM_BITS sz (block_size bm) in
     if addr < start bm \<or> start bm + bm_bytes bm < addr + sz then Some bm
     else let bitpos = (addr - start bm) div block_size bm in do {
       w \<leftarrow> mark_loop bm_set_bit (bmw bm) (ucast bitpos) (bitpos + n_bits);
       Some (bm\<lparr>bmw := w, free_blocks := free_blocks bm + n_bits\<rparr>) })"

definition SLOF_bm_free :: "bm_heap \<Rightarrow> u64 \<Rightarrow> u64 \<Rightarrow> u64 \<Rightarrow> bm_heap option" where
  "SLOF_bm_free heap handle ptr sz =
     (if handle = 0 then Some heap
      else do { bm \<leftarrow> heap handle; bm' \<leftarrow> bm_free bm ptr sz; Some (heap(handle \<mapsto> bm')) })"

section \<open>The bitmap as a set of free blocks\<close>

definition blk :: "u64 list \<Rightarrow> nat \<Rightarrow> bool" where
  "blk w k = bit (w ! (k div 64)) (k mod 64)"

lemma scast_idx: "k < 2 ^ 31 \<Longrightarrow> (scast (of_nat k :: u32) :: u64) = of_nat k"
  by (simp add: signed_of_nat signed_take_bit_int_eq_self unsigned_of_nat)

lemma BM_WORD_of_nat [simp]: "k < 2 ^ 31 \<Longrightarrow> BM_WORD (of_nat k) = k div 64"
  by (simp add: BM_WORD_def scast_idx unat_div unat_of_nat)

lemma BM_WORD_MODULO_of_nat [simp]: "k < 2 ^ 31 \<Longrightarrow> BM_WORD_MODULO (of_nat k) = of_nat (k mod 64)"
  by (simp add: BM_WORD_MODULO_def scast_idx word_arith_nat_mod unat_of_nat)

lemma BIT_of_nat: "k < 64 \<Longrightarrow> BIT (of_nat k) = push_bit k 1"
  by (simp add: BIT_def unat_of_nat)

lemma and_BIT: "(w AND 2 ^ k \<noteq> 0) = bit (w :: u64) k" 
  by (metis and_exp_eq_0_iff_not_bit)

lemma bm_test_bit_eq:
  "k < 2 ^ 31 \<Longrightarrow> k < 64 * length w \<Longrightarrow> bm_test_bit w (of_nat k) = Some (blk w k)"
  by (simp add: bm_test_bit_def BIT_of_nat and_BIT blk_def less_mult_imp_div_less mult.commute)

lemma bm_clear_bit_eq:
  assumes "k < 2 ^ 31" "k < 64 * length w"
  shows "\<exists>w'. bm_clear_bit w (of_nat k) = Some w' \<and> length w' = length w \<and>
    (\<forall>j < 64 * length w. blk w' j = (if j = k then False else blk w j))"
proof -
  have "j = k" if "j div 64 = k div 64" "j mod 64 = k mod 64" for j
    using that by (metis div_mult_mod_eq)
  moreover have "k div 64 < length w" using assms by (simp add: less_mult_imp_div_less mult.commute)
  ultimately show ?thesis using assms
   apply (auto simp: bm_clear_bit_def BIT_of_nat blk_def nth_list_update bit_simps)
   done
qed
lemma bm_set_bit_eq:
  assumes "k < 2 ^ 31" "k < 64 * length w"
  shows "\<exists>w'. bm_set_bit w (of_nat k) = Some w' \<and> length w' = length w \<and>
    (\<forall>j < 64 * length w. blk w' j = (if j = k then True else blk w j))"
proof -
  have "j = k" if "j div 64 = k div 64" "j mod 64 = k mod 64" for j
    using that by (metis div_mult_mod_eq)
  moreover have "k div 64 < length w" using assms by (simp add: less_mult_imp_div_less mult.commute)
  ultimately show ?thesis using assms
   apply (auto simp: bm_set_bit_def BIT_of_nat blk_def nth_list_update bit_simps)
   done
qed

lemma of_nat_less: "a < 2 ^ 31 \<Longrightarrow> b < 2 ^ 31 \<Longrightarrow> ((of_nat a :: u32) < of_nat b) = (a < b)"
  by (simp add: word_less_nat_alt unat_of_nat)

lemma run_end_spec:
  assumes "j \<le> lim" "lim < 2 ^ 31" "lim \<le> 64 * length w"
  shows "\<exists>e. run_end w (of_nat j) (of_nat lim) = Some (of_nat e) \<and> e \<le> lim \<and>
    (e = lim \<longleftrightarrow> (\<forall>k\<in>{j..<lim}. blk w k))"
  using assms
proof (induction "lim - j" arbitrary: j)
  case 0
  then show ?case by (subst run_end.simps) auto
next
  case (Suc n)
  then have j: "j < lim" by simp
  have r: "run_end w (of_nat j) (of_nat lim) =
    (if blk w j then run_end w (of_nat (Suc j)) (of_nat lim) else Some (of_nat j))"
    using Suc.prems j by (subst run_end.simps) (simp add: of_nat_less bm_test_bit_eq algebra_simps)
  show ?case
  proof (cases "blk w j")
    case True
    from Suc.hyps(1)[of "Suc j"] Suc obtain e where
      "run_end w (of_nat (Suc j)) (of_nat lim) = Some (of_nat e)" "e \<le> lim"
      "e = lim \<longleftrightarrow> (\<forall>k\<in>{Suc j..<lim}. blk w k)" by force
    moreover have "{j..<lim} = insert j {Suc j..<lim}" using j by auto
    ultimately show ?thesis using True r by auto
  next
    case False
    then have "\<not> (\<forall>k\<in>{j..<lim}. blk w k)" using j by force
    with False r j show ?thesis by (intro exI[of _ j]) auto
  qed
qed

definition run_at :: "u64 list \<Rightarrow> nat \<Rightarrow> nat \<Rightarrow> nat \<Rightarrow> bool" where
  "run_at w n tot p \<longleftrightarrow> p < tot \<and> p + n \<le> tot \<and> blk w p \<and> (\<forall>k\<in>{p..<p + n}. blk w k)"

definition found :: "u64 list \<Rightarrow> nat \<Rightarrow> nat \<Rightarrow> nat \<Rightarrow> int \<Rightarrow> bool" where
  "found w n tot i r \<longleftrightarrow>
     (\<exists>p \<ge> i. r = int p \<and> run_at w n tot p \<and> (\<forall>q. i \<le> q \<and> q < p \<longrightarrow> \<not> run_at w n tot q)) \<or>
     r = -1 \<and> (\<forall>q \<ge> i. \<not> run_at w n tot q)"

lemma found_skip: "\<not> run_at w n tot i \<Longrightarrow> found w n tot (Suc i) r \<Longrightarrow> found w n tot i r"
  unfolding found_def by (metis Suc_leD le_neq_implies_less Suc_leI)

lemma find_from_step:
  assumes "i < tot" "tot < 2 ^ 31" "tot \<le> 64 * length w" "n < 2 ^ 31"
  shows "find_from w (of_nat i) (of_nat n) (of_nat tot) =
    (if \<not> blk w i then find_from w (of_nat (Suc i)) (of_nat n) (of_nat tot)
     else if tot < i + n then Some (-1)
     else do { j \<leftarrow> run_end w (of_nat i) (of_nat (i + n));
               if j = of_nat (i + n) then Some (int i)
               else find_from w (of_nat (Suc i)) (of_nat n) (of_nat tot) })"
proof -
  have sum: "(of_nat i :: u32) + of_nat n = of_nat (i + n)" "(of_nat i :: u32) + 1 = of_nat (Suc i)"
    by simp_all
  have lt: "((of_nat tot :: u32) < of_nat (i + n)) = (tot < i + n)"
    using assms by (simp add: word_less_nat_alt unat_of_nat del: of_nat_add)
  have t: "bm_test_bit w (of_nat i) = Some (blk w i)" using assms by (intro bm_test_bit_eq) auto
  have s: "sint (of_nat i :: u32) = int i"
    using assms by (simp add: signed_of_nat signed_take_bit_int_eq_self)
  have "((of_nat i :: u32) < of_nat tot)" using assms by (simp add: of_nat_less)
  then show ?thesis
    by (subst find_from.simps) (simp only: sum lt t s if_True Option.bind_lunit)
qed

lemma find_from_spec:
  assumes "i \<le> tot" "tot < 2 ^ 31" "tot \<le> 64 * length w" "n < 2 ^ 31"
  shows "\<exists>r. find_from w (of_nat i) (of_nat n) (of_nat tot) = Some r \<and> found w n tot i r"
  using assms
proof (induction "tot - i" arbitrary: i)
  case 0
  then show ?case by (subst find_from.simps) (auto simp: run_at_def found_def)
next
  case (Suc m)
  then have i: "i < tot" by simp
  note r = find_from_step[OF i Suc.prems(2-4)]
  obtain x where hyp: "find_from w (of_nat (Suc i)) (of_nat n) (of_nat tot) = Some x" "found w n tot (Suc i) x"
    using Suc.hyps(1)[of "Suc i"] Suc.hyps(2) Suc.prems i by (metis Suc_leI Suc_diff_Suc nat.inject)
  note skip = found_skip[OF _ hyp(2)]
  consider "\<not> blk w i" | "blk w i" "tot < i + n" | "blk w i" "i + n \<le> tot" by linarith
  then show ?case
  proof cases
    case 1
    then show ?thesis using skip r hyp(1) by (simp add: run_at_def)
  next
    case 2
    then show ?thesis using r by (auto simp: run_at_def found_def)
  next
    case 3
    from run_end_spec[of i "i + n" w] 3 Suc.prems obtain e where
      e: "run_end w (of_nat i) (of_nat (i + n)) = Some (of_nat e)" "e \<le> i + n"
      "e = i + n \<longleftrightarrow> (\<forall>k\<in>{i..<i + n}. blk w k)" by (auto simp del: of_nat_add)
    have eq: "((of_nat e :: u32) = of_nat (i + n)) = (e = i + n)"
      using e(2) 3 Suc.prems by (simp add: word_unat_eq_iff unat_of_nat del: of_nat_add)
    show ?thesis
    proof (cases "e = i + n")
      case True
      then have "run_at w n tot i" using e(3) 3 i by (simp add: run_at_def)
      then have "found w n tot i (int i)" by (auto simp: found_def)
      then show ?thesis using True r 3 e(1) by (simp del: of_nat_add)
    next
      case False
      then have "\<not> run_at w n tot i" using e(3) by (simp add: run_at_def)
      then show ?thesis using False r 3 e(1) eq skip hyp(1) by (simp del: of_nat_add)
    qed
  qed
qed

lemma mark_loop_spec:
  assumes mark: "\<And>w k. k < 2 ^ 31 \<Longrightarrow> k < 64 * length w \<Longrightarrow>
    \<exists>w'. mark w (of_nat k) = Some w' \<and> length w' = length w \<and>
      (\<forall>j < 64 * length w. blk w' j = (if j = k then b else blk w j))"
    and "i + n < 2 ^ 31" "i + n \<le> 64 * length w"
  shows "\<exists>w'. mark_loop mark w (of_nat i) (of_nat (i + n)) = Some w' \<and> length w' = length w \<and>
    (\<forall>j < 64 * length w. blk w' j = (if j \<in> {i..<i + n} then b else blk w j))"
  using assms(2,3)
proof (induction n arbitrary: i w)
  case 0
  then show ?case by (subst mark_loop.simps) (auto simp: unsigned_of_nat take_bit_nat_eq_self)
next
  case (Suc n)
  obtain w1 where w1: "mark w (of_nat i) = Some w1" "length w1 = length w"
    "\<And>j. j < 64 * length w \<Longrightarrow> blk w1 j = (if j = i then b else blk w j)"
    using mark[of i w] Suc.prems by auto
  obtain w2 where w2: "mark_loop mark w1 (of_nat (Suc i)) (of_nat (Suc i + n)) = Some w2"
    "length w2 = length w1"
    "\<And>j. j < 64 * length w \<Longrightarrow> blk w2 j = (if j \<in> {Suc i..<Suc i + n} then b else blk w1 j)"
    using Suc.IH[of "Suc i" w1] Suc.prems w1(2) by auto
  have "(ucast (of_nat i :: u32) :: u64) < of_nat (i + Suc n)"
    using Suc.prems by (simp add: word_less_nat_alt unsigned_of_nat take_bit_nat_eq_self del: of_nat_add of_nat_Suc)
  then have "mark_loop mark w (of_nat i) (of_nat (i + Suc n)) = Some w2"
    using w1(1) w2(1) by (subst mark_loop.simps) (simp add: algebra_simps)
  then show ?case using w1(2,3) w2(2,3) by (intro exI[of _ w2]) auto
qed

definition blocks_for :: "bitmap \<Rightarrow> u64 \<Rightarrow> nat" where
  "blocks_for bm sz = unat (BM_NUM_BITS sz (block_size bm))"

definition nblocks :: "bitmap \<Rightarrow> nat" where
  "nblocks bm = blocks_for bm (bm_bytes bm)"

definition free_set :: "bitmap \<Rightarrow> nat set" where
  "free_set bm = {k. k < nblocks bm \<and> blk (bmw bm) k}"

definition bm_ok :: "bitmap \<Rightarrow> bool" where
  "bm_ok bm \<longleftrightarrow> block_size bm \<noteq> 0 \<and> nblocks bm < 2 ^ 31 \<and> nblocks bm \<le> 64 * length (bmw bm) \<and>
     unat (start bm) + nblocks bm * unat (block_size bm) < 2 ^ 64 \<and>
     unat (free_blocks bm) = card (free_set bm)"

definition block_addr :: "bitmap \<Rightarrow> nat \<Rightarrow> u64" where
  "block_addr bm k = start bm + of_nat k * block_size bm"

definition run :: "bitmap \<Rightarrow> nat \<Rightarrow> u64 \<Rightarrow> nat set" where
  "run bm k sz = {k..<k + blocks_for bm sz}"

lemma blocks_for_eq:
  assumes "block_size bm \<noteq> 0"
  shows "blocks_for bm sz = unat sz div unat (block_size bm) + (if unat sz mod unat (block_size bm) \<noteq> 0 then 1 else 0)"
proof -
  let ?d = "unat (block_size bm)"
  have d: "0 < ?d" using assms by (simp add: unat_gt_0)
  have z: "(sz mod block_size bm = 0) = (unat sz mod ?d = 0)"
    by (metis unat_eq_zero unat_mod)
  show ?thesis
  proof (cases "unat sz mod ?d = 0")
    case True
    then show ?thesis by (simp add: blocks_for_def BM_NUM_BITS_def z unat_div)
  next
    case False
    then have "1 < ?d" using d by (cases "?d = 1") auto
    then have "unat sz div ?d < unat sz \<or> unat sz = 0" by (metis div_less_dividend neq0_conv)
    then have "Suc (unat sz div ?d) < 2 ^ 64" using unsigned_less[of sz, where 'a = nat] by auto
    then show ?thesis using False by (simp add: blocks_for_def BM_NUM_BITS_def z unat_word_ariths unat_div)
  qed
qed

lemma blocks_cover:
  assumes "block_size bm \<noteq> 0"
  shows "unat sz \<le> blocks_for bm sz * unat (block_size bm)"
proof -
  let ?d = "unat (block_size bm)"
  have "unat sz mod ?d \<le> (if unat sz mod ?d \<noteq> 0 then 1 else 0) * ?d"
    using assms by (simp add: unat_gt_0 less_imp_le)
  then have "unat sz div ?d * ?d + unat sz mod ?d \<le> blocks_for bm sz * ?d"
    by (simp only: blocks_for_eq[OF assms] add_mult_distrib nat_add_left_cancel_le)
  then show ?thesis by simp
qed

lemma card_run [simp]: "card (run bm k sz) = blocks_for bm sz"
  by (simp add: run_def)

lemma finite_free [simp]: "finite (free_set bm)"
  by (simp add: free_set_def)

lemma free_set_le: "card (free_set bm) \<le> nblocks bm"
proof -
  have "card (free_set bm) \<le> card {..<nblocks bm}" by (rule card_mono) (auto simp: free_set_def)
  then show ?thesis by simp
qed

definition same_geom :: "bitmap \<Rightarrow> bitmap \<Rightarrow> bool" where
  "same_geom a b \<longleftrightarrow> start a = start b \<and> bm_bytes a = bm_bytes b \<and> block_size a = block_size b"

lemma same_geomD:
  assumes "same_geom a b"
  shows "nblocks a = nblocks b" "blocks_for a = blocks_for b" "run a = run b" "block_addr a = block_addr b"
  using assms by (auto simp: same_geom_def nblocks_def blocks_for_def run_def block_addr_def fun_eq_iff)

lemma marked_ok:
  assumes ok: "bm_ok bm" and len: "length w = length (bmw bm)" and fit: "p + blocks_for bm sz \<le> nblocks bm"
    and w: "\<And>j. j < 64 * length (bmw bm) \<Longrightarrow> blk w j = (if j \<in> run bm p sz then b else blk (bmw bm) j)"
    and f: "unat f = card (if b then free_set bm \<union> run bm p sz else free_set bm - run bm p sz)"
  shows "bm_ok (bm\<lparr>bmw := w, free_blocks := f\<rparr>)"
    "free_set (bm\<lparr>bmw := w, free_blocks := f\<rparr>) = (if b then free_set bm \<union> run bm p sz else free_set bm - run bm p sz)"
    "same_geom bm (bm\<lparr>bmw := w, free_blocks := f\<rparr>)"
proof -
  let ?bm = "bm\<lparr>bmw := w, free_blocks := f\<rparr>"
  show g: "same_geom bm ?bm" by (simp add: same_geom_def)
  have N: "nblocks bm \<le> 64 * length (bmw bm)" using ok by (simp add: bm_ok_def)
  show fs: "free_set ?bm = (if b then free_set bm \<union> run bm p sz else free_set bm - run bm p sz)"
  proof (rule set_eqI)
    fix k
    show "k \<in> free_set ?bm \<longleftrightarrow> k \<in> (if b then free_set bm \<union> run bm p sz else free_set bm - run bm p sz)"
      using w[of k] N fit same_geomD(1)[OF g] by (auto simp: free_set_def run_def split: if_splits)
  qed
  show "bm_ok ?bm" using ok f fs len same_geomD(1)[OF g] by (simp add: bm_ok_def)
qed

lemma run_at_subset: "run_at (bmw bm) (blocks_for bm sz) (nblocks bm) p \<Longrightarrow> run bm p sz \<subseteq> free_set bm"
  by (auto simp: run_at_def run_def free_set_def)

lemma of_nat_blocks: "of_nat (blocks_for bm sz) = BM_NUM_BITS sz (block_size bm)"
  by (simp add: blocks_for_def)

lemma ucast_blocks: "(ucast (BM_NUM_BITS sz (block_size bm)) :: u32) = of_nat (blocks_for bm sz)"
  by (simp add: blocks_for_def unsigned_word_eqI)

lemma bm_find_bits_spec:
  assumes "bm_ok bm" "blocks_for bm sz < 2 ^ 31"
  shows "\<exists>r. bm_find_bits bm (ucast (BM_NUM_BITS sz (block_size bm))) = Some r \<and>
    found (bmw bm) (blocks_for bm sz) (nblocks bm) 0 r"
  using find_from_spec[of 0 "nblocks bm" "bmw bm" "blocks_for bm sz"] assms
  by (simp add: bm_find_bits_def ucast_blocks bm_ok_def flip: nblocks_def)

lemma bm_alloc_spec:
  assumes ok: "bm_ok bm"
  shows "(\<exists>p bm'. bm_alloc bm sz = Some (block_addr bm p, bm') \<and>
            run_at (bmw bm) (blocks_for bm sz) (nblocks bm) p \<and>
            (\<forall>q < p. \<not> run_at (bmw bm) (blocks_for bm sz) (nblocks bm) q) \<and>
            bm_ok bm' \<and> same_geom bm bm' \<and> free_set bm' = free_set bm - run bm p sz) \<or>
         bm_alloc bm sz = Some (-1, bm) \<and> (\<forall>q. \<not> run_at (bmw bm) (blocks_for bm sz) (nblocks bm) q)"
proof (cases "free_blocks bm < BM_NUM_BITS sz (block_size bm)")
  case True
  then have "card (free_set bm) < blocks_for bm sz"
    using ok by (simp add: word_less_nat_alt bm_ok_def blocks_for_def)
  then have "\<not> run_at (bmw bm) (blocks_for bm sz) (nblocks bm) q" for q
    using card_mono[OF finite_free run_at_subset, of bm sz q] by auto
  then show ?thesis using True by (simp add: bm_alloc_def)
next
  case False
  then have le: "blocks_for bm sz \<le> card (free_set bm)"
    using ok by (simp add: word_less_nat_alt bm_ok_def blocks_for_def)
  then have n: "blocks_for bm sz < 2 ^ 31" using free_set_le[of bm] ok by (simp add: bm_ok_def)
  from bm_find_bits_spec[OF ok n] obtain r where
    r: "bm_find_bits bm (ucast (BM_NUM_BITS sz (block_size bm))) = Some r"
    "found (bmw bm) (blocks_for bm sz) (nblocks bm) 0 r" by blast
  show ?thesis
  proof (cases "r = -1")
    case True
    then show ?thesis using r False by (simp add: bm_alloc_def found_def)
  next
    case ne: False
    then obtain p where p: "r = int p" "run_at (bmw bm) (blocks_for bm sz) (nblocks bm) p"
      "\<forall>q < p. \<not> run_at (bmw bm) (blocks_for bm sz) (nblocks bm) q"
      using r(2) by (auto simp: found_def)
    then have fit: "p + blocks_for bm sz \<le> nblocks bm" by (simp add: run_at_def)
    obtain w where w: "mark_loop bm_clear_bit (bmw bm) (of_nat p) (of_nat (p + blocks_for bm sz)) = Some w"
      "length w = length (bmw bm)"
      "\<And>j. j < 64 * length (bmw bm) \<Longrightarrow> blk w j = (if j \<in> run bm p sz then False else blk (bmw bm) j)"
      using mark_loop_spec[of bm_clear_bit False p "blocks_for bm sz" "bmw bm", OF bm_clear_bit_eq] fit ok
      by (auto simp: bm_ok_def run_def)
    let ?f = "free_blocks bm - BM_NUM_BITS sz (block_size bm)"
    have "unat ?f = card (free_set bm - run bm p sz)"
      using False ok run_at_subset[OF p(2)]
      by (simp add: card_Diff_subset finite_subset unat_sub_if' word_less_nat_alt bm_ok_def blocks_for_def)
    then have "unat ?f = card (if False then free_set bm \<union> run bm p sz else free_set bm - run bm p sz)" by simp
    note m = marked_ok[OF ok w(2) fit w(3) this]
    have "bm_alloc bm sz = Some (block_addr bm p, bm\<lparr>bmw := w, free_blocks := ?f\<rparr>)"
      using False r(1) p(1) w(1) by (simp add: bm_alloc_def of_nat_blocks block_addr_def)
    then show ?thesis using p m by auto
  qed
qed

lemma unat_block_addr:
  assumes "bm_ok bm" "k \<le> nblocks bm"
  shows "unat (block_addr bm k) = unat (start bm) + k * unat (block_size bm)"
proof -
  have "k * unat (block_size bm) \<le> nblocks bm * unat (block_size bm)" using assms(2) by (rule mult_le_mono1)
  then have "unat (start bm) + k * unat (block_size bm) < 2 ^ 64"
    using assms(1) unfolding bm_ok_def by linarith
  moreover have "unat (of_nat k :: u64) = k" using assms by (simp add: bm_ok_def unat_of_nat)
  ultimately show ?thesis using assms(1)
    by (simp add: block_addr_def unat_word_ariths)
qed

definition exact_fit :: "bitmap \<Rightarrow> bool" where
  "exact_fit bm \<longleftrightarrow> unat (block_size bm) dvd unat (bm_bytes bm)"

lemma exact_bytes: "bm_ok bm \<Longrightarrow> exact_fit bm \<Longrightarrow> unat (bm_bytes bm) = nblocks bm * unat (block_size bm)"
  by (simp add: nblocks_def blocks_for_eq exact_fit_def bm_ok_def)

lemma bm_free_spec:
  assumes ok: "bm_ok bm" and ex: "exact_fit bm" and fit: "k + blocks_for bm sz \<le> nblocks bm"
    and taken: "run bm k sz \<inter> free_set bm = {}"
  shows "\<exists>bm'. bm_free bm (block_addr bm k) sz = Some bm' \<and> bm_ok bm' \<and> same_geom bm bm' \<and>
    free_set bm' = free_set bm \<union> run bm k sz"
proof -
  let ?d = "unat (block_size bm)"
  have k: "k \<le> nblocks bm" and bs: "block_size bm \<noteq> 0" using fit ok by (auto simp: bm_ok_def)
  note a = unat_block_addr[OF ok k]
  have "k * ?d + unat sz \<le> (k + blocks_for bm sz) * ?d" using blocks_cover[OF bs, of sz] by (simp add: algebra_simps)
  also have "\<dots> \<le> nblocks bm * ?d" using fit by simp
  finally have win: "unat (block_addr bm k) + unat sz \<le> unat (start bm) + nblocks bm * ?d" using a by simp
  have lim: "unat (start bm) + nblocks bm * ?d < 2 ^ 64" using ok by (simp add: bm_ok_def)
  have "\<not> block_addr bm k < start bm" using a by (simp add: word_less_nat_alt)
  moreover have "\<not> start bm + bm_bytes bm < block_addr bm k + sz"
    using win lim exact_bytes[OF ok ex] by (simp add: word_less_nat_alt unat_word_ariths)
  moreover have pos: "(block_addr bm k - start bm) div block_size bm = of_nat k"
  proof -
    have "unat (block_addr bm k - start bm) = k * ?d" using a by (simp add: unat_sub_if')
    then have "unat ((block_addr bm k - start bm) div block_size bm) = k" using bs by (simp add: unat_div unat_gt_0)
    from arg_cong[OF this, of "of_nat :: nat \<Rightarrow> u64"] show ?thesis by simp
  qed
  moreover obtain w where w: "mark_loop bm_set_bit (bmw bm) (of_nat k) (of_nat (k + blocks_for bm sz)) = Some w"
      "length w = length (bmw bm)"
      "\<And>j. j < 64 * length (bmw bm) \<Longrightarrow> blk w j = (if j \<in> run bm k sz then True else blk (bmw bm) j)"
    using mark_loop_spec[of bm_set_bit True k "blocks_for bm sz" "bmw bm", OF bm_set_bit_eq] fit ok
    by (auto simp: bm_ok_def run_def)
  moreover have "(ucast (of_nat k :: u64) :: u32) = of_nat k"
    using k ok by (simp add: bm_ok_def unsigned_of_nat take_bit_nat_eq_self)
  ultimately have f: "bm_free bm (block_addr bm k) sz =
      Some (bm\<lparr>bmw := w, free_blocks := free_blocks bm + BM_NUM_BITS sz (block_size bm)\<rparr>)"
    by (simp add: bm_free_def of_nat_blocks)
  have c: "card (free_set bm \<union> run bm k sz) = card (free_set bm) + blocks_for bm sz"
    using taken by (subst card_Un_disjoint) (auto simp: run_def)
  have "card (free_set bm \<union> run bm k sz) \<le> card {..<nblocks bm}"
    using fit by (intro card_mono) (auto simp: free_set_def run_def)
  then have "unat (free_blocks bm + BM_NUM_BITS sz (block_size bm)) = card (free_set bm \<union> run bm k sz)"
    using c ok by (simp add: unat_word_ariths bm_ok_def blocks_for_def)
  then have "unat (free_blocks bm + BM_NUM_BITS sz (block_size bm)) =
      card (if True then free_set bm \<union> run bm k sz else free_set bm - run bm k sz)" by simp
  from marked_ok[OF ok w(2) fit w(3) this] f show ?thesis by auto
qed

section \<open>The allocator behind a handle\<close>

definition heap_ok :: "u64 \<Rightarrow> bm_heap \<Rightarrow> bool" where
  "heap_ok handle h \<longleftrightarrow> handle \<noteq> 0 \<and> (\<exists>bm. h handle = Some bm \<and> bm_ok bm \<and> exact_fit bm)"

definition heap_free :: "u64 \<Rightarrow> bm_heap \<Rightarrow> nat set" where
  "heap_free handle h = free_set (the (h handle))"

definition block_index :: "bitmap \<Rightarrow> u64 \<Rightarrow> nat" where
  "block_index bm a = unat ((a - start bm) div block_size bm)"

definition heap_span :: "u64 \<Rightarrow> bm_heap \<Rightarrow> u64 \<Rightarrow> u64 \<Rightarrow> nat set" where
  "heap_span handle h a z = (let bm = the (h handle) in run bm (block_index bm a) z)"

definition heap_fits :: "u64 \<Rightarrow> bm_heap \<Rightarrow> u64 \<Rightarrow> u64 \<Rightarrow> bool" where
  "heap_fits handle h a z = (let bm = the (h handle) in
     \<exists>k. a = block_addr bm k \<and> k + blocks_for bm z \<le> nblocks bm)"

lemma block_index_addr:
  assumes "bm_ok bm" "k \<le> nblocks bm"
  shows "block_index bm (block_addr bm k) = k"
proof -
  have "unat (block_addr bm k - start bm) = k * unat (block_size bm)"
    using unat_block_addr[OF assms] by (simp add: unat_sub_if')
  then show ?thesis using assms(1) by (simp add: block_index_def unat_div unat_gt_0 bm_ok_def)
qed

lemma block_addr_valid:
  assumes "bm_ok bm" "k < nblocks bm"
  shows "block_addr bm k \<noteq> -1"
proof
  assume "block_addr bm k = -1"
  then have "unat (start bm) + k * unat (block_size bm) = 2 ^ 64 - 1"
    using unat_block_addr[of bm k] assms by (simp add: unsigned_minus_1_eq_mask mask_eq_exp_minus_1)
  moreover have "Suc k * unat (block_size bm) \<le> nblocks bm * unat (block_size bm)"
    using assms(2) by (intro mult_le_mono1) simp
  moreover have "0 < unat (block_size bm)" using assms(1) by (simp add: bm_ok_def unat_gt_0)
  ultimately show False using assms(1) by (simp add: bm_ok_def)
qed

lemma same_geom_exact: "same_geom bm bm' \<Longrightarrow> exact_fit bm' = exact_fit bm"
  by (simp add: same_geom_def exact_fit_def)

lemma same_geom_heap:
  assumes "h handle = Some bm" "same_geom bm bm'"
  shows "heap_span handle (h(handle \<mapsto> bm')) = heap_span handle h"
    "heap_fits handle (h(handle \<mapsto> bm')) = heap_fits handle h"
  using assms same_geomD[OF assms(2)]
  by (auto simp: heap_span_def heap_fits_def block_index_def same_geom_def fun_eq_iff)

interpretation slof: window_allocator
  "\<lambda>h. SLOF_bm_alloc h handle" "\<lambda>h. SLOF_bm_free h handle" "heap_ok handle"
  "heap_free handle" "heap_span handle" "heap_fits handle" for handle
proof
  fix s :: bm_heap and z
  assume ok: "heap_ok handle s"
  then obtain bm where bm: "handle \<noteq> 0" "s handle = Some bm" "bm_ok bm" "exact_fit bm"
    by (auto simp: heap_ok_def)
  note spec = bm_alloc_spec[OF bm(3), of z]
  have upd: "s(handle \<mapsto> bm) = s" using bm(2) by auto
  have eq: "SLOF_bm_alloc s handle z = (case bm_alloc bm z of None \<Rightarrow> None | Some (a, b) \<Rightarrow> Some (a, s(handle \<mapsto> b)))"
    using bm by (auto simp: SLOF_bm_alloc_def split: option.split)
  show "\<exists>r. SLOF_bm_alloc s handle z = Some r" using spec eq by auto
  have ne: "block_addr bm p \<noteq> -1" if "run_at (bmw bm) n (nblocks bm) p" for n p
    using block_addr_valid[OF bm(3)] that by (simp add: run_at_def)
  show "s' = s" if "SLOF_bm_alloc s handle z = Some (-1, s')" for s'
    using spec that eq ne upd by auto
  show "heap_ok handle s' \<and> heap_fits handle s a z \<and> heap_span handle s a z \<subseteq> heap_free handle s \<and>
      heap_free handle s' = heap_free handle s - heap_span handle s a z \<and>
      heap_span handle s' = heap_span handle s \<and> heap_fits handle s' = heap_fits handle s"
    if r: "SLOF_bm_alloc s handle z = Some (a, s')" "a \<noteq> -1" for a s'
  proof -
    from spec r eq obtain p bm' where p: "a = block_addr bm p" "s' = s(handle \<mapsto> bm')"
      "run_at (bmw bm) (blocks_for bm z) (nblocks bm) p" "bm_ok bm'" "same_geom bm bm'"
      "free_set bm' = free_set bm - run bm p z" by auto
    then have "block_index bm a = p" using block_index_addr[OF bm(3), of p] by (simp add: run_at_def)
    then have sp: "heap_span handle s a z = run bm p z" using bm by (simp add: heap_span_def)
    have "heap_ok handle s'" using p bm same_geom_exact[OF p(5)] by (auto simp: heap_ok_def)
    moreover have "heap_fits handle s a z" using p(1,3) bm by (auto simp: heap_fits_def run_at_def)
    moreover have "heap_free handle s' = heap_free handle s - heap_span handle s a z"
      using p bm sp by (simp add: heap_free_def)
    ultimately show ?thesis
      using run_at_subset[OF p(3)] same_geom_heap[of s handle bm bm', OF bm(2) p(5)] p(2) sp bm by (simp add: heap_free_def)
  qed
  show "\<exists>s'. SLOF_bm_free s handle a z = Some s' \<and> heap_ok handle s' \<and>
      heap_free handle s' = heap_free handle s \<union> heap_span handle s a z \<and>
      heap_span handle s' = heap_span handle s \<and> heap_fits handle s' = heap_fits handle s"
    if f: "heap_fits handle s a z" "heap_span handle s a z \<inter> heap_free handle s = {}" for a
  proof -
    from f(1) bm obtain k where k: "a = block_addr bm k" "k + blocks_for bm z \<le> nblocks bm"
      by (auto simp: heap_fits_def)
    then have "block_index bm a = k" using block_index_addr[OF bm(3), of k] by simp
    then have sp: "heap_span handle s a z = run bm k z" using bm by (simp add: heap_span_def)
    from bm_free_spec[OF bm(3,4) k(2)] f(2) sp bm obtain bm' where
      b: "bm_free bm a z = Some bm'" "bm_ok bm'" "same_geom bm bm'" "free_set bm' = free_set bm \<union> run bm k z"
      unfolding k(1) by (auto simp: heap_free_def)
    have "SLOF_bm_free s handle a z = Some (s(handle \<mapsto> bm'))" using b bm by (simp add: SLOF_bm_free_def)
    moreover have "heap_ok handle (s(handle \<mapsto> bm'))" using b bm same_geom_exact[OF b(3)] by (auto simp: heap_ok_def)
    ultimately show ?thesis using b(4) same_geom_heap[of s handle bm bm', OF bm(2) b(3)] sp bm by (simp add: heap_free_def)
  qed
qed

section \<open>Properties\<close>

lemma init_bitmap_ok:
  assumes "bs \<noteq> 0" "unat bs dvd unat sz" "unat sz div unat bs < 2 ^ 31" "unat st + unat sz < 2 ^ 64"
    and init: "SLOF_bm_allocator_init am heap st sz bs = (hn, h0)" "hn \<noteq> 0"
  shows "heap_ok hn h0" "heap_free hn h0 = {..<unat sz div unat bs}"
    "\<exists>bm. h0 hn = Some bm \<and> start bm = st \<and> bm_bytes bm = sz \<and> block_size bm = bs \<and> free_blocks bm = sz div bs"
proof -
  have z: "sz mod bs = 0" using assms(2) by (metis dvd_imp_mod_0 unat_eq_zero unat_mod)
  then have n: "BM_NUM_BITS sz bs = sz div bs" by (simp add: BM_NUM_BITS_def)
  let ?n = "sz div bs"
  let ?bms = "?n div 64 + (if ?n mod 64 \<noteq> 0 then 1 else 0)"
  let ?bm = "\<lparr>start = st, bm_bytes = sz, bm_size = ?bms, block_size = bs, free_blocks = ?n,
    bmw = replicate (unat ?bms) (-1)\<rparr>"
  have h: "h0 hn = Some ?bm" using init assms(1) by (auto simp: SLOF_bm_allocator_init_def Let_def n split: if_splits)
  have nb: "nblocks ?bm = unat ?n" by (simp add: nblocks_def blocks_for_def n)
  have un: "unat ?n = unat sz div unat bs" by (simp add: unat_div)
  have len: "unat ?n \<le> 64 * unat ?bms"
  proof -
    have "blocks_for \<lparr>start = 0, bm_bytes = 0, bm_size = 0, block_size = 64, free_blocks = 0, bmw = []\<rparr> ?n = unat ?bms"
      by (simp add: blocks_for_def BM_NUM_BITS_def)
    then show ?thesis
      using blocks_cover[of "\<lparr>start = 0, bm_bytes = 0, bm_size = 0, block_size = 64, free_blocks = 0, bmw = []\<rparr>" ?n]
      by simp
  qed
  have fs: "free_set ?bm = {..<unat ?n}"
  proof -
    have "blk (bmw ?bm) k" if "k < unat ?n" for k
    proof -
      have "k div 64 < unat ?bms" using that len by linarith
      then show ?thesis by (simp add: blk_def)
    qed
    then show ?thesis unfolding free_set_def nb by blast
  qed
  have "unat ?n * unat bs = unat sz" using assms(2) un by simp
  then have "bm_ok ?bm" using assms(1,3,4) nb un len fs by (simp add: bm_ok_def)
  then show "heap_ok hn h0" using h init(2) assms(2) by (auto simp: heap_ok_def exact_fit_def)
  show "heap_free hn h0 = {..<unat sz div unat bs}" using h fs un by (simp add: heap_free_def)
  show "\<exists>bm. h0 hn = Some bm \<and> start bm = st \<and> bm_bytes bm = sz \<and> block_size bm = bs \<and> free_blocks bm = sz div bs"
    using h by auto
qed

definition fits_free :: "bitmap \<Rightarrow> u64 \<Rightarrow> nat \<Rightarrow> bool" where
  "fits_free bm sz p \<longleftrightarrow> p \<in> free_set bm \<and> run bm p sz \<subseteq> free_set bm"

lemma run_at_fits_free:
  "run_at (bmw bm) (blocks_for bm sz) (nblocks bm) p \<longleftrightarrow> fits_free bm sz p"
proof
  assume f: "fits_free bm sz p"
  have "p + blocks_for bm sz \<le> nblocks bm"
  proof (cases "blocks_for bm sz")
    case 0
    then show ?thesis using f by (simp add: fits_free_def free_set_def)
  next
    case (Suc n)
    then have "p + n \<in> run bm p sz" by (simp add: run_def)
    then have "p + n \<in> free_set bm" using f by (auto simp: fits_free_def)
    then show ?thesis using Suc by (simp add: free_set_def)
  qed
  then show "run_at (bmw bm) (blocks_for bm sz) (nblocks bm) p"
    using f by (auto simp: fits_free_def run_at_def free_set_def run_def)
next
  assume r: "run_at (bmw bm) (blocks_for bm sz) (nblocks bm) p"
  then show "fits_free bm sz p" using run_at_subset[OF r] by (auto simp: run_at_def fits_free_def free_set_def)
qed

lemma window_bounds:
  assumes ok: "heap_ok hn h" and fit: "heap_fits hn h a z" and bm: "h hn = Some bm"
  obtains k n where "unat a = unat (start bm) + k * unat (block_size bm)"
    "heap_span hn h a z = {k..<k + n}" "unat z \<le> n * unat (block_size bm)" "k + n \<le> nblocks bm"
proof -
  have b: "bm_ok bm" "block_size bm \<noteq> 0" using ok bm by (auto simp: heap_ok_def bm_ok_def)
  from fit bm obtain k where k: "a = block_addr bm k" "k + blocks_for bm z \<le> nblocks bm"
    by (auto simp: heap_fits_def)
  then have "block_index bm a = k" using block_index_addr[OF b(1), of k] by simp
  then have "heap_span hn h a z = {k..<k + blocks_for bm z}" using bm by (simp add: heap_span_def run_def)
  then show ?thesis using that[of k "blocks_for bm z"] unat_block_addr[OF b(1), of k] blocks_cover[OF b(2)] k by simp
qed

lemma mult_le_blocks: "k + n \<le> (l :: nat) \<Longrightarrow> z \<le> n * d \<Longrightarrow> k * d + z \<le> l * d"
  by (metis add_le_mono1 add.commute add_mult_distrib le_trans mult_le_mono1 nat_add_left_cancel_le)


text \<open>C16: First fit. On a well-formed bitmap \<open>SLOF_bm_alloc\<close> returns; if some free block starts a long
  enough run of free blocks it returns the address of the lowest such block and takes exactly the blocks
  of the run out of the free set, keeping the invariant; otherwise it returns all ones and changes
  nothing.\<close>

theorem bm_alloc_first_fit:
  assumes "heap_ok hn h" "h hn = Some bm"
  shows "if \<exists>p. fits_free bm sz p
    then \<exists>h'. SLOF_bm_alloc h hn sz = Some (block_addr bm (LEAST p. fits_free bm sz p), h') \<and> heap_ok hn h' \<and>
      heap_free hn h' = heap_free hn h - run bm (LEAST p. fits_free bm sz p) sz \<and> (\<forall>x. x \<noteq> hn \<longrightarrow> h' x = h x)
    else SLOF_bm_alloc h hn sz = Some (-1, h)"
proof -
  have b: "hn \<noteq> 0" "bm_ok bm" "exact_fit bm" using assms by (auto simp: heap_ok_def)
  have least: "p = (LEAST p. fits_free bm sz p)"
    if "fits_free bm sz p" "\<forall>q < p. \<not> fits_free bm sz q" for p
    using that by (metis Least_equality not_le)
  from bm_alloc_spec[OF b(2), of sz, unfolded run_at_fits_free] show ?thesis
  proof (elim disjE exE conjE)
    fix p bm'
    assume p: "bm_alloc bm sz = Some (block_addr bm p, bm')" "fits_free bm sz p" "\<forall>q < p. \<not> fits_free bm sz q"
      "bm_ok bm'" "same_geom bm bm'" "free_set bm' = free_set bm - run bm p sz"
    have "SLOF_bm_alloc h hn sz = Some (block_addr bm p, h(hn \<mapsto> bm'))"
      using b p(1) assms(2) by (simp add: SLOF_bm_alloc_def)
    moreover have "heap_ok hn (h(hn \<mapsto> bm'))" using b p same_geom_exact[OF p(5)] by (auto simp: heap_ok_def)
    ultimately show ?thesis using p(2,6) least[OF p(2,3)] assms(2) by (auto simp: heap_free_def)
  next
    assume "bm_alloc bm sz = Some (-1, bm)" "\<forall>q. \<not> fits_free bm sz q"
    then show ?thesis using b assms(2) by (auto simp: SLOF_bm_alloc_def)
  qed
qed

text \<open>Nothing is lost. From every state that allocations and releases reach, releasing the remaining
  live windows leads to a bitmap with all blocks free and the free counter at its initial value.\<close>

theorem bm_release_all:
  assumes geom: "bs \<noteq> 0" "unat bs dvd unat sz" "unat sz div unat bs < 2 ^ 31" "unat st + unat sz < 2 ^ 64"
    and init: "SLOF_bm_allocator_init am heap st sz bs = (hn, h0)" "hn \<noteq> 0"
    and ops: "alloc_run (\<lambda>h. SLOF_bm_alloc h hn) (\<lambda>h. SLOF_bm_free h hn) h0 h ws"
  shows "\<exists>h' bm. alloc_run (\<lambda>h. SLOF_bm_alloc h hn) (\<lambda>h. SLOF_bm_free h hn) h0 h' [] \<and> h' hn = Some bm \<and>
    free_set bm = {..<unat sz div unat bs} \<and> free_blocks bm = sz div bs"
proof -
  note ok = init_bitmap_ok(1)[OF geom init]
  obtain h' where h': "alloc_run (\<lambda>h. SLOF_bm_alloc h hn) (\<lambda>h. SLOF_bm_free h hn) h0 h' []"
    "heap_free hn h' = heap_free hn h0" using slof.release_all[OF ops ok] by blast
  then have "heap_ok hn h'" using slof.run_invariant[OF h'(1) ok] by simp
  then obtain bm where bm: "h' hn = Some bm" "bm_ok bm" by (auto simp: heap_ok_def)
  then have fs: "free_set bm = {..<unat sz div unat bs}"
    using h'(2) init_bitmap_ok(2)[OF geom init] by (simp add: heap_free_def)
  then have "unat (free_blocks bm) = unat (sz div bs)" using bm(2) by (simp add: bm_ok_def unat_div)
  then show ?thesis using h'(1) bm(1) fs by (auto simp: word_unat_eq_iff)
qed

text \<open>A window that does not end on a block boundary is handed out beyond its end. If the managed size
  is not a multiple of the block size and all blocks are free, a request for all blocks succeeds although
  the window then reaches beyond the managed range, and \<open>SLOF_bm_free\<close> refuses to take it back, so the
  blocks are lost.\<close>

theorem bm_partial_block_overrun:
  assumes "hn \<noteq> 0" "h hn = Some bm" "bm_ok bm" "\<not> exact_fit bm" "free_set bm = {..<nblocks bm}"
  shows "\<exists>h'. SLOF_bm_alloc h hn (of_nat (nblocks bm) * block_size bm) = Some (start bm, h') \<and>
    unat (bm_bytes bm) < unat (of_nat (nblocks bm) * block_size bm) \<and> heap_free hn h' = {} \<and>
    SLOF_bm_free h' hn (start bm) (of_nat (nblocks bm) * block_size bm) = Some h'"
proof -
  define z where "z = of_nat (nblocks bm) * block_size bm"
  let ?d = "unat (block_size bm)"
  have d: "block_size bm \<noteq> 0" "0 < ?d" using assms(3) by (auto simp: bm_ok_def unat_gt_0)
  have lim: "unat (start bm) + nblocks bm * ?d < 2 ^ 64" using assms(3) by (simp add: bm_ok_def)
  have sz: "unat z = nblocks bm * ?d"
    using lim assms(3) by (simp add: unat_word_ariths unat_of_nat bm_ok_def z_def)
  then have n: "blocks_for bm z = nblocks bm" using d by (simp add: blocks_for_eq)
  have md: "unat (bm_bytes bm) mod ?d \<noteq> 0" using assms(4) by (simp add: exact_fit_def dvd_eq_mod_eq_0)
  have N: "unat (bm_bytes bm) \<noteq> nblocks bm * ?d" using md by (metis mod_mult_self2_is_0)
  have N1: "0 < nblocks bm" using md by (simp add: nblocks_def blocks_for_eq[OF d(1)])
  have less: "unat (bm_bytes bm) < unat z"
    using blocks_cover[OF d(1), of "bm_bytes bm"] N sz by (simp add: nblocks_def)
  have r0: "fits_free bm z 0" unfolding fits_free_def run_def n assms(5) using N1 by auto
  from bm_alloc_spec[OF assms(3), of z, unfolded run_at_fits_free] r0 obtain p bm' where
    p: "bm_alloc bm z = Some (block_addr bm p, bm')" "same_geom bm bm'" "free_set bm' = free_set bm - run bm p z"
    "\<forall>q < p. \<not> fits_free bm z q" by blast
  have "p = 0" using p(4) r0 by (cases p) auto
  then have e: "free_set bm' = {}" unfolding p(3) run_def n assms(5) by auto
  have a: "block_addr bm p = start bm" using \<open>p = 0\<close> by (simp add: block_addr_def)
  have "unat (start bm + bm_bytes bm) < unat (start bm + z)"
    using less sz lim by (simp add: unat_word_ariths(1))
  then have "start bm' + bm_bytes bm' < start bm + z" using p(2) by (simp add: same_geom_def word_less_nat_alt)
  with p(1) e a have "SLOF_bm_alloc h hn z = Some (start bm, h(hn \<mapsto> bm')) \<and> heap_free hn (h(hn \<mapsto> bm')) = {} \<and>
      SLOF_bm_free (h(hn \<mapsto> bm')) hn (start bm) z = Some (h(hn \<mapsto> bm'))"
    using assms(1,2) by (simp add: SLOF_bm_alloc_def SLOF_bm_free_def bm_free_def heap_free_def)
  then show ?thesis using less unfolding z_def by blast
qed

section \<open>Witnesses\<close>

definition heap0 :: bm_heap where
  "heap0 = snd (SLOF_bm_allocator_init (\<lambda>_. 4096) Map.empty 65536 16384 4096)"

definition heap1 :: bm_heap where
  "heap1 = snd (the (SLOF_bm_alloc heap0 4096 5000))"

definition heap2 :: bm_heap where
  "heap2 = snd (the (SLOF_bm_alloc heap1 4096 4096))"

lemma init_heap0: "SLOF_bm_allocator_init (\<lambda>_. 4096) Map.empty 65536 16384 4096 = (4096, heap0)"
proof -
  have "fst (SLOF_bm_allocator_init (\<lambda>_. 4096) Map.empty 65536 16384 4096) = 4096" by code_simp
  then show ?thesis by (simp add: heap0_def prod_eq_iff)
qed

lemma alloc_heap1: "SLOF_bm_alloc heap0 4096 5000 = Some (65536, heap1)"
proof -
  have "SLOF_bm_alloc heap0 4096 5000 \<noteq> None" "fst (the (SLOF_bm_alloc heap0 4096 5000)) = 65536" by code_simp+
  then show ?thesis by (auto simp: heap1_def)
qed

lemma alloc_heap2: "SLOF_bm_alloc heap1 4096 4096 = Some (73728, heap2)"
proof -
  have "SLOF_bm_alloc heap1 4096 4096 \<noteq> None" "fst (the (SLOF_bm_alloc heap1 4096 4096)) = 73728" by code_simp+
  then show ?thesis by (auto simp: heap2_def)
qed

lemma run_heap2:
  "alloc_run (\<lambda>h. SLOF_bm_alloc h 4096) (\<lambda>h. SLOF_bm_free h 4096) heap0 heap2 [(73728, 4096), (65536, 5000)]"
  by (intro run_alloc[of _ _ _ heap1] run_alloc[of _ _ _ heap0] run_start) (simp_all add: alloc_heap1 alloc_heap2)

lemmas heap0_geometry = init_bitmap_ok[where bs = 4096 and sz = 16384 and st = 65536, OF _ _ _ _ init_heap0]


theorem bm_alloc_first_fit_witness:
  "\<exists>bm. heap_ok 4096 heap0 \<and> heap0 4096 = Some bm \<and>
    (if \<exists>p. fits_free bm 5000 p
    then \<exists>h'. SLOF_bm_alloc heap0 4096 5000 = Some (block_addr bm (LEAST p. fits_free bm 5000 p), h') \<and> heap_ok 4096 h' \<and>
      heap_free 4096 h' = heap_free 4096 heap0 - run bm (LEAST p. fits_free bm 5000 p) 5000 \<and> (\<forall>x. x \<noteq> 4096 \<longrightarrow> h' x = heap0 x)
    else SLOF_bm_alloc heap0 4096 5000 = Some (-1, heap0))"
proof -
  have ok: "heap_ok 4096 heap0" by (rule heap0_geometry) simp_all
  moreover obtain bm where "heap0 4096 = Some bm" using ok by (auto simp: heap_ok_def)
  ultimately show ?thesis using bm_alloc_first_fit[OF ok] by blast
qed

theorem bm_release_all_witness:
  "\<exists>h' bm. alloc_run (\<lambda>h. SLOF_bm_alloc h 4096) (\<lambda>h. SLOF_bm_free h 4096) heap0 h' [] \<and> h' 4096 = Some bm \<and>
    free_set bm = {..<unat (16384 :: u64) div unat (4096 :: u64)} \<and> free_blocks bm = 16384 div 4096"
  by (rule bm_release_all[OF _ _ _ _ init_heap0 _ run_heap2]) simp_all

definition odd_bitmap :: bitmap where
  "odd_bitmap = \<lparr>start = 65536, bm_bytes = 6000, bm_size = 1, block_size = 4096, free_blocks = 2, bmw = [3]\<rparr>"

lemma odd_bitmap_free: "nblocks odd_bitmap = 2" "free_set odd_bitmap = {..<2}"
proof -
  show n: "nblocks odd_bitmap = 2" by code_simp
  have "blk (bmw odd_bitmap) 0" "blk (bmw odd_bitmap) 1" by code_simp+
  then show "free_set odd_bitmap = {..<2}" by (auto simp: free_set_def n less_2_cases_iff)
qed

theorem bm_partial_block_overrun_witness:
  "\<exists>h'. SLOF_bm_alloc [4096 \<mapsto> odd_bitmap] 4096 (of_nat (nblocks odd_bitmap) * block_size odd_bitmap) =
      Some (start odd_bitmap, h') \<and>
    unat (bm_bytes odd_bitmap) < unat (of_nat (nblocks odd_bitmap) * block_size odd_bitmap) \<and> heap_free 4096 h' = {} \<and>
    SLOF_bm_free h' 4096 (start odd_bitmap) (of_nat (nblocks odd_bitmap) * block_size odd_bitmap) = Some h'"
proof (rule bm_partial_block_overrun)
  show "bm_ok odd_bitmap" using odd_bitmap_free by (simp add: bm_ok_def) (simp add: odd_bitmap_def)
  show "\<not> exact_fit odd_bitmap" by (simp add: exact_fit_def odd_bitmap_def)
qed (simp_all add: odd_bitmap_free)

end
