(* ===== verification/Sha_Block.thy ===== *)
theory Sha_Block
  imports Prelude
begin

text \<open>What the hash functions of \<open>src/lib/libtpm\<close> (\<open>sha.c\<close>, \<open>sha256.c\<close>, \<open>sha512.c\<close>) share: the word array \<open>w\<close>
  that is also accessed byte by byte, the loop over the full blocks and the padding of the last one. The
  specification is the padding and block chaining of FIPS 180-4 on whole messages.\<close>

section \<open>Model\<close>

definition be64 :: "u64 \<Rightarrow> bytes" where
  "be64 v = be32 (hi32 v) @ be32 (lo32 v)"

fun words32 :: "bytes \<Rightarrow> u32 list" where
  "words32 (a # b # c # d # r) = cat32 (cat16 a b) (cat16 c d) # words32 r"
| "words32 _ = []"

fun words64 :: "bytes \<Rightarrow> u64 list" where
  "words64 (a # b # c # d # e # f # g # h # r) =
     cat64 (cat32 (cat16 a b) (cat16 c d)) (cat32 (cat16 e f) (cat16 g h)) # words64 r"
| "words64 _ = []"

text \<open>\<open>memcpy\<close> and \<open>memset\<close> at a byte offset of a word array.\<close>

definition put_bytes :: "('w \<Rightarrow> bytes) \<Rightarrow> (bytes \<Rightarrow> 'w list) \<Rightarrow> 'w list \<Rightarrow> nat \<Rightarrow> bytes \<Rightarrow> 'w list option" where
  "put_bytes be words w i d = map_option words (wrn (concat (map be w)) i d)"

type_synonym 'w block = "'w list \<Rightarrow> 'w list \<Rightarrow> ('w list \<times> 'w list) option"
type_synonym 'w put = "'w list \<Rightarrow> nat \<Rightarrow> bytes \<Rightarrow> 'w list option"

text \<open>The loop over the full blocks; \<open>blk\<close> is the block size in bytes and \<open>bits\<close> has the width of the variable
  in the source.\<close>

partial_function (option) block_loop :: "'w put \<Rightarrow> 'w block \<Rightarrow> u32 \<Rightarrow> bytes \<Rightarrow> u32 \<Rightarrow> u32 \<Rightarrow> 'b :: len word \<Rightarrow>
    'w list \<Rightarrow> 'w list \<Rightarrow> (u32 \<times> 'b word \<times> 'w list \<times> 'w list) option" where
  "block_loop put block blk data len offset bits w h =
     (if len - offset < blk then Some (offset, bits, w, h)
      else do {
        d \<leftarrow> rdn data (unat offset) (unat blk);
        w \<leftarrow> put w 0 d;
        (w, h) \<leftarrow> block w h;
        block_loop put block blk data len (offset + blk) (bits + of_nat (unat blk * 8)) w h })"

declare block_loop.simps [code]

text \<open>The last block: from \<open>lim\<close> bytes on the bit count does not fit, and the block is finished, cleared up to
  \<open>clear\<close> and used for the count at byte \<open>pos\<close>.\<close>

definition last_block :: "'w put \<Rightarrow> 'w block \<Rightarrow> nat \<Rightarrow> nat \<Rightarrow> nat \<Rightarrow> nat \<Rightarrow> bytes \<Rightarrow> u32 \<Rightarrow>
    u32 \<Rightarrow> 'b :: len word \<Rightarrow> 'w list \<Rightarrow> 'w list \<Rightarrow> 'w list option" where
  "last_block put block blk lim clear pos data len offset bits w h = do {
     let num = unat (ucast (len - offset) :: u16);
     let bits = bits + of_nat (num * 8);
     d \<leftarrow> rdn data (unat offset) num;
     w \<leftarrow> put w 0 d;
     w \<leftarrow> put w num [0x80];
     w \<leftarrow> (if 0 < int blk - (int num + 1) then put w (num + 1) (replicate (blk - (num + 1)) 0) else Some w);
     (w, h) \<leftarrow> (if lim \<le> num
       then do { (w, h) \<leftarrow> block w h; w \<leftarrow> put w 0 (replicate clear 0); Some (w, h) }
       else Some (w, h));
     w \<leftarrow> put w pos (be64 (ucast bits));
     (w, h) \<leftarrow> block w h;
     Some h }"

section \<open>Specification\<close>

text \<open>Padding: the bit 1, zeros up to the end of a block, the length field.\<close>

definition pad_to :: "nat \<Rightarrow> bytes \<Rightarrow> bytes \<Rightarrow> bytes" where
  "pad_to blk lf m = m @ 0x80 # replicate ((blk - (length m + 1 + length lf) mod blk) mod blk) 0 @ lf"

fun chunks :: "nat \<Rightarrow> 'a list \<Rightarrow> 'a list list" where
  "chunks n xs = (if n = 0 \<or> length xs < n then [] else take n xs # chunks n (drop n xs))"

declare chunks.simps [simp del]

definition fips_hash :: "nat \<Rightarrow> bytes \<Rightarrow> (bytes \<Rightarrow> 'h \<Rightarrow> 'h) \<Rightarrow> 'h \<Rightarrow> bytes \<Rightarrow> 'h" where
  "fips_hash blk lf compress h0 m = fold compress (chunks blk (pad_to blk lf m)) h0"

lemma chunks_Nil [simp]: "chunks n [] = []"
  by (subst chunks.simps) auto

lemma chunks_one [simp]: "0 < n \<Longrightarrow> length xs = n \<Longrightarrow> chunks n xs = [xs]"
  by (subst chunks.simps) simp

lemma chunks_append_one: "0 < n \<Longrightarrow> length xs = n \<Longrightarrow> chunks n (xs @ ys) = xs # chunks n ys"
  by (subst chunks.simps) simp

lemma chunks_append: "0 < n \<Longrightarrow> length xs = k * n \<Longrightarrow> chunks n (xs @ ys) = chunks n xs @ chunks n ys"
proof (induction k arbitrary: xs)
  case (Suc k)
  let ?a = "take n xs" and ?b = "drop n xs"
  have l: "length ?a = n" "length ?b = k * n" using Suc.prems by auto
  have "chunks n (?a @ ?b @ ys) = ?a # chunks n (?b @ ys)" "chunks n (?a @ ?b) = ?a # chunks n ?b"
    using chunks_append_one[OF Suc.prems(1) l(1)] by blast+
  then show ?case using Suc.IH[OF Suc.prems(1) l(2)] by (simp flip: append_assoc)
qed simp

lemma pad_to_append:
  assumes "length full = k * n"
  shows "pad_to n lf (full @ tail) = full @ pad_to n lf tail"
proof -
  have "(length full + length tail + 1 + length lf) mod n = (length tail + 1 + length lf) mod n"
    using mod_mult_self3[of k n "length tail + 1 + length lf"] assms by (simp add: add.assoc)
  then show ?thesis by (simp add: pad_to_def)
qed

lemma pad_short:
  assumes "length tail + 1 + length lf \<le> n"
  shows "pad_to n lf tail = tail @ 0x80 # replicate (n - (length tail + 1 + length lf)) 0 @ lf"
  using assms by (cases "length tail + 1 + length lf = n") (auto simp: pad_to_def)

lemma pad_long:
  assumes "length tail < n" "n < length tail + 1 + length lf" "length lf < n"
  shows "pad_to n lf tail = (tail @ 0x80 # replicate (n - (length tail + 1)) 0) @ replicate (n - length lf) 0 @ lf"
proof -
  let ?s = "length tail + 1 + length lf"
  have "?s mod n = ?s - n" using assms by (simp add: mod_if le_mod_geq)
  then have "(n - ?s mod n) mod n = (n - (length tail + 1)) + (n - length lf)" using assms by auto
  then show ?thesis by (simp add: pad_to_def replicate_add)
qed

lemma take_overwrite:
  assumes "i + length d \<le> m" "m \<le> length b"
  shows "take m (take i b @ d @ drop (i + length d) b) = take i (take m b) @ d @ drop (i + length d) (take m b)"
proof (cases "m \<le> i")
  case True
  then have "i = m" "length d = 0" using assms by linarith+
  then show ?thesis by simp
next
  case False
  then show ?thesis using assms by (auto simp: take_drop min_def)
qed

section \<open>Interface: a word array and a block function\<close>

locale word_array =
  fixes be :: "'w \<Rightarrow> bytes" and words :: "bytes \<Rightarrow> 'w list" and k :: nat
  assumes k: "0 < k" and be_len: "length (be x) = k"
    and words_be: "words (concat (map be ws)) = ws"
    and be_words: "k dvd length b \<Longrightarrow> concat (map be (words b)) = b"
begin

lemma bytes_len: "length (concat (map be ws)) = k * length ws"
  by (induction ws) (auto simp: be_len)

lemma bytes_take: "concat (map be (take n ws)) = take (k * n) (concat (map be ws))"
proof (induction ws arbitrary: n)
  case (Cons w ws)
  then show ?case by (cases n) (auto simp: be_len)
qed simp

lemma put_bytes_view:
  assumes "n \<le> length w" "i + length d \<le> k * n"
  shows "\<exists>w'. put_bytes be words w i d = Some w' \<and> length w' = length w \<and>
    concat (map be (take n w')) = take i (concat (map be (take n w))) @ d @ drop (i + length d) (concat (map be (take n w)))"
proof -
  let ?b = "concat (map be w)"
  let ?c = "take i ?b @ d @ drop (i + length d) ?b"
  have l: "length ?b = k * length w" by (rule bytes_len)
  have le: "i + length d \<le> k * length w" using assms mult_le_mono2[OF assms(1), of k] by linarith
  then have w: "wrn ?b i d = Some ?c" by (simp add: wrn_def l)
  have lc: "length ?c = k * length w" using le by (simp add: l)
  have b: "concat (map be (words ?c)) = ?c" using be_words[of ?c] by (simp only: lc) simp
  then have "k * length (words ?c) = k * length w" using bytes_len[of "words ?c"] lc by simp
  then have "length (words ?c) = length w" using k by simp
  moreover have "concat (map be (take n (words ?c))) = take i (take (k * n) ?b) @ d @ drop (i + length d) (take (k * n) ?b)"
    unfolding bytes_take b using assms by (intro take_overwrite) (simp_all add: l)
  ultimately show ?thesis by (intro exI[of _ "words ?c"]) (simp add: put_bytes_def w bytes_take)
qed

end

text \<open>Rotations as pairs of shifts.\<close>

lemma rotr_shifts:
  assumes "k < LENGTH('a)"
  shows "word_rotr k x = (drop_bit k x OR push_bit (LENGTH('a) - k) x :: 'a :: len word)"
proof (rule bit_word_eqI)
  fix i
  assume i: "i < LENGTH('a)"
  show "bit (word_rotr k x) i = bit (drop_bit k x OR push_bit (LENGTH('a) - k) x) i"
  proof (cases "i + k < LENGTH('a)")
    case True
    then have "\<not> LENGTH('a) - k \<le> i" using assms by linarith
    then show ?thesis using i True by (simp add: bit_simps add.commute)
  next
    case False
    then have "(i + k) mod LENGTH('a) = i + k - LENGTH('a)" using i assms by (simp add: le_mod_geq)
    then show ?thesis using False i assms by (auto simp: bit_simps add.commute dest: bit_imp_le_length)
  qed
qed

lemma rotl_shifts:
  assumes "k < LENGTH('a)"
  shows "word_rotl k x = (push_bit k x OR drop_bit (LENGTH('a) - k) x :: 'a :: len word)"
proof (cases "k = 0")
  case False
  then show ?thesis using rotr_shifts[of "LENGTH('a) - k" x] assms by (simp add: word_rotl_eq_word_rotr or.commute)
next
  case True
  have "drop_bit LENGTH('a) x = 0" by (rule bit_word_eqI) (auto simp: bit_simps dest: bit_imp_le_length)
  then show ?thesis using True by (simp add: word_rotl_eq_word_rotr) (rule bit_word_eqI, simp add: bit_simps)
qed

text \<open>A block function: it reads the first \<open>n\<close> words of its array as one block of \<open>blk\<close> bytes and applies the
  compression function to the chaining value.\<close>

locale block_hash = word_array be words k
  for be :: "'w \<Rightarrow> bytes" and words :: "bytes \<Rightarrow> 'w list" and k :: nat +
  fixes block :: "'w block" and compress :: "bytes \<Rightarrow> 'w list \<Rightarrow> 'w list" and n size hl :: nat
  assumes sizes: "0 < n" "n \<le> size" "k * n < 2 ^ 15"
    and block: "length w = size \<Longrightarrow> length h = hl \<Longrightarrow> \<exists>w'. block w h =
      Some (w', compress (concat (map be (take n w))) h) \<and> length w' = size"
    and compress_len: "length (compress b h) = hl"
begin

definition view :: "'w list \<Rightarrow> bytes" where
  "view w = concat (map be (take n w))"

lemma view_len: "length w = size \<Longrightarrow> length (view w) = k * n"
  using sizes(2) by (simp add: view_def bytes_len)

lemma put_view: "length w = size \<Longrightarrow> i + length d \<le> k * n \<Longrightarrow> \<exists>w'. put_bytes be words w i d = Some w' \<and> length w' = size \<and>
    view w' = take i (view w) @ d @ drop (i + length d) (view w)"
  using put_bytes_view[of n w i d] sizes(2) by (simp add: view_def)

lemma blk: "0 < k * n" using k sizes by simp

lemma fips_hash_len: "length h = hl \<Longrightarrow> length (fips_hash B lf compress h m) = hl"
proof -
  have "length h = hl \<Longrightarrow> length (fold compress xs h) = hl" for xs by (induction xs arbitrary: h) (auto simp: compress_len)
  then show "length h = hl \<Longrightarrow> length (fips_hash B lf compress h m) = hl" by (simp add: fips_hash_def)
qed

lemma unat_blk: "b = (of_nat (k * n) :: u32) \<Longrightarrow> unat b = k * n"
  using sizes(3) by (simp add: unat_of_nat take_bit_nat_eq_self del: of_nat_mult)

lemma block_loop_fold:
  assumes "length w = size" "length h = hl" "unat len \<le> length data" "unat off + m * (k * n) \<le> unat len"
    and "unat len - unat off < (m + 1) * (k * n)" and "b = of_nat (k * n)"
  shows "\<exists>w'. block_loop (put_bytes be words) block b data len off bits w h =
    Some (off + of_nat (m * (k * n)), bits + of_nat (m * (k * n) * 8), w',
      fold compress (chunks (k * n) (take (m * (k * n)) (drop (unat off) data))) h) \<and> length w' = size \<and>
      length (fold compress (chunks (k * n) (take (m * (k * n)) (drop (unat off) data))) h) = hl"
  using assms(1,2,4,5)
proof (induction m arbitrary: off bits w h)
  case 0
  have ub: "unat b = k * n" by (rule unat_blk[OF assms(6)])
  have "unat (len - off) = unat len - unat off" using 0 by (simp add: unat_sub word_le_nat_alt)
  then have "len - off < b" using 0 ub by (simp add: word_less_nat_alt)
  then show ?case using 0 by (subst block_loop.simps) simp
next
  case (Suc m)
  let ?B = "k * n"
  have ub: "unat b = ?B" by (rule unat_blk[OF assms(6)])
  have "unat (len - off) = unat len - unat off" using Suc.prems by (simp add: unat_sub word_le_nat_alt)
  then have go: "\<not> len - off < b" using Suc.prems ub by (simp add: word_less_nat_alt)
  let ?d = "take ?B (drop (unat off) data)"
  have room: "unat off + ?B \<le> length data" using Suc.prems assms(3) by simp
  have rd: "rdn data (unat off) (unat b) = Some ?d" using room by (simp add: rdn_def ub)
  have ld: "length ?d = ?B" using room by simp
  obtain w1 where w1: "put_bytes be words w 0 ?d = Some w1" "length w1 = size" "view w1 = ?d"
    using put_view[OF Suc.prems(1), of 0 ?d] ld view_len[OF Suc.prems(1)] by auto
  obtain w2 where w2: "block w1 h = Some (w2, compress ?d h)" "length w2 = size" "length (compress ?d h) = hl"
    using block[OF w1(2) Suc.prems(2)] w1(3) by (auto simp: view_def compress_len)
  have "unat len < 4294967296" using unsigned_less[of len] by simp
  then have uo: "unat (off + b) = unat off + ?B"
    using Suc.prems(3) ub by (subst unat_add_lem[THEN iffD1]) (auto simp: ub)
  have "drop (unat (off + b)) data = drop ?B (drop (unat off) data)" unfolding uo by (simp add: add.commute)
  moreover have "take (Suc m * ?B) (drop (unat off) data) = ?d @ take (m * ?B) (drop ?B (drop (unat off) data))"
    by (simp add: take_add)
  ultimately have ch: "chunks ?B (take (Suc m * ?B) (drop (unat off) data)) = ?d # chunks ?B (take (m * ?B) (drop (unat (off + b)) data))"
    using chunks_append_one[OF blk ld] by simp
  have "bits + of_nat (unat b * 8) = bits + of_nat (?B * 8)" by (simp only: ub)
  then have e: "off + b + of_nat (m * ?B) = off + of_nat (Suc m * ?B)"
    "bits + of_nat (unat b * 8) + of_nat (m * ?B * 8) = bits + of_nat (Suc m * ?B * 8)"
    by (simp_all only: assms(6) add.assoc mult_Suc distrib_right of_nat_add)
  have step: "block_loop (put_bytes be words) block b data len off bits w h =
    block_loop (put_bytes be words) block b data len (off + b) (bits + of_nat (unat b * 8)) w2 (compress ?d h)"
    by (subst block_loop.simps) (simp add: go rd w1 w2)
  have "unat (off + b) + m * ?B \<le> unat len" "unat len - unat (off + b) < (m + 1) * ?B"
    using Suc.prems(3,4) uo blk by auto
  from Suc.IH[OF w2(2,3) this, of "bits + of_nat (unat b * 8)"] show ?case
    unfolding step ch e by (simp only: fold.simps comp_apply)
qed

lemma put_prefix:
  assumes "length w = size" "take i (view w) = p" "i \<le> k * n" "i + length d \<le> k * n"
  shows "\<exists>w'. put_bytes be words w i d = Some w' \<and> length w' = size \<and> take (i + length d) (view w') = p @ d \<and>
    drop (i + length d) (view w') = drop (i + length d) (view w)"
proof -
  obtain w' where w': "put_bytes be words w i d = Some w'" "length w' = size"
    "view w' = take i (view w) @ d @ drop (i + length d) (view w)" using put_view[OF assms(1,4)] by blast
  have "length (take i (view w)) = i" using view_len[OF assms(1)] assms(3) by simp
  then show ?thesis using w' assms(2) by simp
qed

lemma put_end:
  assumes "length w = size" "take (k * n - 8) (view w) = p" "length d = 8" "8 \<le> k * n"
  shows "\<exists>w'. put_bytes be words w (k * n - 8) d = Some w' \<and> length w' = size \<and> view w' = p @ d"
proof -
  have e: "k * n - 8 + 8 = k * n" using assms(4) by simp
  then obtain w' where w': "put_bytes be words w (k * n - 8) d = Some w'" "length w' = size" "take (k * n) (view w') = p @ d"
    using put_prefix[OF assms(1,2), of d] assms(3) by auto
  then show ?thesis using view_len[OF w'(2)] by simp
qed

text \<open>The buffer after the padding of a tail of \<open>num\<close> bytes.\<close>

lemma pad_buffer:
  assumes "length w = size" "length d < B" and B: "B = k * n"
  shows "\<exists>w1 w2 w3. put_bytes be words w 0 d = Some w1 \<and> put_bytes be words w1 (length d) [0x80] = Some w2 \<and>
    (if 0 < int (B) - (int (length d) + 1) then put_bytes be words w2 (length d + 1) (replicate (B - (length d + 1)) 0)
     else Some w2) = Some w3 \<and> length w3 = size \<and> view w3 = d @ 0x80 # replicate (B - (length d + 1)) 0"
proof -
  obtain w1 where w1: "put_bytes be words w 0 d = Some w1" "length w1 = size" "take (length d) (view w1) = d"
    using put_prefix[folded B, OF assms(1), of 0 "[]" d] assms(2) by auto
  obtain w2 where w2: "put_bytes be words w1 (length d) [0x80] = Some w2" "length w2 = size"
    "take (length d + 1) (view w2) = d @ [0x80]" using put_prefix[folded B, OF w1(2,3), of "[0x80]"] assms(2) by auto
  have full: "length d + 1 + (B - (length d + 1)) = B" "length d + 1 \<le> B" using assms(2) by auto
  show ?thesis
  proof (cases "0 < int (B) - (int (length d) + 1)")
    case True
    obtain w3 where "put_bytes be words w2 (length d + 1) (replicate (B - (length d + 1)) 0) = Some w3" "length w3 = size"
      "take (B) (view w3) = (d @ [0x80]) @ replicate (B - (length d + 1)) 0"
      using put_prefix[folded B, OF w2(2,3), of "replicate (B - (length d + 1)) 0"] full by (simp only: length_replicate) auto
    then show ?thesis using w1 w2 True view_len[folded B] by (intro exI[of _ w1] exI[of _ w2] exI[of _ w3]) simp
  next
    case False
    then have "B = length d + 1" using assms(2) by auto
    then show ?thesis using w1 w2 False view_len[folded B, OF w2(2)] by (intro exI[of _ w1] exI[of _ w2]) simp
  qed
qed

lemma last_block_pads:
  assumes w: "length w = size" "length h = hl" and len: "unat len \<le> length data" "unat off \<le> unat len" "unat len - unat off < B"
    and B: "B = k * n" and L: "lim + z + 8 = B" "z + 8 < B" and c: "B - 8 \<le> clear" "clear \<le> B"
    and d: "d = take (unat len - unat off) (drop (unat off) data)" and l: "l = be64 (ucast (bits + of_nat (length d * 8)))"
  shows "last_block (put_bytes be words) block B lim clear (B - 8) data len off bits w h =
    Some (fold compress (chunks B (pad_to B (replicate z 0 @ l) d)) h)"
proof -
  have ld: "length d = unat len - unat off" using len d by simp
  have "unat (len - off) = unat len - unat off" using len by (simp add: unat_sub word_le_nat_alt)
  then have num: "unat (ucast (len - off) :: u16) = length d"
    using len(3) sizes(3)[folded B] ld by (simp add: unsigned_ucast_eq take_bit_nat_eq_self)
  have rd: "rdn data (unat off) (length d) = Some d" using len d ld by (simp add: rdn_def)
  have ll: "length l = 8" by (simp add: l be64_def)
  obtain w1 w2 w3 where w3: "put_bytes be words w 0 d = Some w1" "put_bytes be words w1 (length d) [0x80] = Some w2"
    "(if 0 < int B - (int (length d) + 1) then put_bytes be words w2 (length d + 1) (replicate (B - (length d + 1)) 0)
      else Some w2) = Some w3" "length w3 = size" "view w3 = d @ 0x80 # replicate (B - (length d + 1)) 0"
    using pad_buffer[OF w(1) _ B, of d] len(3) ld by metis
  have pre: "last_block (put_bytes be words) block B lim clear (B - 8) data len off bits w h = do {
     (w, h) \<leftarrow> (if lim \<le> length d
       then do { (w, h) \<leftarrow> block w3 h; w \<leftarrow> put_bytes be words w 0 (replicate clear 0); Some (w, h) }
       else Some (w3, h));
     w \<leftarrow> put_bytes be words w (B - 8) l;
     (w, h) \<leftarrow> block w h;
     Some h }"
    unfolding last_block_def num Let_def l by (simp only: rd Option.bind.simps w3(1-3))
  show ?thesis
  proof (cases "lim \<le> length d")
    case True
    obtain w4 where w4: "block w3 h = Some (w4, compress (view w3) h)" "length w4 = size" "length (compress (view w3) h) = hl"
      using block[OF w3(4) w(2)] by (auto simp: view_def compress_len)
    obtain w5 where w5: "put_bytes be words w4 0 (replicate clear 0) = Some w5" "length w5 = size" "take clear (view w5) = replicate clear 0"
      using put_prefix[folded B, OF w4(2), of 0 "[]" "replicate clear 0"] c by auto
    have "take (B - 8) (view w5) = take (B - 8) (take clear (view w5))" using c(1) by (simp add: min_def)
    then have "take (B - 8) (view w5) = replicate (B - 8) 0" unfolding w5(3) using c(1) by simp
    then obtain w6 where w6: "put_bytes be words w5 (B - 8) l = Some w6" "length w6 = size" "view w6 = replicate (B - 8) 0 @ l"
      using put_end[folded B, OF w5(2) _ ll] L by auto
    obtain w7 where w7: "block w6 (compress (view w3) h) = Some (w7, compress (view w6) (compress (view w3) h))"
      using block[OF w6(2) w4(3)] by (auto simp: view_def compress_len)
    have "B - 8 = B - (z + 8) + z" using L by simp
    then have "view w6 = replicate (B - length (replicate z 0 @ l)) 0 @ replicate z 0 @ l"
      unfolding w6(3) by (simp only: replicate_add length_append length_replicate ll append_assoc)
    then have "pad_to B (replicate z 0 @ l) d = view w3 @ view w6"
      unfolding w3(5) using len(3) L True ld ll pad_long[of d B "replicate z 0 @ l"] by auto
    then have "chunks B (pad_to B (replicate z 0 @ l) d) = [view w3, view w6]"
      using chunks_append_one[OF blk[folded B] view_len[folded B, OF w3(4)]] view_len[folded B, OF w6(2)] blk[folded B] by simp
    then show ?thesis using True w4(1) w5(1) w6(1) w7 by (simp add: pre)
  next
    case False
    define r where "r = B - 8 - (length d + 1)"
    have e: "B - 8 = Suc (length d + r)" "B - (length d + 1) = r + 8" using False L unfolding r_def by linarith+
    have "take (B - 8) (view w3) = d @ 0x80 # replicate r 0" unfolding w3(5) e by simp
    then obtain w6 where w6: "put_bytes be words w3 (B - 8) l = Some w6" "length w6 = size"
      "view w6 = (d @ 0x80 # replicate r 0) @ l"
      using put_end[folded B, OF w3(4) _ ll] L by auto
    obtain w7 where w7: "block w6 h = Some (w7, compress (view w6) h)"
      using block[OF w6(2) w(2)] by (auto simp: view_def compress_len)
    have "r = B - (length d + 1 + (z + 8)) + z" using L False unfolding r_def by simp
    then have "view w6 = d @ 0x80 # replicate (B - (length d + 1 + (z + 8))) 0 @ replicate z 0 @ l"
      unfolding w6(3) by (simp only: replicate_add append_assoc append_Cons)
    then have "pad_to B (replicate z 0 @ l) d = view w6"
      using L False ll pad_short[of d "replicate z 0 @ l" B] by simp
    then have "chunks B (pad_to B (replicate z 0 @ l) d) = [view w6]" using view_len[folded B, OF w6(2)] blk[folded B] by simp
    then show ?thesis using False w6(1) w7 by (simp add: pre)
  qed
qed

text \<open>Both together: the hash of the whole message.\<close>

lemma hash_whole:
  assumes w: "length w = size" "length h = hl" and len: "unat len \<le> length data" and B: "B = k * n" "b = of_nat B"
    and L: "lim + z + 8 = B" "z + 8 < B" and c: "B - 8 \<le> clear" "clear \<le> B"
    and l: "l = be64 (ucast (of_nat (unat len * 8) :: 'b :: len word))"
  shows "do { (off, bits, w, h) \<leftarrow> block_loop (put_bytes be words) block b data len 0 (0 :: 'b word) w h;
      last_block (put_bytes be words) block B lim clear (B - 8) data len off bits w h } =
    Some (fips_hash B (replicate z 0 @ l) compress h (take (unat len) data))"
proof -
  define m where "m = unat len div B"
  define full where "full = take (m * B) data"
  define d where "d = take (unat len - m * B) (drop (m * B) data)"
  have B0: "0 < B" using blk B by simp
  have m: "m * B \<le> unat len" "unat len < (m + 1) * B" unfolding m_def using dividend_less_times_div[OF B0, of "unat len"] by (auto simp: algebra_simps)
  have lf: "length full = m * B" and ld: "length d = unat len - m * B" using m len by (simp_all add: full_def d_def)
  have "unat len < 4294967296" using unsigned_less[of len] by simp
  then have uo: "unat (of_nat (m * B) :: u32) = m * B"
    using m(1) by (simp add: unat_of_nat take_bit_nat_eq_self del: of_nat_mult)
  obtain w' where w': "block_loop (put_bytes be words) block b data len 0 (0 :: 'b word) w h =
      Some (of_nat (m * B), of_nat (m * B * 8), w', fold compress (chunks B full) h)" "length w' = size"
      "length (fold compress (chunks B full) h) = hl"
    using block_loop_fold[OF w len, of 0 m b "0 :: 'b word"] m B by (auto simp: full_def)
  have "(of_nat (m * B * 8) + of_nat (length d * 8) :: 'b word) = of_nat (m * B * 8 + length d * 8)" by (simp only: of_nat_add)
  also have "m * B * 8 + length d * 8 = unat len * 8" using ld m(1) by (simp flip: distrib_right)
  finally have "last_block (put_bytes be words) block B lim clear (B - 8) data len (of_nat (m * B)) (of_nat (m * B * 8) :: 'b word) w'
      (fold compress (chunks B full) h) =
    Some (fold compress (chunks B (pad_to B (replicate z 0 @ l) d)) (fold compress (chunks B full) h))"
    using m l by (intro last_block_pads[OF w'(2,3) len _ _ B(1) L c]) (simp_all only: uo d_def, simp_all)
  moreover have "take (unat len) data = full @ d" using m(1) unfolding full_def d_def
    by (metis le_add_diff_inverse take_add)
  then have "chunks B (pad_to B (replicate z 0 @ l) (take (unat len) data)) = chunks B full @ chunks B (pad_to B (replicate z 0 @ l) d)"
    using pad_to_append[OF lf] chunks_append[OF B0 lf] by simp
  ultimately show ?thesis using w'(1) by (simp add: fips_hash_def)
qed

end

section \<open>Big-endian word arrays\<close>

lemma length_be64 [simp]: "length (be64 v) = 8"
  by (simp add: be64_def)

lemma words32_be [simp]: "words32 (concat (map be32 ws)) = ws"
  by (induction ws) (auto simp: be32_def be_simps)

lemma words64_be [simp]: "words64 (concat (map be64 ws)) = ws"
  by (induction ws) (auto simp: be64_def be32_def be_simps)

lemma be32_words: "4 dvd length b \<Longrightarrow> concat (map be32 (words32 b)) = b"
proof (induction b rule: words32.induct)
  case (1 a b c d r)
  then have "4 dvd length r" by simp presburger
  then show ?case using 1 by (simp add: be32_def be_simps)
qed (simp_all, presburger+)

lemma be64_words: "8 dvd length b \<Longrightarrow> concat (map be64 (words64 b)) = b"
proof (induction b rule: words64.induct)
  case (1 a b c d e f g h r)
  then have "8 dvd length r" by simp presburger
  then show ?case using 1 by (simp add: be64_def be32_def be_simps)
qed (simp_all, presburger+)

interpretation words32: word_array be32 words32 4
  by unfold_locales (simp_all add: be32_words)

interpretation words64: word_array be64 words64 8
  by unfold_locales (simp_all add: be64_words)

end
