(* ===== verification/Sha1.thy ===== *)
theory Sha1
  imports Sha_Block
begin

text \<open>SHA-1 (\<open>src/lib/libtpm/sha.c\<close>) and its equivalence with FIPS 180-4.\<close>

section \<open>Model\<close>

text \<open>The instruction \<open>rotlwi\<close>.\<close>

definition rol :: "u32 \<Rightarrow> nat \<Rightarrow> u32" where
  "rol v k = word_rotl k v"

definition sha1_ko :: "u32 list" where
  "sha1_ko = [0x5a827999, 0x6ed9eba1, 0x8f1bbcdc, 0xca62c1d6]"

definition sha1_expand :: "nat \<Rightarrow> u32 list \<Rightarrow> u32 list" where
  "sha1_expand i w = w[i := rol (w ! (i - 3) XOR w ! (i - 8) XOR w ! (i - 14) XOR w ! (i - 16)) 1]"

type_synonym sha1_vars = "u32 \<times> u32 \<times> u32 \<times> u32 \<times> u32"

definition sha1_round :: "u32 list \<Rightarrow> nat \<Rightarrow> sha1_vars \<Rightarrow> sha1_vars" where
  "sha1_round w i = (\<lambda>(a, b, c, d, e).
     let (f, idx) =
       (if i \<le> 19 then ((b AND c) OR ((b XOR 0xffffffff) AND d), 0)
        else if i \<le> 39 then (b XOR c XOR d, 1)
        else if i \<le> 59 then ((b AND c) OR (b AND d) OR (c AND d), 2)
        else (b XOR c XOR d, 3));
       tmp = rol a 5 + f + e + sha1_ko ! idx + w ! i
     in (tmp, a, rol b 30, c, d))"

definition sha1_block :: "u32 block" where
  "sha1_block w h =
     (if length w < 80 \<or> length h < 5 then None
      else
        let w = fold sha1_expand [16..<80] w;
          (a, b, c, d, e) = fold (sha1_round w) [0..<80] (h ! 0, h ! 1, h ! 2, h ! 3, h ! 4)
        in Some (w, [h ! 0 + a, h ! 1 + b, h ! 2 + c, h ! 3 + d, h ! 4 + e]))"

text \<open>The array \<open>w\<close> of \<open>sha1_do\<close> is not initialised; \<open>w\<close> is its contents on entry.\<close>

definition sha1_do :: "u32 list \<Rightarrow> u32 list \<Rightarrow> bytes \<Rightarrow> u32 \<Rightarrow> u32 list option" where
  "sha1_do w h data32 len = do {
     (offset, bits, w, h) \<leftarrow> block_loop (put_bytes be32 words32) sha1_block 64 data32 len 0 (0 :: u64) w h;
     last_block (put_bytes be32 words32) sha1_block 64 56 60 56 data32 len offset bits w h }"

definition sha1_init :: "u32 list" where
  "sha1_init = [0x67452301, 0xefcdab89, 0x98badcfe, 0x10325476, 0xc3d2e1f0]"

definition sha1 :: "u32 list \<Rightarrow> bytes \<Rightarrow> u32 \<Rightarrow> bytes \<Rightarrow> bytes option" where
  "sha1 w data len hash = do {
     h \<leftarrow> sha1_do w sha1_init data len;
     d \<leftarrow> rdn (concat (map be32 h)) 0 20;
     wrn hash 0 d }"

section \<open>Specification: FIPS 180-4\<close>

definition ROTL :: "nat \<Rightarrow> u32 \<Rightarrow> u32" where
  "ROTL k x = push_bit k x OR drop_bit (32 - k) x"

text \<open>4.1.1: the functions \<open>f\<close>, with exclusive or.\<close>

definition f_t :: "nat \<Rightarrow> u32 \<Rightarrow> u32 \<Rightarrow> u32 \<Rightarrow> u32" where
  "f_t t x y z =
     (if t < 20 then (x AND y) XOR (NOT x AND z)
      else if 40 \<le> t \<and> t < 60 then (x AND y) XOR (x AND z) XOR (y AND z)
      else x XOR y XOR z)"

text \<open>6.1.2: the message schedule and the working variables after \<open>t\<close> steps.\<close>

fun schedule1 :: "u32 list \<Rightarrow> nat \<Rightarrow> u32" where
  "schedule1 M t = (if t < 16 then M ! t
     else ROTL 1 (schedule1 M (t - 3) XOR schedule1 M (t - 8) XOR schedule1 M (t - 14) XOR schedule1 M (t - 16)))"

declare schedule1.simps [simp del]

primrec working1 :: "u32 list \<Rightarrow> u32 list \<Rightarrow> nat \<Rightarrow> sha1_vars" where
  "working1 M H 0 = (H ! 0, H ! 1, H ! 2, H ! 3, H ! 4)"
| "working1 M H (Suc t) = (case working1 M H t of (a, b, c, d, e) \<Rightarrow>
     (ROTL 5 a + f_t t b c d + e + sha1_ko ! (t div 20) + schedule1 M t, a, ROTL 30 b, c, d))"

definition compress1 :: "bytes \<Rightarrow> u32 list \<Rightarrow> u32 list" where
  "compress1 blk H = (case working1 (words32 blk) H 80 of (a, b, c, d, e) \<Rightarrow>
     [a + H ! 0, b + H ! 1, c + H ! 2, d + H ! 3, e + H ! 4])"

definition fips_sha1 :: "bytes \<Rightarrow> bytes" where
  "fips_sha1 m = concat (map be32 (fips_hash 64 (be64 (of_nat (8 * length m))) compress1 sha1_init m))"

section \<open>The code computes the specification\<close>

lemma rol_ROTL: "k < 32 \<Longrightarrow> rol x k = ROTL k x"
  using rotl_shifts[of k x] by (simp add: rol_def ROTL_def)

lemma expand_fold:
  assumes "length w = 80" "16 \<le> j" "j \<le> 80"
  shows "length (fold sha1_expand [16..<j] w) = 80 \<and> (\<forall>t<j. fold sha1_expand [16..<j] w ! t = schedule1 (take 16 w) t)"
  using assms(2,3)
proof (induction j rule: nat_induct_at_least)
  case base
  then show ?case using assms(1) by (simp add: schedule1.simps)
next
  case (Suc j)
  let ?w = "fold sha1_expand [16..<j] w"
  have IH: "length ?w = 80" "\<And>t. t < j \<Longrightarrow> ?w ! t = schedule1 (take 16 w) t" using Suc by auto
  have "fold sha1_expand [16..<Suc j] w = sha1_expand j ?w" using Suc.hyps by simp
  moreover have "sha1_expand j ?w = ?w[j := schedule1 (take 16 w) j]"
    using Suc.hyps IH(2) by (subst schedule1.simps) (simp add: sha1_expand_def rol_ROTL)
  ultimately show ?case using IH Suc.prems by (auto simp: less_Suc_eq nth_list_update)
qed

lemma round_f: "(if i \<le> 19 then ((b AND c) OR ((b XOR 0xffffffff) AND d), 0)
    else if i \<le> 39 then (b XOR c XOR d, 1)
    else if i \<le> 59 then ((b AND c) OR (b AND d) OR (c AND d), 2)
    else (b XOR c XOR d, 3)) = (f_t i b c d, if i < 80 then i div 20 else 3)"
proof -
  have "(0xffffffff :: u32) = NOT 0" by simp
  then have "(b AND c) OR ((b XOR 0xffffffff) AND d) = (b AND c) XOR (NOT b AND d)"
    by (simp only:) (rule bit_word_eqI, auto simp: bit_simps)
  moreover have "(b AND c) OR (b AND d) OR (c AND d) = (b AND c) XOR (b AND d) XOR (c AND d)"
    by (rule bit_word_eqI) (auto simp: bit_simps)
  moreover have "i div 20 = (if i \<le> 19 then 0 else if i \<le> 39 then 1 else if i \<le> 59 then 2 else 3)" if "i < 80"
    using that by auto
  ultimately show ?thesis by (auto simp: f_t_def)
qed

lemma rounds_fold:
  assumes "\<And>t. t < 80 \<Longrightarrow> w ! t = schedule1 M t" "t \<le> 80"
  shows "fold (sha1_round w) [0..<t] (h ! 0, h ! 1, h ! 2, h ! 3, h ! 4) = working1 M h t"
  using assms(2)
proof (induction t)
  case (Suc t)
  then show ?case
    using assms(1)[of t] unfolding upt_Suc_append[of 0 t, simplified]
    by (simp add: sha1_round_def round_f rol_ROTL split: prod.split)
qed simp

lemma sha1_block_compress:
  assumes "length w = 80" "length h = 5"
  shows "\<exists>w'. sha1_block w h = Some (w', compress1 (concat (map be32 (take 16 w))) h) \<and> length w' = 80"
proof -
  let ?w = "fold sha1_expand [16..<80] w"
  have w: "length ?w = 80" "\<And>t. t < 80 \<Longrightarrow> ?w ! t = schedule1 (take 16 w) t" using expand_fold[OF assms(1), of 80] by auto
  obtain a b c d e where r: "working1 (take 16 w) h 80 = (a, b, c, d, e)" by (cases "working1 (take 16 w) h 80") auto
  then have "fold (sha1_round ?w) [0..<80] (h ! 0, h ! 1, h ! 2, h ! 3, h ! 4) = (a, b, c, d, e)"
    using rounds_fold[OF w(2), of 80 h] by simp
  then show ?thesis using assms w(1) r unfolding sha1_block_def Let_def compress1_def words32_be
    by (simp add: add.commute)
qed

interpretation sha1: block_hash be32 words32 4 sha1_block compress1 16 80 5
proof unfold_locales
  show "length (compress1 b h) = 5" for b h by (simp add: compress1_def split: prod.split)
qed (simp_all add: sha1_block_compress)

lemma sha1_spec:
  assumes "length w = 80" "unat len \<le> length data" "20 \<le> length hash"
  shows "sha1 w data len hash = Some (fips_sha1 (take (unat len) data) @ drop 20 hash)"
proof -
  let ?m = "take (unat len) data"
  have "sha1_do w sha1_init data len =
    Some (fips_hash 64 (replicate 0 0 @ be64 (ucast (of_nat (unat len * 8) :: u64))) compress1 sha1_init ?m)"
    unfolding sha1_do_def
    using sha1.hash_whole[OF assms(1) _ assms(2) _ _ _ _ _ _ refl, of sha1_init 64 64 56 0 60, where 'b = 64]
    by (simp add: sha1_init_def)
  moreover have "length (fips_hash 64 lf compress1 sha1_init ?m) = 5" for lf
    by (rule sha1.fips_hash_len) (simp add: sha1_init_def)
  ultimately show ?thesis using assms(2,3)
    by (simp add: sha1_def fips_sha1_def rdn_def wrn_def mult.commute words32.bytes_len del: length_concat)
qed

lemma length_fips_sha1: "length (fips_sha1 m) = 20"
proof -
  have "length (fips_hash 64 lf compress1 sha1_init m) = 5" for lf by (rule sha1.fips_hash_len) (simp add: sha1_init_def)
  then show ?thesis by (simp add: fips_sha1_def words32.bytes_len del: length_concat)
qed

text \<open>C22: \<open>sha1\<close> is the SHA-1 of FIPS 180-4: for every message whose length fits the length argument and every
  initial contents of the work array, it returns and stores the digest in the first 20 bytes of \<open>hash\<close>.\<close>

theorem sha1_fips:
  assumes "length w = 80" "unat len \<le> length data" "20 \<le> length hash"
  shows "sha1 w data len hash = Some (fips_sha1 (take (unat len) data) @ drop 20 hash)"
  using assms by (rule sha1_spec)

theorem sha1_fips_witness:
  "sha1 (replicate 80 0) [97, 98, 99] 3 (replicate 20 0) = Some (fips_sha1 [97, 98, 99])"
  using sha1_fips[of "replicate 80 0" 3 "[97, 98, 99]" "replicate 20 0"] by simp

end
