(* ===== verification/Sha256.thy ===== *)
theory Sha256
  imports Sha_Block
begin

text \<open>SHA-256 (\<open>src/lib/libtpm/sha256.c\<close>) and the equivalence with FIPS 180-4.\<close>

section \<open>Model\<close>

text \<open>The instruction \<open>rotrwi\<close>.\<close>

definition rotr256 :: "u32 \<Rightarrow> nat \<Rightarrow> u32" where
  "rotr256 v k = word_rotr k v"

definition Ch256 :: "u32 \<Rightarrow> u32 \<Rightarrow> u32 \<Rightarrow> u32" where
  "Ch256 x y z = (x AND y) OR ((x XOR 0xffffffff) AND z)"

definition Maj256 :: "u32 \<Rightarrow> u32 \<Rightarrow> u32 \<Rightarrow> u32" where
  "Maj256 x y z = (x AND y) OR (x AND z) OR (y AND z)"

definition sum0_256 :: "u32 \<Rightarrow> u32" where
  "sum0_256 x = rotr256 x 2 XOR rotr256 x 13 XOR rotr256 x 22"

definition sum1_256 :: "u32 \<Rightarrow> u32" where
  "sum1_256 x = rotr256 x 6 XOR rotr256 x 11 XOR rotr256 x 25"

definition sigma0_256 :: "u32 \<Rightarrow> u32" where
  "sigma0_256 x = rotr256 x 7 XOR rotr256 x 18 XOR drop_bit 3 x"

definition sigma1_256 :: "u32 \<Rightarrow> u32" where
  "sigma1_256 x = rotr256 x 17 XOR rotr256 x 19 XOR drop_bit 10 x"

definition sha256_ko :: "u32 list" where
  "sha256_ko =
    [0x428a2f98, 0x71374491, 0xb5c0fbcf, 0xe9b5dba5, 0x3956c25b, 0x59f111f1, 0x923f82a4, 0xab1c5ed5,
     0xd807aa98, 0x12835b01, 0x243185be, 0x550c7dc3, 0x72be5d74, 0x80deb1fe, 0x9bdc06a7, 0xc19bf174,
     0xe49b69c1, 0xefbe4786, 0x0fc19dc6, 0x240ca1cc, 0x2de92c6f, 0x4a7484aa, 0x5cb0a9dc, 0x76f988da,
     0x983e5152, 0xa831c66d, 0xb00327c8, 0xbf597fc7, 0xc6e00bf3, 0xd5a79147, 0x06ca6351, 0x14292967,
     0x27b70a85, 0x2e1b2138, 0x4d2c6dfc, 0x53380d13, 0x650a7354, 0x766a0abb, 0x81c2c92e, 0x92722c85,
     0xa2bfe8a1, 0xa81a664b, 0xc24b8b70, 0xc76c51a3, 0xd192e819, 0xd6990624, 0xf40e3585, 0x106aa070,
     0x19a4c116, 0x1e376c08, 0x2748774c, 0x34b0bcb5, 0x391c0cb3, 0x4ed8aa4a, 0x5b9cca4f, 0x682e6ff3,
     0x748f82ee, 0x78a5636f, 0x84c87814, 0x8cc70208, 0x90befffa, 0xa4506ceb, 0xbef9a3f7, 0xc67178f2]"

definition sha256_expand :: "nat \<Rightarrow> u32 list \<Rightarrow> u32 list" where
  "sha256_expand t w = w[t := sigma1_256 (w ! (t - 2)) + w ! (t - 7) + sigma0_256 (w ! (t - 15)) + w ! (t - 16)]"

type_synonym sha256_vars = "u32 \<times> u32 \<times> u32 \<times> u32 \<times> u32 \<times> u32 \<times> u32 \<times> u32"

definition sha256_round :: "u32 list \<Rightarrow> nat \<Rightarrow> sha256_vars \<Rightarrow> sha256_vars" where
  "sha256_round w t = (\<lambda>(a, b, c, d, e, f, g, h).
     let t1 = h + sum1_256 e + Ch256 e f g + sha256_ko ! t + w ! t;
       t2 = sum0_256 a + Maj256 a b c
     in (t1 + t2, a, b, c, d + t1, e, f, g))"

definition sha256_block :: "u32 block" where
  "sha256_block w ctx =
     (if length w < 64 \<or> length ctx < 8 then None
      else
        let w = fold sha256_expand [16..<64] w;
          (a, b, c, d, e, f, g, h) = fold (sha256_round w) [0..<64]
            (ctx ! 0, ctx ! 1, ctx ! 2, ctx ! 3, ctx ! 4, ctx ! 5, ctx ! 6, ctx ! 7)
        in Some (w, [ctx ! 0 + a, ctx ! 1 + b, ctx ! 2 + c, ctx ! 3 + d, ctx ! 4 + e, ctx ! 5 + f, ctx ! 6 + g, ctx ! 7 + h]))"

text \<open>The array \<open>w\<close> is not initialised; \<open>w\<close> is its contents on entry. The bit counter has 32 bits.\<close>

definition sha256_do :: "u32 list \<Rightarrow> u32 list \<Rightarrow> bytes \<Rightarrow> u32 \<Rightarrow> u32 list option" where
  "sha256_do w ctx data32 len = do {
     (offset, bits, w, ctx) \<leftarrow> block_loop (put_bytes be32 words32) sha256_block 64 data32 len 0 (0 :: u32) w ctx;
     last_block (put_bytes be32 words32) sha256_block 64 56 60 56 data32 len offset bits w ctx }"

definition sha256_init :: "u32 list" where
  "sha256_init =
    [0x6a09e667, 0xbb67ae85, 0x3c6ef372, 0xa54ff53a, 0x510e527f, 0x9b05688c, 0x1f83d9ab, 0x5be0cd19]"

definition sha256 :: "u32 list \<Rightarrow> bytes \<Rightarrow> u32 \<Rightarrow> bytes \<Rightarrow> bytes option" where
  "sha256 w data len hash = do {
     h \<leftarrow> sha256_do w sha256_init data len;
     d \<leftarrow> rdn (concat (map be32 h)) 0 32;
     wrn hash 0 d }"

section \<open>Specification: FIPS 180-4\<close>

definition ROTR256 :: "nat \<Rightarrow> u32 \<Rightarrow> u32" where
  "ROTR256 k x = drop_bit k x OR push_bit (32 - k) x"

text \<open>4.1.2: the functions, with exclusive or.\<close>

definition fCh256 :: "u32 \<Rightarrow> u32 \<Rightarrow> u32 \<Rightarrow> u32" where
  "fCh256 x y z = (x AND y) XOR (NOT x AND z)"

definition fMaj256 :: "u32 \<Rightarrow> u32 \<Rightarrow> u32 \<Rightarrow> u32" where
  "fMaj256 x y z = (x AND y) XOR (x AND z) XOR (y AND z)"

definition fS0_256 :: "u32 \<Rightarrow> u32" where
  "fS0_256 x = ROTR256 2 x XOR ROTR256 13 x XOR ROTR256 22 x"

definition fS1_256 :: "u32 \<Rightarrow> u32" where
  "fS1_256 x = ROTR256 6 x XOR ROTR256 11 x XOR ROTR256 25 x"

definition fs0_256 :: "u32 \<Rightarrow> u32" where
  "fs0_256 x = ROTR256 7 x XOR ROTR256 18 x XOR drop_bit 3 x"

definition fs1_256 :: "u32 \<Rightarrow> u32" where
  "fs1_256 x = ROTR256 17 x XOR ROTR256 19 x XOR drop_bit 10 x"

text \<open>6.2.2: the message schedule and the working variables after \<open>t\<close> steps.\<close>

fun schedule256 :: "u32 list \<Rightarrow> nat \<Rightarrow> u32" where
  "schedule256 M t = (if t < 16 then M ! t
     else fs1_256 (schedule256 M (t - 2)) + schedule256 M (t - 7) + fs0_256 (schedule256 M (t - 15)) + schedule256 M (t - 16))"

declare schedule256.simps [simp del]

primrec working256 :: "u32 list \<Rightarrow> u32 list \<Rightarrow> nat \<Rightarrow> sha256_vars" where
  "working256 M H 0 = (H ! 0, H ! 1, H ! 2, H ! 3, H ! 4, H ! 5, H ! 6, H ! 7)"
| "working256 M H (Suc t) = (case working256 M H t of (a, b, c, d, e, f, g, h) \<Rightarrow>
     let t1 = h + fS1_256 e + fCh256 e f g + sha256_ko ! t + schedule256 M t
     in (t1 + (fS0_256 a + fMaj256 a b c), a, b, c, d + t1, e, f, g))"

definition compress256 :: "bytes \<Rightarrow> u32 list \<Rightarrow> u32 list" where
  "compress256 blk H = (case working256 (words32 blk) H 64 of (a, b, c, d, e, f, g, h) \<Rightarrow>
     [a + H ! 0, b + H ! 1, c + H ! 2, d + H ! 3, e + H ! 4, f + H ! 5, g + H ! 6, h + H ! 7])"

definition fips_sha256 :: "bytes \<Rightarrow> bytes" where
  "fips_sha256 m = concat (map be32 (fips_hash 64 (be64 (of_nat (8 * length m))) compress256 sha256_init m))"

section \<open>The code computes the specification\<close>

lemma rotr256_ROTR: "k < 32 \<Longrightarrow> rotr256 x k = ROTR256 k x"
  using rotr_shifts[of k x] by (simp add: rotr256_def ROTR256_def)

lemma funcs256:
  "sum0_256 x = fS0_256 x" "sum1_256 x = fS1_256 x" "sigma0_256 x = fs0_256 x" "sigma1_256 x = fs1_256 x"
  unfolding sum0_256_def sum1_256_def sigma0_256_def sigma1_256_def fS0_256_def fS1_256_def fs0_256_def fs1_256_def
  by (simp_all add: rotr256_ROTR)

lemma Ch256_eq: "Ch256 x y z = fCh256 x y z"
proof -
  have "(0xffffffff :: u32) = NOT 0" by simp
  then show ?thesis unfolding Ch256_def fCh256_def by (simp only:) (rule bit_word_eqI, auto simp: bit_simps)
qed

lemma Maj256_eq: "Maj256 x y z = fMaj256 x y z"
  unfolding Maj256_def fMaj256_def by (rule bit_word_eqI) (auto simp: bit_simps)

lemma expand_fold256:
  assumes "length w = 64" "16 \<le> j" "j \<le> 64"
  shows "length (fold sha256_expand [16..<j] w) = 64 \<and> (\<forall>t<j. fold sha256_expand [16..<j] w ! t = schedule256 (take 16 w) t)"
  using assms(2,3)
proof (induction j rule: nat_induct_at_least)
  case base
  then show ?case using assms(1) by (simp add: schedule256.simps)
next
  case (Suc j)
  let ?w = "fold sha256_expand [16..<j] w"
  have IH: "length ?w = 64" "\<And>t. t < j \<Longrightarrow> ?w ! t = schedule256 (take 16 w) t" using Suc by auto
  have "fold sha256_expand [16..<Suc j] w = sha256_expand j ?w" using Suc.hyps by simp
  moreover have "sha256_expand j ?w = ?w[j := schedule256 (take 16 w) j]"
    using Suc.hyps IH(2) by (subst schedule256.simps) (simp add: sha256_expand_def funcs256)
  ultimately show ?case using IH Suc.prems by (auto simp: less_Suc_eq nth_list_update)
qed

lemma rounds_fold256:
  assumes "\<And>t. t < 64 \<Longrightarrow> w ! t = schedule256 M t" "t \<le> 64"
  shows "fold (sha256_round w) [0..<t] (h ! 0, h ! 1, h ! 2, h ! 3, h ! 4, h ! 5, h ! 6, h ! 7) = working256 M h t"
  using assms(2)
proof (induction t)
  case (Suc t)
  then show ?case
    using assms(1)[of t] unfolding upt_Suc_append[of 0 t, simplified]
    by (simp add: sha256_round_def funcs256 Ch256_eq Maj256_eq Let_def split: prod.split)
qed simp

lemma sha256_block_compress:
  assumes "length w = 64" "length h = 8"
  shows "\<exists>w'. sha256_block w h = Some (w', compress256 (concat (map be32 (take 16 w))) h) \<and> length w' = 64"
proof -
  let ?w = "fold sha256_expand [16..<64] w"
  have w: "length ?w = 64" "\<And>t. t < 64 \<Longrightarrow> ?w ! t = schedule256 (take 16 w) t" using expand_fold256[OF assms(1), of 64] by auto
  obtain a b c d e f g i where r: "working256 (take 16 w) h 64 = (a, b, c, d, e, f, g, i)"
    by (cases "working256 (take 16 w) h 64") auto
  then have "fold (sha256_round ?w) [0..<64] (h ! 0, h ! 1, h ! 2, h ! 3, h ! 4, h ! 5, h ! 6, h ! 7) = (a, b, c, d, e, f, g, i)"
    using rounds_fold256[OF w(2), of 64 h] by simp
  then show ?thesis using assms w(1) r unfolding sha256_block_def Let_def compress256_def words32_be
    by (simp add: add.commute)
qed

interpretation sha256: block_hash be32 words32 4 sha256_block compress256 16 64 8
proof unfold_locales
  show "length (compress256 b h) = 8" for b h by (simp add: compress256_def split: prod.split)
qed (simp_all add: sha256_block_compress)

lemma sha256_do_fips:
  assumes "length w = 64" "length h = 8" "unat len \<le> length data"
  shows "sha256_do w h data len =
    Some (fips_hash 64 (replicate 0 0 @ be64 (ucast (of_nat (unat len * 8) :: u32))) compress256 h (take (unat len) data))"
  unfolding sha256_do_def
  using sha256.hash_whole[OF assms _ _ _ _ _ _ refl, of 64 64 56 0 60, where 'b = 32] by simp

lemma sha256_spec:
  assumes "length w = 64" "unat len \<le> length data" "32 \<le> length hash" "unat len < 2 ^ 29"
  shows "sha256 w data len hash = Some (fips_sha256 (take (unat len) data) @ drop 32 hash)"
proof -
  let ?m = "take (unat len) data"
  have "ucast (of_nat (unat len * 8) :: u32) = (of_nat (8 * length ?m) :: u64)"
    using assms(2,4) by (intro unsigned_word_eqI[where 'a = nat]) (simp add: unsigned_ucast_eq unat_of_nat take_bit_nat_eq_self mult.commute del: of_nat_mult)
  moreover have "length (fips_hash 64 lf compress256 sha256_init ?m) = 8" for lf
    by (rule sha256.fips_hash_len) (simp add: sha256_init_def)
  ultimately show ?thesis using assms(2,3) sha256_do_fips[OF assms(1) _ assms(2), of sha256_init]
    by (simp add: sha256_def fips_sha256_def rdn_def wrn_def sha256_init_def words32.bytes_len del: length_concat of_nat_mult)
qed

lemma length_fips_sha256: "length (fips_sha256 m) = 32"
proof -
  have "length (fips_hash 64 lf compress256 sha256_init m) = 8" for lf by (rule sha256.fips_hash_len) (simp add: sha256_init_def)
  then show ?thesis by (simp add: fips_sha256_def words32.bytes_len del: length_concat)
qed

text \<open>C20: \<open>sha256\<close> is the SHA-256 of FIPS 180-4 for every message of less than 512 MiB, whatever the work array
  held before.\<close>

theorem sha256_fips:
  assumes "length w = 64" "unat len \<le> length data" "32 \<le> length hash" "unat len < 2 ^ 29"
  shows "sha256 w data len hash = Some (fips_sha256 (take (unat len) data) @ drop 32 hash)"
  using assms by (rule sha256_spec)

theorem sha256_fips_witness:
  "sha256 (replicate 64 0) [97, 98, 99] 3 (replicate 32 0) = Some (fips_sha256 [97, 98, 99])"
  using sha256_fips[of "replicate 64 0" 3 "[97, 98, 99]" "replicate 32 0"] by simp

end
