(* ===== verification/Sha512.thy ===== *)
theory Sha512
  imports Sha_Block
begin

text \<open>SHA-384 and SHA-512 (\<open>src/lib/libtpm/sha512.c\<close>) and the equivalence with FIPS 180-4.\<close>

section \<open>Model\<close>

text \<open>The instruction \<open>rotrdi\<close>.\<close>

definition rotr512 :: "u64 \<Rightarrow> nat \<Rightarrow> u64" where
  "rotr512 v k = word_rotr k v"

definition Ch512 :: "u64 \<Rightarrow> u64 \<Rightarrow> u64 \<Rightarrow> u64" where
  "Ch512 x y z = (x AND y) XOR ((x XOR 0xffffffffffffffff) AND z)"

definition Maj512 :: "u64 \<Rightarrow> u64 \<Rightarrow> u64 \<Rightarrow> u64" where
  "Maj512 x y z = (x AND y) XOR (x AND z) XOR (y AND z)"

definition sum0_512 :: "u64 \<Rightarrow> u64" where
  "sum0_512 x = rotr512 x 28 XOR rotr512 x 34 XOR rotr512 x 39"

definition sum1_512 :: "u64 \<Rightarrow> u64" where
  "sum1_512 x = rotr512 x 14 XOR rotr512 x 18 XOR rotr512 x 41"

definition sigma0_512 :: "u64 \<Rightarrow> u64" where
  "sigma0_512 x = rotr512 x 1 XOR rotr512 x 8 XOR drop_bit 7 x"

definition sigma1_512 :: "u64 \<Rightarrow> u64" where
  "sigma1_512 x = rotr512 x 19 XOR rotr512 x 61 XOR drop_bit 6 x"

definition sha512_ko :: "u64 list" where
  "sha512_ko =
    [0x428a2f98d728ae22, 0x7137449123ef65cd, 0xb5c0fbcfec4d3b2f, 0xe9b5dba58189dbbc,
     0x3956c25bf348b538, 0x59f111f1b605d019, 0x923f82a4af194f9b, 0xab1c5ed5da6d8118,
     0xd807aa98a3030242, 0x12835b0145706fbe, 0x243185be4ee4b28c, 0x550c7dc3d5ffb4e2,
     0x72be5d74f27b896f, 0x80deb1fe3b1696b1, 0x9bdc06a725c71235, 0xc19bf174cf692694,
     0xe49b69c19ef14ad2, 0xefbe4786384f25e3, 0x0fc19dc68b8cd5b5, 0x240ca1cc77ac9c65,
     0x2de92c6f592b0275, 0x4a7484aa6ea6e483, 0x5cb0a9dcbd41fbd4, 0x76f988da831153b5,
     0x983e5152ee66dfab, 0xa831c66d2db43210, 0xb00327c898fb213f, 0xbf597fc7beef0ee4,
     0xc6e00bf33da88fc2, 0xd5a79147930aa725, 0x06ca6351e003826f, 0x142929670a0e6e70,
     0x27b70a8546d22ffc, 0x2e1b21385c26c926, 0x4d2c6dfc5ac42aed, 0x53380d139d95b3df,
     0x650a73548baf63de, 0x766a0abb3c77b2a8, 0x81c2c92e47edaee6, 0x92722c851482353b,
     0xa2bfe8a14cf10364, 0xa81a664bbc423001, 0xc24b8b70d0f89791, 0xc76c51a30654be30,
     0xd192e819d6ef5218, 0xd69906245565a910, 0xf40e35855771202a, 0x106aa07032bbd1b8,
     0x19a4c116b8d2d0c8, 0x1e376c085141ab53, 0x2748774cdf8eeb99, 0x34b0bcb5e19b48a8,
     0x391c0cb3c5c95a63, 0x4ed8aa4ae3418acb, 0x5b9cca4f7763e373, 0x682e6ff3d6b2b8a3,
     0x748f82ee5defb2fc, 0x78a5636f43172f60, 0x84c87814a1f0ab72, 0x8cc702081a6439ec,
     0x90befffa23631e28, 0xa4506cebde82bde9, 0xbef9a3f7b2c67915, 0xc67178f2e372532b,
     0xca273eceea26619c, 0xd186b8c721c0c207, 0xeada7dd6cde0eb1e, 0xf57d4f7fee6ed178,
     0x06f067aa72176fba, 0x0a637dc5a2c898a6, 0x113f9804bef90dae, 0x1b710b35131c471b,
     0x28db77f523047d84, 0x32caab7b40c72493, 0x3c9ebe0a15c9bebc, 0x431d67c49c100d4c,
     0x4cc5d4becb3e42b6, 0x597f299cfc657e2a, 0x5fcb6fab3ad6faec, 0x6c44198c4a475817]"

definition sha512_expand :: "nat \<Rightarrow> u64 list \<Rightarrow> u64 list" where
  "sha512_expand t w = w[t := sigma1_512 (w ! (t - 2)) + w ! (t - 7) + sigma0_512 (w ! (t - 15)) + w ! (t - 16)]"

type_synonym sha512_vars = "u64 \<times> u64 \<times> u64 \<times> u64 \<times> u64 \<times> u64 \<times> u64 \<times> u64"

definition sha512_round :: "u64 list \<Rightarrow> nat \<Rightarrow> sha512_vars \<Rightarrow> sha512_vars" where
  "sha512_round w t = (\<lambda>(a, b, c, d, e, f, g, h).
     let t1 = h + sum1_512 e + Ch512 e f g + sha512_ko ! t + w ! t;
       t2 = sum0_512 a + Maj512 a b c
     in (t1 + t2, a, b, c, d + t1, e, f, g))"

definition sha512_block :: "u64 block" where
  "sha512_block w ctx =
     (if length w < 80 \<or> length ctx < 8 then None
      else
        let w = fold sha512_expand [16..<80] w;
          (a, b, c, d, e, f, g, h) = fold (sha512_round w) [0..<80]
            (ctx ! 0, ctx ! 1, ctx ! 2, ctx ! 3, ctx ! 4, ctx ! 5, ctx ! 6, ctx ! 7)
        in Some (w, [ctx ! 0 + a, ctx ! 1 + b, ctx ! 2 + c, ctx ! 3 + d, ctx ! 4 + e, ctx ! 5 + f, ctx ! 6 + g, ctx ! 7 + h]))"

text \<open>The array \<open>w\<close> is not initialised; \<open>w\<close> is its contents on entry.\<close>

definition sha512_do :: "u64 list \<Rightarrow> u64 list \<Rightarrow> bytes \<Rightarrow> u32 \<Rightarrow> u64 list option" where
  "sha512_do w ctx data32 len = do {
     (offset, bits, w, ctx) \<leftarrow> block_loop (put_bytes be64 words64) sha512_block 128 data32 len 0 (0 :: u64) w ctx;
     last_block (put_bytes be64 words64) sha512_block 128 112 128 120 data32 len offset bits w ctx }"

definition sha384_init :: "u64 list" where
  "sha384_init =
    [0xcbbb9d5dc1059ed8, 0x629a292a367cd507, 0x9159015a3070dd17, 0x152fecd8f70e5939,
     0x67332667ffc00b31, 0x8eb44a8768581511, 0xdb0c2e0d64f98fa7, 0x47b5481dbefa4fa4]"

definition sha384 :: "u64 list \<Rightarrow> bytes \<Rightarrow> u32 \<Rightarrow> bytes \<Rightarrow> bytes option" where
  "sha384 w data len hash = do {
     h \<leftarrow> sha512_do w sha384_init data len;
     d \<leftarrow> rdn (concat (map be64 h)) 0 48;
     wrn hash 0 d }"

definition sha512_init :: "u64 list" where
  "sha512_init =
    [0x6a09e667f3bcc908, 0xbb67ae8584caa73b, 0x3c6ef372fe94f82b, 0xa54ff53a5f1d36f1,
     0x510e527fade682d1, 0x9b05688c2b3e6c1f, 0x1f83d9abfb41bd6b, 0x5be0cd19137e2179]"

definition sha512 :: "u64 list \<Rightarrow> bytes \<Rightarrow> u32 \<Rightarrow> bytes \<Rightarrow> bytes option" where
  "sha512 w data len hash = do {
     h \<leftarrow> sha512_do w sha512_init data len;
     d \<leftarrow> rdn (concat (map be64 h)) 0 64;
     wrn hash 0 d }"

section \<open>Specification: FIPS 180-4\<close>

definition ROTR512 :: "nat \<Rightarrow> u64 \<Rightarrow> u64" where
  "ROTR512 k x = drop_bit k x OR push_bit (64 - k) x"

text \<open>4.1.3: the functions, with exclusive or.\<close>

definition fCh512 :: "u64 \<Rightarrow> u64 \<Rightarrow> u64 \<Rightarrow> u64" where
  "fCh512 x y z = (x AND y) XOR (NOT x AND z)"

definition fMaj512 :: "u64 \<Rightarrow> u64 \<Rightarrow> u64 \<Rightarrow> u64" where
  "fMaj512 x y z = (x AND y) XOR (x AND z) XOR (y AND z)"

definition fS0_512 :: "u64 \<Rightarrow> u64" where
  "fS0_512 x = ROTR512 28 x XOR ROTR512 34 x XOR ROTR512 39 x"

definition fS1_512 :: "u64 \<Rightarrow> u64" where
  "fS1_512 x = ROTR512 14 x XOR ROTR512 18 x XOR ROTR512 41 x"

definition fs0_512 :: "u64 \<Rightarrow> u64" where
  "fs0_512 x = ROTR512 1 x XOR ROTR512 8 x XOR drop_bit 7 x"

definition fs1_512 :: "u64 \<Rightarrow> u64" where
  "fs1_512 x = ROTR512 19 x XOR ROTR512 61 x XOR drop_bit 6 x"

text \<open>6.4.2: the message schedule and the working variables after \<open>t\<close> steps.\<close>

fun schedule512 :: "u64 list \<Rightarrow> nat \<Rightarrow> u64" where
  "schedule512 M t = (if t < 16 then M ! t
     else fs1_512 (schedule512 M (t - 2)) + schedule512 M (t - 7) + fs0_512 (schedule512 M (t - 15)) + schedule512 M (t - 16))"

declare schedule512.simps [simp del]

primrec working512 :: "u64 list \<Rightarrow> u64 list \<Rightarrow> nat \<Rightarrow> sha512_vars" where
  "working512 M H 0 = (H ! 0, H ! 1, H ! 2, H ! 3, H ! 4, H ! 5, H ! 6, H ! 7)"
| "working512 M H (Suc t) = (case working512 M H t of (a, b, c, d, e, f, g, h) \<Rightarrow>
     let t1 = h + fS1_512 e + fCh512 e f g + sha512_ko ! t + schedule512 M t
     in (t1 + (fS0_512 a + fMaj512 a b c), a, b, c, d + t1, e, f, g))"

definition compress512 :: "bytes \<Rightarrow> u64 list \<Rightarrow> u64 list" where
  "compress512 blk H = (case working512 (words64 blk) H 80 of (a, b, c, d, e, f, g, h) \<Rightarrow>
     [a + H ! 0, b + H ! 1, c + H ! 2, d + H ! 3, e + H ! 4, f + H ! 5, g + H ! 6, h + H ! 7])"

definition fips_sha384 :: "bytes \<Rightarrow> bytes" where
  "fips_sha384 m = take 48 (concat (map be64 (fips_hash 128 (replicate 8 0 @ be64 (of_nat (8 * length m))) compress512 sha384_init m)))"

definition fips_sha512 :: "bytes \<Rightarrow> bytes" where
  "fips_sha512 m = concat (map be64 (fips_hash 128 (replicate 8 0 @ be64 (of_nat (8 * length m))) compress512 sha512_init m))"

section \<open>The code computes the specification\<close>

lemma rotr512_ROTR: "k < 64 \<Longrightarrow> rotr512 x k = ROTR512 k x"
  using rotr_shifts[of k x] by (simp add: rotr512_def ROTR512_def)

lemma funcs512:
  "sum0_512 x = fS0_512 x" "sum1_512 x = fS1_512 x" "sigma0_512 x = fs0_512 x" "sigma1_512 x = fs1_512 x"
  unfolding sum0_512_def sum1_512_def sigma0_512_def sigma1_512_def fS0_512_def fS1_512_def fs0_512_def fs1_512_def
  by (simp_all add: rotr512_ROTR)

lemma Ch512_eq: "Ch512 x y z = fCh512 x y z"
proof -
  have "(0xffffffffffffffff :: u64) = NOT 0" by simp
  then show ?thesis unfolding Ch512_def fCh512_def by (simp only:) (rule bit_word_eqI, auto simp: bit_simps)
qed

lemma Maj512_eq: "Maj512 x y z = fMaj512 x y z"
  unfolding Maj512_def fMaj512_def by (rule bit_word_eqI) (auto simp: bit_simps)

lemma expand_fold512:
  assumes "length w = 80" "16 \<le> j" "j \<le> 80"
  shows "length (fold sha512_expand [16..<j] w) = 80 \<and> (\<forall>t<j. fold sha512_expand [16..<j] w ! t = schedule512 (take 16 w) t)"
  using assms(2,3)
proof (induction j rule: nat_induct_at_least)
  case base
  then show ?case using assms(1) by (simp add: schedule512.simps)
next
  case (Suc j)
  let ?w = "fold sha512_expand [16..<j] w"
  have IH: "length ?w = 80" "\<And>t. t < j \<Longrightarrow> ?w ! t = schedule512 (take 16 w) t" using Suc by auto
  have "fold sha512_expand [16..<Suc j] w = sha512_expand j ?w" using Suc.hyps by simp
  moreover have "sha512_expand j ?w = ?w[j := schedule512 (take 16 w) j]"
    using Suc.hyps IH(2) by (subst schedule512.simps) (simp add: sha512_expand_def funcs512)
  ultimately show ?case using IH Suc.prems by (auto simp: less_Suc_eq nth_list_update)
qed

lemma rounds_fold512:
  assumes "\<And>t. t < 80 \<Longrightarrow> w ! t = schedule512 M t" "t \<le> 80"
  shows "fold (sha512_round w) [0..<t] (h ! 0, h ! 1, h ! 2, h ! 3, h ! 4, h ! 5, h ! 6, h ! 7) = working512 M h t"
  using assms(2)
proof (induction t)
  case (Suc t)
  then show ?case
    using assms(1)[of t] unfolding upt_Suc_append[of 0 t, simplified]
    by (simp add: sha512_round_def funcs512 Ch512_eq Maj512_eq Let_def split: prod.split)
qed simp

lemma sha512_block_compress:
  assumes "length w = 80" "length h = 8"
  shows "\<exists>w'. sha512_block w h = Some (w', compress512 (concat (map be64 (take 16 w))) h) \<and> length w' = 80"
proof -
  let ?w = "fold sha512_expand [16..<80] w"
  have w: "length ?w = 80" "\<And>t. t < 80 \<Longrightarrow> ?w ! t = schedule512 (take 16 w) t" using expand_fold512[OF assms(1), of 80] by auto
  obtain a b c d e f g i where r: "working512 (take 16 w) h 80 = (a, b, c, d, e, f, g, i)"
    by (cases "working512 (take 16 w) h 80") auto
  then have "fold (sha512_round ?w) [0..<80] (h ! 0, h ! 1, h ! 2, h ! 3, h ! 4, h ! 5, h ! 6, h ! 7) = (a, b, c, d, e, f, g, i)"
    using rounds_fold512[OF w(2), of 80 h] by simp
  then show ?thesis using assms w(1) r unfolding sha512_block_def Let_def compress512_def words64_be
    by (simp add: add.commute)
qed

interpretation sha512: block_hash be64 words64 8 sha512_block compress512 16 80 8
proof unfold_locales
  show "length (compress512 b h) = 8" for b h by (simp add: compress512_def split: prod.split)
qed (simp_all add: sha512_block_compress)

lemma sha512_do_fips:
  assumes "length w = 80" "length h = 8" "unat len \<le> length data"
  shows "sha512_do w h data len =
    Some (fips_hash 128 (replicate 8 0 @ be64 (ucast (of_nat (unat len * 8) :: u64))) compress512 h (take (unat len) data))"
  unfolding sha512_do_def
  using sha512.hash_whole[OF assms _ _ _ _ _ _ refl, of 128 128 112 8 128, where 'b = 64] by simp

lemma fips_hash_512: "length h = 8 \<Longrightarrow> length (fips_hash 128 lf compress512 h m) = 8"
  by (rule sha512.fips_hash_len)

lemma sha512_spec:
  assumes "length w = 80" "unat len \<le> length data" "64 \<le> length hash"
  shows "sha512 w data len hash = Some (fips_sha512 (take (unat len) data) @ drop 64 hash)"
  using assms(2,3) sha512_do_fips[OF assms(1) _ assms(2), of sha512_init] fips_hash_512[of sha512_init]
  by (simp add: sha512_def fips_sha512_def rdn_def wrn_def sha512_init_def words64.bytes_len mult.commute del: length_concat)

lemma sha384_spec:
  assumes "length w = 80" "unat len \<le> length data" "48 \<le> length hash"
  shows "sha384 w data len hash = Some (fips_sha384 (take (unat len) data) @ drop 48 hash)"
  using assms(2,3) sha512_do_fips[OF assms(1) _ assms(2), of sha384_init] fips_hash_512[of sha384_init]
  by (simp add: sha384_def fips_sha384_def rdn_def wrn_def sha384_init_def words64.bytes_len mult.commute del: length_concat)

lemma length_fips_sha512: "length (fips_sha512 m) = 64" "length (fips_sha384 m) = 48"
  using fips_hash_512[of sha512_init] fips_hash_512[of sha384_init]
  by (simp_all add: fips_sha512_def fips_sha384_def sha512_init_def sha384_init_def words64.bytes_len del: length_concat)

text \<open>C21: \<open>sha512\<close> and \<open>sha384\<close> are the hash functions of FIPS 180-4 for every message whose length fits the length
  argument, whatever the work array held before.\<close>

theorem sha512_fips:
  assumes "length w = 80" "unat len \<le> length data" "64 \<le> length hash"
  shows "sha512 w data len hash = Some (fips_sha512 (take (unat len) data) @ drop 64 hash) \<and>
    sha384 w data len hash = Some (fips_sha384 (take (unat len) data) @ drop 48 hash)"
  using assms sha512_spec sha384_spec by simp

theorem sha512_fips_witness:
  "sha512 (replicate 80 0) [97, 98, 99] 3 (replicate 64 1) = Some (fips_sha512 [97, 98, 99]) \<and>
    sha384 (replicate 80 0) [97, 98, 99] 3 (replicate 64 1) = Some (fips_sha384 [97, 98, 99] @ replicate 16 1)"
  using sha512_fips[of "replicate 80 0" 3 "[97, 98, 99]" "replicate 64 1"] by simp

end
