(* ===== verification/Sha_Constants.thy ===== *)
theory Sha_Constants
  imports Sha1 Sha256 Sha512
begin

text \<open>The tables of the hash functions, checked against their definition in FIPS 180-4: fractional parts of
  square and cube roots of the first primes.\<close>

text \<open>\<open>k\<close> is the largest integer not above \<open>2 ^ b\<close> times the \<open>d\<close>-th root of \<open>p\<close>; and \<open>k\<close> is the first \<open>b\<close> bits of
  the fractional part of the root.\<close>

definition root_floor :: "nat \<Rightarrow> nat \<Rightarrow> nat \<Rightarrow> nat \<Rightarrow> bool" where
  "root_floor d b p k \<longleftrightarrow> k ^ d \<le> p * 2 ^ (d * b) \<and> p * 2 ^ (d * b) < (k + 1) ^ d"

definition root_fraction :: "nat \<Rightarrow> nat \<Rightarrow> nat \<Rightarrow> nat \<Rightarrow> bool" where
  "root_fraction d b p k \<longleftrightarrow> k < 2 ^ b \<and> (\<exists>i. root_floor d b p (i * 2 ^ b + k))"

text \<open>The first eighty primes.\<close>

definition first_primes :: "nat list" where
  "first_primes =
    [2, 3, 5, 7, 11, 13, 17, 19, 23, 29, 31, 37, 41, 43, 47, 53, 59, 61, 67, 71,
     73, 79, 83, 89, 97, 101, 103, 107, 109, 113, 127, 131, 137, 139, 149, 151, 157, 163, 167, 173,
     179, 181, 191, 193, 197, 199, 211, 223, 227, 229, 233, 239, 241, 251, 257, 263, 269, 271, 277, 281,
     283, 293, 307, 311, 313, 317, 331, 337, 347, 349, 353, 359, 367, 373, 379, 383, 389, 397, 401, 409]"

lemma root_fractionsI:
  assumes "length is = length ks" "length ps = length ks"
    and "list_all (\<lambda>(i, p, k). k < 2 ^ b \<and> root_floor d b p (i * 2 ^ b + k)) (zip is (zip ps ks))"
  shows "list_all2 (root_fraction d b) ps ks"
  unfolding list_all2_conv_all_nth
proof (intro conjI allI impI)
  fix j
  assume "j < length ps"
  then have "(is ! j, ps ! j, ks ! j) \<in> set (zip is (zip ps ks))" using assms(1,2) by (auto simp: set_zip)
  then show "root_fraction d b (ps ! j) (ks ! j)" using assms(3) by (auto simp: list_all_iff root_fraction_def)
qed (use assms in simp)

lemma sha256_ko_roots: "list_all2 (root_fraction 3 32) (take 64 first_primes) (map unat sha256_ko)"
  by (rule root_fractionsI[of "[1, 1, 1, 1, 2, 2, 2, 2, 2, 3, 3, 3, 3, 3, 3, 3, 3, 3, 4, 4, 4, 4, 4, 4, 4, 4, 4, 4, 4, 4, 5, 5, 5, 5, 5, 5, 5, 5, 5, 5, 5, 5, 5, 5, 5, 5, 5, 6, 6, 6, 6, 6, 6, 6, 6, 6, 6, 6, 6, 6, 6, 6, 6, 6]"]) (simp_all add: first_primes_def sha256_ko_def root_floor_def)

lemma sha512_ko_roots: "list_all2 (root_fraction 3 64) (first_primes) (map unat sha512_ko)"
  by (rule root_fractionsI[of "[1, 1, 1, 1, 2, 2, 2, 2, 2, 3, 3, 3, 3, 3, 3, 3, 3, 3, 4, 4, 4, 4, 4, 4, 4, 4, 4, 4, 4, 4, 5, 5, 5, 5, 5, 5, 5, 5, 5, 5, 5, 5, 5, 5, 5, 5, 5, 6, 6, 6, 6, 6, 6, 6, 6, 6, 6, 6, 6, 6, 6, 6, 6, 6, 6, 6, 6, 6, 7, 7, 7, 7, 7, 7, 7, 7, 7, 7, 7, 7]"]) (simp_all add: first_primes_def sha512_ko_def root_floor_def)

lemma sha256_init_roots: "list_all2 (root_fraction 2 32) (take 8 first_primes) (map unat sha256_init)"
  by (rule root_fractionsI[of "[1, 1, 2, 2, 3, 3, 4, 4]"]) (simp_all add: first_primes_def sha256_init_def root_floor_def)

lemma sha512_init_roots: "list_all2 (root_fraction 2 64) (take 8 first_primes) (map unat sha512_init)"
  by (rule root_fractionsI[of "[1, 1, 2, 2, 3, 3, 4, 4]"]) (simp_all add: first_primes_def sha512_init_def root_floor_def)

lemma sha384_init_roots: "list_all2 (root_fraction 2 64) (take 8 (drop 8 first_primes)) (map unat sha384_init)"
  by (rule root_fractionsI[of "[4, 5, 5, 6, 6, 6, 6, 7]"]) (simp_all add: first_primes_def sha384_init_def root_floor_def)

text \<open>C23: The tables have no typing error: the round constants of SHA-256 and SHA-512 are the fractional parts of
  the cube roots of the first 64 and 80 primes, the initial values of SHA-256, SHA-512 and SHA-384 those of
  the square roots of the first eight and the next eight primes, and the constants of SHA-1 are the square
  roots of 2, 3, 5 and 10 scaled by \<open>2 ^ 30\<close>.\<close>

theorem sha_constants:
  "list_all2 (root_fraction 3 32) (take 64 first_primes) (map unat sha256_ko) \<and>
   list_all2 (root_fraction 3 64) first_primes (map unat sha512_ko) \<and>
   list_all2 (root_fraction 2 32) (take 8 first_primes) (map unat sha256_init) \<and>
   list_all2 (root_fraction 2 64) (take 8 first_primes) (map unat sha512_init) \<and>
   list_all2 (root_fraction 2 64) (take 8 (drop 8 first_primes)) (map unat sha384_init) \<and>
   list_all2 (root_floor 2 30) [2, 3, 5, 10] (map unat sha1_ko)"
  by (intro conjI sha256_ko_roots sha512_ko_roots sha256_init_roots sha512_init_roots sha384_init_roots)
    (simp add: sha1_ko_def root_floor_def)

end
