(* ===== verification/Net_State.thy ===== *)
theory Net_State
  imports Libc_String
begin

text \<open>The shared state of the network stack in \<open>src/lib/libnet\<close> and the Ethernet layer
  (\<open>ethernet.c\<close>, the static variables of \<open>ipv4.c\<close>). The socket is the list of results that \<open>recv\<close> will
  deliver and the list of frames given to \<open>send\<close>; what \<open>send\<close> returns is a parameter. The type variable
  holds the state of the application protocols.\<close>

datatype rx_event = No_packet | Rx_error | Frame bytes

record arp_entry =
  ipv4_addr :: u32
  mac_addr :: bytes
  eth_frame :: bytes
  eth_len :: int
  pkt_pending :: int

record 'a net =
  own_ip :: u32
  multicast_ip :: u32
  router_ip :: u32
  subnet_mask :: u32
  ping_dst_ip :: u32
  multicast_mac :: bytes
  arp_consumer :: nat
  arp_producer :: nat
  arp_table :: "arp_entry list"
  pending_pkt_frame :: bytes
  pending_pkt_len :: int
  ip_heap :: bytes
  own_mac :: bytes
  ether_packet :: bytes
  rx :: "rx_event list"
  tx :: "bytes list"
  polls :: "nat list"
  app :: 'a

text \<open>A packet handler gets the packet object from the header on and the packet size; \<open>send_ip\<close> may change
  the buffer it is given.\<close>

type_synonym 'a handler = "'a net \<Rightarrow> bytes \<Rightarrow> int \<Rightarrow> (int \<times> 'a net) option"
type_synonym 'a sender = "'a net \<Rightarrow> bytes \<Rightarrow> int \<Rightarrow> (int \<times> bytes \<times> 'a net) option"

abbreviation (input) ETH_MTU_SIZE :: nat where
  "ETH_MTU_SIZE \<equiv> 1518"

definition broadcast_mac :: bytes where
  "broadcast_mac = replicate 6 255"

definition null_mac_addr :: bytes where
  "null_mac_addr = replicate 6 0"

text \<open>The static initialisation, for given application state.\<close>

definition net_start :: "'a \<Rightarrow> 'a net" where
  "net_start a = \<lparr>own_ip = 0, multicast_ip = 0, router_ip = 0, subnet_mask = 0, ping_dst_ip = 0,
     multicast_mac = replicate 6 255, arp_consumer = 0, arp_producer = 0,
     arp_table = replicate 10 \<lparr>ipv4_addr = 0, mac_addr = replicate 6 0,
       eth_frame = replicate ETH_MTU_SIZE 0, eth_len = 0, pkt_pending = 0\<rparr>,
     pending_pkt_frame = replicate ETH_MTU_SIZE 0, pending_pkt_len = 0,
     ip_heap = replicate (65536 + ETH_MTU_SIZE) 0, own_mac = replicate 6 0,
     ether_packet = replicate ETH_MTU_SIZE 0, rx = [], tx = [], polls = [], app = a\<rparr>"

section \<open>Ethernet\<close>

definition set_mac_address :: "bytes option \<Rightarrow> 'a net \<Rightarrow> 'a net option" where
  "set_mac_address mac st =
     (case mac of Some m \<Rightarrow> do { a \<leftarrow> memcpy (own_mac st) m 6; Some (st\<lparr>own_mac := a\<rparr>) }
      | None \<Rightarrow> do { a \<leftarrow> memset (own_mac st) 0 6; Some (st\<lparr>own_mac := a\<rparr>) })"

definition get_mac_address :: "'a net \<Rightarrow> bytes" where
  "get_mac_address st = own_mac st"

definition is_multicast_mac :: "bytes \<Rightarrow> bool option" where
  "is_multicast_mac mac = do { r \<leftarrow> memcmp mac [0x33, 0x33] 2; Some (r = 0) }"

definition send_ether :: "(bytes \<Rightarrow> int) \<Rightarrow> 'a net \<Rightarrow> bytes \<Rightarrow> int \<Rightarrow> (int \<times> 'a net) option" where
  "send_ether io st buffer len =
     (if len < 0 then None
      else do { f \<leftarrow> rdn buffer 0 (nat len); Some (io f, st\<lparr>tx := tx st @ [f]\<rparr>) })"

definition fill_ethhdr :: "bytes \<Rightarrow> u16 \<Rightarrow> bytes \<Rightarrow> bytes \<Rightarrow> bytes option" where
  "fill_ethhdr packet eth_type src_mac dest_mac = do {
     packet \<leftarrow> wr16 packet 12 eth_type;
     s \<leftarrow> rdn src_mac 0 6;
     packet \<leftarrow> wrn packet 6 s;
     d \<leftarrow> rdn dest_mac 0 6;
     wrn packet 0 d }"

text \<open>\<open>recv\<close> into the zeroed \<open>ether_packet\<close>: the number of bytes received and the new state.\<close>

definition recv_packet :: "'a net \<Rightarrow> int \<times> 'a net" where
  "recv_packet st = (let buf = replicate ETH_MTU_SIZE 0 in
     case rx st of
       [] \<Rightarrow> (0, st\<lparr>ether_packet := buf\<rparr>)
     | No_packet # r \<Rightarrow> (0, st\<lparr>ether_packet := buf, rx := r\<rparr>)
     | Rx_error # r \<Rightarrow> (-1, st\<lparr>ether_packet := buf, rx := r\<rparr>)
     | Frame f # r \<Rightarrow>
         let d = take ETH_MTU_SIZE f
         in (int (length d), st\<lparr>ether_packet := d @ drop (length d) buf, rx := r\<rparr>))"

definition receive_ether_body ::
    "'a handler \<Rightarrow> 'a handler \<Rightarrow> 'a handler \<Rightarrow> 'a net \<Rightarrow> (int \<times> 'a net) option" where
  "receive_ether_body handle_ipv4 handle_ipv6 handle_arp st =
     (let (bytes_received, st) = recv_packet st in
      if bytes_received = 0 then Some (0, st)
      else if bytes_received < 0 then Some (-1, st)
      else if bytes_received < 14 then Some (-1, st)
      else do {
        let p = ether_packet st;
        b \<leftarrow> memcmp p broadcast_mac 6;
        m \<leftarrow> memcmp p [0x01, 0x00, 0x5E] 3;
        u \<leftarrow> memcmp p (own_mac st) 6;
        mm \<leftarrow> is_multicast_mac p;
        if b \<noteq> 0 \<and> m \<noteq> 0 \<and> u \<noteq> 0 \<and> \<not> mm then Some (-1, st)
        else do {
          ty \<leftarrow> rd16 p 12;
          if ty = 0x0800 then handle_ipv4 st (drop 14 p) (bytes_received - 14)
          else if ty = 0x86DD then handle_ipv6 st (drop 14 p) (bytes_received - 14)
          else if ty = 0x0806 then handle_arp st (drop 14 p) (bytes_received - 14)
          else Some (-1, st) } })"

end
