(* ===== verification/Net_Ipv4.thy ===== *)
theory Net_Ipv4
  imports Net_State
begin

text \<open>The IPv4 layer of \<open>src/lib/libnet/ipv4.c\<close> with ARP and ICMP, the UDP dispatcher of \<open>udp.c\<close> and the
  TCP stubs of \<open>tcp.c\<close>. An IP header is overlaid on the packet bytes: length at 2, identification at 4,
  fragment field at 6, protocol at 9, checksum at 10, source at 12, destination at 16, 20 bytes in all.
  \<open>send_ipv4\<close> waits for an ARP reply by calling \<open>receive_ether\<close>, which may answer a packet by calling
  \<open>send_ipv4\<close>: the functions below take the other side of this recursion as an argument and
  \<open>receive_ether\<close> ties the knot with fuel.\<close>

section \<open>Configuration\<close>

definition clear_entry :: "arp_entry \<Rightarrow> arp_entry option" where
  "clear_entry e = do {
     m \<leftarrow> memset (mac_addr e) 0 6;
     Some (e\<lparr>ipv4_addr := 0, mac_addr := m, eth_len := 0, pkt_pending := 0\<rparr>) }"

fun clear_table :: "arp_entry list \<Rightarrow> arp_entry list option" where
  "clear_table [] = Some []"
| "clear_table (e # es) = do { e \<leftarrow> clear_entry e; es \<leftarrow> clear_table es; Some (e # es) }"

definition ipv4_init :: "'a net \<Rightarrow> 'a net option" where
  "ipv4_init st = do {
     t \<leftarrow> clear_table (arp_table st);
     Some (st\<lparr>ping_dst_ip := 0, arp_consumer := 0, arp_producer := 0, arp_table := t\<rparr>) }"

definition set_ipv4_address :: "u32 \<Rightarrow> 'a net \<Rightarrow> 'a net option" where
  "set_ipv4_address ip st = ipv4_init (st\<lparr>own_ip := ip\<rparr>)"

definition get_ipv4_address :: "'a net \<Rightarrow> u32" where
  "get_ipv4_address st = own_ip st"

definition set_ipv4_multicast :: "u32 \<Rightarrow> 'a net \<Rightarrow> 'a net" where
  "set_ipv4_multicast ip st =
     (if ip < 0xE0000000 \<or> 0xEFFFFFFF < ip
      then st\<lparr>multicast_ip := 0, multicast_mac := replicate 6 255\<rparr>
      else st\<lparr>multicast_ip := ip,
              multicast_mac := [0x01, 0x00, 0x5E, ucast (0x7F AND drop_bit 16 ip),
                                ucast (0xFF AND drop_bit 8 ip), ucast (0xFF AND ip)]\<rparr>)"

definition get_ipv4_multicast :: "'a net \<Rightarrow> u32" where
  "get_ipv4_multicast st = multicast_ip st"

definition set_ipv4_router :: "u32 \<Rightarrow> 'a net \<Rightarrow> 'a net option" where
  "set_ipv4_router ip st = ipv4_init (st\<lparr>router_ip := ip\<rparr>)"

definition get_ipv4_router :: "'a net \<Rightarrow> u32" where
  "get_ipv4_router st = router_ip st"

definition set_ipv4_netmask :: "u32 \<Rightarrow> 'a net \<Rightarrow> 'a net option" where
  "set_ipv4_netmask nm st = ipv4_init (st\<lparr>subnet_mask := nm\<rparr>)"

definition get_ipv4_netmask :: "'a net \<Rightarrow> u32" where
  "get_ipv4_netmask st = subnet_mask st"

definition get_default_ipv4_netmask :: "bytes \<Rightarrow> u32 option" where
  "get_default_ipv4_netmask ip_addr = do {
     top \<leftarrow> rd8 ip_addr 0;
     Some (if 0 < top \<and> top < 128 then 0xFF000000
           else if 128 \<le> top \<and> top < 192 then 0xFFFF0000
           else if 192 \<le> top \<and> top < 224 then 0xFFFFFF00
           else 0) }"

section \<open>Headers and checksums\<close>

definition fill_iphdr :: "bytes \<Rightarrow> u16 \<Rightarrow> u8 \<Rightarrow> u32 \<Rightarrow> u32 \<Rightarrow> bytes option" where
  "fill_iphdr p packetsize ip_proto ip_src ip_dst = do {
     p \<leftarrow> wr8 p 0 0x45;
     p \<leftarrow> wr8 p 1 0x10;
     p \<leftarrow> wr16 p 2 packetsize;
     p \<leftarrow> wr16 p 4 0;
     p \<leftarrow> wr16 p 6 0;
     p \<leftarrow> wr8 p 8 0xFF;
     p \<leftarrow> wr8 p 9 ip_proto;
     p \<leftarrow> wr32 p 12 ip_src;
     p \<leftarrow> wr32 p 16 ip_dst;
     wr16 p 10 0 }"

definition fill_udphdr :: "bytes \<Rightarrow> u16 \<Rightarrow> u16 \<Rightarrow> u16 \<Rightarrow> bytes option" where
  "fill_udphdr p packetsize src_port dest_port = do {
     p \<leftarrow> wr16 p 0 src_port;
     p \<leftarrow> wr16 p 2 dest_port;
     p \<leftarrow> wr16 p 4 packetsize;
     wr16 p 6 0 }"

text \<open>The sum of \<open>n\<close> 16-bit words from offset \<open>i\<close>, in an \<open>unsigned long\<close>.\<close>

fun sum16 :: "bytes \<Rightarrow> nat \<Rightarrow> nat \<Rightarrow> u64 \<Rightarrow> u64 option" where
  "sum16 p i 0 acc = Some acc"
| "sum16 p i (Suc n) acc = do { w \<leftarrow> rd16 p i; sum16 p (i + 2) n (acc + ucast w) }"

definition fold_sum :: "u64 \<Rightarrow> u64" where
  "fold_sum c = (let c = drop_bit 16 c + (c AND 0xffff) in c + drop_bit 16 c)"

definition checksum :: "bytes \<Rightarrow> nat \<Rightarrow> u16 option" where
  "checksum p words = do { c \<leftarrow> sum16 p 0 words 0; Some (NOT (ucast (fold_sum c))) }"

text \<open>The pseudo header of the UDP checksum: the IP header with only addresses, length and protocol. The
  packet \<open>p\<close> starts with the IP header.\<close>

definition pseudo_header :: "u32 \<Rightarrow> u32 \<Rightarrow> u16 \<Rightarrow> u8 \<Rightarrow> bytes" where
  "pseudo_header src dst len proto =
     [0, 0, hi8 len, lo8 len, 0, 0, 0, 0, 0, proto, 0, 0] @ be32 src @ be32 dst"

definition fill_udp_checksum :: "bytes \<Rightarrow> bytes option" where
  "fill_udp_checksum p = do {
     p \<leftarrow> wr16 p 26 0;
     src \<leftarrow> rd32 p 12;
     dst \<leftarrow> rd32 p 16;
     ulen \<leftarrow> rd16 p 24;
     proto \<leftarrow> rd8 p 9;
     c \<leftarrow> sum16 p 20 ((unat ulen + 1) div 2) 0;
     c \<leftarrow> sum16 (pseudo_header src dst ulen proto) 0 10 c;
     let sum = NOT (ucast (fold_sum c) :: u16);
     wr16 p 26 (if sum = 0 then NOT sum else sum) }"

section \<open>ARP\<close>

text \<open>Search in the ring from \<open>i\<close> to the producer: the index where the loop ends. Indices stay below the
  table size 10.\<close>

partial_function (option) ring_search :: "arp_entry list \<Rightarrow> nat \<Rightarrow> u32 \<Rightarrow> nat \<Rightarrow> nat option" where
  "ring_search t producer ip i =
     (if i = producer then Some i
      else if length t \<le> i then None
      else if ipv4_addr (t ! i) = ip then Some i
      else ring_search t producer ip ((i + 1) mod 10))"

declare ring_search.simps [code]

definition lookup_mac_addr :: "'a net \<Rightarrow> u32 \<Rightarrow> nat option option" where
  "lookup_mac_addr st ip = do {
     i \<leftarrow> ring_search (arp_table st) (arp_producer st) ip (arp_consumer st);
     Some (if i = arp_producer st then None else Some i) }"

definition arp_entry_at :: "'a net \<Rightarrow> nat \<Rightarrow> arp_entry option" where
  "arp_entry_at st i = (if i < length (arp_table st) then Some (arp_table st ! i) else None)"

definition set_entry :: "nat \<Rightarrow> arp_entry \<Rightarrow> 'a net \<Rightarrow> 'a net" where
  "set_entry i e st = st\<lparr>arp_table := (arp_table st)[i := e]\<rparr>"

text \<open>The ARP message is placed at offset \<open>k\<close> of the frame.\<close>

definition fill_arphdr ::
    "bytes \<Rightarrow> nat \<Rightarrow> u8 \<Rightarrow> bytes \<Rightarrow> u32 \<Rightarrow> bytes \<Rightarrow> u32 \<Rightarrow> bytes option" where
  "fill_arphdr p k opcode src_mac src_ip dest_mac dest_ip = do {
     p \<leftarrow> wr16 p k 1;
     p \<leftarrow> wr16 p (k + 2) 0x0800;
     p \<leftarrow> wr8 p (k + 4) 6;
     p \<leftarrow> wr8 p (k + 5) 4;
     p \<leftarrow> wr16 p (k + 6) (ucast opcode);
     s \<leftarrow> rdn src_mac 0 6;
     p \<leftarrow> wrn p (k + 8) s;
     p \<leftarrow> wr32 p (k + 14) src_ip;
     d \<leftarrow> rdn dest_mac 0 6;
     p \<leftarrow> wrn p (k + 18) d;
     wr32 p (k + 24) dest_ip }"

definition arp_send_request :: "(bytes \<Rightarrow> int) \<Rightarrow> 'a net \<Rightarrow> u32 \<Rightarrow> 'a net option" where
  "arp_send_request io st dest_ip = do {
     e \<leftarrow> arp_entry_at st (arp_producer st);
     f \<leftarrow> memset (eth_frame e) 0 42;
     f \<leftarrow> fill_arphdr f 14 1 (own_mac st) (own_ip st) broadcast_mac dest_ip;
     f \<leftarrow> fill_ethhdr f 0x0806 (own_mac st) broadcast_mac;
     (_, st) \<leftarrow> send_ether io (set_entry (arp_producer st) (e\<lparr>eth_frame := f\<rparr>) st) f 42;
     Some st }"

definition arp_send_reply :: "(bytes \<Rightarrow> int) \<Rightarrow> 'a net \<Rightarrow> u32 \<Rightarrow> bytes \<Rightarrow> 'a net option" where
  "arp_send_reply io st src_ip src_mac = do {
     e \<leftarrow> arp_entry_at st (arp_producer st);
     f \<leftarrow> memset (eth_frame e) 0 42;
     f \<leftarrow> fill_ethhdr f 0x0806 (own_mac st) src_mac;
     f \<leftarrow> fill_arphdr f 14 2 (own_mac st) (own_ip st) src_mac src_ip;
     (_, st) \<leftarrow> send_ether io (set_entry (arp_producer st) (e\<lparr>eth_frame := f\<rparr>) st) f 42;
     Some st }"

text \<open>The branch \<open>ARP_REPLY\<close> of \<open>handle_arp\<close>.\<close>

definition arp_reply :: "(bytes \<Rightarrow> int) \<Rightarrow> 'a net \<Rightarrow> bytes \<Rightarrow> u32 \<Rightarrow> bytes \<Rightarrow> (int \<times> 'a net) option" where
  "arp_reply io st src_mac src_ip dest_mac = do {
     c \<leftarrow> memcmp (own_mac st) dest_mac 6;
     if c \<noteq> 0 then Some (0, st)
     else if src_ip = 0 then Some (-1, st)
     else do {
       i \<leftarrow> ring_search (arp_table st) (arp_producer st) src_ip (arp_consumer st);
       if i = arp_producer st then Some (-1, st)
       else do {
         e \<leftarrow> arp_entry_at st i;
         known \<leftarrow> memcmp (mac_addr e) null_mac_addr 6;
         if known \<noteq> 0 then Some (-1, st)
         else do {
           m \<leftarrow> memcpy (mac_addr e) src_mac 6;
           let st = set_entry i (e\<lparr>mac_addr := m\<rparr>) st;
           if pkt_pending e \<noteq> 0
           then do {
             d \<leftarrow> rdn m 0 6;
             f \<leftarrow> wrn (pending_pkt_frame st) 0 d;
             (_, st) \<leftarrow> send_ether io (st\<lparr>pending_pkt_frame := f\<rparr>) f (pending_pkt_len st);
             Some (0, set_entry i (e\<lparr>mac_addr := m, pkt_pending := 0, eth_len := 0\<rparr>) st) }
           else Some (0, st) } } } }"

definition handle_arp :: "(bytes \<Rightarrow> int) \<Rightarrow> 'a handler" where
  "handle_arp io st p packetsize =
     (if packetsize < 28 then Some (-1, st)
      else do {
        hw_type \<leftarrow> rd16 p 0;
        proto_type \<leftarrow> rd16 p 2;
        if hw_type \<noteq> 1 \<or> proto_type \<noteq> 0x0800 then Some (-1, st)
        else do {
          dest_ip \<leftarrow> rd32 p 24;
          if dest_ip \<noteq> own_ip st then Some (-1, st)
          else do {
            opcode \<leftarrow> rd16 p 6;
            src_mac \<leftarrow> rdn p 8 6;
            src_ip \<leftarrow> rd32 p 14;
            if opcode = 1
            then if own_ip st \<noteq> 0
              then do { st \<leftarrow> arp_send_reply io st src_ip src_mac; Some (0, st) }
              else Some (0, st)
            else if opcode = 2
            then do { dest_mac \<leftarrow> rdn p 18 6; arp_reply io st src_mac src_ip dest_mac }
            else Some (-1, st) } } })"

section \<open>Sending\<close>

text \<open>The wait for the ARP reply: \<open>k\<close> more rounds until the timer has run down.\<close>

fun wait_reply :: "('a net \<Rightarrow> (int \<times> 'a net) option) \<Rightarrow> nat \<Rightarrow> nat \<Rightarrow> 'a net \<Rightarrow> 'a net option" where
  "wait_reply recv_ether i k st = do {
     (_, st) \<leftarrow> recv_ether st;
     e \<leftarrow> arp_entry_at st i;
     if eth_len e = 0 then Some st
     else (case k of 0 \<Rightarrow> Some st | Suc k \<Rightarrow> wait_reply recv_ether i k st) }"

declare wait_reply.simps [simp del]

text \<open>\<open>set_timer\<close>: the number of rounds this timer allows.\<close>

definition set_timer :: "'a net \<Rightarrow> nat \<times> 'a net" where
  "set_timer st = (case polls st of [] \<Rightarrow> (0, st) | k # r \<Rightarrow> (k, st\<lparr>polls := r\<rparr>))"

text \<open>The patched packet: addresses, IP checksum and UDP checksum.\<close>

definition patch_packet :: "'a net \<Rightarrow> bytes \<Rightarrow> bytes option" where
  "patch_packet st p = do {
     src \<leftarrow> rd32 p 12;
     p \<leftarrow> (if src = 0 then wr32 p 12 (own_ip st)
          else if src = 1 then do { p \<leftarrow> wr32 p 12 (own_ip st); wr32 p 16 (multicast_ip st) }
          else Some p);
     p \<leftarrow> wr16 p 10 0;
     c \<leftarrow> checksum p 10;
     p \<leftarrow> wr16 p 10 c;
     proto \<leftarrow> rd8 p 9;
     if proto = 17 then fill_udp_checksum p else Some p }"

text \<open>The choice of the ARP entry and the MAC address: entry index, MAC address and the address to resolve.\<close>

definition route :: "'a net \<Rightarrow> u32 \<Rightarrow> (nat option \<times> bytes option \<times> u32) option" where
  "route st dst = (let nm = subnet_mask st in
     if NOT dst = 0 \<or> (NOT nm AND dst = NOT nm \<and> nm AND dst = nm AND own_ip st)
     then Some (Some (arp_producer st), Some broadcast_mac, dst)
     else if dst = multicast_ip st
     then Some (Some (arp_producer st), Some (multicast_mac st), dst)
     else do {
       let ip_dst = (if nm AND own_ip st = nm AND dst then dst else router_ip st);
       r \<leftarrow> lookup_mac_addr st ip_dst;
       case r of None \<Rightarrow> Some (None, None, ip_dst)
       | Some i \<Rightarrow> do {
           e \<leftarrow> arp_entry_at st i;
           c \<leftarrow> memcmp (mac_addr e) null_mac_addr 6;
           Some (Some i, if c \<noteq> 0 then Some (mac_addr e) else None, ip_dst) } })"

definition store_pending :: "'a net \<Rightarrow> bytes \<Rightarrow> int \<Rightarrow> u32 \<Rightarrow> (nat \<times> 'a net) option" where
  "store_pending st buffer len ip_dst = do {
     let i = arp_producer st;
     let prod = (i + 1) mod 10;
     let cons = (if arp_consumer st = prod then (arp_consumer st + 1) mod 10 else arp_consumer st);
     e \<leftarrow> arp_entry_at st i;
     m \<leftarrow> memset (mac_addr e) 0 6;
     f \<leftarrow> fill_ethhdr (pending_pkt_frame st) 0x0800 (own_mac st) null_mac_addr;
     d \<leftarrow> rdn buffer 0 (nat (u64_of len));
     f \<leftarrow> wrn f 14 d;
     Some (i, set_entry i (e\<lparr>pkt_pending := 1, ipv4_addr := ip_dst, mac_addr := m\<rparr>)
       (st\<lparr>arp_producer := prod, arp_consumer := cons, pending_pkt_frame := f,
          pending_pkt_len := s32_of (len + 14)\<rparr>)) }"

definition send_ipv4 :: "(bytes \<Rightarrow> int) \<Rightarrow> ('a net \<Rightarrow> (int \<times> 'a net) option) \<Rightarrow> 'a sender" where
  "send_ipv4 io recv_ether st buffer len =
     (if 1518 < u64_of (len + 14) then Some (-1, buffer, st)
      else do {
        buffer \<leftarrow> patch_packet st buffer;
        dst \<leftarrow> rd32 buffer 16;
        (entry, mac, ip_dst) \<leftarrow> route st dst;
        case mac of
          None \<Rightarrow> do {
            st \<leftarrow> arp_send_request io st ip_dst;
            if entry \<noteq> None then Some (-2, buffer, st)
            else do {
              (i, st) \<leftarrow> store_pending st buffer len ip_dst;
              let (k, st) = set_timer st;
              st \<leftarrow> wait_reply recv_ether i k st;
              Some (0, buffer, st) } }
        | Some m \<Rightarrow> do {
            let i = the entry;
            e \<leftarrow> arp_entry_at st i;
            f \<leftarrow> fill_ethhdr (eth_frame e) 0x0800 (own_mac st) m;
            d \<leftarrow> rdn buffer 0 (nat (u64_of len));
            f \<leftarrow> wrn f 14 d;
            (r, st) \<leftarrow> send_ether io (set_entry i (e\<lparr>eth_frame := f\<rparr>) st) f (s32_of (len + 14));
            Some (r, buffer, st) } })"

section \<open>Receiving\<close>

text \<open>The protocols above UDP, IPv6 and the effect of a destination-unreachable message on TFTP.\<close>

record 'a upper =
  up_dhcp :: "'a sender \<Rightarrow> 'a handler"
  up_dns :: "'a handler"
  up_dhcpv6 :: "'a handler"
  up_tftp :: "'a sender \<Rightarrow> 'a handler"
  up_tftp_dun :: "u8 \<Rightarrow> 'a net \<Rightarrow> 'a net"
  up_ipv6 :: "'a handler"

definition handle_tcp :: "'a handler" where
  "handle_tcp st p packetsize = Some (-1, st)"

definition handle_tcp_dun :: "'a net \<Rightarrow> bytes \<Rightarrow> int \<Rightarrow> u8 \<Rightarrow> 'a net option" where
  "handle_tcp_dun st p packetsize err_code = Some st"

definition handle_udp :: "'a upper \<Rightarrow> 'a sender \<Rightarrow> 'a handler" where
  "handle_udp up send st p packetsize =
     (if packetsize < 8 then Some (-1, st)
      else do {
        dport \<leftarrow> rd16 p 2;
        sport \<leftarrow> rd16 p 0;
        if dport = 68
        then if sport = 67 then up_dhcp up send st (drop 8 p) (packetsize - 8) else Some (-1, st)
        else if dport = 32769
        then if sport = 53 then up_dns up st (drop 8 p) (packetsize - 8) else Some (-1, st)
        else if dport = 546 then up_dhcpv6 up st (drop 8 p) (packetsize - 8)
        else if dport = 2001 then up_tftp up send st p packetsize
        else Some (-1, st) })"

definition handle_udp_dun :: "'a upper \<Rightarrow> 'a net \<Rightarrow> bytes \<Rightarrow> int \<Rightarrow> u8 \<Rightarrow> 'a net option" where
  "handle_udp_dun up st p packetsize err_code =
     (if packetsize < 8 then Some st
      else do { sport \<leftarrow> rd16 p 0; Some (if sport = 2001 then up_tftp_dun up err_code st else st) })"

text \<open>\<open>sizeof(struct icmphdr)\<close> is 92: the header with 84 bytes of payload.\<close>

definition echo_reply :: "bytes \<Rightarrow> int \<Rightarrow> u32 \<Rightarrow> bytes option" where
  "echo_reply p packetsize ip_src = do {
     let reply = replicate (nat (20 + packetsize)) 0;
     reply \<leftarrow> fill_iphdr reply (word_of_int (20 + packetsize)) 1 0 ip_src;
     d \<leftarrow> rdn p 0 (nat (u64_of packetsize));
     reply \<leftarrow> wrn reply 20 d;
     reply \<leftarrow> wr8 reply 20 0;
     reply \<leftarrow> wr16 reply 22 0;
     c \<leftarrow> checksum (drop 20 reply) 46;
     wr16 reply 22 c }"

definition handle_icmp :: "'a upper \<Rightarrow> 'a sender \<Rightarrow> 'a net \<Rightarrow> u32 \<Rightarrow> bytes \<Rightarrow> int \<Rightarrow> (int \<times> 'a net) option" where
  "handle_icmp up send st ip_src p packetsize = do {
     ty \<leftarrow> rd8 p 0;
     if ty = 0
     then do {
       id \<leftarrow> rd16 p 4;
       seq \<leftarrow> rd16 p 6;
       if id \<noteq> 0xd476 then Some (-1, st)
       else if seq \<noteq> 1 then Some (-1, st)
       else if ping_dst_ip st \<noteq> ip_src \<or> ping_dst_ip st = 0 then Some (-1, st)
       else Some (0, st\<lparr>ping_dst_ip := 0\<rparr>) }
     else if ty = 3
     then do {
       bad_p \<leftarrow> rd8 p 17;
       code \<leftarrow> rd8 p 1;
       if bad_p = 6
       then do { st \<leftarrow> handle_tcp_dun st (drop 28 p) (u32_of (packetsize - 92 - 20)) code; Some (0, st) }
       else if bad_p = 17
       then do { st \<leftarrow> handle_udp_dun up st (drop 28 p) (u32_of (packetsize - 92 - 20)) code; Some (0, st) }
       else Some (0, st) }
     else if ty = 8
     then do {
       reply \<leftarrow> echo_reply p packetsize ip_src;
       (_, _, st) \<leftarrow> send st reply (20 + packetsize);
       Some (0, st) }
     else Some (0, st) }"

definition dispatch_ipv4 :: "'a upper \<Rightarrow> 'a sender \<Rightarrow> 'a net \<Rightarrow> bytes \<Rightarrow> (int \<times> 'a net) option" where
  "dispatch_ipv4 up send st p = do {
     proto \<leftarrow> rd8 p 9;
     len \<leftarrow> rd16 p 2;
     src \<leftarrow> rd32 p 12;
     if proto = 1 then handle_icmp up send st src (drop 20 p) (uint len - 20)
     else if proto = 17 then handle_udp up send st (drop 20 p) (u32_of (uint len - 20))
     else if proto = 6 then handle_tcp st (drop 20 p) (uint len - 20)
     else Some (-1, st) }"

definition not_for_us :: "'a net \<Rightarrow> u32 \<Rightarrow> bool" where
  "not_for_us st dst \<longleftrightarrow>
     (multicast_ip st = 0 \<and> 0xE0000000 \<le> dst \<and> dst \<le> 0xEFFFFFFF) \<or>
     (multicast_ip st \<noteq> dst \<and> dst \<noteq> 0xFFFFFFFF \<and> own_ip st \<noteq> 0 \<and> dst \<noteq> own_ip st)"

definition same_datagram :: "bytes \<Rightarrow> bytes \<Rightarrow> bool option" where
  "same_datagram h p = do {
     id1 \<leftarrow> rd16 h 4; id2 \<leftarrow> rd16 p 4;
     p1 \<leftarrow> rd8 h 9; p2 \<leftarrow> rd8 p 9;
     s1 \<leftarrow> rd32 h 12; s2 \<leftarrow> rd32 p 12;
     d1 \<leftarrow> rd32 h 16; d2 \<leftarrow> rd32 p 16;
     Some (id1 = id2 \<and> p1 = p2 \<and> s1 = s2 \<and> d1 = d2) }"

definition handle_ipv4 :: "'a upper \<Rightarrow> 'a sender \<Rightarrow> 'a handler" where
  "handle_ipv4 up send st p packetsize =
     (if packetsize < 20 then Some (-1, st)
      else do {
        dst \<leftarrow> rd32 p 16;
        if not_for_us st dst then Some (-1, st)
        else do {
          old_sum \<leftarrow> rd16 p 10;
          p \<leftarrow> wr16 p 10 0;
          c \<leftarrow> checksum p 10;
          if old_sum \<noteq> c then Some (-1, st)
          else do {
            off \<leftarrow> rd16 p 6;
            len \<leftarrow> rd16 p 2;
            if off AND 0x1FFF = 0
            then if off AND 0x2000 = 0x2000
              then do {
                d \<leftarrow> rdn p 0 (unat len);
                h \<leftarrow> wrn (ip_heap st) 0 d;
                Some (0, st\<lparr>ip_heap := h\<rparr>) }
              else dispatch_ipv4 up send st p
            else do {
              same \<leftarrow> same_datagram (ip_heap st) p;
              if \<not> same then Some (0, st)
              else do {
                d \<leftarrow> rdn p 20 (nat (u64_of (uint len - 20)));
                h \<leftarrow> wrn (ip_heap st) (20 + unat (off AND 0x1FFF) * 8) d;
                if off AND 0x2000 = 0x2000 then Some (0, st\<lparr>ip_heap := h\<rparr>)
                else do {
                  h \<leftarrow> wr16 h 2 (len + (off AND 0x1FFF) * 8);
                  dispatch_ipv4 up send (st\<lparr>ip_heap := h\<rparr>) h } } } } } })"

text \<open>The knot: every nested call consumes a queued frame, so fuel beyond the number of queued events is
  never used.\<close>

fun receive_ether :: "'a upper \<Rightarrow> (bytes \<Rightarrow> int) \<Rightarrow> nat \<Rightarrow> 'a net \<Rightarrow> (int \<times> 'a net) option" where
  "receive_ether up io 0 st = None"
| "receive_ether up io (Suc n) st =
     receive_ether_body (handle_ipv4 up (send_ipv4 io (receive_ether up io n))) (up_ipv6 up) (handle_arp io) st"

definition ping_ipv4 :: "'a sender \<Rightarrow> 'a net \<Rightarrow> u32 \<Rightarrow> 'a net option" where
  "ping_ipv4 send st dst = (let st = st\<lparr>ping_dst_ip := dst\<rparr> in
     if dst = 0 then Some st
     else do {
       p \<leftarrow> fill_iphdr (replicate 112 0) 112 1 0 dst;
       p \<leftarrow> wr8 p 20 8;
       p \<leftarrow> wr8 p 21 0;
       p \<leftarrow> wr16 p 22 0;
       p \<leftarrow> wr16 p 24 0xd476;
       p \<leftarrow> wr16 p 26 1;
       p \<leftarrow> wrn p 28 (replicate 84 42);
       c \<leftarrow> checksum (drop 20 p) 46;
       p \<leftarrow> wr16 p 22 c;
       (_, _, st) \<leftarrow> send st p 112;
       Some st })"

definition pong_ipv4 :: "'a net \<Rightarrow> u32" where
  "pong_ipv4 st = ping_dst_ip st"

end
