(* ===== verification/Net_Checksum.thy ===== *)
theory Net_Checksum
  imports Net_Ipv4
begin

text \<open>The Internet checksum (RFC 1071): the folded sum is the sum modulo 65535, so a header or a UDP packet
  with its checksum filled in sums up to all ones.\<close>

section \<open>Sums of 16-bit words\<close>

definition word_at :: "bytes \<Rightarrow> nat \<Rightarrow> nat" where
  "word_at p i = unat (cat16 (p ! i) (p ! (i + 1)))"

definition wsum :: "bytes \<Rightarrow> nat \<Rightarrow> nat \<Rightarrow> nat" where
  "wsum p i n = (\<Sum>j<n. word_at p (i + 2 * j))"

lemma word_at_less: "word_at p i < 65536"
  using unsigned_less[of "cat16 (p ! i) (p ! (i + 1))", where 'a = nat] by (simp add: word_at_def)

lemma wsum_0 [simp]: "wsum p i 0 = 0"
  by (simp add: wsum_def)

lemma wsum_Suc: "wsum p i (Suc n) = word_at p i + wsum p (i + 2) n"
  unfolding wsum_def by (subst sum.lessThan_Suc_shift) (simp add: add.assoc)

lemma wsum_le: "wsum p i n \<le> n * 65535"
proof (induction n arbitrary: i)
  case (Suc n)
  have "word_at p i \<le> 65535" using word_at_less[of p i] by simp
  then show ?case using add_mono[OF _ Suc[of "i + 2"], of "word_at p i" 65535] by (simp add: wsum_Suc)
qed simp

lemma sum16_eq: "i + 2 * n \<le> length p \<Longrightarrow> sum16 p i n acc = Some (acc + of_nat (wsum p i n))"
proof (induction n arbitrary: i acc)
  case (Suc n)
  then show ?case by (simp add: wsum_Suc rd16_def word_at_def algebra_simps)
qed simp

section \<open>Folding\<close>

definition fold16 :: "nat \<Rightarrow> nat" where
  "fold16 s = (let a = s div 65536 + s mod 65536 in (a + a div 65536) mod 65536)"

lemma fold16_small:
  fixes s :: nat
  assumes "s < 2 ^ 32"
  shows "s div 65536 + s mod 65536 \<le> 131070"
proof -
  have "s div 65536 < 65536" using assms by (intro less_mult_imp_div_less) simp
  moreover have "s mod 65536 < 65536" by simp
  ultimately show ?thesis by linarith
qed

lemma fold16_cases:
  assumes "s < 2 ^ 32"
  shows "fold16 s = (let a = s div 65536 + s mod 65536 in if 65536 \<le> a then a - 65535 else a)"
proof (cases "65536 \<le> s div 65536 + s mod 65536")
  case True
  define b where "b = s div 65536 + s mod 65536 - 65536"
  then have b: "s div 65536 + s mod 65536 = b + 65536" "b < 65535" using True fold16_small[OF assms] by linarith+
  have "(b + 65536) div 65536 = 1" using b(2) by (simp add: div_add_self2)
  then have "(b + 65536 + (b + 65536) div 65536) mod 65536 = (b + 1 + 65536) mod 65536" by simp
  also have "\<dots> = b + 1" using b(2) by (simp only: mod_add_self2) simp
  finally have "(b + 65536 + (b + 65536) div 65536) mod 65536 = b + 1" .
  then show ?thesis using b by (simp add: fold16_def Let_def)
next
  case False
  then show ?thesis by (simp add: fold16_def Let_def)
qed

lemma fold16_mod: "s < 2 ^ 32 \<Longrightarrow> fold16 s mod 65535 = s mod 65535"
proof -
  assume s: "s < 2 ^ 32"
  let ?a = "s div 65536 + s mod 65536"
  have "s = 65535 * (s div 65536) + ?a" using div_mult_mod_eq[of s 65536] by linarith
  then have "s mod 65535 = ?a mod 65535" by (metis mod_mult_self4)
  moreover have "(a - 65535) mod 65535 = a mod 65535" if "65536 \<le> a" for a :: nat
    using that le_mod_geq[of 65535 a] by simp
  ultimately show ?thesis using fold16_cases[OF s] unfolding Let_def by presburger
qed

lemma fold16_pos: "s < 2 ^ 32 \<Longrightarrow> 0 < s \<Longrightarrow> 0 < fold16 s"
  using fold16_cases[of s] div_mult_mod_eq[of s 65536] by (auto simp: Let_def split: if_splits)

lemma fold16_less: "fold16 s < 65536"
  by (simp add: fold16_def Let_def)

lemma unat_fold_sum:
  assumes s: "s < 2 ^ 32"
  shows "unat (ucast (fold_sum (of_nat s)) :: u16) = fold16 s"
proof -
  let ?a = "s div 65536 + s mod 65536"
  have c: "unat (of_nat s :: u64) = s" using s by (simp add: unat_of_nat take_bit_nat_eq_self)
  have d: "unat (drop_bit 16 (of_nat s :: u64)) = s div 65536"
    using c by (simp add: drop_bit_eq_div unat_div)
  have m: "unat ((of_nat s :: u64) AND 0xffff) = s mod 65536"
  proof -
    have "(0xffff :: u64) = mask 16" by (simp add: mask_eq_exp_minus_1)
    then have "(of_nat s :: u64) AND 0xffff = take_bit 16 (of_nat s)" by (simp add: take_bit_eq_mask)
    then show ?thesis using c by (simp add: take_bit_eq_mod unat_mod)
  qed
  let ?w = "drop_bit 16 (of_nat s :: u64) + ((of_nat s :: u64) AND 0xffff)"
  have a: "unat ?w = ?a" using d m fold16_small[OF s] by (simp add: unat_word_ariths)
  then have "unat (drop_bit 16 ?w) = ?a div 65536" by (simp add: drop_bit_eq_div unat_div)
  moreover have "?a div 65536 \<le> 131070 div 65536" using fold16_small[OF s] by (rule div_le_mono)
  ultimately have "unat (?w + drop_bit 16 ?w) = ?a + ?a div 65536"
    using a fold16_small[OF s] by (simp add: unat_word_ariths(1))
  then show ?thesis by (simp add: fold_sum_def Let_def fold16_def unsigned_ucast_eq take_bit_eq_mod)
qed

definition csum :: "nat \<Rightarrow> nat" where
  "csum s = 65535 - fold16 s"

lemma not_u16: "unat (NOT x :: u16) = 65535 - unat x"
proof -
  have "NOT x = - 1 - x" by (simp add: not_eq_complement)
  moreover have "unat (-1 - x) = 65535 - unat x" by (simp add: unat_sub unsigned_minus_1_eq_mask mask_eq_exp_minus_1)
  ultimately show ?thesis by simp
qed

lemma checksum_eq:
  assumes "2 * n \<le> length p" "n \<le> 65536"
  shows "checksum p n = Some (of_nat (csum (wsum p 0 n)))"
proof -
  have "wsum p 0 n < 2 ^ 32" using wsum_le[of p 0 n] mult_le_mono1[OF assms(2), of 65535] by simp
  then have "unat (ucast (fold_sum (of_nat (wsum p 0 n))) :: u16) = fold16 (wsum p 0 n)" by (rule unat_fold_sum)
  moreover have "NOT x = of_nat (65535 - unat x)" for x :: u16
    by (simp flip: not_u16)
  ultimately show ?thesis using assms(1) by (simp add: checksum_def sum16_eq csum_def)
qed

lemma csum_verifies:
  assumes "s + csum s < 2 ^ 32"
  shows "csum (s + csum s) = 0"
proof -
  let ?t = "s + csum s"
  have s: "s < 2 ^ 32" using assms by linarith
  have t: "0 < ?t"
  proof (rule ccontr)
    assume "\<not> 0 < ?t"
    then have "s = 0" "csum s = 0" by auto
    then show False by (simp add: csum_def fold16_def)
  qed
  have "?t mod 65535 = (fold16 s + csum s) mod 65535" using fold16_mod[OF s] by (metis mod_add_left_eq)
  also have "fold16 s + csum s = 65535" using fold16_less[of s] by (simp add: csum_def)
  finally have "fold16 ?t mod 65535 = 0" using fold16_mod[OF assms] by simp
  then obtain k where k: "fold16 ?t = 65535 * k" by (auto elim: dvdE)
  moreover have "0 < fold16 ?t" using fold16_pos[OF assms t] .
  ultimately have "k = 1" using fold16_less[of ?t] by (cases k; cases "k - 1") auto
  then show ?thesis using k by (simp add: csum_def)
qed

section \<open>Filling in a checksum\<close>

lemma wr16_Some: "i + 2 \<le> length p \<Longrightarrow> \<exists>p'. wr16 p i v = Some p'"
  by (simp add: wr16_def wrn_def)

lemma wr16_length: "wr16 p i v = Some p' \<Longrightarrow> length p' = length p"
  unfolding wr16_def by (rule wrn_length)

lemma wr16_frame: "wr16 p i v = Some p' \<Longrightarrow> j \<noteq> i \<Longrightarrow> j \<noteq> i + 1 \<Longrightarrow> p' ! j = p ! j"
  unfolding wr16_def by (erule wrn_frame) auto

lemma wr32_length: "wr32 p i v = Some p' \<Longrightarrow> length p' = length p"
  unfolding wr32_def by (rule wrn_length)

lemma wr32_Some: "i + 4 \<le> length p \<Longrightarrow> \<exists>p'. wr32 p i v = Some p'"
  by (simp add: wr32_def wrn_def)

lemma wr32_frame: "wr32 p i v = Some p' \<Longrightarrow> j < i \<or> i + 4 \<le> j \<Longrightarrow> p' ! j = p ! j"
  unfolding wr32_def by (erule wrn_frame) auto

lemma word_at_wr16: "wr16 p i v = Some p' \<Longrightarrow> word_at p' i = unat v"
  using rd16_wr16[of p i v p'] by (auto simp: rd16_def word_at_def split: if_splits)

lemma wsum_wr16:
  assumes w: "wr16 p (i + 2 * k) v = Some p'" and k: "k < n"
  shows "wsum p' i n + word_at p (i + 2 * k) = wsum p i n + unat v"
proof -
  have o: "word_at p' (i + 2 * j) = word_at p (i + 2 * j)" if "j \<noteq> k" for j
  proof -
    have "i + 2 * j \<noteq> i + 2 * k" "i + 2 * j \<noteq> i + 2 * k + 1" "i + 2 * j + 1 \<noteq> i + 2 * k" "i + 2 * j + 1 \<noteq> i + 2 * k + 1"
      using that by presburger+
    then have "p' ! (i + 2 * j) = p ! (i + 2 * j)" "p' ! (i + 2 * j + 1) = p ! (i + 2 * j + 1)"
      using wr16_frame[OF w] by blast+
    then show ?thesis by (simp only: word_at_def)
  qed
  have "wsum q i n = word_at q (i + 2 * k) + (\<Sum>j\<in>{..<n} - {k}. word_at q (i + 2 * j))" for q
    unfolding wsum_def using k by (subst sum.remove[of _ k]) auto
  moreover have "(\<Sum>j\<in>{..<n} - {k}. word_at p' (i + 2 * j)) = (\<Sum>j\<in>{..<n} - {k}. word_at p (i + 2 * j))"
    using o by (intro sum.cong) auto
  ultimately show ?thesis using word_at_wr16[OF w] by simp
qed

lemma wsum_same: "(\<And>j. i \<le> j \<Longrightarrow> j < i + 2 * n \<Longrightarrow> p' ! j = p ! j) \<Longrightarrow> wsum p' i n = wsum p i n"
  unfolding wsum_def word_at_def by (intro sum.cong) auto

lemma unat_csum: "unat (of_nat (csum s) :: u16) = csum s"
  by (simp add: csum_def unat_of_nat take_bit_nat_eq_self)

text \<open>Zeroing the checksum field, summing and storing the complement gives a block that sums to zero.\<close>

lemma fill_checksum:
  assumes w0: "wr16 p (2 * k) 0 = Some p0" and c: "checksum p0 n = Some c" and w1: "wr16 p0 (2 * k) c = Some p1"
    and k: "k < n" and n: "2 * n \<le> length p" "n \<le> 65535"
  shows "checksum p1 n = Some 0"
proof -
  have len: "length p0 = length p" "length p1 = length p" using wr16_length[OF w0] wr16_length[OF w1] by auto
  have c': "unat c = csum (wsum p0 0 n)" using c checksum_eq[of n p0] n len unat_csum[of "wsum p0 0 n"] by auto
  have "wsum p1 0 n = wsum p0 0 n + csum (wsum p0 0 n)"
    using wsum_wr16[of p0 0 k c p1 n] w1 k word_at_wr16[OF w0] c' by simp
  moreover have "wsum p1 0 n < 2 ^ 32" using wsum_le[of p1 0 n] mult_le_mono1[OF n(2), of 65535] by simp
  ultimately have "csum (wsum p1 0 n) = 0" using csum_verifies[of "wsum p0 0 n"] by simp
  then show ?thesis using checksum_eq[of n p1] n len by simp
qed

lemma checksum_cong: "(\<And>j. j < 2 * n \<Longrightarrow> p' ! j = p ! j) \<Longrightarrow> length p' = length p \<Longrightarrow> 2 * n \<le> length p \<Longrightarrow> n \<le> 65535 \<Longrightarrow>
    checksum p' n = checksum p n"
  using wsum_same[of 0 n p' p] by (simp add: checksum_eq)

section \<open>The UDP checksum\<close>

definition udp_words :: "bytes \<Rightarrow> nat" where
  "udp_words p = (word_at p 24 + 1) div 2"

definition udp_sum :: "bytes \<Rightarrow> nat" where
  "udp_sum p = wsum p 20 (udp_words p) +
     wsum (pseudo_header (cat32 (cat16 (p ! 12) (p ! 13)) (cat16 (p ! 14) (p ! 15)))
       (cat32 (cat16 (p ! 16) (p ! 17)) (cat16 (p ! 18) (p ! 19))) (cat16 (p ! 24) (p ! 25)) (p ! 9)) 0 10"

definition udp_fits :: "bytes \<Rightarrow> bool" where
  "udp_fits p \<longleftrightarrow> 28 \<le> length p \<and> 8 \<le> word_at p 24 \<and> 20 + 2 * udp_words p \<le> length p"

lemma udp_sum_bound: "udp_sum p \<le> (udp_words p + 10) * 65535"
  using wsum_le[of p 20 "udp_words p"] wsum_le[of _ 0 10] unfolding udp_sum_def add_mult_distrib by (rule add_mono)

lemma udp_words_bound: "udp_words p \<le> 32768"
  using word_at_less[of p 24] by (simp add: udp_words_def)

lemma csum_all_ones:
  assumes "csum s = 0" "s + 65535 < 2 ^ 32"
  shows "csum (s + 65535) = 0"
proof -
  have f: "fold16 s = 65535" using assms(1) fold16_less[of s] by (simp add: csum_def)
  have "fold16 (s + 65535) mod 65535 = 0"
    using fold16_mod[OF assms(2)] fold16_mod[of s] assms(2) f by simp
  then obtain k where k: "fold16 (s + 65535) = 65535 * k" by (auto elim: dvdE)
  moreover have "0 < fold16 (s + 65535)" using fold16_pos[OF assms(2)] by simp
  ultimately have "k = 1" using fold16_less[of "s + 65535"] by (cases k; cases "k - 1") auto
  then show ?thesis using k by (simp add: csum_def)
qed

lemma fill_udp_checksum_valid:
  assumes "udp_fits p"
  shows "\<exists>p'. fill_udp_checksum p = Some p' \<and> csum (udp_sum p') = 0 \<and> word_at p' 26 \<noteq> 0 \<and>
    length p' = length p \<and> (\<forall>j. j \<noteq> 26 \<and> j \<noteq> 27 \<longrightarrow> p' ! j = p ! j)"
proof -
  have len: "28 \<le> length p" "20 + 2 * udp_words p \<le> length p" and ul: "8 \<le> word_at p 24"
    using assms by (auto simp: udp_fits_def)
  obtain p0 where p0: "wr16 p 26 0 = Some p0" using wr16_Some[of 26 p 0] len by auto
  note l0 = wr16_length[OF p0]
  have f0: "p0 ! j = p ! j" if "j \<noteq> 26" "j \<noteq> 27" for j using wr16_frame[OF p0] that by simp
  have ulen: "word_at p0 24 = word_at p 24" by (simp add: word_at_def f0)
  then have n0: "udp_words p0 = udp_words p" by (simp add: udp_words_def)
  let ?ph = "pseudo_header (cat32 (cat16 (p0 ! 12) (p0 ! 13)) (cat16 (p0 ! 14) (p0 ! 15)))
       (cat32 (cat16 (p0 ! 16) (p0 ! 17)) (cat16 (p0 ! 18) (p0 ! 19))) (cat16 (p0 ! 24) (p0 ! 25)) (p0 ! 9)"
  have bound: "udp_sum p0 < 2 ^ 32 - 65536"
    using udp_sum_bound[of p0] mult_le_mono1[of "udp_words p0 + 10" 32778 65535] udp_words_bound[of p0] by simp
  define sum where "sum = NOT (ucast (fold_sum (of_nat (udp_sum p0))) :: u16)"
  have s1: "sum16 p0 20 (udp_words p) 0 = Some (of_nat (wsum p0 20 (udp_words p)))"
    using sum16_eq[of 20 "udp_words p" p0 0] len l0 by simp
  have "length ?ph = 20" by (simp add: pseudo_header_def)
  then have s2: "sum16 ?ph 0 10 c = Some (c + of_nat (wsum ?ph 0 10))" for c
    using sum16_eq[of 0 10 ?ph c] by simp
  define v where "v = (if sum = 0 then NOT sum else sum)"
  obtain p1 where p1: "wr16 p0 26 v = Some p1" using wr16_Some[of 26 p0 v] len l0 by auto
  have us: "udp_sum p0 = wsum p0 20 (udp_words p) + wsum ?ph 0 10" by (simp add: udp_sum_def n0)
  have nw: "(unat (cat16 (p0 ! 24) (p0 ! 25)) + 1) div 2 = udp_words p" using n0 by (simp add: udp_words_def word_at_def)
  have fill: "fill_udp_checksum p = Some p1"
  proof -
    have "NOT (ucast (fold_sum (of_nat (wsum p0 20 (udp_words p)) + of_nat (wsum ?ph 0 10))) :: u16) = sum"
      by (simp add: sum_def us)
    then have "fill_udp_checksum p = wr16 p0 26 (if sum = 0 then NOT sum else sum)"
      using p0 s1 s2 len l0 nw by (simp add: fill_udp_checksum_def rd32_def rd16_def rd8_def Let_def)
    then show ?thesis using p1 by (simp only: v_def)
  qed
  note l1 = wr16_length[OF p1]
  have f1: "p1 ! j = p0 ! j" if "j \<noteq> 26" "j \<noteq> 27" for j using wr16_frame[OF p1] that by simp
  have n1: "udp_words p1 = udp_words p" using n0 by (simp add: udp_words_def word_at_def f1)
  have "wsum p1 20 (udp_words p) + word_at p0 26 = wsum p0 20 (udp_words p) + unat v"
    using wsum_wr16[of p0 20 3 v p1 "udp_words p"] p1 ul by (simp add: udp_words_def)
  then have S: "udp_sum p1 = udp_sum p0 + unat v"
    using word_at_wr16[OF p0] us by (simp add: udp_sum_def n1 f1)
  have sm: "unat sum = csum (udp_sum p0)"
    using unat_fold_sum[of "udp_sum p0"] bound by (simp add: sum_def not_u16 csum_def)
  have ok: "csum (udp_sum p1) = 0"
  proof (cases "sum = 0")
    case True
    then show ?thesis using S sm bound csum_all_ones[of "udp_sum p0"]
      by (simp add: v_def unsigned_minus_1_eq_mask mask_eq_exp_minus_1)
  next
    case False
    have "csum (udp_sum p0) \<le> 65535" by (simp add: csum_def)
    then show ?thesis using S sm bound False csum_verifies[of "udp_sum p0"] by (simp add: v_def)
  qed
  have "unat v \<noteq> 0" by (auto simp: v_def not_u16 unat_eq_zero)
  then have "word_at p1 26 \<noteq> 0" using word_at_wr16[OF p1] by simp
  then show ?thesis using fill ok l0 l1 f0 f1 by (intro exI[of _ p1]) auto
qed

section \<open>Outgoing packets\<close>

text \<open>The address step of \<open>send_ipv4\<close> only touches the two address fields.\<close>

definition patch_addr :: "'a net \<Rightarrow> bytes \<Rightarrow> bytes option" where
  "patch_addr st p = do {
     src \<leftarrow> rd32 p 12;
     if src = 0 then wr32 p 12 (own_ip st)
     else if src = 1 then do { p \<leftarrow> wr32 p 12 (own_ip st); wr32 p 16 (multicast_ip st) }
     else Some p }"

lemma patch_addr_Some:
  assumes "20 \<le> length p"
  shows "\<exists>p'. patch_addr st p = Some p' \<and> length p' = length p \<and> (\<forall>j. j < 12 \<or> 20 \<le> j \<longrightarrow> p' ! j = p ! j)"
proof -
  obtain src where src: "rd32 p 12 = Some src" using assms by (simp add: rd32_def)
  obtain p1 where p1: "wr32 p 12 (own_ip st) = Some p1" using wr32_Some[of 12 p] assms by auto
  note l1 = wr32_length[OF p1]
  obtain p2 where p2: "wr32 p1 16 (multicast_ip st) = Some p2" using wr32_Some[of 16 p1] assms l1 by auto
  have "\<forall>j. j < 12 \<or> 20 \<le> j \<longrightarrow> p1 ! j = p ! j" using wr32_frame[OF p1] by auto
  moreover have "\<forall>j. j < 12 \<or> 20 \<le> j \<longrightarrow> p2 ! j = p1 ! j" using wr32_frame[OF p2] by auto
  ultimately show ?thesis using src p1 p2 l1 wr32_length[OF p2] by (auto simp: patch_addr_def)
qed

lemma patch_packet_eq:
  "patch_packet st p = do { p \<leftarrow> patch_addr st p; p \<leftarrow> wr16 p 10 0; c \<leftarrow> checksum p 10; p \<leftarrow> wr16 p 10 c;
     proto \<leftarrow> rd8 p 9; if proto = 17 then fill_udp_checksum p else Some p }"
  by (cases "rd32 p 12") (auto simp: patch_packet_def patch_addr_def)

lemma udp_fits_cong: "udp_fits p \<Longrightarrow> length p' = length p \<Longrightarrow> p' ! 24 = p ! 24 \<Longrightarrow> p' ! 25 = p ! 25 \<Longrightarrow> udp_fits p'"
  by (simp add: udp_fits_def udp_words_def word_at_def)

lemma patch_packet_valid:
  assumes "20 \<le> length p" and udp: "p ! 9 = 17 \<Longrightarrow> udp_fits p"
  shows "\<exists>p'. patch_packet st p = Some p' \<and> length p' = length p \<and> checksum p' 10 = Some 0 \<and>
    (p ! 9 = 17 \<longrightarrow> csum (udp_sum p') = 0 \<and> word_at p' 26 \<noteq> 0) \<and>
    (\<forall>j. j < 10 \<or> (20 \<le> j \<and> (j = 26 \<or> j = 27 \<longrightarrow> p ! 9 \<noteq> 17)) \<longrightarrow> p' ! j = p ! j)"
proof -
  obtain p1 where p1: "patch_addr st p = Some p1" "length p1 = length p"
    "\<And>j. j < 12 \<or> 20 \<le> j \<Longrightarrow> p1 ! j = p ! j" using patch_addr_Some[OF assms(1), of st] by blast
  obtain p2 where p2: "wr16 p1 10 0 = Some p2" using wr16_Some[of 10 p1] assms(1) p1(2) by auto
  have l2: "length p2 = length p" using wr16_length[OF p2] p1(2) by simp
  obtain c where c: "checksum p2 10 = Some c" using checksum_eq[of 10 p2] assms(1) l2 by auto
  obtain p3 where p3: "wr16 p2 10 c = Some p3" using wr16_Some[of 10 p2] assms(1) l2 by auto
  have l3: "length p3 = length p" using wr16_length[OF p3] l2 by simp
  have f3: "p3 ! j = p ! j" if "j < 10 \<or> 20 \<le> j" for j
    using that wr16_frame[OF p3, of j] wr16_frame[OF p2, of j] p1(3)[of j] by auto
  have ok3: "checksum p3 10 = Some 0"
    using fill_checksum[of p1 5 p2 10 c p3] p2 c p3 assms(1) p1(2) by simp
  have r9: "rd8 p3 9 = Some (p ! 9)" using l3 assms(1) f3[of 9] by (simp add: rd8_def)
  show ?thesis
  proof (cases "p ! 9 = 17")
    case True
    have "udp_fits p3" using udp_fits_cong[OF udp[OF True] l3] f3[of 24] f3[of 25] by simp
    then obtain p4 where p4: "fill_udp_checksum p3 = Some p4" "csum (udp_sum p4) = 0" "word_at p4 26 \<noteq> 0"
      "length p4 = length p3" "\<And>j. j \<noteq> 26 \<Longrightarrow> j \<noteq> 27 \<Longrightarrow> p4 ! j = p3 ! j" using fill_udp_checksum_valid by blast
    have "checksum p4 10 = Some 0" using ok3 checksum_cong[of 10 p4 p3] p4(4,5) l3 assms(1) by simp
    moreover have "patch_packet st p = Some p4" using True p1(1) p2 c p3 r9 p4(1) by (simp add: patch_packet_eq)
    ultimately show ?thesis using p4 l3 True f3 by (intro exI[of _ p4]) auto
  next
    case False
    moreover have "patch_packet st p = Some p3" using False p1(1) p2 c p3 r9 by (simp add: patch_packet_eq)
    ultimately show ?thesis using ok3 l3 f3 by (intro exI[of _ p3]) auto
  qed
qed


definition sample_udp :: bytes where
  "sample_udp = [0x45, 0, 0, 30, 0, 0, 0, 0, 64, 17, 0, 0, 10, 0, 0, 1, 10, 0, 0, 2, 7, 209, 0, 69, 0, 10, 0, 0, 1, 2]"


end
