(* ===== verification/Net_Arp.thy ===== *)
theory Net_Arp
  imports Net_Checksum
begin

text \<open>The ARP ring: its invariant, that ARP handling and sending stay inside the objects and keep it, what
  the ring search finds, and how unresolved packets are treated.\<close>

section \<open>The invariant of the IPv4 state\<close>

definition entry_ok :: "arp_entry \<Rightarrow> bool" where
  "entry_ok e \<longleftrightarrow> length (mac_addr e) = 6 \<and> length (eth_frame e) = 1518 \<and> eth_len e = 0"

definition net_ok :: "'a net \<Rightarrow> bool" where
  "net_ok st \<longleftrightarrow> length (arp_table st) = 10 \<and> (\<forall>e\<in>set (arp_table st). entry_ok e) \<and>
     arp_producer st < 10 \<and> arp_consumer st < 10 \<and> length (pending_pkt_frame st) = 1518 \<and>
     0 \<le> pending_pkt_len st \<and> pending_pkt_len st \<le> 1518 \<and> length (ip_heap st) = 67054 \<and>
     length (own_mac st) = 6 \<and> length (multicast_mac st) = 6"

lemma net_ok_start: "net_ok (net_start a)"
  by (simp add: net_ok_def net_start_def entry_ok_def)

lemma net_ok_entry: "net_ok st \<Longrightarrow> i < 10 \<Longrightarrow> arp_entry_at st i = Some (arp_table st ! i) \<and> entry_ok (arp_table st ! i)"
  by (auto simp: net_ok_def arp_entry_at_def)

lemma net_ok_set_entry: "net_ok st \<Longrightarrow> entry_ok e \<Longrightarrow> net_ok (set_entry i e st)"
  by (auto simp: net_ok_def set_entry_def dest: set_update_subset_insert[THEN subsetD])

lemma net_ok_tx [simp]: "net_ok (st\<lparr>tx := x\<rparr>) = net_ok st"
  and net_ok_polls [simp]: "net_ok (st\<lparr>polls := y\<rparr>) = net_ok st"
  and net_ok_ping [simp]: "net_ok (st\<lparr>ping_dst_ip := z\<rparr>) = net_ok st"
  by (simp_all add: net_ok_def)

section \<open>Searching the ring\<close>

text \<open>The entries of the ring in search order.\<close>

fun ring_from :: "nat \<Rightarrow> nat \<Rightarrow> nat list" where
  "ring_from i 0 = []"
| "ring_from i (Suc n) = i # ring_from ((i + 1) mod 10) n"

definition ring :: "nat \<Rightarrow> nat \<Rightarrow> nat list" where
  "ring cons pr = ring_from cons ((pr + 10 - cons) mod 10)"

lemma ring_distance:
  assumes "i < 10" "pr < (10 :: nat)"
  shows "(pr + 10 - i) mod 10 = (if i \<le> pr then pr - i else pr + 10 - i)"
proof (cases "i \<le> pr")
  case True
  then have "pr + 10 - i = (pr - i) + 10" by simp
  then show ?thesis using True assms by (simp only: mod_add_self2) simp
qed (use assms in simp)

lemma ring_next: "i < (10 :: nat) \<Longrightarrow> (i + 1) mod 10 = (if i = 9 then 0 else i + 1)"
  by simp

lemma ring_step:
  assumes "i < 10" "pr < 10" "i \<noteq> pr"
  shows "(pr + 10 - i) mod 10 = Suc ((pr + 10 - (i + 1) mod 10) mod 10)"
  using assms ring_distance[OF assms(1,2)] ring_distance[of "(i + 1) mod 10" pr] ring_next[OF assms(1)] by auto

lemma ring_Cons: "i < 10 \<Longrightarrow> pr < 10 \<Longrightarrow> i \<noteq> pr \<Longrightarrow> ring i pr = i # ring ((i + 1) mod 10) pr"
  by (simp add: ring_def ring_step)

lemma ring_search_eq:
  assumes "length t = 10" "pr < 10" "i < 10"
  shows "ring_search t pr ip i = Some (case find (\<lambda>j. ipv4_addr (t ! j) = ip) (ring i pr) of Some j \<Rightarrow> j | None \<Rightarrow> pr)"
  using assms(3)
proof (induction "(pr + 10 - i) mod 10" arbitrary: i)
  case 0
  then have "i = pr" using assms(2) ring_step[of i pr] by (cases "i = pr") auto
  then show ?case using assms(2) by (subst ring_search.simps) (simp add: ring_def)
next
  case (Suc n)
  then have ne: "i \<noteq> pr" by auto
  have "n = (pr + 10 - (i + 1) mod 10) mod 10" using ring_step[OF Suc.prems assms(2) ne] Suc.hyps(2) by simp
  then have "ring_search t pr ip ((i + 1) mod 10) =
      Some (case find (\<lambda>j. ipv4_addr (t ! j) = ip) (ring ((i + 1) mod 10) pr) of Some j \<Rightarrow> j | None \<Rightarrow> pr)"
    by (intro Suc.hyps(1)) auto
  then show ?case using ne assms Suc.prems by (subst ring_search.simps) (simp add: ring_Cons)
qed

lemma ring_less: "i < 10 \<Longrightarrow> j \<in> set (ring_from i n) \<Longrightarrow> j < 10"
proof (induction n arbitrary: i)
  case (Suc n)
  then show ?case using Suc.IH[of "(i + 1) mod 10"] by auto
qed simp

lemma ring_search_Some:
  assumes "net_ok st"
  shows "\<exists>j < 10. ring_search (arp_table st) (arp_producer st) ip (arp_consumer st) = Some j"
proof -
  let ?f = "find (\<lambda>j. ipv4_addr (arp_table st ! j) = ip) (ring (arp_consumer st) (arp_producer st))"
  have "j < 10" if "?f = Some j" for j
    using that assms ring_less[of "arp_consumer st" j] by (auto simp: find_Some_iff ring_def net_ok_def in_set_conv_nth)
  then show ?thesis using assms ring_search_eq[of "arp_table st" "arp_producer st" "arp_consumer st" ip]
    by (cases ?f) (auto simp: net_ok_def)
qed

section \<open>Writes into frames\<close>

definition sized :: "nat \<Rightarrow> bytes option \<Rightarrow> bool" where
  "sized n r \<longleftrightarrow> (\<exists>b. r = Some b \<and> length b = n)"

lemma sized_bind: "sized n r \<Longrightarrow> (\<And>b. length b = n \<Longrightarrow> sized m (f b)) \<Longrightarrow> sized m (r \<bind> f)"
  by (auto simp: sized_def)

lemma sized_chain: "sized n r \<Longrightarrow> (\<And>b. length b = n \<Longrightarrow> sized n (f b)) \<Longrightarrow> sized n (r \<bind> f)"
  by (auto simp: sized_def)

lemma sized_wrn: "i + length xs \<le> length b \<Longrightarrow> sized (length b) (wrn b i xs)"
  by (auto simp: sized_def wrn_def)

lemma sized_wr8: "i + 1 \<le> length b \<Longrightarrow> sized (length b) (wr8 b i v)"
  and sized_wr16: "i + 2 \<le> length b \<Longrightarrow> sized (length b) (wr16 b i u)"
  and sized_wr32: "i + 4 \<le> length b \<Longrightarrow> sized (length b) (wr32 b i w)"
  by (auto simp: wr8_def wr16_def wr32_def intro!: sized_wrn)

lemma sized_memset: "n \<le> length b \<Longrightarrow> sized (length b) (memset b c n)"
  by (auto simp: memset_eq_wrn intro!: sized_wrn)

lemma sized_rdn: "i + n \<le> length b \<Longrightarrow> sized n (rdn b i n)"
  by (simp add: sized_def rdn_def)

lemma sized_fill_ethhdr:
  assumes "14 \<le> length p" "6 \<le> length s" "6 \<le> length d"
  shows "sized (length p) (fill_ethhdr p ty s d)"
proof -
  obtain p1 where p1: "wr16 p 12 ty = Some p1" "length p1 = length p"
    using sized_wr16[of 12 p ty] assms by (auto simp: sized_def)
  obtain p2 where p2: "wrn p1 6 (take 6 s) = Some p2" "length p2 = length p"
    using sized_wrn[of 6 "take 6 s" p1] assms p1 by (auto simp: sized_def)
  then show ?thesis using p1 sized_wrn[of 0 "take 6 d" p2] assms by (simp add: fill_ethhdr_def rdn_def)
qed

lemma sized_fill_arphdr:
  assumes "k + 28 \<le> length p" "6 \<le> length s" "6 \<le> length d"
  shows "sized (length p) (fill_arphdr p k opcode s sip d dip)"
proof -
  have s: "rdn s 0 6 = Some (take 6 s)" "rdn d 0 6 = Some (take 6 d)" using assms by (simp_all add: rdn_def)
  define n where "n = length p"
  have l: "k + 28 \<le> n" using assms(1) by (simp add: n_def)
  have a: "sized n (wr16 b (k + i) v)" if "length b = n" "i \<le> 26" for b i v
    using sized_wr16[of "k + i" b v] that l by simp
  have b: "sized n (wr8 b (k + i) v)" if "length b = n" "i \<le> 26" for b i v
    using sized_wr8[of "k + i" b v] that l by simp
  have c: "sized n (wr32 b (k + i) v)" if "length b = n" "i \<le> 24" for b i v
    using sized_wr32[of "k + i" b v] that l by simp
  have d: "sized n (wrn b (k + i) x)" if "length b = n" "length x = 6" "i \<le> 20" for b i x
    using sized_wrn[of "k + i" x b] that l by simp
  have k0: "wr16 p k 1 = wr16 p (k + 0) 1" by simp
  show ?thesis unfolding fill_arphdr_def s Option.bind_lunit k0 n_def[symmetric]
    using assms by (intro sized_chain a b c d) (auto simp: n_def)
qed

text \<open>Both ARP messages are built in the frame of the entry at the producer index and sent; nothing else
  changes.\<close>

lemma arp_send_request_eq:
  assumes ok: "net_ok st"
  shows "\<exists>g. length g = 1518 \<and> arp_send_request io st ip =
    Some ((set_entry (arp_producer st) ((arp_table st ! arp_producer st)\<lparr>eth_frame := g\<rparr>) st)\<lparr>tx := tx st @ [take 42 g]\<rparr>)"
proof -
  let ?e = "arp_table st ! arp_producer st"
  have e: "arp_entry_at st (arp_producer st) = Some ?e" "entry_ok ?e" and m: "length (own_mac st) = 6"
    using net_ok_entry[OF ok, of "arp_producer st"] ok by (auto simp: net_ok_def)
  obtain f1 where f1: "memset (eth_frame ?e) 0 42 = Some f1" "length f1 = 1518"
    using sized_memset[of 42 "eth_frame ?e" 0] e(2) by (auto simp: sized_def entry_ok_def)
  obtain f2 where f2: "fill_arphdr f1 14 1 (own_mac st) (own_ip st) broadcast_mac ip = Some f2" "length f2 = 1518"
    using sized_fill_arphdr[of 14 f1 "own_mac st" broadcast_mac 1 "own_ip st" ip] f1(2) m
    by (auto simp: sized_def broadcast_mac_def)
  obtain f3 where f3: "fill_ethhdr f2 0x0806 (own_mac st) broadcast_mac = Some f3" "length f3 = 1518"
    using sized_fill_ethhdr[of f2 "own_mac st" broadcast_mac "0x0806"] f2(2) m by (auto simp: sized_def broadcast_mac_def)
  have "arp_send_request io st ip =
      Some ((set_entry (arp_producer st) (?e\<lparr>eth_frame := f3\<rparr>) st)\<lparr>tx := tx st @ [take 42 f3]\<rparr>)"
    using e(1) f1 f2 f3 by (simp add: arp_send_request_def send_ether_def rdn_def set_entry_def)
  then show ?thesis using f3(2) by blast
qed

lemma arp_send_reply_eq:
  assumes ok: "net_ok st" and mac: "length mac = 6"
  shows "\<exists>g. length g = 1518 \<and> arp_send_reply io st ip mac =
    Some ((set_entry (arp_producer st) ((arp_table st ! arp_producer st)\<lparr>eth_frame := g\<rparr>) st)\<lparr>tx := tx st @ [take 42 g]\<rparr>)"
proof -
  let ?e = "arp_table st ! arp_producer st"
  have e: "arp_entry_at st (arp_producer st) = Some ?e" "entry_ok ?e" and m: "length (own_mac st) = 6"
    using net_ok_entry[OF ok, of "arp_producer st"] ok by (auto simp: net_ok_def)
  obtain f1 where f1: "memset (eth_frame ?e) 0 42 = Some f1" "length f1 = 1518"
    using sized_memset[of 42 "eth_frame ?e" 0] e(2) by (auto simp: sized_def entry_ok_def)
  obtain f2 where f2: "fill_ethhdr f1 0x0806 (own_mac st) mac = Some f2" "length f2 = 1518"
    using sized_fill_ethhdr[of f1 "own_mac st" mac "0x0806"] f1(2) m mac by (auto simp: sized_def)
  obtain f3 where f3: "fill_arphdr f2 14 2 (own_mac st) (own_ip st) mac ip = Some f3" "length f3 = 1518"
    using sized_fill_arphdr[of 14 f2 "own_mac st" mac 2 "own_ip st" ip] f2(2) m mac by (auto simp: sized_def)
  have "arp_send_reply io st ip mac =
      Some ((set_entry (arp_producer st) (?e\<lparr>eth_frame := f3\<rparr>) st)\<lparr>tx := tx st @ [take 42 f3]\<rparr>)"
    using e(1) f1 f2 f3 by (simp add: arp_send_reply_def send_ether_def rdn_def set_entry_def)
  then show ?thesis using f3(2) by blast
qed

lemma net_ok_frame: "net_ok st \<Longrightarrow> i < 10 \<Longrightarrow> length g = 1518 \<Longrightarrow> net_ok (set_entry i ((arp_table st ! i)\<lparr>eth_frame := g\<rparr>) st)"
  using net_ok_entry[of st i] by (intro net_ok_set_entry) (auto simp: entry_ok_def)

section \<open>ARP handling\<close>

text \<open>The fields of an ARP message.\<close>

definition arp_fields :: "bytes \<Rightarrow> u16 \<Rightarrow> bytes \<Rightarrow> u32 \<Rightarrow> bytes \<Rightarrow> u32 \<Rightarrow> bool" where
  "arp_fields p opcode smac sip dmac dip \<longleftrightarrow> rd16 p 0 = Some 1 \<and> rd16 p 2 = Some 0x0800 \<and> rd16 p 6 = Some opcode \<and>
     rdn p 8 6 = Some smac \<and> rd32 p 14 = Some sip \<and> rdn p 18 6 = Some dmac \<and> rd32 p 24 = Some dip"

lemma memcmp_null: "length m = 6 \<Longrightarrow> memcmp m null_mac_addr 6 = Some 0 \<longleftrightarrow> m = null_mac_addr"
  using memcmp_0_iff[of 6 m null_mac_addr] by (simp add: null_mac_addr_def)

lemma memcmp6_Some: "6 \<le> length a \<Longrightarrow> 6 \<le> length b \<Longrightarrow> \<exists>r. memcmp a b 6 = Some r"
  by (rule memcmp_Some)

text \<open>An ARP reply for an unresolved entry stores the address and sends the pending frame to it.\<close>

lemma arp_reply_resolves:
  assumes ok: "net_ok st" and mac: "length smac = 6" and sip: "sip \<noteq> 0"
    and i: "ring_search (arp_table st) (arp_producer st) sip (arp_consumer st) = Some i" "i \<noteq> arp_producer st" "i < 10"
    and e: "arp_table st ! i = e" "mac_addr e = null_mac_addr" "pkt_pending e \<noteq> 0"
  shows "arp_reply io st smac sip (own_mac st) =
    Some (0, set_entry i (e\<lparr>mac_addr := smac, pkt_pending := 0, eth_len := 0\<rparr>)
      (st\<lparr>pending_pkt_frame := smac @ drop 6 (pending_pkt_frame st),
        tx := tx st @ [take (nat (pending_pkt_len st)) (smac @ drop 6 (pending_pkt_frame st))]\<rparr>))"
proof -
  have l: "length (own_mac st) = 6" "length (pending_pkt_frame st) = 1518"
    "0 \<le> pending_pkt_len st" "pending_pkt_len st \<le> 1518" using ok by (auto simp: net_ok_def)
  have "memcmp (own_mac st) (own_mac st) 6 = Some 0" using memcmp_0_iff[of 6 "own_mac st" "own_mac st"] l by simp
  moreover have "memcmp (mac_addr e) null_mac_addr 6 = Some 0"
    using e(2) memcmp_null[of null_mac_addr] by (simp add: null_mac_addr_def)
  moreover have "memcpy (mac_addr e) smac 6 = Some smac"
    using mac e(2) by (simp add: memcpy_eq_wrn wrn_def null_mac_addr_def)
  moreover have "arp_entry_at st i = Some e" using net_ok_entry[OF ok i(3)] e(1) by simp
  ultimately show ?thesis using sip i l e(3) mac
    by (simp add: arp_reply_def rdn_def wrn_def send_ether_def set_entry_def)
qed

lemma arp_reply_safe:
  assumes ok: "net_ok st" and mac: "length smac = 6" "length dmac = 6"
  shows "\<exists>r st'. arp_reply io st smac sip dmac = Some (r, st') \<and> net_ok st' \<and> rx st' = rx st"
proof -
  obtain c where c: "memcmp (own_mac st) dmac 6 = Some c"
    using memcmp6_Some[of "own_mac st" dmac] mac ok by (auto simp: net_ok_def)
  obtain i where i: "ring_search (arp_table st) (arp_producer st) sip (arp_consumer st) = Some i" "i < 10"
    using ring_search_Some[OF ok] by blast
  let ?e = "arp_table st ! i"
  have e: "arp_entry_at st i = Some ?e" "entry_ok ?e" using net_ok_entry[OF ok i(2)] by auto
  obtain k where k: "memcmp (mac_addr ?e) null_mac_addr 6 = Some k"
    using memcmp6_Some[of "mac_addr ?e" null_mac_addr] e(2) by (auto simp: entry_ok_def null_mac_addr_def)
  show ?thesis
  proof (cases "c \<noteq> 0 \<or> sip = 0 \<or> i = arp_producer st \<or> k \<noteq> 0")
    case True
    then show ?thesis using c i e k ok by (auto simp: arp_reply_def)
  next
    case False
    have own: "arp_reply io st smac sip dmac = arp_reply io st smac sip (own_mac st)"
      using False c mac memcmp_0_iff[of 6 "own_mac st" dmac] ok by (simp add: net_ok_def)
    have null: "mac_addr ?e = null_mac_addr" using False k e(2) memcmp_null[of "mac_addr ?e"] by (simp add: entry_ok_def)
    show ?thesis
    proof (cases "pkt_pending ?e = 0")
      case True
      have cp: "memcpy (mac_addr ?e) smac 6 = Some smac" using mac(1) e(2) by (simp add: memcpy_eq_wrn wrn_def entry_ok_def)
      have "arp_reply io st smac sip dmac = Some (0, set_entry i (?e\<lparr>mac_addr := smac\<rparr>) st)"
        using True False c i e(1) k cp by (simp add: arp_reply_def)
      moreover have "net_ok (set_entry i (?e\<lparr>mac_addr := smac\<rparr>) st)"
        using e(2) mac by (intro net_ok_set_entry[OF ok]) (simp add: entry_ok_def)
      ultimately show ?thesis by (simp add: set_entry_def)
    next
      case p: False
      let ?st = "st\<lparr>pending_pkt_frame := smac @ drop 6 (pending_pkt_frame st),
        tx := tx st @ [take (nat (pending_pkt_len st)) (smac @ drop 6 (pending_pkt_frame st))]\<rparr>"
      have "net_ok ?st" using ok mac by (simp add: net_ok_def)
      then have "net_ok (set_entry i (?e\<lparr>mac_addr := smac, pkt_pending := 0, eth_len := 0\<rparr>) ?st)"
        using e(2) mac by (intro net_ok_set_entry) (auto simp: entry_ok_def)
      then show ?thesis
        using arp_reply_resolves[OF ok mac(1) _ i(1) _ i(2) refl null p] False own by (simp add: set_entry_def)
    qed
  qed
qed

lemma handle_arp_safe:
  assumes ok: "net_ok st" and p: "28 \<le> length p"
  shows "\<exists>r st'. handle_arp io st p n = Some (r, st') \<and> net_ok st' \<and> rx st' = rx st"
proof -
  obtain hw pt op sip dip where r: "rd16 p 0 = Some hw" "rd16 p 2 = Some pt" "rd16 p 6 = Some op" "rd32 p 14 = Some sip"
    "rd32 p 24 = Some dip" using p by (simp add: rd16_def rd32_def)
  obtain smac dmac where m: "rdn p 8 6 = Some smac" "rdn p 18 6 = Some dmac" "length smac = 6" "length dmac = 6"
    using p by (simp add: rdn_def)
  obtain g where g: "length g = 1518" "arp_send_reply io st sip smac =
    Some ((set_entry (arp_producer st) ((arp_table st ! arp_producer st)\<lparr>eth_frame := g\<rparr>) st)\<lparr>tx := tx st @ [take 42 g]\<rparr>)"
    using arp_send_reply_eq[OF ok m(3)] by blast
  have "arp_producer st < 10" using ok by (simp add: net_ok_def)
  note reply = net_ok_frame[OF ok this g(1)]
  obtain q st' where a: "arp_reply io st smac sip dmac = Some (q, st')" "net_ok st'" "rx st' = rx st"
    using arp_reply_safe[OF ok m(3,4)] by blast
  let ?reply = "(set_entry (arp_producer st) ((arp_table st ! arp_producer st)\<lparr>eth_frame := g\<rparr>) st)\<lparr>tx := tx st @ [take 42 g]\<rparr>"
  have rep: "net_ok ?reply" "rx ?reply = rx st" using reply by (simp_all add: set_entry_def)
  consider "n < 28 \<or> hw \<noteq> 1 \<or> pt \<noteq> 0x0800 \<or> dip \<noteq> own_ip st"
    | "\<not> (n < 28 \<or> hw \<noteq> 1 \<or> pt \<noteq> 0x0800 \<or> dip \<noteq> own_ip st)" "op = 1"
    | "\<not> (n < 28 \<or> hw \<noteq> 1 \<or> pt \<noteq> 0x0800 \<or> dip \<noteq> own_ip st)" "op = 2"
    | "\<not> (n < 28 \<or> hw \<noteq> 1 \<or> pt \<noteq> 0x0800 \<or> dip \<noteq> own_ip st)" "op \<noteq> 1" "op \<noteq> 2" by blast
  then show ?thesis
  proof cases
    case 1
    then show ?thesis using r ok by (auto simp: handle_arp_def)
  next
    case 2
    then have "handle_arp io st p n = Some (0, ?reply) \<or> handle_arp io st p n = Some (0, st)"
      using r m g(2) by (auto simp: handle_arp_def)
    then show ?thesis using rep ok by blast
  next
    case 3
    then have "handle_arp io st p n = Some (q, st')" using r m a(1) by (simp add: handle_arp_def)
    then show ?thesis using a by blast
  next
    case 4
    then show ?thesis using r m ok by (auto simp: handle_arp_def)
  qed
qed

section \<open>Sending\<close>

lemma find_in_ring:
  assumes "net_ok st" "lookup_mac_addr st ip = Some (Some i)"
  shows "i < 10" "i \<noteq> arp_producer st"
  using assms ring_search_Some[OF assms(1), of ip] by (auto simp: lookup_mac_addr_def split: if_splits)

lemma route_Some:
  assumes ok: "net_ok st"
  shows "\<exists>en mac d. route st dst = Some (en, mac, d) \<and> (\<forall>i. en = Some i \<longrightarrow> i < 10) \<and>
    (\<forall>m. mac = Some m \<longrightarrow> en \<noteq> None \<and> length m = 6)"
proof -
  let ?d = "if subnet_mask st AND own_ip st = subnet_mask st AND dst then dst else router_ip st"
  obtain r where r: "lookup_mac_addr st ?d = Some r" using ring_search_Some[OF ok, of ?d] by (auto simp: lookup_mac_addr_def)
  have pr: "arp_producer st < 10" "length (multicast_mac st) = 6" using ok by (auto simp: net_ok_def)
  have bc: "length broadcast_mac = 6" by (simp add: broadcast_mac_def)
  consider (b) "NOT dst = 0 \<or> (NOT (subnet_mask st) AND dst = NOT (subnet_mask st) \<and> subnet_mask st AND dst = subnet_mask st AND own_ip st)"
    | (m) "\<not> (NOT dst = 0 \<or> (NOT (subnet_mask st) AND dst = NOT (subnet_mask st) \<and> subnet_mask st AND dst = subnet_mask st AND own_ip st))" "dst = multicast_ip st"
    | (u) "\<not> (NOT dst = 0 \<or> (NOT (subnet_mask st) AND dst = NOT (subnet_mask st) \<and> subnet_mask st AND dst = subnet_mask st AND own_ip st))" "dst \<noteq> multicast_ip st"
    by blast
  then show ?thesis
  proof cases
    case b
    then show ?thesis using pr bc by (simp add: route_def Let_def)
  next
    case m
    then show ?thesis using pr bc by (simp add: route_def Let_def)
  next
    case u
    show ?thesis
    proof (cases r)
      case None
      then show ?thesis using u r pr bc by (simp add: route_def Let_def)
    next
      case (Some i)
      have i: "i < 10" using find_in_ring[OF ok] r Some by blast
      note e = net_ok_entry[OF ok i]
      obtain k where "memcmp (mac_addr (arp_table st ! i)) null_mac_addr 6 = Some k"
        using memcmp6_Some[of "mac_addr (arp_table st ! i)" null_mac_addr] e by (auto simp: entry_ok_def null_mac_addr_def)
      then show ?thesis using u r Some e i pr bc by (simp add: route_def Let_def entry_ok_def)
    qed
  qed
qed

text \<open>The first unresolved packet takes the entry at the producer index, and its frame replaces whatever
  frame was pending before.\<close>

lemma store_pending_eq:
  assumes ok: "net_ok st" and len: "0 \<le> len" "len \<le> 1504" "nat len \<le> length buffer"
  shows "\<exists>f. length f = 1518 \<and> take (nat len) (drop 14 f) = take (nat len) buffer \<and>
    store_pending st buffer len ip = Some (arp_producer st,
      set_entry (arp_producer st) ((arp_table st ! arp_producer st)\<lparr>pkt_pending := 1, ipv4_addr := ip, mac_addr := null_mac_addr\<rparr>)
       (st\<lparr>arp_producer := (arp_producer st + 1) mod 10,
          arp_consumer := (if arp_consumer st = (arp_producer st + 1) mod 10 then (arp_consumer st + 1) mod 10 else arp_consumer st),
          pending_pkt_frame := f, pending_pkt_len := len + 14\<rparr>))"
proof -
  let ?e = "arp_table st ! arp_producer st"
  have l: "arp_producer st < 10" "length (own_mac st) = 6" "length (pending_pkt_frame st) = 1518"
    using ok by (auto simp: net_ok_def)
  have e: "arp_entry_at st (arp_producer st) = Some ?e" "length (mac_addr ?e) = 6"
    using net_ok_entry[OF ok l(1)] by (auto simp: entry_ok_def)
  have ms: "memset (mac_addr ?e) 0 6 = Some null_mac_addr"
    using e(2) by (simp add: memset_eq_wrn wrn_def null_mac_addr_def)
  obtain f where f: "fill_ethhdr (pending_pkt_frame st) 0x0800 (own_mac st) null_mac_addr = Some f" "length f = 1518"
    using sized_fill_ethhdr[of "pending_pkt_frame st" "own_mac st" null_mac_addr "0x0800"] l
    by (auto simp: sized_def null_mac_addr_def)
  let ?f = "take 14 f @ take (nat len) buffer @ drop (14 + nat len) f"
  have u: "u64_of len = len" using len by (intro u64_of_id) auto
  have d: "rdn buffer 0 (nat (u64_of len)) = Some (take (nat len) buffer)" using len u by (simp add: rdn_def)
  have w: "wrn f 14 (take (nat len) buffer) = Some ?f" using f len by (simp add: wrn_def)
  have s: "s32_of (len + 14) = len + 14" using len by (intro s32_of_id) auto
  define g where "g = ?f"
  have g: "length g = 1518" "take (nat len) (drop 14 g) = take (nat len) buffer" using f len by (auto simp: g_def)
  have "store_pending st buffer len ip = Some (arp_producer st,
      set_entry (arp_producer st) (?e\<lparr>pkt_pending := 1, ipv4_addr := ip, mac_addr := null_mac_addr\<rparr>)
       (st\<lparr>arp_producer := (arp_producer st + 1) mod 10,
          arp_consumer := (if arp_consumer st = (arp_producer st + 1) mod 10 then (arp_consumer st + 1) mod 10 else arp_consumer st),
          pending_pkt_frame := g, pending_pkt_len := len + 14\<rparr>))"
    unfolding store_pending_def Let_def e(1) ms f(1) d w s Option.bind_lunit g_def by (rule refl)
  then show ?thesis using g by blast
qed

lemma store_pending_ok:
  assumes ok: "net_ok st" and len: "0 \<le> len" "len \<le> 1504" "nat len \<le> length buffer"
  shows "\<exists>st'. store_pending st buffer len ip = Some (arp_producer st, st') \<and> net_ok st' \<and> rx st' = rx st"
proof -
  obtain f where f: "length f = 1518" "store_pending st buffer len ip = Some (arp_producer st,
      set_entry (arp_producer st) ((arp_table st ! arp_producer st)\<lparr>pkt_pending := 1, ipv4_addr := ip, mac_addr := null_mac_addr\<rparr>)
       (st\<lparr>arp_producer := (arp_producer st + 1) mod 10,
          arp_consumer := (if arp_consumer st = (arp_producer st + 1) mod 10 then (arp_consumer st + 1) mod 10 else arp_consumer st),
          pending_pkt_frame := f, pending_pkt_len := len + 14\<rparr>))" using store_pending_eq[OF assms] by blast
  let ?e = "(arp_table st ! arp_producer st)\<lparr>pkt_pending := 1, ipv4_addr := ip, mac_addr := null_mac_addr\<rparr>"
  let ?st = "st\<lparr>arp_producer := (arp_producer st + 1) mod 10,
          arp_consumer := (if arp_consumer st = (arp_producer st + 1) mod 10 then (arp_consumer st + 1) mod 10 else arp_consumer st),
          pending_pkt_frame := f, pending_pkt_len := len + 14\<rparr>"
  have "entry_ok ?e" using net_ok_entry[OF ok, of "arp_producer st"] ok by (simp add: net_ok_def entry_ok_def null_mac_addr_def)
  moreover have "net_ok ?st" using ok f(1) len by (simp add: net_ok_def)
  ultimately have "net_ok (set_entry (arp_producer st) ?e ?st)" by (intro net_ok_set_entry)
  moreover have "rx (set_entry (arp_producer st) ?e ?st) = rx st" by (simp add: set_entry_def)
  ultimately show ?thesis using f(2) by blast
qed

text \<open>\<open>eth_len\<close> is never set, so the wait ends after one \<open>receive_ether\<close>.\<close>

lemma wait_reply_once:
  assumes "recv_ether st = Some (r, st')" "net_ok st'" "i < 10"
  shows "wait_reply recv_ether i k st = Some st'"
  using assms net_ok_entry[OF assms(2,3)] by (subst wait_reply.simps) (simp add: entry_ok_def)

definition packet_ok :: "bytes \<Rightarrow> int \<Rightarrow> bool" where
  "packet_ok buffer len \<longleftrightarrow> 20 \<le> len \<and> nat len \<le> length buffer \<and> len < 2 ^ 31 \<and> (buffer ! 9 = 17 \<longrightarrow> udp_fits buffer)"

lemma send_ipv4_safe:
  assumes ok: "net_ok st" and pk: "packet_ok buffer len"
    and recv: "\<And>st. net_ok st \<Longrightarrow> \<exists>r st'. recv_ether st = Some (r, st') \<and> net_ok st'"
  shows "\<exists>r b' st'. send_ipv4 io recv_ether st buffer len = Some (r, b', st') \<and> net_ok st' \<and> length b' = length buffer"
proof (cases "1518 < u64_of (len + 14)")
  case True
  then show ?thesis using ok by (simp add: send_ipv4_def)
next
  case False
  have u: "u64_of (len + 14) = len + 14" "u64_of len = len" using pk by (auto simp: packet_ok_def intro!: u64_of_id)
  then have len: "0 \<le> len" "len \<le> 1504" "nat len \<le> length buffer" using False pk by (auto simp: packet_ok_def)
  obtain b where b: "patch_packet st buffer = Some b" "length b = length buffer"
    using patch_packet_valid[of buffer st] pk unfolding packet_ok_def by fastforce
  have "20 \<le> length b" using b(2) pk unfolding packet_ok_def by linarith
  then obtain dst where dst: "rd32 b 16 = Some dst" by (simp add: rd32_def)
  obtain en mac d where rt: "route st dst = Some (en, mac, d)" "\<forall>i. en = Some i \<longrightarrow> i < 10"
    "\<forall>m. mac = Some m \<longrightarrow> en \<noteq> None \<and> length m = 6"
    using route_Some[OF ok, of dst] by (elim exE conjE) (rule that)
  show ?thesis
  proof (cases mac)
    case None
    have pr: "arp_producer st < 10" using ok by (simp add: net_ok_def)
    obtain g where g: "length g = 1518" "arp_send_request io st d =
      Some ((set_entry (arp_producer st) ((arp_table st ! arp_producer st)\<lparr>eth_frame := g\<rparr>) st)\<lparr>tx := tx st @ [take 42 g]\<rparr>)"
      using arp_send_request_eq[OF ok] by blast
    let ?st1 = "(set_entry (arp_producer st) ((arp_table st ! arp_producer st)\<lparr>eth_frame := g\<rparr>) st)\<lparr>tx := tx st @ [take 42 g]\<rparr>"
    have ok1: "net_ok ?st1" using net_ok_frame[OF ok pr g(1)] by simp
    obtain st2 where s2: "store_pending ?st1 b len d = Some (arp_producer ?st1, st2)" "net_ok st2"
      using store_pending_ok[OF ok1 len(1,2)] len(3) b(2) by metis
    obtain k st3 where s3: "set_timer st2 = (k, st3)" "net_ok st3"
      using s2(2) by (cases "polls st2") (auto simp: set_timer_def)
    obtain q st4 where s4: "recv_ether st3 = Some (q, st4)" "net_ok st4" using recv[OF s3(2)] by blast
    have "arp_producer ?st1 < 10" using ok1 by (simp add: net_ok_def)
    then have w: "wait_reply recv_ether (arp_producer ?st1) k st3 = Some st4" by (rule wait_reply_once[of recv_ether st3 q st4, OF s4])
    show ?thesis
    proof (cases en)
      case en: None
      then show ?thesis using False b dst rt(1) None g(2) s2(1) s3(1) w s4(2) by (simp add: send_ipv4_def)
    next
      case (Some i)
      then show ?thesis using False b dst rt(1) None g(2) ok1 by (simp add: send_ipv4_def)
    qed
  next
    case (Some m)
    then obtain i where i: "en = Some i" "i < 10" "length m = 6" using rt by auto
    note e = net_ok_entry[OF ok i(2)]
    have om: "length (own_mac st) = 6" using ok by (simp add: net_ok_def)
    obtain f where f: "fill_ethhdr (eth_frame (arp_table st ! i)) 0x0800 (own_mac st) m = Some f" "length f = 1518"
      using sized_fill_ethhdr[of "eth_frame (arp_table st ! i)" "own_mac st" m "0x0800"] e om i(3)
      by (auto simp: sized_def entry_ok_def)
    let ?f = "take 14 f @ take (nat len) b @ drop (14 + nat len) f"
    have w: "wrn f 14 (take (nat len) b) = Some ?f" "length ?f = 1518" using f len b(2) by (auto simp: wrn_def)
    define g where "g = ?f"
    have s: "s32_of (len + 14) = len + 14" using len by (intro s32_of_id) auto
    have r: "rdn b 0 (nat (u64_of len)) = Some (take (nat len) b)" "rdn g 0 (nat (len + 14)) = Some (take (nat (len + 14)) g)"
    proof -
      have "length g = 1518" using w(2) by (simp only: g_def)
      moreover have "nat (len + 14) \<le> 1518" using len by simp
      ultimately show "rdn g 0 (nat (len + 14)) = Some (take (nat (len + 14)) g)" by (simp add: rdn_def)
      show "rdn b 0 (nat (u64_of len)) = Some (take (nat len) b)" using len b(2) u(2) by (simp add: rdn_def)
    qed
    let ?st = "set_entry i ((arp_table st ! i)\<lparr>eth_frame := g\<rparr>) st"
    have se: "send_ether io ?st g (len + 14) = Some (io (take (nat (len + 14)) g), ?st\<lparr>tx := tx ?st @ [take (nat (len + 14)) g]\<rparr>)"
      using len r(2) by (simp add: send_ether_def)
    have "send_ipv4 io recv_ether st buffer len =
        Some (io (take (nat (len + 14)) g), b, ?st\<lparr>tx := tx ?st @ [take (nat (len + 14)) g]\<rparr>)"
      using False b dst rt(1) Some i(1) e f(1) w(1) r(1) s se by (simp add: send_ipv4_def g_def[symmetric])
    moreover have "net_ok ?st" using net_ok_frame[OF ok i(2) w(2)] by (simp only: g_def)
    ultimately show ?thesis using b(2) by simp
  qed
qed

section \<open>Two unresolved destinations\<close>

lemma ring_from_eq: "i < 10 \<Longrightarrow> ring_from i n = map (\<lambda>k. (i + k) mod 10) [0..<n]"
proof (induction n arbitrary: i)
  case (Suc n)
  have "map (\<lambda>k. (i + k) mod 10) [0..<Suc n] = i mod 10 # map (\<lambda>k. (i + Suc k) mod 10) [0..<n]"
    by (simp add: map_upt_Suc del: upt_Suc)
  also have "map (\<lambda>k. (i + Suc k) mod 10) [0..<n] = map (\<lambda>k. ((i + 1) mod 10 + k) mod 10) [0..<n]"
    by (simp add: mod_add_left_eq)
  finally show ?case using Suc.IH[of "(i + 1) mod 10"] Suc.prems by simp
qed simp

lemma ring_end:
  assumes "c < 10" "pr < 10"
  shows "pr \<notin> set (ring c pr)"
proof -
  define x where "x = (pr + 10 - c) mod 10"
  have x: "x = (if c \<le> pr then pr - c else pr + 10 - c)" using ring_distance[OF assms] by (simp only: x_def)
  have "(c + k) mod 10 \<noteq> pr" if k: "k < x" for k
  proof -
    have r: "c + k < pr \<or> (c + k < pr + 10 \<and> pr < c)" using k x assms by (auto split: if_splits)
    show ?thesis
    proof (cases "c + k < 10")
      case True
      then show ?thesis using r by auto
    next
      case False
      then have "c + k - 10 < 10" using r assms by linarith
      then have "(c + k) mod 10 = c + k - 10" using False le_mod_geq[of 10 "c + k"] by simp
      then show ?thesis using r False assms by auto
    qed
  qed
  then have "pr \<notin> (\<lambda>k. (c + k) mod 10) ` {0..<x}" by (metis (mono_tags, lifting) atLeastLessThan_iff imageE)
  then show ?thesis unfolding ring_def ring_from_eq[OF assms(1)] x_def[symmetric] by (simp only: set_map set_upt not_False_eq_True)
qed

lemma ring_snoc:
  assumes "c < 10" "pr < 10" "(pr + 1) mod 10 \<noteq> c"
  shows "ring c ((pr + 1) mod 10) = ring c pr @ [pr]"
proof -
  define q where "q = (pr + 1) mod 10"
  have q: "q = (if pr = 9 then 0 else pr + 1)" "q < 10" "q \<noteq> c" using ring_next[OF assms(2)] assms(3) by (simp_all add: q_def)
  define x where "x = (pr + 10 - c) mod 10"
  have x: "x = (if c \<le> pr then pr - c else pr + 10 - c)" using ring_distance[OF assms(1,2)] by (simp only: x_def)
  have last: "(c + x) mod 10 = pr" using x assms(1,2) by (cases "c \<le> pr") (simp_all add: mod_if)
  have "(q + 10 - c) mod 10 = (if c \<le> q then q - c else q + 10 - c)" by (rule ring_distance[OF assms(1) q(2)])
  then have "(q + 10 - c) mod 10 = Suc x" using q x assms(1,2) by (auto split: if_splits)
  then show ?thesis
    unfolding ring_def q_def[symmetric] x_def[symmetric] using last assms(1)
    by (simp add: ring_from_eq del: ring_from.simps)
qed

lemma find_cong_set: "(\<And>x. x \<in> set xs \<Longrightarrow> P x = Q x) \<Longrightarrow> find P xs = find Q xs"
  by (induction xs) auto

lemma ring_search_push:
  assumes t: "length t = 10" and c: "c < 10" "pr < 10" "(pr + 1) mod 10 \<noteq> c"
    and s: "ring_search t pr ip c = Some i" "i \<noteq> pr"
  shows "ring_search (t[pr := e]) ((pr + 1) mod 10) ip c = Some i" "i \<noteq> (pr + 1) mod 10"
proof -
  let ?f = "\<lambda>t xs. find (\<lambda>j. ipv4_addr (t ! j) = ip) xs"
  note sn = ring_snoc[OF c] ring_end[OF c(1,2)]
  have f: "?f t (ring c pr) = Some i"
    using s ring_search_eq[OF t c(2,1), of ip] by (auto split: option.splits)
  have "t[pr := e] ! x = t ! x" if "x \<in> set (ring c pr)" for x using that sn(2) by (cases "x = pr") auto
  then have "?f (t[pr := e]) (ring c pr) = ?f t (ring c pr)" by (intro find_cong_set) simp
  moreover have "find P (xs @ ys) = Some x" if "find P xs = Some x" for P and xs ys :: "nat list" and x
    using that by (induction xs) (auto split: if_splits)
  ultimately have g: "?f (t[pr := e]) (ring c ((pr + 1) mod 10)) = Some i" using f sn(1) by simp
  then show "ring_search (t[pr := e]) ((pr + 1) mod 10) ip c = Some i"
    using ring_search_eq[of "t[pr := e]" "(pr + 1) mod 10" c ip] t c by simp
  have "i \<in> set (ring c ((pr + 1) mod 10))" using g by (auto simp: find_Some_iff)
  then show "i \<noteq> (pr + 1) mod 10" using ring_end[OF c(1), of "(pr + 1) mod 10"] by auto
qed

section \<open>Properties\<close>

text \<open>ARP handling is memory safe: for every ARP packet of at least 28 bytes and every claimed size,
  \<open>handle_arp\<close> returns without leaving an object and keeps the invariant of the ARP table.\<close>

theorem arp_memory_safe:
  assumes "net_ok st" "28 \<le> length p"
  shows "\<exists>r st'. handle_arp io st p n = Some (r, st') \<and> net_ok st'"
  using handle_arp_safe[OF assms] by blast


text \<open>The wait for an ARP reply polls only once: \<open>eth_len\<close> is never set in the IPv4 code, so the loop
  that should run until the timer ends leaves after one \<open>receive_ether\<close>, whatever number of rounds the
  timer allows.\<close>

theorem arp_wait_polls_once:
  assumes "recv_ether st = Some (r, st')" "net_ok st'" "i < 10"
  shows "wait_reply recv_ether i rounds st = Some st'"
  using assms by (rule wait_reply_once)

text \<open>C12: A packet is delivered to the wrong host. If an address \<open>A\<close> is being resolved and a packet for
  another unresolved address \<open>B\<close> is stored, the ARP reply of \<open>A\<close> sends the packet for \<open>B\<close> to the MAC address
  of \<open>A\<close>: there is only one frame buffer for all pending entries.\<close>

theorem pending_packet_misdelivered:
  assumes ok: "net_ok st" and full: "(arp_producer st + 1) mod 10 \<noteq> arp_consumer st"
    and A: "A \<noteq> 0" "ring_search (arp_table st) (arp_producer st) A (arp_consumer st) = Some i" "i \<noteq> arp_producer st" "i < 10"
      "mac_addr (arp_table st ! i) = null_mac_addr" "pkt_pending (arp_table st ! i) \<noteq> 0"
    and B: "0 \<le> len" "len \<le> 1504" "nat len \<le> length packet" "store_pending st packet len B = Some (j, st1)"
    and mac: "length mac = 6"
  shows "\<exists>st2 f. arp_reply io st1 mac A (own_mac st1) = Some (0, st2) \<and> tx st2 = tx st @ [f] \<and>
    take 6 f = mac \<and> drop 14 f = take (nat len) packet"
proof -
  let ?e = "(arp_table st ! arp_producer st)\<lparr>pkt_pending := 1, ipv4_addr := B, mac_addr := null_mac_addr\<rparr>"
  obtain f where f: "length f = 1518" "take (nat len) (drop 14 f) = take (nat len) packet"
    "st1 = set_entry (arp_producer st) ?e (st\<lparr>arp_producer := (arp_producer st + 1) mod 10,
       pending_pkt_frame := f, pending_pkt_len := len + 14\<rparr>)"
    using store_pending_eq[OF ok B(1-3), of B] B(4) full by auto
  have ok1: "net_ok st1" using store_pending_ok[OF ok B(1-3), of B] B(4) by auto
  have t: "length (arp_table st) = 10" "arp_consumer st < 10" "arp_producer st < 10" using ok by (auto simp: net_ok_def)
  note s = ring_search_push(1)[OF t full A(2,3), of ?e] ring_search_push(2)[OF t full A(2,3)]
  have st1: "arp_table st1 = (arp_table st)[arp_producer st := ?e]" "arp_producer st1 = (arp_producer st + 1) mod 10"
    "arp_consumer st1 = arp_consumer st" "pending_pkt_frame st1 = f" "pending_pkt_len st1 = len + 14" "tx st1 = tx st"
    by (simp_all add: f(3) set_entry_def)
  have e: "arp_table st1 ! i = arp_table st ! i" using A(3) by (simp add: st1)
  let ?f = "take (nat (len + 14)) (mac @ drop 6 f)"
  have "\<exists>st2. arp_reply io st1 mac A (own_mac st1) = Some (0, st2) \<and> tx st2 = tx st @ [?f]"
    using arp_reply_resolves[OF ok1 mac A(1) _ _ A(4) refl, of io] s A(5,6) e st1 by (simp add: set_entry_def)
  moreover have "take 6 ?f = mac" using mac B(1) by simp
  moreover have "drop 14 ?f = take (nat len) packet"
    using f(2) mac B(1) by (simp add: drop_take nat_add_distrib drop_drop)
  ultimately show ?thesis by blast
qed

section \<open>Witnesses\<close>

definition null_recv :: "unit net \<Rightarrow> (int \<times> unit net) option" where
  "null_recv st = Some (0, st)"

theorem arp_memory_safe_witness:
  "\<exists>r st'. handle_arp (\<lambda>_. 0) (net_start ()) (replicate 28 1) 28 = Some (r, st') \<and> net_ok st'"
  by (rule arp_memory_safe) (simp_all add: net_ok_start)


theorem arp_wait_polls_once_witness:
  "wait_reply null_recv 3 100 (net_start ()) = Some (net_start ())"
  by (rule arp_wait_polls_once[of _ _ 0]) (simp_all add: net_ok_start null_recv_def)

definition one_pending :: "unit net" where
  "one_pending = snd (the (store_pending (net_start ()) (replicate 20 1) 20 7))"

lemma one_pending_eq:
  "store_pending (net_start ()) (replicate 20 1) 20 7 = Some (0, one_pending)" "net_ok one_pending"
  "arp_producer one_pending = 1" "arp_consumer one_pending = 0"
  "ipv4_addr (arp_table one_pending ! 0) = 7" "mac_addr (arp_table one_pending ! 0) = null_mac_addr"
  "pkt_pending (arp_table one_pending ! 0) = 1"
proof -
  let ?st = "net_start ()"
  have p: "arp_producer ?st = 0" "arp_consumer ?st = 0" "length (arp_table ?st) = 10" by (simp_all add: net_start_def)
  obtain f where f: "store_pending ?st (replicate 20 1) 20 7 = Some (arp_producer ?st,
      set_entry (arp_producer ?st) ((arp_table ?st ! arp_producer ?st)\<lparr>pkt_pending := 1, ipv4_addr := 7, mac_addr := null_mac_addr\<rparr>)
       (?st\<lparr>arp_producer := (arp_producer ?st + 1) mod 10,
          arp_consumer := (if arp_consumer ?st = (arp_producer ?st + 1) mod 10 then (arp_consumer ?st + 1) mod 10 else arp_consumer ?st),
          pending_pkt_frame := f, pending_pkt_len := 20 + 14\<rparr>))"
    using store_pending_eq[OF net_ok_start, of 20 "replicate 20 1" "()" 7] by auto
  then show "store_pending ?st (replicate 20 1) 20 7 = Some (0, one_pending)" by (simp add: one_pending_def p)
  show "net_ok one_pending"
    using store_pending_ok[OF net_ok_start, of 20 "replicate 20 1" "()" 7] by (auto simp: one_pending_def)
  show "arp_producer one_pending = 1" "arp_consumer one_pending = 0"
    "ipv4_addr (arp_table one_pending ! 0) = 7" "mac_addr (arp_table one_pending ! 0) = null_mac_addr"
    "pkt_pending (arp_table one_pending ! 0) = 1"
    using f p by (simp_all add: one_pending_def set_entry_def)
qed

theorem pending_packet_misdelivered_witness:
  "\<exists>st1 st2 f. store_pending one_pending (replicate 24 2) 24 9 = Some (1, st1) \<and>
    arp_reply (\<lambda>_. 0) st1 (replicate 6 5) 7 (own_mac st1) = Some (0, st2) \<and> tx st2 = tx one_pending @ [f] \<and>
    take 6 f = replicate 6 5 \<and> drop 14 f = take (nat 24) (replicate 24 2)"
proof -
  note o = one_pending_eq
  have "ring_search (arp_table one_pending) 1 7 0 = Some 0"
    using o(2,5) by (subst ring_search.simps) (simp add: net_ok_def)
  moreover obtain st1 where st1: "store_pending one_pending (replicate 24 2) 24 9 = Some (1, st1)"
    using store_pending_ok[OF o(2), of 24 "replicate 24 2" 9] o(3) by auto
  ultimately show ?thesis
    using pending_packet_misdelivered[OF o(2), of 7 0 24 "replicate 24 2" 9 1 st1 "replicate 6 5" "\<lambda>_. 0"] o by auto
qed

end
