(* ===== verification/Net_Recv.thy ===== *)
theory Net_Recv
  imports Net_Arp
begin

text \<open>Receiving: which packets are dropped, reassembly of fragments, the missing bounds in \<open>handle_ipv4\<close>
  and \<open>handle_icmp\<close>, and that the fuel of \<open>receive_ether\<close> is never used up.\<close>

section \<open>Header fields\<close>

text \<open>A packet whose header carries a correct checksum, with these fields.\<close>

definition ip_packet :: "bytes \<Rightarrow> u16 \<Rightarrow> u16 \<Rightarrow> u16 \<Rightarrow> u8 \<Rightarrow> u32 \<Rightarrow> u32 \<Rightarrow> bool" where
  "ip_packet p len ident off proto src dst \<longleftrightarrow> 20 \<le> length p \<and> rd16 p 2 = Some len \<and> rd16 p 4 = Some ident \<and>
     rd16 p 6 = Some off \<and> rd8 p 9 = Some proto \<and> rd32 p 12 = Some src \<and> rd32 p 16 = Some dst \<and>
     (\<exists>p0 c. wr16 p 10 0 = Some p0 \<and> checksum p0 10 = Some c \<and> rd16 p 10 = Some c)"

text \<open>The packet as \<open>handle_ipv4\<close> sees it after it has cleared the checksum.\<close>

definition no_sum :: "bytes \<Rightarrow> bytes" where
  "no_sum p = the (wr16 p 10 0)"

lemma no_sum_wr: "12 \<le> length p \<Longrightarrow> wr16 p 10 0 = Some (no_sum p)"
  using wr16_Some[of 10 p 0] by (auto simp: no_sum_def)

lemma length_no_sum: "12 \<le> length p \<Longrightarrow> length (no_sum p) = length p"
  using wr16_length[OF no_sum_wr] .

lemma no_sum_nth: "12 \<le> length p \<Longrightarrow> i \<noteq> 10 \<Longrightarrow> i \<noteq> 11 \<Longrightarrow> no_sum p ! i = p ! i"
  using wr16_frame[OF no_sum_wr, of p i] by simp

lemma no_sum_fields:
  assumes "20 \<le> length p"
  shows "rd16 (no_sum p) 2 = rd16 p 2" "rd16 (no_sum p) 4 = rd16 p 4" "rd16 (no_sum p) 6 = rd16 p 6"
    "rd8 (no_sum p) 9 = rd8 p 9" "rd32 (no_sum p) 12 = rd32 p 12" "rd32 (no_sum p) 16 = rd32 p 16"
  using assms length_no_sum[of p] by (simp_all add: rd16_def rd8_def rd32_def no_sum_nth)

lemma no_sum_drop: "20 \<le> length p \<Longrightarrow> 12 \<le> k \<Longrightarrow> drop k (no_sum p) = drop k p"
  using length_no_sum[of p] by (intro nth_equalityI) (auto simp: no_sum_nth)

lemma handle_ipv4_accepted:
  assumes p: "ip_packet p len ident off proto src dst" and us: "\<not> not_for_us st dst" and n: "20 \<le> n"
  shows "handle_ipv4 up send st p n =
    (if off AND 0x1FFF = 0
     then if off AND 0x2000 = 0x2000
       then do { d \<leftarrow> rdn (no_sum p) 0 (unat len); h \<leftarrow> wrn (ip_heap st) 0 d; Some (0, st\<lparr>ip_heap := h\<rparr>) }
       else dispatch_ipv4 up send st (no_sum p)
     else do {
       same \<leftarrow> same_datagram (ip_heap st) (no_sum p);
       if \<not> same then Some (0, st)
       else do {
         d \<leftarrow> rdn (no_sum p) 20 (nat (u64_of (uint len - 20)));
         h \<leftarrow> wrn (ip_heap st) (20 + unat (off AND 0x1FFF) * 8) d;
         if off AND 0x2000 = 0x2000 then Some (0, st\<lparr>ip_heap := h\<rparr>)
         else do {
           h \<leftarrow> wr16 h 2 (len + (off AND 0x1FFF) * 8);
           dispatch_ipv4 up send (st\<lparr>ip_heap := h\<rparr>) h } } })"
proof -
  have l: "20 \<le> length p" using p by (simp add: ip_packet_def)
  obtain c where c: "checksum (no_sum p) 10 = Some c" "rd16 p 10 = Some c"
    using p no_sum_wr[of p] l by (auto simp: ip_packet_def)
  have "rd32 p 16 = Some dst" "rd16 (no_sum p) 6 = Some off" "rd16 (no_sum p) 2 = Some len"
    using p no_sum_fields[OF l] by (auto simp: ip_packet_def)
  then show ?thesis using us n c no_sum_wr[of p] l unfolding handle_ipv4_def by simp
qed

text \<open>What is not addressed to this host or has a wrong header checksum is dropped: \<open>handle_ipv4\<close> reports
  an error and changes nothing.\<close>

theorem ipv4_filter:
  assumes "20 \<le> length p" "20 \<le> n" "rd32 p 16 = Some dst" "rd16 p 10 = Some s" "checksum (no_sum p) 10 = Some c"
    and bad: "not_for_us st dst \<or> s \<noteq> c"
  shows "handle_ipv4 up send st p n = Some (-1, st)"
  using assms no_sum_wr[of p] by (auto simp: handle_ipv4_def)

section \<open>Reassembly\<close>

lemma unat_offset: "unat ((w :: u16) AND 0x1FFF) = unat w mod 8192"
proof -
  have "(0x1FFF :: u16) = mask 13" by (simp add: mask_eq_exp_minus_1)
  then have "w AND 0x1FFF = take_bit 13 w" by (simp only: take_bit_eq_mask)
  then have "unat (w AND 0x1FFF) = take_bit 13 (unat w)" by (simp only: unsigned_take_bit_eq)
  then show ?thesis by (simp add: take_bit_eq_mod)
qed

lemma more_bit: "((w :: u16) AND 0x2000 = 0x2000) = odd (unat w div 8192)"
proof -
  have "(w AND 2 ^ n = 2 ^ n) = bit w n" if "n < 16" for n
  proof
    assume e: "w AND 2 ^ n = 2 ^ n"
    have "bit (2 ^ n :: u16) n" using that by (simp add: bit_exp_iff)
    then have "bit (w AND 2 ^ n) n" unfolding e .
    then show "bit w n" by (simp add: bit_and_iff)
  next
    assume "bit w n"
    then show "w AND 2 ^ n = 2 ^ n" by (intro bit_word_eqI) (auto simp: bit_and_iff bit_exp_iff)
  qed
  from this[of 13] have "(w AND 2 ^ 13 = 2 ^ 13) = bit w 13" by simp
  also have "\<dots> = bit (unat w) 13" by (simp add: bit_unsigned_iff)
  finally show ?thesis by (simp add: bit_iff_odd)
qed

text \<open>The fragment field: offset in units of eight bytes and the more-fragments flag.\<close>

definition frag_off :: "nat \<Rightarrow> bool \<Rightarrow> u16" where
  "frag_off k mf = of_nat (k + (if mf then 8192 else 0))"

lemma frag_off_fields:
  assumes "k < 8192"
  shows "unat (frag_off k mf AND 0x1FFF) = k" "(frag_off k mf AND 0x2000 = 0x2000) = mf"
proof -
  have u: "unat (frag_off k mf) = k + (if mf then 8192 else 0)"
    using assms by (simp add: frag_off_def unat_of_nat take_bit_nat_eq_self del: of_nat_add)
  show "unat (frag_off k mf AND 0x1FFF) = k" unfolding unat_offset u using assms by simp
  have "(k + 8192) div 8192 = 1" using assms by (simp add: div_add_self2)
  then show "(frag_off k mf AND 0x2000 = 0x2000) = mf" unfolding more_bit u using assms by simp
qed

definition frag :: "bytes \<Rightarrow> nat \<Rightarrow> bool \<Rightarrow> bytes \<Rightarrow> u16 \<Rightarrow> u8 \<Rightarrow> u32 \<Rightarrow> u32 \<Rightarrow> bool" where
  "frag p k mf d ident proto src dst \<longleftrightarrow>
     ip_packet p (of_nat (20 + length d)) ident (frag_off k mf) proto src dst \<and> k < 8192 \<and>
     20 + length d < 65536 \<and> 20 + length d \<le> length p \<and> take (length d) (drop 20 p) = d"

text \<open>The reassembly buffer holds a header of this datagram and the first bytes of its data.\<close>

definition collected :: "'a net \<Rightarrow> bytes \<Rightarrow> u16 \<Rightarrow> u8 \<Rightarrow> u32 \<Rightarrow> u32 \<Rightarrow> bool" where
  "collected st data ident proto src dst \<longleftrightarrow> length (ip_heap st) = 67054 \<and> 20 + length data \<le> 67054 \<and>
     take (length data) (drop 20 (ip_heap st)) = data \<and> rd16 (ip_heap st) 4 = Some ident \<and>
     rd8 (ip_heap st) 9 = Some proto \<and> rd32 (ip_heap st) 12 = Some src \<and> rd32 (ip_heap st) 16 = Some dst"

lemma rd_prefix:
  assumes "length h' = length h" "\<And>i. i < 20 \<Longrightarrow> h' ! i = h ! i"
  shows "rd16 h' 4 = rd16 h 4" "rd8 h' 9 = rd8 h 9" "rd32 h' 12 = rd32 h 12" "rd32 h' 16 = rd32 h 16"
  using assms by (simp_all add: rd16_def rd8_def rd32_def)

lemma unat_len: "20 + length d < 65536 \<Longrightarrow> unat (of_nat (20 + length d) :: u16) = 20 + length d"
  by (simp add: unat_of_nat take_bit_nat_eq_self del: of_nat_add)

lemma first_fragment:
  assumes f: "frag p 0 True d ident proto src dst" and us: "\<not> not_for_us st dst" and h: "length (ip_heap st) = 67054"
  shows "\<exists>st'. handle_ipv4 up send st p (int (length p)) = Some (0, st') \<and> collected st' d ident proto src dst \<and>
    \<not> not_for_us st' dst \<and> (\<exists>h. st' = st\<lparr>ip_heap := h\<rparr>)"
proof -
  have p: "ip_packet p (of_nat (20 + length d)) ident (frag_off 0 True) proto src dst" "20 + length d < 65536"
    "20 + length d \<le> length p" "take (length d) (drop 20 p) = d" using f by (auto simp: frag_def)
  let ?x = "take (20 + length d) (no_sum p)"
  have l: "length (no_sum p) = length p" "20 \<le> length p" using length_no_sum[of p] p(3) by auto
  have r: "rdn (no_sum p) 0 (20 + length d) = Some ?x" using p(3) l by (simp add: rdn_def)
  let ?h = "?x @ drop (20 + length d) (ip_heap st)"
  have w: "wrn (ip_heap st) 0 ?x = Some ?h" using p(2,3) l h by (simp add: wrn_def)
  have o: "(frag_off 0 True :: u16) AND 0x1FFF = 0" "frag_off 0 True AND 0x2000 = 0x2000"
    using frag_off_fields[of 0 True] by (simp_all add: unat_eq_zero)
  have "handle_ipv4 up send st p (int (length p)) = Some (0, st\<lparr>ip_heap := ?h\<rparr>)"
    using handle_ipv4_accepted[OF p(1) us, of "int (length p)" up send] l(2) o r w unat_len[OF p(2)] by simp
  moreover have "collected (st\<lparr>ip_heap := ?h\<rparr>) d ident proto src dst"
  proof -
    have n: "?h ! i = no_sum p ! i" if "i < 20" for i using that l p(3) by (simp add: nth_append)
    have "take (length d) (drop 20 ?h) = take (length d) (drop 20 (no_sum p))" using l p(3) by (simp add: drop_take)
    then have "take (length d) (drop 20 ?h) = d" using no_sum_drop[of p 20] l p(4) by simp
    moreover have "length ?h = 67054" using h l p by simp
    moreover have "rd16 ?h 4 = Some ident" "rd8 ?h 9 = Some proto" "rd32 ?h 12 = Some src" "rd32 ?h 16 = Some dst"
      using p(1) l no_sum_fields[OF l(2)] n h
      by (simp_all add: ip_packet_def rd16_def rd8_def rd32_def)
    ultimately show ?thesis using p(2) by (simp add: collected_def)
  qed
  moreover have "\<not> not_for_us (st\<lparr>ip_heap := ?h\<rparr>) dst" using us by (simp add: not_for_us_def)
  ultimately show ?thesis by blast
qed


text \<open>Appending the data of the next fragment.\<close>

lemma next_data:
  assumes c: "collected st data ident proto src dst" and f: "frag p k mf d ident proto src dst"
    and us: "\<not> not_for_us st dst" and k: "length data = 8 * k" "0 < k" and tot: "20 + length data + length d < 65536"
  shows "\<exists>h. length h = 67054 \<and> take (length data + length d) (drop 20 h) = data @ d \<and>
    (\<forall>i < 20. h ! i = ip_heap st ! i) \<and>
    handle_ipv4 up send st p (int (length p)) =
      (if mf then Some (0, st\<lparr>ip_heap := h\<rparr>)
       else do { h \<leftarrow> wr16 h 2 (of_nat (20 + length data + length d)); dispatch_ipv4 up send (st\<lparr>ip_heap := h\<rparr>) h })"
proof -
  have p: "ip_packet p (of_nat (20 + length d)) ident (frag_off k mf) proto src dst" "20 + length d < 65536"
    "20 + length d \<le> length p" "take (length d) (drop 20 p) = d" "k < 8192" using f by (auto simp: frag_def)
  have l: "length (no_sum p) = length p" "20 \<le> length p" using length_no_sum[of p] p(3) by auto
  have h: "length (ip_heap st) = 67054" "take (length data) (drop 20 (ip_heap st)) = data" "20 + length data \<le> 67054"
    using c by (auto simp: collected_def)
  have same: "same_datagram (ip_heap st) (no_sum p) = Some True"
    using c p(1) no_sum_fields[OF l(2)] by (simp add: same_datagram_def collected_def ip_packet_def)
  have "u64_of (uint (of_nat (20 + length d) :: u16) - 20) = int (length d)"
    using unat_len[OF p(2)] p(2) by (simp add: uint_nat u64_of_def del: of_nat_add)
  then have r: "rdn (no_sum p) 20 (nat (u64_of (uint (of_nat (20 + length d) :: u16) - 20))) = Some d"
    using p(3,4) l no_sum_drop[of p 20] by (simp add: rdn_def del: of_nat_add)
  let ?o = "20 + k * 8"
  let ?h = "take ?o (ip_heap st) @ d @ drop (?o + length d) (ip_heap st)"
  have bound: "?o + length d \<le> 67054" using tot k(1) by simp
  have w: "wrn (ip_heap st) ?o d = Some ?h" using bound h(1) by (simp add: wrn_def)
  note o = frag_off_fields[OF p(5), of mf]
  have o0: "(frag_off k mf :: u16) AND 0x1FFF \<noteq> 0" using o(1) k(2) by auto
  have len: "(of_nat (20 + length d) :: u16) + (frag_off k mf AND 0x1FFF) * 8 = of_nat (20 + length data + length d)"
  proof -
    have "(frag_off k mf AND 0x1FFF :: u16) = of_nat k"
      using arg_cong[OF o(1), of "of_nat :: nat \<Rightarrow> u16"] by simp
    then show ?thesis using k(1) by (simp add: algebra_simps)
  qed
  have "handle_ipv4 up send st p (int (length p)) =
      (if mf then Some (0, st\<lparr>ip_heap := ?h\<rparr>)
       else do { h \<leftarrow> wr16 ?h 2 (of_nat (20 + length data + length d)); dispatch_ipv4 up send (st\<lparr>ip_heap := h\<rparr>) h })"
    using handle_ipv4_accepted[OF p(1) us, of "int (length p)" up send] l(2) o o0 same r w len
    by (cases mf) (simp_all del: of_nat_add)
  moreover have "take (length data + length d) (drop 20 ?h) = data @ d" using h bound k by (simp add: drop_take mult.commute)
  moreover have "\<forall>i < 20. ?h ! i = ip_heap st ! i" using h by (simp add: nth_append)
  moreover have "length ?h = 67054" using bound h by simp
  ultimately show ?thesis by blast
qed

text \<open>The fragments of a datagram in order: all but the last carry a multiple of eight bytes.\<close>

fun train :: "nat \<Rightarrow> bytes list \<Rightarrow> bytes list \<Rightarrow> u16 \<Rightarrow> u8 \<Rightarrow> u32 \<Rightarrow> u32 \<Rightarrow> bool" where
  "train k [p] [d] ident proto src dst = frag p k False d ident proto src dst"
| "train k (p # q # ps) (d # e # ds) ident proto src dst =
     (frag p k True d ident proto src dst \<and> 8 dvd length d \<and> 0 < length d \<and>
      train (k + length d div 8) (q # ps) (e # ds) ident proto src dst)"
| "train k _ _ ident proto src dst = False"

text \<open>Receiving packets one after the other; the result of the last one.\<close>

fun receive_all :: "'a upper \<Rightarrow> 'a sender \<Rightarrow> 'a net \<Rightarrow> bytes list \<Rightarrow> (int \<times> 'a net) option" where
  "receive_all up send st [] = Some (0, st)"
| "receive_all up send st [p] = handle_ipv4 up send st p (int (length p))"
| "receive_all up send st (p # q # ps) = do {
     (_, st) \<leftarrow> handle_ipv4 up send st p (int (length p));
     receive_all up send st (q # ps) }"

lemma train_tail:
  assumes "train k ps ds ident proto src dst" "collected st data ident proto src dst" "\<not> not_for_us st dst"
    "length data = 8 * k" "0 < k" "20 + length data + length (concat ds) < 65536"
  shows "\<exists>h. length h = 67054 \<and> take (length data + length (concat ds)) (drop 20 h) = data @ concat ds \<and>
    rd16 h 2 = Some (of_nat (20 + length data + length (concat ds))) \<and> rd8 h 9 = Some proto \<and> rd32 h 12 = Some src \<and>
    receive_all up send st ps = dispatch_ipv4 up send (st\<lparr>ip_heap := h\<rparr>) h"
  using assms
proof (induction k ps ds ident proto src dst arbitrary: st data rule: train.induct)
  case (1 k p d ident proto src dst)
  obtain h where h: "length h = 67054" "take (length data + length d) (drop 20 h) = data @ d"
    "\<And>i. i < 20 \<Longrightarrow> h ! i = ip_heap st ! i"
    "handle_ipv4 up send st p (int (length p)) =
      do { h \<leftarrow> wr16 h 2 (of_nat (20 + length data + length d)); dispatch_ipv4 up send (st\<lparr>ip_heap := h\<rparr>) h }"
    using next_data[OF 1(2) _ 1(3-5), of p False d up send] 1(1,6) by auto
  obtain h' where h': "wr16 h 2 (of_nat (20 + length data + length d)) = Some h'" using wr16_Some[of 2 h] h(1) by auto
  have l: "length h' = 67054" using wr16_length[OF h'] h(1) by simp
  have n: "h' ! i = h ! i" if "i \<noteq> 2" "i \<noteq> 3" for i using wr16_frame[OF h'] that by simp
  have "drop 20 h' = drop 20 h" using l h(1) by (intro nth_equalityI) (auto simp: n)
  moreover have "rd16 h' 2 = Some (of_nat (20 + length data + length d))" by (rule rd16_wr16[OF h'])
  moreover have "rd8 h' 9 = Some proto" "rd32 h' 12 = Some src"
  proof -
    have c: "length (ip_heap st) = 67054" "rd8 (ip_heap st) 9 = Some proto" "rd32 (ip_heap st) 12 = Some src"
      using 1(2) by (auto simp: collected_def)
    have "rd8 h' 9 = rd8 (ip_heap st) 9" "rd32 h' 12 = rd32 (ip_heap st) 12"
      using c(1) l by (simp_all add: rd8_def rd32_def n h(3))
    then show "rd8 h' 9 = Some proto" "rd32 h' 12 = Some src" using c(2,3) by simp_all
  qed
  ultimately show ?case using h h' l by (intro exI[of _ h']) simp
next
  case (2 k p q ps d e ds ident proto src dst)
  let ?k = "k + length d div 8"
  have tr: "frag p k True d ident proto src dst" "8 dvd length d" "0 < length d"
    "train ?k (q # ps) (e # ds) ident proto src dst" using 2(2) by auto
  obtain h where h: "length h = 67054" "take (length data + length d) (drop 20 h) = data @ d"
    "\<And>i. i < 20 \<Longrightarrow> h ! i = ip_heap st ! i"
    "handle_ipv4 up send st p (int (length p)) = Some (0, st\<lparr>ip_heap := h\<rparr>)"
    using next_data[OF 2(3) tr(1) 2(4-6), of up send] 2(7) by auto
  let ?st = "st\<lparr>ip_heap := h\<rparr>"
  have len: "length (data @ d) = 8 * ?k" using 2(5) tr(2) by simp
  have c: "collected ?st (data @ d) ident proto src dst"
    using 2(3) h(1-3) 2(7) rd_prefix[of h "ip_heap st"] by (simp add: collected_def)
  have "\<not> not_for_us ?st dst" using 2(4) by (simp add: not_for_us_def)
  then obtain g where g: "length g = 67054"
    "take (length (data @ d) + length (concat (e # ds))) (drop 20 g) = (data @ d) @ concat (e # ds)"
    "rd16 g 2 = Some (of_nat (20 + length (data @ d) + length (concat (e # ds))))" "rd8 g 9 = Some proto" "rd32 g 12 = Some src"
    "receive_all up send ?st (q # ps) = dispatch_ipv4 up send (?st\<lparr>ip_heap := g\<rparr>) g"
    using 2(1)[OF tr(4) c _ len] 2(6,7) by (auto simp: add.assoc)
  have "receive_all up send st (p # q # ps) = dispatch_ipv4 up send (st\<lparr>ip_heap := g\<rparr>) g"
    using h(4) g(6) by simp
  then show ?case using g(1-5) by (intro exI[of _ g]) (simp add: add.assoc)
qed auto

text \<open>C10: Reassembly. The fragments of a datagram in order, all accepted, are handled as the whole datagram:
  after the last one the dispatcher runs on a packet that holds the protocol, the source, the total length
  and the concatenated data.\<close>

theorem fragments_reassembled:
  assumes tr: "train 0 ps ds ident proto src dst" "1 < length ps" and us: "\<not> not_for_us st dst"
    and h: "length (ip_heap st) = 67054" and tot: "20 + length (concat ds) < 65536"
  shows "\<exists>st' h. receive_all up send st ps = dispatch_ipv4 up send st' h \<and> st' = st\<lparr>ip_heap := h\<rparr> \<and>
    take (length (concat ds)) (drop 20 h) = concat ds \<and> rd16 h 2 = Some (of_nat (20 + length (concat ds))) \<and>
    rd8 h 9 = Some proto \<and> rd32 h 12 = Some src"
proof -
  obtain p q qs where ps: "ps = p # q # qs" using tr(2) by (cases ps; cases "tl ps") auto
  then obtain d e es where ds: "ds = d # e # es" using tr(1) by (cases ds; cases "tl ds") auto
  have t: "frag p 0 True d ident proto src dst" "8 dvd length d" "0 < length d"
    "train (length d div 8) (q # qs) (e # es) ident proto src dst" using tr(1) ps ds by auto
  obtain st1 h1 where s: "handle_ipv4 up send st p (int (length p)) = Some (0, st1)" "collected st1 d ident proto src dst"
    "\<not> not_for_us st1 dst" "st1 = st\<lparr>ip_heap := h1\<rparr>" using first_fragment[OF t(1) us h] by blast
  have "length d = 8 * (length d div 8)" "0 < length d div 8"
    using t(2,3) dvd_imp_le[OF t(2,3)] by (auto simp: div_greater_zero_iff)
  then obtain g where g: "take (length d + length (concat (e # es))) (drop 20 g) = d @ concat (e # es)"
    "rd16 g 2 = Some (of_nat (20 + length d + length (concat (e # es))))" "rd8 g 9 = Some proto" "rd32 g 12 = Some src"
    "receive_all up send st1 (q # qs) = dispatch_ipv4 up send (st1\<lparr>ip_heap := g\<rparr>) g"
    using train_tail[OF t(4) s(2,3), of up send] tot ds by auto
  have "receive_all up send st ps = dispatch_ipv4 up send (st\<lparr>ip_heap := g\<rparr>) g"
    using s(1,4) g(5) by (simp add: ps)
  then show ?thesis using g(1-4) ds by (intro exI[of _ "st\<lparr>ip_heap := g\<rparr>"] exI[of _ g]) (simp add: add.assoc)
qed

section \<open>Unchecked lengths\<close>

lemma u64_of_neg:
  assumes "- 18446744073709551616 \<le> x" "x < 0"
  shows "u64_of x = x + 18446744073709551616"
proof -
  have "(x + 18446744073709551616) mod 18446744073709551616 = x + 18446744073709551616"
    using assms by (intro mod_pos_pos_trivial) linarith+
  then show ?thesis unfolding u64_of_def by (simp only: mod_add_self2)
qed

lemma u64_of_short:
  assumes "unat (len :: u16) < 20"
  shows "4294967296 \<le> u64_of (uint len - 20)"
proof -
  have "0 \<le> uint len" by simp
  moreover have "uint len < 20" using assms unfolding unat_eq_nat_uint by linarith
  ultimately show ?thesis using u64_of_neg[of "uint len - 20"] by linarith
qed

text \<open>The length field is not checked against the received packet. A first fragment that claims more
  bytes than the packet object has, and a later fragment of the same datagram that claims more or fewer
  than the 20 header bytes, make \<open>handle_ipv4\<close> copy outside the objects.\<close>

theorem fragment_length_unchecked:
  assumes p: "ip_packet p len ident off proto src dst" "\<not> not_for_us st dst" "20 \<le> n"
    and bad: "off AND 0x1FFF = 0 \<and> off AND 0x2000 = 0x2000 \<and> length p < unat len \<or>
      off AND 0x1FFF \<noteq> 0 \<and> same_datagram (ip_heap st) (no_sum p) = Some True \<and> (length p < unat len \<or> unat len < 20) \<and>
      length p < 4294967296"
  shows "handle_ipv4 up send st p n = None"
proof -
  have l: "length (no_sum p) = length p" using p(1) length_no_sum[of p] by (simp add: ip_packet_def)
  have "rdn (no_sum p) 20 (nat (u64_of (uint len - 20))) = None"
    if c: "length p < unat len \<or> unat len < 20" "length p < 4294967296"
  proof (cases "unat len < 20")
    case True
    have "int (length p) < u64_of (uint len - 20)" using u64_of_short[OF True] c(2) by linarith
    then have "length p < nat (u64_of (uint len - 20))" by linarith
    then show ?thesis by (simp add: rdn_def l)
  next
    case False
    then have "20 \<le> uint len" unfolding unat_eq_nat_uint by linarith
    then have "u64_of (uint len - 20) = uint len - 20" using uint_lt2p[of len] by (simp add: u64_of_id)
    then have "nat (u64_of (uint len - 20)) = unat len - 20" unfolding unat_eq_nat_uint by linarith
    then show ?thesis using False c(1) l by (simp add: rdn_def)
  qed
  moreover have "rdn (no_sum p) 0 (unat len) = None" if "length p < unat len" using that l by (simp add: rdn_def)
  ultimately consider
      "off AND 0x1FFF = 0" "off AND 0x2000 = 0x2000" "rdn (no_sum p) 0 (unat len) = None"
    | "off AND 0x1FFF \<noteq> 0" "same_datagram (ip_heap st) (no_sum p) = Some True"
      "rdn (no_sum p) 20 (nat (u64_of (uint len - 20))) = None"
    using bad by metis
  then show ?thesis
  proof cases
    case 1
    then show ?thesis unfolding handle_ipv4_accepted[OF p] by simp
  next
    case 2
    then show ?thesis unfolding handle_ipv4_accepted[OF p] by simp
  qed
qed

lemma sum16_outside: "length p < i + 2 * n \<Longrightarrow> 0 < n \<Longrightarrow> sum16 p i n acc = None"
proof (induction n arbitrary: i acc)
  case (Suc n)
  then show ?case by (cases n) (auto simp: rd16_def)
qed simp

lemma length_fill_iphdr: "fill_iphdr p n proto src dst = Some p' \<Longrightarrow> length p' = length p"
  unfolding fill_iphdr_def wr8_def wr16_def wr32_def by (auto dest!: wrn_length simp: bind_eq_Some_conv)

text \<open>An echo request shorter than 92 bytes is answered from outside its buffer: the reply is built in a
  buffer of the size of the request, but its checksum always covers 92 bytes. The usual 64 byte request
  makes \<open>handle_icmp\<close> read beyond the buffer.\<close>

theorem echo_request_short:
  assumes "0 \<le> n" "n < 92" "rd8 p 0 = Some 8"
  shows "handle_icmp up send st src p n = None"
proof -
  have sum: "checksum (drop 20 r) 46 = None" if "length r = nat (20 + n)" for r
    using that assms by (simp add: checksum_def sum16_outside)
  have "echo_reply p n src = None"
  proof (rule ccontr)
    assume "echo_reply p n src \<noteq> None"
    then obtain r0 d r1 r2 r3 c where
      r: "fill_iphdr (replicate (nat (20 + n)) 0) (word_of_int (20 + n)) 1 0 src = Some r0" "wrn r0 20 d = Some r1"
        "wr8 r1 20 0 = Some r2" "wr16 r2 22 0 = Some r3" "checksum (drop 20 r3) 46 = Some c"
      unfolding echo_reply_def Let_def not_None_eq bind_eq_Some_conv by blast
    have "length r3 = nat (20 + n)"
      using r(1-4) length_fill_iphdr[OF r(1)] wrn_length[OF r(2)] by (simp add: wr8_def wr16_def wrn_length)
    then show False using sum r(5) by simp
  qed
  then show ?thesis using assms(3) by (simp add: handle_icmp_def)
qed

section \<open>Witnesses\<close>

lemma ip_packet_eval:
  "20 \<le> length p \<Longrightarrow> ip_packet p len ident off proto src dst \<longleftrightarrow>
     rd16 p 2 = Some len \<and> rd16 p 4 = Some ident \<and> rd16 p 6 = Some off \<and> rd8 p 9 = Some proto \<and>
     rd32 p 12 = Some src \<and> rd32 p 16 = Some dst \<and> checksum (no_sum p) 10 = rd16 p 10"
  using no_sum_wr[of p] by (auto simp: ip_packet_def rd16_def)

definition frag1 :: bytes where
  "frag1 = [69, 0, 0, 28, 0, 7, 32, 0, 64, 17, 70, 200, 10, 0, 0, 1, 10, 0, 0, 2] @ replicate 8 5"

definition frag2 :: bytes where
  "frag2 = [69, 0, 0, 24, 0, 7, 0, 1, 64, 17, 102, 203, 10, 0, 0, 1, 10, 0, 0, 2] @ replicate 4 6"

definition long_frag :: bytes where
  "long_frag = [69, 0, 0, 40, 0, 7, 32, 0, 64, 17, 70, 188, 10, 0, 0, 1, 10, 0, 0, 2]"

lemma sample_packets:
  "ip_packet frag1 28 7 8192 17 0x0A000001 0x0A000002"
  "ip_packet frag2 24 7 1 17 0x0A000001 0x0A000002"
  "ip_packet long_frag 40 7 8192 17 0x0A000001 0x0A000002"
proof -
  have l: "20 \<le> length frag1" "20 \<le> length frag2" "20 \<le> length long_frag" by (simp_all add: frag1_def frag2_def long_frag_def)
  show "ip_packet frag1 28 7 8192 17 0x0A000001 0x0A000002" unfolding ip_packet_eval[OF l(1)] by (intro conjI) code_simp+
  show "ip_packet frag2 24 7 1 17 0x0A000001 0x0A000002" unfolding ip_packet_eval[OF l(2)] by (intro conjI) code_simp+
  show "ip_packet long_frag 40 7 8192 17 0x0A000001 0x0A000002" unfolding ip_packet_eval[OF l(3)] by (intro conjI) code_simp+
qed

definition no_upper :: "unit upper" where
  "no_upper = \<lparr>up_dhcp = \<lambda>_ st _ _. Some (0, st), up_dns = \<lambda>st _ _. Some (0, st), up_dhcpv6 = \<lambda>st _ _. Some (0, st),
     up_tftp = \<lambda>_ st _ _. Some (0, st), up_tftp_dun = \<lambda>_ st. st, up_ipv6 = \<lambda>st _ _. Some (0, st)\<rparr>"

definition no_send :: "unit sender" where
  "no_send st b n = Some (-1, b, st)"

lemma net_start_accepts: "\<not> not_for_us (net_start ()) 0x0A000002"
  by (simp add: not_for_us_def net_start_def)

theorem ipv4_filter_witness:
  "handle_ipv4 no_upper no_send (net_start ()) (replicate 20 0) 20 = Some (-1, net_start ())"
proof -
  have "checksum (no_sum (replicate 20 0)) 10 = Some 0xFFFF" by code_simp
  then show ?thesis
    by (intro ipv4_filter[where dst = 0 and s = 0 and c = "0xFFFF"]) (simp_all add: rd32_def rd16_def cat32_def cat16_def)
qed

theorem fragments_reassembled_witness:
  "\<exists>st' h. receive_all no_upper no_send (net_start ()) [frag1, frag2] = dispatch_ipv4 no_upper no_send st' h \<and>
    st' = (net_start ())\<lparr>ip_heap := h\<rparr> \<and> take (length (concat [replicate 8 (5 :: u8), replicate 4 6])) (drop 20 h) = concat [replicate 8 5, replicate 4 6] \<and>
    rd16 h 2 = Some (of_nat (20 + length (concat [replicate 8 (5 :: u8), replicate 4 6]))) \<and> rd8 h 9 = Some 17 \<and> rd32 h 12 = Some 0x0A000001"
proof (rule fragments_reassembled)
  show "train 0 [frag1, frag2] [replicate 8 5, replicate 4 6] 7 17 0x0A000001 0x0A000002"
    using sample_packets by (simp add: frag_def frag_off_def) (simp add: frag1_def frag2_def)
qed (simp_all add: net_start_accepts, simp add: net_start_def)

theorem fragment_length_unchecked_witness:
  "handle_ipv4 no_upper no_send (net_start ()) long_frag 20 = None"
  by (rule fragment_length_unchecked[OF sample_packets(3) net_start_accepts]) (simp_all add: long_frag_def)

theorem echo_request_short_witness:
  "handle_icmp no_upper no_send (net_start ()) 0x0A000001 (8 # replicate 63 0) 64 = None"
  by (rule echo_request_short) (simp_all add: rd8_def)

end
