(* ===== verification/Net_Dns.thy ===== *)
theory Net_Dns
  imports Net_Arp
begin

text \<open>The DNS client (\<open>src/lib/libnet/dns.c\<close>). Positions in a message are offsets in the packet object that
  starts at the DNS header; \<open>NULL\<close> is \<open>None\<close> inside the outer option. The lemmas are about the translation of
  host names into labels and back, and about what hostile messages do.\<close>

section \<open>Model\<close>

record dns =
  dns_packet :: bytes
  dns_server_ip :: u32
  dns_server_ipv6 :: bytes
  dns_result_ip :: u32
  dns_result_ipv6 :: bytes
  dns_error :: bool
  dns_domain_name :: bytes
  dns_domain_cname :: bytes
  handle_domain_name :: bytes
  dns_host_name :: bytes

definition dns_start :: dns where
  "dns_start = \<lparr>dns_packet = replicate 1518 0, dns_server_ip = 0, dns_server_ipv6 = replicate 16 0, dns_result_ip = 0,
     dns_result_ipv6 = replicate 16 0, dns_error = False, dns_domain_name = replicate 256 0,
     dns_domain_cname = replicate 256 0, handle_domain_name = replicate 256 0, dns_host_name = replicate 256 0\<rparr>"

type_synonym 'b dns_net = "'b dns_scheme net"

abbreviation upd_dns :: "('b dns_scheme \<Rightarrow> 'b dns_scheme) \<Rightarrow> 'b dns_net \<Rightarrow> 'b dns_net" where
  "upd_dns f st \<equiv> st\<lparr>app := f (app st)\<rparr>"

definition dns_init :: "u32 \<Rightarrow> bytes \<Rightarrow> nat \<Rightarrow> 'b dns_net \<Rightarrow> 'b dns_net option" where
  "dns_init server_ip server_ipv6 ip_version st =
     (if ip_version = 6
      then do { a \<leftarrow> memcpy (dns_server_ipv6 (app st)) server_ipv6 16; Some (upd_dns (dns_server_ipv6_update (\<lambda>_. a)) st) }
      else Some (upd_dns (dns_server_ip_update (\<lambda>_. server_ip)) st))"

text \<open>\<open>ipv6.c\<close>: the IPv6 header.\<close>

definition fill_ip6hdr :: "bytes \<Rightarrow> u16 \<Rightarrow> u8 \<Rightarrow> bytes \<Rightarrow> bytes \<Rightarrow> bytes option" where
  "fill_ip6hdr packet packetsize ip_proto ip6_src ip6_dst = do {
     packet \<leftarrow> wr32 packet 0 0x60000000;
     packet \<leftarrow> wr16 packet 4 packetsize;
     packet \<leftarrow> wr8 packet 6 ip_proto;
     packet \<leftarrow> wr8 packet 7 255;
     s \<leftarrow> rdn ip6_src 0 16;
     packet \<leftarrow> wrn packet 8 s;
     d \<leftarrow> rdn ip6_dst 0 16;
     wrn packet 24 d }"

definition fill_dnshdr :: "bytes \<Rightarrow> nat \<Rightarrow> bytes \<Rightarrow> nat \<Rightarrow> bytes option" where
  "fill_dnshdr packet i domain_name ip_version = do {
     packet \<leftarrow> wr16 packet i 0x1234;
     packet \<leftarrow> wr16 packet (i + 2) (0 OR 0x0100);
     packet \<leftarrow> wr16 packet (i + 4) 1;
     q \<leftarrow> strcpy (drop (i + 12) packet) domain_name;
     let packet = take (i + 12) packet @ q;
     n \<leftarrow> strlen domain_name;
     let j = i + 12 + unat n + 1;
     packet \<leftarrow> wr16 packet j (if ip_version = 4 then 1 else 0x1c);
     wr16 packet (j + 2) 1 }"

text \<open>\<open>own6\<close> is what \<open>get_ipv6_address\<close> points at.\<close>

definition dns_send_query :: "bytes \<Rightarrow> 'b dns_scheme sender \<Rightarrow> bytes \<Rightarrow> nat \<Rightarrow> 'b dns_net \<Rightarrow> 'b dns_net option" where
  "dns_send_query own6 send_ip domain_name ip_version st = do {
     n \<leftarrow> strlen domain_name;
     let qry_len = unat n + 5;
     let iphdr_len = (if ip_version = 4 then 20 else 40);
     let packetsize = iphdr_len + 8 + 12 + qry_len;
     p \<leftarrow> memset (dns_packet (app st)) 0 packetsize;
     p \<leftarrow> fill_dnshdr p (iphdr_len + 8) domain_name ip_version;
     u \<leftarrow> fill_udphdr (drop iphdr_len p) (of_nat (12 + 8 + qry_len)) 32769 53;
     let p = take iphdr_len p @ u;
     p \<leftarrow> (if ip_version = 4
       then fill_iphdr p (of_nat (12 + 8 + iphdr_len + qry_len)) 17 0 (dns_server_ip (app st))
       else do { a \<leftarrow> rdn (dns_server_ipv6 (app st)) 0 16; fill_ip6hdr p (of_nat (12 + 8 + qry_len)) 17 own6 a });
     (_, p, st) \<leftarrow> send_ip (upd_dns (dns_packet_update (\<lambda>_. p)) st) p (int packetsize);
     Some (upd_dns (dns_packet_update (\<lambda>_. p)) st) }"

text \<open>The labels are \<open>int8_t\<close>: a length byte from 128 to 191 is negative. The copy length is converted to
  \<open>size_t\<close>.\<close>

partial_function (option) extract_loop ::
    "bytes \<Rightarrow> bytes \<Rightarrow> nat \<Rightarrow> nat \<Rightarrow> nat option \<Rightarrow> (nat option \<times> bytes) option" where
  "extract_loop p domain_name tail ptr next_section = do {
     c \<leftarrow> rd8 p ptr;
     if c AND 0xC0 = 0xC0
     then do { r \<leftarrow> rd16 p ptr; extract_loop p domain_name tail (unat (r AND 0x3FFF)) (Some (ptr + 2)) }
     else if c = 0
     then do {
       domain_name \<leftarrow> wr8 domain_name tail 0;
       Some (Some (case next_section of None \<Rightarrow> ptr + 1 | Some s \<Rightarrow> s), domain_name) }
     else if int tail + sint c + 1 > 255
     then do { domain_name \<leftarrow> wr8 domain_name 0 0; Some (None, domain_name) }
     else do {
       d \<leftarrow> rdn p ptr (nat (u64_of (sint c + 1)));
       domain_name \<leftarrow> wrn domain_name tail d;
       extract_loop p domain_name (nat (int tail + sint c + 1)) (nat (int ptr + sint c + 1)) next_section } }"

declare extract_loop.simps [code]

definition dns_extract_name :: "bytes \<Rightarrow> nat \<Rightarrow> bytes \<Rightarrow> (nat option \<times> bytes) option" where
  "dns_extract_name dnsh head domain_name = extract_loop dnsh domain_name 0 head None"

fun question_loop :: "bytes \<Rightarrow> nat \<Rightarrow> nat \<Rightarrow> bytes \<Rightarrow> (nat option \<times> bytes) option" where
  "question_loop p 0 resp name = Some (Some resp, name)"
| "question_loop p (Suc k) resp name = do {
     (r, name) \<leftarrow> dns_extract_name p resp name;
     case r of None \<Rightarrow> Some (None, name) | Some resp \<Rightarrow> question_loop p k (resp + 4) name }"

fun answer_loop :: "bytes \<Rightarrow> nat \<Rightarrow> nat \<Rightarrow> 'b dns_net \<Rightarrow> (int \<times> 'b dns_net) option" where
  "answer_loop p 0 resp st = Some (0, st)"
| "answer_loop p (Suc k) resp st = do {
     (r, name) \<leftarrow> dns_extract_name p resp (handle_domain_name (app st));
     let st = upd_dns (handle_domain_name_update (\<lambda>_. name)) st;
     case r of None \<Rightarrow> Some (-1, st)
     | Some resp \<Rightarrow> do {
         cl \<leftarrow> rd16 p (resp + 2);
         if cl \<noteq> 1 then answer_loop p k resp st
         else do {
           a \<leftarrow> strcmp name (dns_domain_name (app st));
           b \<leftarrow> (if a = 0 then Some a else strcmp name (dns_domain_cname (app st)));
           ty \<leftarrow> (if b = 0 then rd16 p resp else Some 0);
           if ty = 1
           then do { ip \<leftarrow> rd32 p (resp + 10); Some (0, upd_dns (dns_result_ip_update (\<lambda>_. ip)) st) }
           else if ty = 0x1c
           then do {
             ip \<leftarrow> rdn p (resp + 10) 16;
             a \<leftarrow> wrn (dns_result_ipv6 (app st)) 0 ip;
             Some (0, upd_dns (dns_result_ipv6_update (\<lambda>_. a)) st) }
           else do {
             (ok, st) \<leftarrow> (if ty = 5
               then do {
                 (r, cname) \<leftarrow> dns_extract_name p (resp + 10) (dns_domain_cname (app st));
                 Some (r \<noteq> None, upd_dns (dns_domain_cname_update (\<lambda>_. cname)) st) }
               else Some (True, st));
             if \<not> ok then Some (-1, st)
             else do { l \<leftarrow> rd16 p (resp + 8); answer_loop p k (resp + unat l + 10) st } } } } }"

definition handle_dns :: "'b dns_scheme handler" where
  "handle_dns st p packetsize = do {
     id \<leftarrow> rd16 p 0;
     if id \<noteq> 0x1234 then Some (0, st)
     else do {
       flags \<leftarrow> rd16 p 2;
       if flags AND 0xF800 \<noteq> 0x8000 then Some (0, st)
       else if flags AND 0x000F \<noteq> 0 then Some (0, upd_dns (dns_error_update (\<lambda>_. True)) st)
       else do {
         qdcount \<leftarrow> rd16 p 4;
         (r, name) \<leftarrow> question_loop p (unat qdcount) 12 (handle_domain_name (app st));
         let st = upd_dns (handle_domain_name_update (\<lambda>_. name)) st;
         case r of None \<Rightarrow> Some (-1, st)
         | Some resp \<Rightarrow> do { ancount \<leftarrow> rd16 p 6; answer_loop p (unat ancount) resp st } } } }"

text \<open>Offsets in \<open>urltohost\<close> are \<open>uint16_t\<close>.\<close>

definition find_or_end :: "bytes \<Rightarrow> bytes \<Rightarrow> u16 option" where
  "find_or_end url pat = do {
     r \<leftarrow> strstr (Some url) (Some pat);
     case r of Some i \<Rightarrow> Some (of_nat i) | None \<Rightarrow> do { n \<leftarrow> strlen url; Some (ucast n) } }"

definition skip_after :: "bytes \<Rightarrow> bytes \<Rightarrow> bytes \<Rightarrow> bytes option" where
  "skip_after url test pat = do {
     r \<leftarrow> strstr (Some url) (Some test);
     if r = None then Some url
     else do { i \<leftarrow> strstr (Some url) (Some pat); i \<leftarrow> i; Some (drop (i + length (cstr pat)) url) } }"

definition urltohost :: "bytes \<Rightarrow> bytes \<Rightarrow> (int \<times> bytes) option" where
  "urltohost url host_name = do {
     host_name \<leftarrow> wr8 host_name 0 0;
     url \<leftarrow> skip_after url [58, 47, 47, 0] [47, 47, 0];
     url \<leftarrow> skip_after url [64, 0] [64, 0];
     length1 \<leftarrow> find_or_end url [47, 0];
     length2 \<leftarrow> find_or_end url [58, 0];
     let length1 = (if length1 > length2 then length2 else length1);
     if length1 = 0 then Some (0, host_name)
     else if length1 \<ge> 256 then Some (0, host_name)
     else do {
       host_name \<leftarrow> strncpy host_name url (unat length1);
       host_name \<leftarrow> wr8 host_name (unat length1) 0;
       Some (1, host_name) } }"

text \<open>The loop of \<open>hosttodomain\<close>: \<open>host\<close> is the string from the start of the label on and \<open>n\<close> the number of
  characters of the label read so far.\<close>

function label_loop :: "bytes \<Rightarrow> nat \<Rightarrow> bytes \<Rightarrow> nat \<Rightarrow> (int \<times> bytes) option" where
  "label_loop host n domain_name i =
     (if length host \<le> n then None
      else
        let c = host ! n in
        if c \<noteq> 46 \<and> c \<noteq> 0 then label_loop host (n + 1) domain_name i
        else do {
          domain_name \<leftarrow> wr8 domain_name i (of_nat n);
          if (of_nat n :: u8) > 63 then do { domain_name \<leftarrow> wr8 domain_name 0 0; Some (0, domain_name) }
          else do {
            d \<leftarrow> strncpy (drop (i + 1) domain_name) host n;
            let domain_name = take (i + 1) domain_name @ d;
            if c = 0 then do { domain_name \<leftarrow> wr8 domain_name (i + 1 + n) 0; Some (1, domain_name) }
            else label_loop (drop (n + 1) host) 0 domain_name (i + 1 + n) } })"
  by pat_completeness auto
termination
  by (relation "measures [\<lambda>(host, n, _, _). length host, \<lambda>(host, n, _, _). length host - n]") auto

declare label_loop.simps [simp del]

definition hosttodomain :: "bytes \<Rightarrow> bytes \<Rightarrow> (int \<times> bytes) option" where
  "hosttodomain host_name domain_name = do {
     domain_name \<leftarrow> wr8 domain_name 0 0;
     n \<leftarrow> strlen host_name;
     if 255 < n then Some (0, domain_name) else label_loop host_name 0 domain_name 0 }"

text \<open>The two nested loops of \<open>dns_get_ip\<close>: polling until the timer has run down, and at most 30 queries. The
  result is the return value and the bytes stored at \<open>domain_ip\<close>.\<close>

fun dns_poll :: "('b dns_net \<Rightarrow> (int \<times> 'b dns_net) option) \<Rightarrow> nat \<Rightarrow> nat \<Rightarrow> 'b dns_net \<Rightarrow> ((int \<times> bytes) option \<times> 'b dns_net) option" where
  "dns_poll recv_ether ip_version k st = do {
     (_, st) \<leftarrow> recv_ether st;
     if dns_error (app st) then Some (Some (0, []), st)
     else if dns_result_ip (app st) \<noteq> 0 \<and> ip_version = 4 then Some (Some (1, be32 (dns_result_ip (app st))), st)
     else do {
       b \<leftarrow> rd8 (dns_result_ipv6 (app st)) 0;
       if b \<noteq> 0 \<and> ip_version = 6 then do { a \<leftarrow> rdn (dns_result_ipv6 (app st)) 0 16; Some (Some (1, a), st) }
       else (case k of 0 \<Rightarrow> Some (None, st) | Suc k \<Rightarrow> dns_poll recv_ether ip_version k st) } }"

declare dns_poll.simps [simp del]

fun dns_query_loop :: "bytes \<Rightarrow> 'b dns_scheme sender \<Rightarrow> ('b dns_net \<Rightarrow> (int \<times> 'b dns_net) option) \<Rightarrow> nat \<Rightarrow> nat \<Rightarrow>
    'b dns_net \<Rightarrow> (int \<times> bytes \<times> 'b dns_net) option" where
  "dns_query_loop own6 send recv_ether ip_version 0 st = Some (0, [], st)"
| "dns_query_loop own6 send recv_ether ip_version (Suc i) st = do {
     l \<leftarrow> strlen (dns_domain_cname (app st));
     st \<leftarrow> dns_send_query own6 send (if l \<noteq> 0 then dns_domain_cname (app st) else dns_domain_name (app st)) ip_version st;
     let (k, st) = set_timer st;
     (r, st) \<leftarrow> dns_poll recv_ether ip_version k st;
     case r of Some (r, ip) \<Rightarrow> Some (r, ip, st) | None \<Rightarrow> dns_query_loop own6 send recv_ether ip_version i st }"

definition dns_get_ip :: "bytes \<Rightarrow> 'b dns_scheme sender \<Rightarrow> ('b dns_net \<Rightarrow> (int \<times> 'b dns_net) option) \<Rightarrow>
    bytes \<Rightarrow> bytes \<Rightarrow> nat \<Rightarrow> 'b dns_net \<Rightarrow> (int \<times> bytes \<times> 'b dns_net) option" where
  "dns_get_ip own6 send recv_ether url domain_ip ip_version st = do {
     domain_ip \<leftarrow> wr8 domain_ip 0 0;
     (r, host) \<leftarrow> urltohost url (dns_host_name (app st));
     let st = upd_dns (dns_host_name_update (\<lambda>_. host)) st;
     if r = 0 then Some (0, domain_ip, st)
     else do {
       (r, name) \<leftarrow> hosttodomain host (dns_domain_name (app st));
       let st = upd_dns (dns_domain_name_update (\<lambda>_. name)) st;
       if r = 0 then Some (0, domain_ip, st)
       else if dns_server_ip (app st) = 0 then Some (0, domain_ip, st)
       else do {
         st \<leftarrow> (if ip_version = 6
           then do { a \<leftarrow> memset (dns_result_ipv6 (app st)) 0 16; Some (upd_dns (dns_result_ipv6_update (\<lambda>_. a)) st) }
           else Some (upd_dns (dns_result_ip_update (\<lambda>_. 0)) st));
         let st = upd_dns (dns_error_update (\<lambda>_. False)) st;
         c \<leftarrow> strcpy (dns_domain_cname (app st)) [0];
         (r, ip, st) \<leftarrow> dns_query_loop own6 send recv_ether ip_version 30 (upd_dns (dns_domain_cname_update (\<lambda>_. c)) st);
         domain_ip \<leftarrow> wrn domain_ip 0 ip;
         Some (r, domain_ip, st) } } }"

section \<open>Names as lists of labels\<close>

text \<open>RFC 1035: the labels of a name one after the other, each after its length, and the dotted form.\<close>

definition enc :: "bytes list \<Rightarrow> bytes" where
  "enc ls = concat (map (\<lambda>l. of_nat (length l) # l) ls)"

fun dotted :: "bytes list \<Rightarrow> bytes" where
  "dotted [] = []"
| "dotted [l] = l"
| "dotted (l # m # ls) = l @ 46 # dotted (m # ls)"

definition label_ok :: "bytes \<Rightarrow> bool" where
  "label_ok l \<longleftrightarrow> 0 < length l \<and> length l \<le> 63 \<and> 0 \<notin> set l \<and> 46 \<notin> set l"

lemma enc_simps [simp]: "enc [] = []" "enc (l # ls) = of_nat (length l) # l @ enc ls"
  by (simp_all add: enc_def)

lemma length_dotted: "ls \<noteq> [] \<Longrightarrow> length (dotted ls) + 1 = length (enc ls)"
  by (induction ls rule: dotted.induct) auto

lemma label_byte_unat: "k \<le> 63 \<Longrightarrow> unat (of_nat k :: u8) = k"
  by (simp add: unat_of_nat take_bit_nat_eq_self)

lemma label_byte:
  assumes "0 < k" "k \<le> 63"
  shows "(of_nat k :: u8) \<noteq> 0" "sint (of_nat k :: u8) = int k" "(of_nat k :: u8) AND 0xC0 \<noteq> 0xC0"
proof -
  define w where "w = (of_nat k :: u8)"
  have u: "unat w = k" unfolding w_def by (rule label_byte_unat[OF assms(2)])
  show "(of_nat k :: u8) \<noteq> 0"
  proof
    assume "(of_nat k :: u8) = 0"
    then have "unat w = unat (0 :: u8)" unfolding w_def by (simp only:)
    then show False using assms(1) unfolding u by simp
  qed
  show "sint (of_nat k :: u8) = int k"
    using assms by (simp add: signed_of_nat signed_take_bit_int_eq_self)
  show "(of_nat k :: u8) AND 0xC0 \<noteq> 0xC0"
  proof
    assume e: "(of_nat k :: u8) AND 0xC0 = 0xC0"
    have "w AND 0xC0 = 0xC0" using e unfolding w_def .
    then have "bit (w AND 0xC0) 6" by simp
    then have "bit w 6" by (simp only: bit_and_iff)
    then have "bit (unat w) 6" by (simp add: bit_unsigned_iff)
    then have "odd (k div 64)" unfolding u by (simp add: bit_iff_odd)
    then show False using assms(2) by simp
  qed
qed

text \<open>A name in a message: labels up to the root, some of them reached through pointers. \<open>e\<close> is the position after
  the root and \<open>lp\<close> the position after the last pointer, if there is one.\<close>

inductive name_at :: "bytes \<Rightarrow> nat \<Rightarrow> bytes list \<Rightarrow> nat \<Rightarrow> nat option \<Rightarrow> bool" for p where
  root: "rd8 p ptr = Some 0 \<Longrightarrow> name_at p ptr [] (ptr + 1) None"
| label: "0 < length l \<Longrightarrow> length l \<le> 63 \<Longrightarrow> rdn p ptr (length l + 1) = Some (of_nat (length l) # l) \<Longrightarrow>
    name_at p (ptr + length l + 1) ls e lp \<Longrightarrow> name_at p ptr (l # ls) e lp"
| pointer: "rd8 p ptr = Some c \<Longrightarrow> c AND 0xC0 = 0xC0 \<Longrightarrow> rd16 p ptr = Some r \<Longrightarrow>
    name_at p (unat (r AND 0x3FFF)) ls e lp \<Longrightarrow>
    name_at p ptr ls e (Some (case lp of None \<Rightarrow> ptr + 2 | Some s \<Rightarrow> s))"

lemma extract_loop_decodes:
  assumes "name_at p ptr ls e lp" "tail \<le> 255" "length buf = 256"
  shows "if tail + length (enc ls) \<le> 255
    then \<exists>buf'. extract_loop p buf tail ptr nxt = Some (Some (case lp of Some s \<Rightarrow> s | None \<Rightarrow> case nxt of Some s \<Rightarrow> s | None \<Rightarrow> e), buf') \<and>
      length buf' = 256 \<and> take (tail + length (enc ls) + 1) buf' = take tail buf @ enc ls @ [0]
    else \<exists>buf'. extract_loop p buf tail ptr nxt = Some (None, buf') \<and> length buf' = 256 \<and> buf' ! 0 = 0"
  using assms
proof (induction arbitrary: tail buf nxt rule: name_at.induct)
  case (root ptr)
  then show ?case
    by (subst (1 2) extract_loop.simps) (auto simp: wr8_def wrn_def split: option.split)
next
  case (label l ptr ls e lp)
  let ?k = "length l" and ?c = "of_nat (length l) :: u8"
  note lb = label_byte[OF label(1,2)]
  have rd: "rd8 p ptr = Some ?c"
  proof -
    have "take (?k + 1) (drop ptr p) = ?c # l" "ptr + (?k + 1) \<le> length p" using label(3) by (auto simp: rdn_def split: if_splits)
    then have "p ! ptr = ?c" "ptr < length p" using hd_drop_conv_nth[of ptr p] by (cases "drop ptr p"; auto)+
    then show ?thesis by (simp add: rd8_def)
  qed
  have u: "nat (u64_of (sint ?c + 1)) = ?k + 1" using lb(2) label(2) by (simp add: u64_of_id nat_add_distrib)
  show ?case
  proof (cases "tail + (?k + 1) \<le> 255")
    case False
    then show ?thesis using rd lb label.prems
      by (subst (1 2) extract_loop.simps) (auto simp: wr8_def wrn_def nth_append)
  next
    case True
    let ?buf = "take tail buf @ (?c # l) @ drop (tail + (?k + 1)) buf"
    have w: "wrn buf tail (?c # l) = Some ?buf" using True label.prems by (simp add: wrn_def)
    have step: "extract_loop p buf tail ptr nxt = extract_loop p ?buf (tail + ?k + 1) (ptr + ?k + 1) nxt"
      using rd lb u w label(3) True by (subst extract_loop.simps) (simp add: nat_add_distrib)
    have l: "length ?buf = 256" using True label.prems by simp
    have "take (tail + ?k + 1) ?buf = take tail buf @ ?c # l" using True label.prems by simp
    then show ?thesis unfolding step using label.IH[OF _ l, of "tail + ?k + 1" nxt] True
      by (auto simp: add.assoc split: if_splits)
  qed
next
  case (pointer ptr c r ls e lp)
  have step: "extract_loop p buf tail ptr nxt = extract_loop p buf tail (unat (r AND 0x3FFF)) (Some (ptr + 2))"
    using pointer.hyps by (subst extract_loop.simps) simp
  show ?case unfolding step using pointer.IH[OF pointer.prems, of "Some (ptr + 2)"] by (auto split: option.splits if_splits)
qed

lemma label_loop_scan:
  assumes "n < length host" "n \<le> m" "m < length host" "\<And>i. n \<le> i \<Longrightarrow> i < m \<Longrightarrow> host ! i \<noteq> 46 \<and> host ! i \<noteq> 0"
  shows "label_loop host n dn i = label_loop host m dn i"
  using assms
proof (induction "m - n" arbitrary: n)
  case (Suc d)
  then have "label_loop host n dn i = label_loop host (n + 1) dn i" by (subst label_loop.simps) (simp add: Let_def)
  then show ?case using Suc.hyps(1)[of "n + 1"] Suc.hyps(2) Suc.prems by simp
qed simp

lemma label_step:
  assumes l: "label_ok l" and host: "host = l @ c # rest" "c = 46 \<or> c = 0" "terminated host" and i: "i + 1 + length l \<le> length dn"
  defines "dn2 \<equiv> take i dn @ of_nat (length l) # l @ drop (i + 1 + length l) dn"
  shows "label_loop host 0 dn i = (if c = 0 then do { dn' \<leftarrow> wr8 dn2 (i + 1 + length l) 0; Some (1, dn') }
    else label_loop rest 0 dn2 (i + 1 + length l))"
proof -
  let ?n = "length l" and ?b = "of_nat (length l) :: u8"
  have lo: "?n \<le> 63" "0 \<notin> set l" "46 \<notin> set l" using l by (auto simp: label_ok_def)
  have nth: "host ! ?n = c" and len: "?n < length host" using host(1) by auto
  have "host ! j \<noteq> 46 \<and> host ! j \<noteq> 0" if "j < ?n" for j
    using nth_mem[OF that] that lo(2,3) unfolding host(1) by (metis nth_append)
  then have scan: "label_loop host 0 dn i = label_loop host ?n dn i" using len by (intro label_loop_scan) auto
  let ?dn1 = "take i dn @ ?b # drop (i + 1) dn"
  have w1: "wr8 dn i ?b = Some ?dn1" using i by (simp add: wr8_def wrn_def)
  have small: "\<not> 63 < ?b" using lo(1) by (simp add: word_less_nat_alt label_byte_unat)
  have tc: "take ?n (cstr host) = l" "?n \<le> length (cstr host)" unfolding host(1) using lo(2) by (induction l) auto
  have "strncpy (drop (i + 1) ?dn1) host ?n = Some (l @ drop (i + 1 + ?n) dn)"
    unfolding strncpy_eq_wrn using host(3) tc i by (simp add: wrn_def add.commute)
  moreover have "take (i + 1) ?dn1 = take i dn @ [?b]" using i by simp
  moreover have "drop (?n + 1) host = rest" using host(1) by simp
  ultimately show ?thesis unfolding scan using nth len host(2) w1 small
    by (subst label_loop.simps) (auto simp: Let_def dn2_def)
qed

lemma label_loop_encodes:
  assumes "ls \<noteq> []" "\<forall>l\<in>set ls. label_ok l" "host = dotted ls @ 0 # rest" "i + length (enc ls) \<le> length dn"
  shows "if i + length (enc ls) < length dn
    then \<exists>dn'. label_loop host 0 dn i = Some (1, dn') \<and> length dn' = length dn \<and>
      take (i + length (enc ls) + 1) dn' = take i dn @ enc ls @ [0]
    else label_loop host 0 dn i = None"
  using assms
proof (induction ls arbitrary: host dn i rule: dotted.induct)
  case (2 l)
  let ?dn2 = "take i dn @ of_nat (length l) # l @ drop (i + 1 + length l) dn"
  have s: "label_loop host 0 dn i = do { dn' \<leftarrow> wr8 ?dn2 (i + 1 + length l) 0; Some (1, dn') }"
    using label_step[of l host 0 rest i dn] 2 by simp
  have d: "length ?dn2 = length dn" "take (i + 1 + length l) ?dn2 = take i dn @ of_nat (length l) # l" using 2 by auto
  show ?case
  proof (cases "i + 1 + length l < length dn")
    case True
    then have "wr8 ?dn2 (i + 1 + length l) 0 = Some ((take i dn @ of_nat (length l) # l) @ 0 # drop (i + 2 + length l) ?dn2)"
      using d by (simp add: wr8_def wrn_def)
    then show ?thesis unfolding s using True by simp
  next
    case False
    then have "wr8 ?dn2 (i + 1 + length l) 0 = None" using d by (simp add: wr8_def wrn_def)
    then show ?thesis unfolding s using False 2 by simp
  qed
next
  case (3 l m ls)
  let ?dn2 = "take i dn @ of_nat (length l) # l @ drop (i + 1 + length l) dn"
  have s: "label_loop host 0 dn i = label_loop (dotted (m # ls) @ 0 # rest) 0 ?dn2 (i + 1 + length l)"
    using label_step[of l host 46 "dotted (m # ls) @ 0 # rest" i dn] 3(3-5) by simp
  have d: "length ?dn2 = length dn" "take (i + 1 + length l) ?dn2 = take i dn @ of_nat (length l) # l" using 3(5) by auto
  show ?case unfolding s using 3(1)[of "dotted (m # ls) @ 0 # rest" "i + 1 + length l" ?dn2] 3(3,5) d
    by (auto split: if_splits simp: add.assoc)
qed simp

lemma cstr_of_prefix:
  assumes "0 \<notin> set x" "take (length x + 1) b = x @ [0]"
  shows "cstr b = x \<and> terminated b"
proof -
  have "(x @ [0]) @ drop (length x + 1) b = b" using append_take_drop_id[of "length x + 1" b] unfolding assms(2) .
  then have "b = x @ 0 # drop (length x + 1) b" by simp
  then show ?thesis using cstr_append[OF assms(1)] by (metis in_set_conv_decomp)
qed

lemma enc_nonzero: "\<forall>l\<in>set ls. label_ok l \<Longrightarrow> 0 \<notin> set (enc ls)"
proof (induction ls)
  case (Cons l ls)
  then have "0 < length l" "length l \<le> 63" "0 \<notin> set l" by (auto simp: label_ok_def)
  then show ?case using Cons label_byte(1)[of "length l"] by auto
qed simp

lemma dotted_nonzero: "\<forall>l\<in>set ls. label_ok l \<Longrightarrow> 0 \<notin> set (dotted ls)"
  by (induction ls rule: dotted.induct) (auto simp: label_ok_def)

lemma strlen_dotted:
  assumes "\<forall>l\<in>set ls. label_ok l" "length (dotted ls) \<le> 255"
  shows "strlen (dotted ls @ [0]) = Some (of_nat (length (dotted ls)))"
  using strlen_short(1)[of "dotted ls @ [0]"] cstr_append[OF dotted_nonzero[OF assms(1)], of "[]"] assms(2) by simp

lemma hosttodomain_encodes:
  assumes ls: "ls \<noteq> []" "\<forall>l\<in>set ls. label_ok l" "length (dotted ls) \<le> 254" and dn: "length dn = 256"
  shows "\<exists>dn'. hosttodomain (dotted ls @ [0]) dn = Some (1, dn') \<and> length dn' = 256 \<and> take (length (enc ls) + 1) dn' = enc ls @ [0]"
proof -
  obtain dn0 where dn0: "wr8 dn 0 0 = Some dn0" "length dn0 = 256" using dn by (auto simp: wr8_def wrn_def)
  have "length (enc ls) \<le> 255" using length_dotted[OF ls(1)] ls(3) by simp
  moreover have "\<not> 255 < (of_nat (length (dotted ls)) :: u64)" using ls(3)
    by (simp add: word_less_nat_alt unat_of_nat take_bit_nat_eq_self)
  ultimately show ?thesis using label_loop_encodes[OF ls(1,2) refl, of 0 dn0 "[]"] dn0 strlen_dotted[OF ls(2)] ls(3)
    by (simp add: hosttodomain_def)
qed

lemma rdn_split:
  "rdn p i (length a + n) = Some (a @ b) \<longleftrightarrow> rdn p i (length a) = Some a \<and> rdn p (i + length a) n = Some b"
proof -
  have "take (length a + n) (drop i p) = take (length a) (drop i p) @ take n (drop (i + length a) p)"
    unfolding take_add drop_drop by (simp only: add.commute)
  then show ?thesis by (auto simp: rdn_def)
qed

lemma name_at_plain:
  assumes "\<forall>l\<in>set ls. label_ok l" "rdn p pos (length (enc ls) + 1) = Some (enc ls @ [0])"
  shows "name_at p pos ls (pos + length (enc ls) + 1) None"
  using assms
proof (induction ls arbitrary: pos)
  case Nil
  then have "rd8 p pos = Some 0" by (auto simp: rdn_def rd8_def take_Suc_conv_app_nth hd_drop_conv_nth split: if_splits)
  then show ?case using name_at.root by simp
next
  case (Cons l ls)
  let ?x = "of_nat (length l) # l"
  have "rdn p pos (length ?x + (length (enc ls) + 1)) = Some (?x @ enc ls @ [0])" using Cons.prems(2) by (simp add: add.assoc)
  then have r: "rdn p pos (length l + 1) = Some ?x" "rdn p (pos + length l + 1) (length (enc ls) + 1) = Some (enc ls @ [0])"
    unfolding rdn_split by (simp_all add: add.assoc)
  have "name_at p (pos + length l + 1) ls (pos + length l + 1 + length (enc ls) + 1) None" using Cons.IH[OF _ r(2)] Cons.prems(1) by simp
  then show ?case using name_at.label[OF _ _ r(1)] Cons.prems(1) by (simp add: label_ok_def add.assoc add.commute add.left_commute)
qed

lemma extract_stuck:
  assumes "rd8 p 12 = Some 0xC0" "rd16 p 12 = Some 0xC00C"
  shows "extract_loop p buf 0 12 nxt \<noteq> Some y"
proof
  assume a: "extract_loop p buf 0 12 nxt = Some y"
  have "\<not> (rd8 p 12 = Some 0xC0 \<and> rd16 p 12 = Some 0xC00C \<and> (12 :: nat) = 12)"
    by (rule extract_loop.raw_induct[where P = "\<lambda>p buf tail ptr nxt y. \<not> (rd8 p 12 = Some 0xC0 \<and> rd16 p 12 = Some 0xC00C \<and> ptr = 12)", OF _ a])
      (auto split: if_splits, blast)
  then show False using assms by simp
qed

section \<open>Properties\<close>

text \<open>C25: Host names survive the trip through a message. \<open>hosttodomain\<close> turns the dotted form of every name with
  labels of 1 to 63 characters and at most 254 characters into its label form, and \<open>dns_extract_name\<close> reads
  this form back from every message that contains it, with the position behind it.\<close>

theorem dns_name_roundtrip:
  assumes ls: "ls \<noteq> []" "\<forall>l\<in>set ls. label_ok l" "length (dotted ls) \<le> 254"
    and bufs: "length dn = 256" "length buf = 256"
    and p: "rdn p pos (length (enc ls) + 1) = Some (enc ls @ [0])"
  shows "\<exists>dn' buf'. hosttodomain (dotted ls @ [0]) dn = Some (1, dn') \<and> cstr dn' = enc ls \<and>
    dns_extract_name p pos buf = Some (Some (pos + length (enc ls) + 1), buf') \<and> strcmp buf' dn' = Some 0"
proof -
  have e: "length (enc ls) \<le> 255" using length_dotted[OF ls(1)] ls(3) by simp
  obtain dn' where dn': "hosttodomain (dotted ls @ [0]) dn = Some (1, dn')" "length dn' = 256" "take (length (enc ls) + 1) dn' = enc ls @ [0]"
    using hosttodomain_encodes[OF ls bufs(1)] by blast
  obtain buf' where buf': "dns_extract_name p pos buf = Some (Some (pos + length (enc ls) + 1), buf')" "length buf' = 256"
    "take (length (enc ls) + 1) buf' = enc ls @ [0]"
    using extract_loop_decodes[OF name_at_plain[OF ls(2) p], of 0 buf None] bufs(2) e by (auto simp: dns_extract_name_def)
  have "0 \<notin> set (enc ls)" by (rule enc_nonzero[OF ls(2)])
  then have "cstr dn' = enc ls" "terminated dn'" "cstr buf' = enc ls" "terminated buf'"
    using cstr_of_prefix dn'(3) buf'(3) by blast+
  then show ?thesis using dn'(1) buf'(1) strcmp_0_iff[of buf' dn'] by auto
qed

text \<open>C24: The answer is taken from the message. A response with one question and an answer record of type A for
  the name that was asked, both names possibly compressed with at most one pointer each, sets the result to the address in
  the record.\<close>

theorem dns_answer_accepted:
  assumes hdr: "rd16 p 0 = Some 0x1234" "rd16 p 2 = Some flags" "flags AND 0xF800 = 0x8000" "flags AND 0x000F = 0"
      "rd16 p 4 = Some 1" "rd16 p 6 = Some n" "0 < n"
    and q: "name_at p 12 qs e1 lp1" "length (enc qs) \<le> 255" and qe: "r = (case lp1 of None \<Rightarrow> e1 | Some s \<Rightarrow> s) + 4"
    and a: "name_at p r ls e2 lp2" "length (enc ls) \<le> 255" "0 \<notin> set (enc ls)" and ae: "d = (case lp2 of None \<Rightarrow> e2 | Some s \<Rightarrow> s)"
    and rec: "rd16 p d = Some 1" "rd16 p (d + 2) = Some 1" "rd32 p (d + 10) = Some ip"
    and st: "length (handle_domain_name (app st)) = 256" "terminated (dns_domain_name (app st))" "cstr (dns_domain_name (app st)) = enc ls"
  shows "\<exists>st'. handle_dns st p sz = Some (0, st') \<and> dns_result_ip (app st') = ip \<and> rx st' = rx st \<and> tx st' = tx st"
proof -
  obtain b1 where b1: "dns_extract_name p 12 (handle_domain_name (app st)) = Some (Some (r - 4), b1)" "length b1 = 256" "4 \<le> r"
    using extract_loop_decodes[OF q(1) _ st(1), of 0 None] q(2) qe by (auto simp: dns_extract_name_def split: option.splits)
  obtain b2 where b2: "dns_extract_name p r b1 = Some (Some d, b2)" "take (length (enc ls) + 1) b2 = enc ls @ [0]"
    using extract_loop_decodes[OF a(1) _ b1(2), of 0 None] a(2) ae by (auto simp: dns_extract_name_def split: option.splits)
  have "strcmp b2 (dns_domain_name (app st)) = Some 0"
    using cstr_of_prefix[OF a(3) b2(2)] st(2,3) strcmp_0_iff by simp
  moreover obtain k where "unat n = Suc k" using hdr(7) by (metis gr0_implies_Suc unat_gt_0 word_greater_zero_iff)
  ultimately show ?thesis using hdr b1 b2 rec by (simp add: handle_dns_def Let_def)
qed

text \<open>C26: One packet hangs the firmware: a response whose question name is a compression pointer to itself is read
  for ever. Each iteration stays inside the packet and leads to the same state.\<close>

theorem dns_pointer_loop:
  assumes "rd16 p 0 = Some 0x1234" "rd16 p 2 = Some 0x8000" "rd16 p 4 = Some 1" "rd8 p 12 = Some 0xC0" "rd16 p 12 = Some 0xC00C"
  shows "handle_dns st p sz = None \<and>
    (\<forall>buf nxt. extract_loop p buf 0 12 nxt = extract_loop p buf 0 12 (Some 14))"
proof -
  have step: "extract_loop p buf 0 12 nxt = extract_loop p buf 0 12 (Some 14)" for buf nxt
    using assms(4,5) by (subst extract_loop.simps) simp
  have "extract_loop p buf 0 12 nxt = None" for buf nxt
    using extract_stuck[OF assms(4,5)] by (cases "extract_loop p buf 0 12 nxt") auto
  then show ?thesis using step assms(1-3) by (simp add: handle_dns_def dns_extract_name_def)
qed

text \<open>A host name of 255 characters overflows \<open>dns_domain_name\<close>: it passes the length check, but its label form
  with the terminator has 257 bytes.\<close>

theorem hosttodomain_overflow:
  assumes "ls \<noteq> []" "\<forall>l\<in>set ls. label_ok l" "length (dotted ls) = 255" "length dn = 256"
  shows "hosttodomain (dotted ls @ [0]) dn = None"
proof -
  have e: "length (enc ls) = 256" using length_dotted[OF assms(1)] assms(3) by simp
  obtain dn0 where dn0: "wr8 dn 0 0 = Some dn0" "length dn0 = 256" using assms(4) by (auto simp: wr8_def wrn_def)
  have "strlen (dotted ls @ [0]) = Some 255" using strlen_dotted[OF assms(2)] assms(3) by simp
  then show ?thesis using label_loop_encodes[OF assms(1,2) refl, of 0 dn0 "[]"] dn0 e by (simp add: hosttodomain_def)
qed

section \<open>Witnesses\<close>

theorem dns_name_roundtrip_witness:
  "\<exists>dn' buf'. hosttodomain (dotted [[97, 98], [99]] @ [0]) (replicate 256 0) = Some (1, dn') \<and> cstr dn' = enc [[97, 98], [99]] \<and>
    dns_extract_name (enc [[97, 98], [99]] @ [0]) 0 (replicate 256 1) = Some (Some (0 + length (enc [[97, 98], [99 :: u8]]) + 1), buf') \<and>
    strcmp buf' dn' = Some 0"
  by (rule dns_name_roundtrip) (simp_all add: label_ok_def rdn_def)

text \<open>A response for the name \<open>ab\<close> whose answer refers to the question with a pointer.\<close>

definition sample_response :: bytes where
  "sample_response = [0x12, 0x34, 0x81, 0x80, 0, 1, 0, 1, 0, 0, 0, 0,
     2, 97, 98, 0, 0, 1, 0, 1,
     0xC0, 12, 0, 1, 0, 1, 0, 0, 0, 9, 0, 4, 10, 0, 0, 7]"

definition asked :: "dns net" where
  "asked = net_start (dns_start\<lparr>dns_domain_name := [2, 97, 98, 0] @ replicate 252 0\<rparr>)"

theorem dns_answer_accepted_witness:
  "\<exists>st'. handle_dns asked sample_response 36 = Some (0, st') \<and> dns_result_ip (app st') = 0x0A000007 \<and> rx st' = rx asked \<and> tx st' = tx asked"
proof -
  let ?p = sample_response
  have root: "name_at ?p 15 [] 16 None" using name_at.root[where p = ?p and ptr = 15] by (simp add: rd8_def sample_response_def)
  then have q: "name_at ?p 12 [[97, 98]] 16 None"
    using name_at.label[where l = "[97, 98]" and p = ?p and ptr = 12 and ls = "[]" and e = 16 and lp = None] by (simp add: rdn_def sample_response_def)
  have "rd16 ?p 20 = Some 0xC00C" by code_simp
  moreover have "unat ((0xC00C :: u16) AND 0x3FFF) = 12" by code_simp
  ultimately have a: "name_at ?p 20 [[97, 98]] 16 (Some 22)"
    using name_at.pointer[where p = ?p and ptr = 20 and c = "0xC0" and r = "0xC00C" and ls = "[[97, 98]]" and e = 16 and lp = None] q by (simp add: rd8_def sample_response_def)
  show ?thesis
  proof (rule dns_answer_accepted[OF _ _ _ _ _ _ _ q _ refl, where flags = "0x8180" and n = 1 and d = 22])
    show "name_at ?p ((case None of None \<Rightarrow> 16 | Some s \<Rightarrow> s) + 4) [[97, 98]] 16 (Some 22)" using a by simp
    show "rd16 ?p 0 = Some 0x1234" "rd16 ?p 2 = Some 0x8180" "rd16 ?p 4 = Some 1" "rd16 ?p 6 = Some 1" by code_simp+
    show "(0x8180 :: u16) AND 0xF800 = 0x8000" "(0x8180 :: u16) AND 0x000F = 0" by code_simp+
    show "(22 :: nat) = (case Some 22 of None \<Rightarrow> 16 | Some s \<Rightarrow> s)" by simp
    show "rd16 ?p 22 = Some 1" "rd16 ?p (22 + 2) = Some 1" "rd32 ?p (22 + 10) = Some 0x0A000007" by code_simp+
  qed (simp_all add: asked_def net_start_def dns_start_def)
qed

theorem dns_pointer_loop_witness:
  "handle_dns asked ([0x12, 0x34, 0x80, 0, 0, 1, 0, 0, 0, 0, 0, 0, 0xC0, 12]) 14 = None \<and>
    (\<forall>buf nxt. extract_loop ([0x12, 0x34, 0x80, 0, 0, 1, 0, 0, 0, 0, 0, 0, 0xC0, 12]) buf 0 12 nxt =
      extract_loop ([0x12, 0x34, 0x80, 0, 0, 1, 0, 0, 0, 0, 0, 0, 0xC0, 12]) buf 0 12 (Some 14))"
  by (rule dns_pointer_loop) code_simp+

theorem hosttodomain_overflow_witness:
  "hosttodomain (dotted [replicate 63 97, replicate 63 97, replicate 63 97, replicate 63 97] @ [0]) (replicate 256 0) = None"
  by (rule hosttodomain_overflow) (simp_all add: label_ok_def)

end
