(* ===== verification/Net_Stack.thy ===== *)
theory Net_Stack
  imports Net_Recv Net_Dns
begin

text \<open>The stack as a whole: receiving and sending call each other, and the number of queued receive events bounds
  the nesting.\<close>

section \<open>Fuel\<close>

definition handler_mono :: "('s net \<Rightarrow> (int \<times> 's net) option) \<Rightarrow> bool" where
  "handler_mono f \<longleftrightarrow> (\<forall>st r st'. f st = Some (r, st') \<longrightarrow> length (rx st') \<le> length (rx st))"

definition sender_mono :: "'s sender \<Rightarrow> bool" where
  "sender_mono s \<longleftrightarrow> (\<forall>st b n r b' st'. s st b n = Some (r, b', st') \<longrightarrow> length (rx st') \<le> length (rx st))"

definition agree :: "nat \<Rightarrow> 's sender \<Rightarrow> 's sender \<Rightarrow> bool" where
  "agree k s t \<longleftrightarrow> (\<forall>st b n. length (rx st) \<le> k \<longrightarrow> s st b n = t st b n)"

lemma bind_SomeE: "Option.bind m f = Some y \<Longrightarrow> (\<And>x. m = Some x \<Longrightarrow> f x = Some y \<Longrightarrow> R) \<Longrightarrow> R"
  by (cases m) auto

lemma send_ether_rx: "send_ether io st b n = Some (r, st') \<Longrightarrow> rx st' = rx st"
  by (auto simp: send_ether_def bind_eq_Some_conv split: if_splits)

lemma arp_send_request_rx: "arp_send_request io st ip = Some st' \<Longrightarrow> rx st' = rx st"
  unfolding arp_send_request_def by (auto simp: bind_eq_Some_conv set_entry_def dest!: send_ether_rx)

lemma arp_send_reply_rx: "arp_send_reply io st ip mac = Some st' \<Longrightarrow> rx st' = rx st"
  unfolding arp_send_reply_def by (auto simp: bind_eq_Some_conv set_entry_def dest!: send_ether_rx)

lemma arp_reply_rx: "arp_reply io st sm ip dm = Some (r, st') \<Longrightarrow> rx st' = rx st"
  unfolding arp_reply_def Let_def
  by (auto elim!: bind_SomeE simp: set_entry_def dest!: send_ether_rx split: if_splits)

lemma handle_arp_mono: "handler_mono (\<lambda>st. handle_arp io st p n)"
  unfolding handler_mono_def handle_arp_def
  by (auto simp: bind_eq_Some_conv dest!: arp_send_reply_rx arp_reply_rx split: if_splits)

lemma store_pending_rx: "store_pending st b n ip = Some (i, st') \<Longrightarrow> rx st' = rx st"
  unfolding store_pending_def Let_def by (auto simp: bind_eq_Some_conv set_entry_def)

lemma set_timer_rx: "rx (snd (set_timer st)) = rx st"
  by (simp add: set_timer_def split: list.split)

lemma wait_reply_mono:
  assumes "handler_mono recv" "wait_reply recv i k st = Some st'"
  shows "length (rx st') \<le> length (rx st)"
  using assms(2)
proof (induction k arbitrary: st)
  case 0
  then show ?case using assms(1) unfolding handler_mono_def
    by (subst (asm) wait_reply.simps) (fastforce simp: bind_eq_Some_conv split: if_splits)
next
  case (Suc k)
  from Suc.prems obtain r st1 where "recv st = Some (r, st1)" "st' = st1 \<or> wait_reply recv i k st1 = Some st'"
    by (subst (asm) wait_reply.simps) (auto simp: bind_eq_Some_conv split: if_splits)
  then show ?case using assms(1) Suc.IH[of st1] unfolding handler_mono_def by (meson le_trans order_refl)
qed

lemma wait_reply_agree:
  assumes "handler_mono recv" "\<And>st. length (rx st) \<le> m \<Longrightarrow> recv st = recv' st" "length (rx st) \<le> m"
  shows "wait_reply recv i k st = wait_reply recv' i k st"
  using assms(3)
proof (induction k arbitrary: st)
  case 0
  then show ?case by (subst (1 2) wait_reply.simps) (simp add: assms(2)[OF 0] cong: if_cong)
next
  case (Suc k)
  have "wait_reply recv i k st1 = wait_reply recv' i k st1" if "recv st = Some (r, st1)" for r st1
    using Suc.IH[of st1] that assms(1) Suc.prems unfolding handler_mono_def by fastforce
  then show ?case
    by (subst (1 2) wait_reply.simps) (cases "recv' st"; auto simp: assms(2)[OF Suc.prems] cong: if_cong split: prod.split)
qed

lemma send_ipv4_mono:
  assumes "handler_mono recv"
  shows "sender_mono (send_ipv4 io recv)"
  unfolding sender_mono_def
proof (intro allI impI)
  fix st b n r b' st'
  assume "send_ipv4 io recv st b n = Some (r, b', st')"
  then show "length (rx st') \<le> length (rx st)"
    unfolding send_ipv4_def Let_def
    by (auto simp: bind_eq_Some_conv set_entry_def split_beta set_timer_rx split: if_splits option.splits
      dest!: wait_reply_mono[OF assms] send_ether_rx arp_send_request_rx store_pending_rx)
qed

lemma send_ipv4_agree:
  assumes "handler_mono recv" "\<And>st. length (rx st) \<le> m \<Longrightarrow> recv st = recv' st"
  shows "agree m (send_ipv4 io recv) (send_ipv4 io recv')"
  unfolding agree_def
proof (intro allI impI)
  fix st :: "'a net" and b n
  assume st: "length (rx st) \<le> m"
  have "wait_reply recv i (fst (set_timer st2)) (snd (set_timer st2)) = wait_reply recv' i (fst (set_timer st2)) (snd (set_timer st2))"
    if "arp_send_request io st ip = Some st1" "store_pending st1 b ln ip = Some (i, st2)" for st1 st2 i ip ln b
    using that st by (intro wait_reply_agree[OF assms(1,2)]) (auto simp: set_timer_rx dest!: arp_send_request_rx store_pending_rx)
  then show "send_ipv4 io recv st b n = send_ipv4 io recv' st b n"
    unfolding send_ipv4_def Let_def split_beta
    by (auto intro!: Option.bind_cong simp: split_beta split: option.split)
qed


text \<open>What the stack relies on of the protocols above: they look at the queue of received frames only through the
  sender they are given.\<close>

definition upper_ok :: "'s upper \<Rightarrow> bool" where
  "upper_ok up \<longleftrightarrow>
     (\<forall>k s t st p n. agree k s t \<and> sender_mono s \<and> length (rx st) \<le> k \<longrightarrow>
        up_dhcp up s st p n = up_dhcp up t st p n \<and> up_tftp up s st p n = up_tftp up t st p n) \<and>
     (\<forall>s p n. sender_mono s \<longrightarrow> handler_mono (\<lambda>st. up_dhcp up s st p n) \<and> handler_mono (\<lambda>st. up_tftp up s st p n)) \<and>
     (\<forall>p n. handler_mono (\<lambda>st. up_dns up st p n) \<and> handler_mono (\<lambda>st. up_dhcpv6 up st p n) \<and> handler_mono (\<lambda>st. up_ipv6 up st p n)) \<and>
     (\<forall>c st. length (rx (up_tftp_dun up c st)) \<le> length (rx st))"

lemma handler_monoI: "(\<And>st r st'. f st = Some (r, st') \<Longrightarrow> length (rx st') \<le> length (rx st)) \<Longrightarrow> handler_mono f"
  by (simp add: handler_mono_def)

lemma handler_monoD: "handler_mono f \<Longrightarrow> f st = Some (r, st') \<Longrightarrow> length (rx st') \<le> length (rx st)"
  by (simp add: handler_mono_def)

lemma sender_monoD: "sender_mono s \<Longrightarrow> s st b n = Some (r, b', st') \<Longrightarrow> length (rx st') \<le> length (rx st)"
  by (auto simp: sender_mono_def)

lemma upper_monos:
  assumes "upper_ok up" "sender_mono s"
  shows "handler_mono (\<lambda>st. up_dhcp up s st p n)" "handler_mono (\<lambda>st. up_tftp up s st p n)" "handler_mono (\<lambda>st. up_dns up st p n)"
    "handler_mono (\<lambda>st. up_dhcpv6 up st p n)" "handler_mono (\<lambda>st. up_ipv6 up st p n)" "length (rx (up_tftp_dun up c st)) \<le> length (rx st)"
  using assms unfolding upper_ok_def by blast+

lemma handle_udp_mono:
  assumes "upper_ok up" "sender_mono s"
  shows "handler_mono (\<lambda>st. handle_udp up s st p n)"
proof (rule handler_monoI)
  fix st r st'
  assume "handle_udp up s st p n = Some (r, st')"
  then show "length (rx st') \<le> length (rx st)"
    unfolding handle_udp_def by (auto elim!: bind_SomeE dest: upper_monos(1-4)[OF assms, THEN handler_monoD] split: if_splits)
qed

lemma handle_icmp_mono:
  assumes "upper_ok up" "sender_mono s"
  shows "handler_mono (\<lambda>st. handle_icmp up s st src p n)"
proof (rule handler_monoI)
  fix st r st'
  assume "handle_icmp up s st src p n = Some (r, st')"
  then show "length (rx st') \<le> length (rx st)"
    unfolding handle_icmp_def handle_tcp_dun_def handle_udp_dun_def
    by (auto elim!: bind_SomeE dest!: sender_monoD[OF assms(2)] simp: upper_monos(6)[OF assms] split: if_splits)
qed

lemma dispatch_mono:
  assumes "upper_ok up" "sender_mono s"
  shows "handler_mono (\<lambda>st. dispatch_ipv4 up s st p)"
proof (rule handler_monoI)
  fix st r st'
  assume "dispatch_ipv4 up s st p = Some (r, st')"
  then show "length (rx st') \<le> length (rx st)"
    unfolding dispatch_ipv4_def handle_tcp_def
    by (auto elim!: bind_SomeE dest: handle_udp_mono[OF assms, THEN handler_monoD] handle_icmp_mono[OF assms, THEN handler_monoD]
      split: if_splits)
qed

lemma handle_ipv4_mono:
  assumes "upper_ok up" "sender_mono s"
  shows "handler_mono (\<lambda>st. handle_ipv4 up s st p n)"
proof (rule handler_monoI)
  fix st r st'
  have d: "length (rx st') \<le> length (rx st)" if "dispatch_ipv4 up s (st\<lparr>ip_heap := h\<rparr>) q = Some (r, st')" for h q
    using handler_monoD[OF dispatch_mono[OF assms] that] by simp
  assume "handle_ipv4 up s st p n = Some (r, st')"
  then show "length (rx st') \<le> length (rx st)"
    unfolding handle_ipv4_def
    by (auto elim!: bind_SomeE dest!: d dispatch_mono[OF assms, THEN handler_monoD] split: if_splits)
qed

lemma handle_udp_agree:
  assumes "upper_ok up" "agree k s t" "sender_mono s" "length (rx st) \<le> k"
  shows "handle_udp up s st p n = handle_udp up t st p n"
proof -
  have e: "up_dhcp up s st p n = up_dhcp up t st p n" "up_tftp up s st p n = up_tftp up t st p n" for p n
    using assms unfolding upper_ok_def by blast+
  show ?thesis unfolding handle_udp_def e ..
qed

lemma dispatch_agree:
  assumes "upper_ok up" "agree k s t" "sender_mono s" "length (rx st) \<le> k"
  shows "dispatch_ipv4 up s st p = dispatch_ipv4 up t st p"
proof -
  have e: "s st b n = t st b n" for b n using assms(2,4) by (simp add: agree_def)
  show ?thesis unfolding dispatch_ipv4_def handle_icmp_def e handle_udp_agree[OF assms] ..
qed

lemma handle_ipv4_agree:
  assumes "upper_ok up" "agree k s t" "sender_mono s" "length (rx st) \<le> k"
  shows "handle_ipv4 up s st p n = handle_ipv4 up t st p n"
proof -
  have e: "dispatch_ipv4 up s (st\<lparr>ip_heap := h\<rparr>) q = dispatch_ipv4 up t (st\<lparr>ip_heap := h\<rparr>) q" for h q
    using assms by (intro dispatch_agree) auto
  show ?thesis unfolding handle_ipv4_def e dispatch_agree[OF assms] ..
qed

lemma recv_packet_rx:
  assumes "recv_packet st = (k, st1)"
  shows "length (rx st1) \<le> length (rx st)" "k \<noteq> 0 \<Longrightarrow> length (rx st1) < length (rx st)"
  using assms by (auto simp: recv_packet_def Let_def split: list.splits rx_event.splits)

lemma body_mono:
  assumes "\<And>p n. handler_mono (\<lambda>st. h4 st p n)" "\<And>p n. handler_mono (\<lambda>st. h6 st p n)" "\<And>p n. handler_mono (\<lambda>st. ha st p n)"
  shows "handler_mono (receive_ether_body h4 h6 ha)"
proof (rule handler_monoI)
  fix st r st'
  assume a: "receive_ether_body h4 h6 ha st = Some (r, st')"
  obtain k st1 where k: "recv_packet st = (k, st1)" by fastforce
  have "length (rx st') \<le> length (rx st1)"
    using a unfolding receive_ether_body_def k Let_def
    by (auto elim!: bind_SomeE dest!: assms[THEN handler_monoD] split: if_splits)
  then show "length (rx st') \<le> length (rx st)" using recv_packet_rx(1)[OF k] by simp
qed

lemma body_agree:
  assumes "\<And>st1 p n. length (rx st1) < length (rx st) \<Longrightarrow> h4 st1 p n = h4' st1 p n"
  shows "receive_ether_body h4 h6 ha st = receive_ether_body h4' h6 ha st"
proof -
  obtain k st1 where k: "recv_packet st = (k, st1)" by fastforce
  have "h4 st1 p n = h4' st1 p n" if "k \<noteq> 0" for p n using assms recv_packet_rx(2)[OF k that] by blast
  then show ?thesis unfolding receive_ether_body_def k Let_def by (auto simp: Let_def cong: if_cong)
qed

lemma receive_ether_mono: "upper_ok up \<Longrightarrow> handler_mono (receive_ether up io n)"
proof (induction n)
  case 0
  then show ?case by (simp add: handler_mono_def)
next
  case (Suc n)
  note s = send_ipv4_mono[OF Suc.IH[OF Suc.prems], of io]
  have e: "receive_ether up io (Suc n) = receive_ether_body (handle_ipv4 up (send_ipv4 io (receive_ether up io n))) (up_ipv6 up) (handle_arp io)"
    by (rule ext) simp
  show ?case unfolding e
    by (rule body_mono[OF handle_ipv4_mono[OF Suc.prems s] upper_monos(5)[OF Suc.prems s] handle_arp_mono])
qed


text \<open>The stack with the DNS client on top and the other protocols left out.\<close>

definition dns_upper :: "dns upper" where
  "dns_upper = \<lparr>up_dhcp = \<lambda>_ st _ _. Some (-1, st), up_dns = handle_dns, up_dhcpv6 = \<lambda>st _ _. Some (-1, st),
     up_tftp = \<lambda>_ st _ _. Some (-1, st), up_tftp_dun = \<lambda>_ st. st, up_ipv6 = \<lambda>st _ _. Some (-1, st)\<rparr>"

lemma answer_loop_rx: "answer_loop p k resp st = Some (r, st') \<Longrightarrow> rx st' = rx st"
proof (induction k arbitrary: resp st)
  case (Suc k)
  have IH: "rx st' = rx st" if "answer_loop p k x st1 = Some (r, st')" "rx st1 = rx st" for x st1 using Suc.IH[OF that(1)] that(2) by simp
  show ?case using Suc.prems
    by (auto simp: Let_def elim!: bind_SomeE split: option.splits if_splits dest!: IH)
qed simp

lemma handle_dns_mono: "handler_mono (\<lambda>st. handle_dns st p n)"
proof (rule handler_monoI)
  fix st st' :: "'b dns_net" and r
  assume "handle_dns st p n = Some (r, st')"
  then show "length (rx st') \<le> length (rx st)"
    unfolding handle_dns_def Let_def by (auto elim!: bind_SomeE split: option.splits if_splits dest!: answer_loop_rx)
qed

lemma dns_upper_ok: "upper_ok dns_upper"
  unfolding upper_ok_def dns_upper_def by (simp add: handle_dns_mono) (simp add: handler_mono_def)


end
