(* ===== verification/Net_Sender.thy ===== *)
theory Net_Sender
  imports Net_Stack
begin

text \<open>The interface between the application protocols and the IP layer: what a client relies on when it sends a UDP
  packet to a server whose address is resolved. \<open>send_ipv4\<close> provides it.\<close>

section \<open>Headers\<close>

definition ip_header :: "u16 \<Rightarrow> u8 \<Rightarrow> u32 \<Rightarrow> u32 \<Rightarrow> bytes" where
  "ip_header sz proto src dst = [0x45, 0x10, hi8 sz, lo8 sz, 0, 0, 0, 0, 0xFF, proto, 0, 0] @ be32 src @ be32 dst"

definition udp_header :: "u16 \<Rightarrow> u16 \<Rightarrow> u16 \<Rightarrow> bytes" where
  "udp_header sz sport dport = [hi8 sport, lo8 sport, hi8 dport, lo8 dport, hi8 sz, lo8 sz, 0, 0]"

lemma wrn_app: "length xs = i \<Longrightarrow> length ys = length zs \<Longrightarrow> wrn (xs @ ys @ r) i zs = Some (xs @ zs @ r)"
  by (simp add: wrn_def)

lemma length_headers [simp]: "length (ip_header sz proto src dst) = 20" "length (udp_header n sp dp) = 8"
  by (simp_all add: ip_header_def udp_header_def)

lemma wrn_numeral: "wrn (x # b) (numeral k) xs = map_option (Cons x) (wrn b (pred_numeral k) xs)"
  by (simp add: wrn_def numeral_eq_Suc)

lemma wrn_Suc: "wrn (x # b) (Suc i) xs = map_option (Cons x) (wrn b i xs)"
  by (simp add: wrn_def)

lemma wrn_0: "wrn (x # b) 0 [v] = Some (v # b)" "wrn (x # y # b) 0 [v, w] = Some (v # w # b)"
  "wrn (x # y # z # u # b) 0 [v1, v2, v3, v4] = Some (v1 # v2 # v3 # v4 # b)"
  by (simp_all add: wrn_def)

lemma hi8_lo8_0 [simp]: "hi8 0 = 0" "lo8 0 = 0"
  by (simp_all add: hi8_def lo8_def)

lemmas wr_steps = wr8_def wr16_def wr32_def be32_def wrn_numeral wrn_Suc wrn_0

lemma explode_list: "length h = Suc n \<longleftrightarrow> (\<exists>x t. h = x # t \<and> length t = n)"
  by (cases h) auto

lemma fill_iphdr_eq: "length h = 20 \<Longrightarrow> fill_iphdr (h @ r) sz proto src dst = Some (ip_header sz proto src dst @ r)"
proof -
  assume "length h = 20"
  then have "length h = Suc (Suc (Suc (Suc (Suc (Suc (Suc (Suc (Suc (Suc (Suc (Suc (Suc (Suc (Suc (Suc (Suc (Suc (Suc (Suc 0)))))))))))))))))))" by simp
  then obtain a0 a1 a2 a3 a4 a5 a6 a7 a8 a9 b0 b1 b2 b3 b4 b5 b6 b7 b8 b9 where
    h: "h = [a0, a1, a2, a3, a4, a5, a6, a7, a8, a9, b0, b1, b2, b3, b4, b5, b6, b7, b8, b9]"
    unfolding explode_list length_0_conv by blast
  show ?thesis unfolding h fill_iphdr_def ip_header_def by (simp add: wr_steps)
qed

lemma fill_udphdr_eq: "length h = 8 \<Longrightarrow> fill_udphdr (h @ r) sz sp dp = Some (udp_header sz sp dp @ r)"
proof -
  assume "length h = 8"
  then have "length h = Suc (Suc (Suc (Suc (Suc (Suc (Suc (Suc 0)))))))" by simp
  then obtain a0 a1 a2 a3 a4 a5 a6 a7 where h: "h = [a0, a1, a2, a3, a4, a5, a6, a7]" unfolding explode_list length_0_conv by blast
  show ?thesis unfolding h fill_udphdr_def udp_header_def by (simp add: wr_steps)
qed

text \<open>A UDP packet of \<open>n\<close> bytes to \<open>dst\<close> in the buffer \<open>p\<close>, with the source address left to the IP layer.\<close>

definition udp_packet_to :: "u32 \<Rightarrow> bytes \<Rightarrow> nat \<Rightarrow> bool" where
  "udp_packet_to dst p n \<longleftrightarrow> 28 \<le> n \<and> n \<le> length p \<and> n \<le> 1504 \<and> rd32 p 12 = Some 0 \<and> rd32 p 16 = Some dst \<and> p ! 9 = 17 \<and> udp_fits p"

lemma rd32_be32: "i = length xs \<Longrightarrow> rd32 (xs @ be32 v @ ys) i = Some v"
  by (simp add: rd32_def be32_def nth_append be_simps)

lemma udp_packet_headers:
  assumes "8 \<le> k" "k \<le> length r + 8" "20 + k \<le> 1504" "length r \<noteq> k - 8 \<or> even k"
  shows "udp_packet_to dst (ip_header sz 17 0 dst @ udp_header (of_nat k) sp dp @ r) (20 + k)"
proof -
  let ?p = "ip_header sz 17 0 dst @ udp_header (of_nat k) sp dp @ r"
  let ?h = "[0x45, 0x10, hi8 sz, lo8 sz, 0, 0, 0, 0, 0xFF, 17, 0, 0] :: u8 list"
  have "rd32 ?p 12 = Some 0" using rd32_be32[of 12 ?h 0] by (simp add: ip_header_def)
  moreover have "rd32 ?p 16 = Some dst" using rd32_be32[of 16 "?h @ be32 0" dst] by (simp add: ip_header_def)
  moreover have "?p ! 9 = 17" by (simp add: ip_header_def)
  moreover have "?p ! 24 = hi8 (of_nat k)" "?p ! 25 = lo8 (of_nat k)" by (simp_all add: nth_append udp_header_def)
  then have "word_at ?p 24 = k" using assms(3) by (simp add: word_at_def be_simps unat_of_nat)
  then have "udp_fits ?p" using assms by (auto simp: udp_fits_def udp_words_def)
  ultimately show ?thesis using assms by (simp add: udp_packet_to_def)
qed

section \<open>The interface\<close>

text \<open>What decides which frames are accepted: sending leaves it alone.\<close>

definition same_host :: "'a net \<Rightarrow> 'a net \<Rightarrow> bool" where
  "same_host st st' \<longleftrightarrow> rx st' = rx st \<and> own_ip st' = own_ip st \<and> own_mac st' = own_mac st \<and> multicast_ip st' = multicast_ip st"

lemma same_host_refl [simp]: "same_host st (st\<lparr>app := a\<rparr>)" "same_host st st"
  and same_host_app [simp]: "same_host (st\<lparr>app := a\<rparr>) st' = same_host st st'" "same_host st (st'\<lparr>app := a\<rparr>) = same_host st st'"
  by (simp_all add: same_host_def)

lemma same_host_trans: "same_host s t \<Longrightarrow> same_host t u \<Longrightarrow> same_host s u"
  by (simp add: same_host_def)

locale ip_sender =
  fixes send :: "'a sender" and srv :: u32 and ready :: "'a net \<Rightarrow> bool"
  assumes send_ok: "ready st \<Longrightarrow> udp_packet_to srv p n \<Longrightarrow>
      \<exists>r p' st'. send st p (int n) = Some (r, p', st') \<and> length p' = length p \<and> app st' = app st \<and> same_host st st' \<and>
        tx st' \<noteq> tx st \<and> ready st'"
    and ready_app: "ready st \<Longrightarrow> ready (st\<lparr>app := a\<rparr>)"
    and ready_rx: "ready st \<Longrightarrow> ready (st\<lparr>ether_packet := b, rx := e\<rparr>)"

section \<open>The provider\<close>

text \<open>The route to \<open>srv\<close> has a MAC address.\<close>

definition resolved :: "u32 \<Rightarrow> 'a net \<Rightarrow> bool" where
  "resolved srv st \<longleftrightarrow> net_ok st \<and> (\<exists>i m d. route st srv = Some (Some i, Some m, d))"

lemma route_cong:
  assumes "net_ok st" "net_ok st'" "own_ip st' = own_ip st" "subnet_mask st' = subnet_mask st" "router_ip st' = router_ip st"
    "multicast_ip st' = multicast_ip st" "multicast_mac st' = multicast_mac st" "arp_producer st' = arp_producer st" "arp_consumer st' = arp_consumer st"
    and e: "\<And>j. j < 10 \<Longrightarrow> ipv4_addr (arp_table st' ! j) = ipv4_addr (arp_table st ! j) \<and> mac_addr (arp_table st' ! j) = mac_addr (arp_table st ! j)"
  shows "route st' dst = route st dst"
proof -
  have i: "arp_consumer st < 10" "arp_producer st < 10" "length (arp_table st) = 10" "length (arp_table st') = 10"
    using assms(1,2) by (auto simp: net_ok_def)
  have "j < 10" if "j \<in> set (ring (arp_consumer st) (arp_producer st))" for j using that ring_less[OF i(1)] by (simp add: ring_def)
  then have "find (\<lambda>j. ipv4_addr (arp_table st' ! j) = ip) (ring (arp_consumer st) (arp_producer st)) =
      find (\<lambda>j. ipv4_addr (arp_table st ! j) = ip) (ring (arp_consumer st) (arp_producer st))" for ip
    using e by (intro find_cong_set) auto
  then have l: "lookup_mac_addr st' ip = lookup_mac_addr st ip" for ip
    using ring_search_eq[OF i(3,2,1)] ring_search_eq[OF i(4,2,1)] assms(8,9) by (simp add: lookup_mac_addr_def)
  have a: "arp_entry_at st' j = Some (arp_table st' ! j)" "arp_entry_at st j = Some (arp_table st ! j)" if "j < 10" for j
    using that i by (simp_all add: arp_entry_at_def)
  have m: "lookup_mac_addr st d \<bind> case_option (Some (None, None, d)) (\<lambda>i. arp_entry_at st' i \<bind>
        (\<lambda>e. memcmp (mac_addr e) null_mac_addr 6 \<bind> (\<lambda>c. Some (Some i, if c \<noteq> 0 then Some (mac_addr e) else None, d)))) =
      lookup_mac_addr st d \<bind> case_option (Some (None, None, d)) (\<lambda>i. arp_entry_at st i \<bind>
        (\<lambda>e. memcmp (mac_addr e) null_mac_addr 6 \<bind> (\<lambda>c. Some (Some i, if c \<noteq> 0 then Some (mac_addr e) else None, d))))" for d
  proof (cases "lookup_mac_addr st d")
    case (Some r)
    then show ?thesis using find_in_ring(1)[OF assms(1)] a e by (cases r) (simp_all cong: if_cong)
  qed simp
  show ?thesis by (simp only: route_def Let_def l assms(3-8) m)
qed

lemma resolved_cong:
  assumes "resolved srv st" "net_ok st'" "own_ip st' = own_ip st" "subnet_mask st' = subnet_mask st" "router_ip st' = router_ip st"
    "multicast_ip st' = multicast_ip st" "multicast_mac st' = multicast_mac st" "arp_producer st' = arp_producer st" "arp_consumer st' = arp_consumer st"
    "\<And>j. j < 10 \<Longrightarrow> ipv4_addr (arp_table st' ! j) = ipv4_addr (arp_table st ! j) \<and> mac_addr (arp_table st' ! j) = mac_addr (arp_table st ! j)"
  shows "resolved srv st'"
  using assms route_cong[of st st' srv] unfolding resolved_def by auto

lemma patch_dst:
  assumes "patch_packet st p = Some b" "rd32 p 12 = Some 0" "20 \<le> length p" "p ! 9 = 17 \<Longrightarrow> udp_fits p"
  shows "rd32 b 16 = rd32 p 16"
proof -
  obtain p1 where p1: "wr32 p 12 (own_ip st) = Some p1" using wr32_Some[of 12 p] assms(3) by auto
  have l1: "length p1 = length p" by (rule wr32_length[OF p1])
  obtain p2 where p2: "wr16 p1 10 0 = Some p2" using wr16_Some[of 10 p1] assms(3) l1 by auto
  have l2: "length p2 = length p" using wr16_length[OF p2] l1 by simp
  obtain c where c: "checksum p2 10 = Some c" using checksum_eq[of 10 p2] assms(3) l2 by auto
  obtain p3 where p3: "wr16 p2 10 c = Some p3" using wr16_Some[of 10 p2] assms(3) l2 by auto
  have l3: "length p3 = length p" using wr16_length[OF p3] l2 by simp
  have f3: "p3 ! j = p ! j" if "j < 10 \<or> 16 \<le> j" for j
    using that wr16_frame[OF p3, of j] wr16_frame[OF p2, of j] wr32_frame[OF p1, of j] by auto
  have e3: "patch_packet st p = do { proto \<leftarrow> rd8 p3 9; if proto = 17 then fill_udp_checksum p3 else Some p3 }"
    using assms(2) p1 p2 c p3 by (simp add: patch_packet_def)
  have "length b = length p \<and> (\<forall>j. 16 \<le> j \<and> j < 20 \<longrightarrow> b ! j = p ! j)"
  proof (cases "p ! 9 = 17")
    case True
    then have "udp_fits p3" using udp_fits_cong[OF assms(4) l3] f3[of 24] f3[of 25] by simp
    from fill_udp_checksum_valid[OF this] obtain p4 where "fill_udp_checksum p3 = Some p4" "length p4 = length p3"
      "\<forall>j. j \<noteq> 26 \<and> j \<noteq> 27 \<longrightarrow> p4 ! j = p3 ! j" by blast
    then show ?thesis using assms(1,3) e3 True f3 l3 by (simp add: rd8_def)
  next
    case False
    then show ?thesis using assms(1,3) e3 f3 l3 by (simp add: rd8_def)
  qed
  then show ?thesis by (simp add: rd32_def)
qed

lemma send_ipv4_ready:
  assumes r: "resolved srv st" and p: "udp_packet_to srv p n"
  shows "\<exists>r p' st'. send_ipv4 io recv st p (int n) = Some (r, p', st') \<and> length p' = length p \<and> app st' = app st \<and> same_host st st' \<and>
        tx st' \<noteq> tx st \<and> resolved srv st'"
proof -
  have ok: "net_ok st" using r by (simp add: resolved_def)
  have n: "28 \<le> n" "n \<le> length p" "n \<le> 1504" "rd32 p 12 = Some 0" "rd32 p 16 = Some srv" "p ! 9 = 17" "udp_fits p"
    using p by (auto simp: udp_packet_to_def)
  have u: "u64_of (int n + 14) = int n + 14" "u64_of (int n) = int n" "s32_of (int n + 14) = int n + 14"
    using n(3) by (auto intro!: u64_of_id s32_of_id)
  obtain b where b: "patch_packet st p = Some b" "length b = length p" using patch_packet_valid[of p st] n by auto
  have dst: "rd32 b 16 = Some srv" using patch_dst[OF b(1) n(4)] n by simp
  obtain i m d where rt: "route st srv = Some (Some i, Some m, d)" "i < 10" "length m = 6"
    using r route_Some[OF ok, of srv] by (auto simp: resolved_def)
  note e = net_ok_entry[OF ok rt(2)]
  obtain f where f: "fill_ethhdr (eth_frame (arp_table st ! i)) 0x0800 (own_mac st) m = Some f" "length f = 1518"
    using sized_fill_ethhdr[of "eth_frame (arp_table st ! i)" "own_mac st" m "0x0800"] e ok rt(3)
    by (auto simp: sized_def entry_ok_def net_ok_def)
  obtain g where g: "wrn f 14 (take n b) = Some g" "length g = 1518"
    using f(2) n(3) b(2) n(2) by (auto simp: wrn_def)
  have rd: "rdn b 0 n = Some (take n b)" "rdn g 0 (n + 14) = Some (take (n + 14) g)" using n b(2) g(2) by (simp_all add: rdn_def)
  let ?st = "set_entry i ((arp_table st ! i)\<lparr>eth_frame := g\<rparr>) st" and ?f = "take (n + 14) g"
  let ?st' = "?st\<lparr>tx := tx ?st @ [?f]\<rparr>"
  have "nat (int n + 14) = n + 14" by simp
  then have "send_ether io ?st g (int n + 14) = Some (io ?f, ?st')" using rd(2) by (simp add: send_ether_def)
  then have "send_ipv4 io recv st p (int n) = Some (io ?f, b, ?st')"
    using n(3) b(1) dst rt(1) e f(1) g(1) rd(1) u by (simp add: send_ipv4_def)
  moreover have "net_ok ?st'" using net_ok_frame[OF ok rt(2) g(2)] by simp
  then have "resolved srv ?st'"
    by (rule resolved_cong[OF r]) (use ok rt(2) in \<open>auto simp: set_entry_def net_ok_def nth_list_update split: if_splits\<close>)
  ultimately show ?thesis using b(2) by (auto simp: set_entry_def same_host_def)
qed

interpretation v4: ip_sender "send_ipv4 io recv" srv "resolved srv" for io recv srv
proof
  fix st :: "'a net" and p n
  assume "resolved srv st" "udp_packet_to srv p n"
  then show "\<exists>r p' st'. send_ipv4 io recv st p (int n) = Some (r, p', st') \<and> length p' = length p \<and> app st' = app st \<and> same_host st st' \<and>
        tx st' \<noteq> tx st \<and> resolved srv st'" by (rule send_ipv4_ready)
next
  fix st :: "'a net" and a
  assume r: "resolved srv st"
  then show "resolved srv (st\<lparr>app := a\<rparr>)" by (intro resolved_cong[OF r]) (simp_all add: resolved_def net_ok_def)
next
  fix st :: "'a net" and b e
  assume r: "resolved srv st"
  then show "resolved srv (st\<lparr>ether_packet := b, rx := e\<rparr>)" by (intro resolved_cong[OF r]) (simp_all add: resolved_def net_ok_def)
qed

end
