(* ===== verification/Net_Tftp.thy ===== *)
theory Net_Tftp
  imports Net_Stack Libc_Stdio
begin

text \<open>The TFTP client (\<open>src/lib/libnet/tftp.c\<close>) on top of UDP. A received packet is the object from the UDP header on:
  source port at 0, UDP length at 4, opcode at 8, block number at 10, data at 12. The state extends that of the DNS
  client, which \<open>parse_tftp_args\<close> calls. What is printed is not part of the state. \<open>get_timer\<close> is an oracle: \<open>t_expired\<close> lists
  for each call whether the timer has run down (it has when the list is used up), so \<open>set_timer\<close> has no effect of its
  own. The handler works on the packet as it was received; the buffer of the Ethernet layer is only overwritten
  earlier if sending waits for an ARP reply.\<close>

section \<open>Model\<close>

record filename_ip =
  fn_own_ip :: u32
  fn_own_ip6 :: bytes
  fn_server_ip :: u32
  fn_server_ip6 :: bytes
  fn_dns_ip6 :: bytes
  fn_filename :: bytes
  fn_pl_cfgfile :: "bytes option"
  fn_pl_prefix :: "bytes option"
  fn_fd :: int
  fn_ip_version :: int

record tftp_err =
  bad_tftp_packets :: u32
  no_packets :: u32
  blocks_missed :: u32
  blocks_received :: u32

record tftp_state = dns +
  t_packet :: bytes
  t_buffer :: "bytes option"
  t_block :: u16
  t_blocksize :: u16
  blocksize_str :: bytes
  received_len :: int
  t_retries :: u32
  huge_load :: int
  t_len :: int
  tftp_finished :: int
  lost_packets :: int
  tftp_errno :: int
  t_ip_version :: int
  port_number :: u16
  t_err :: tftp_err
  fn_ip :: filename_ip
  progress_first :: int
  progress_last_bytes :: int
  progress_i :: u32
  t_expired :: "bool list"

definition tftp_start :: tftp_state where
  "tftp_start = \<lparr>dns_packet = replicate 1518 0, dns_server_ip = 0, dns_server_ipv6 = replicate 16 0, dns_result_ip = 0,
     dns_result_ipv6 = replicate 16 0, dns_error = False, dns_domain_name = replicate 256 0,
     dns_domain_cname = replicate 256 0, handle_domain_name = replicate 256 0, dns_host_name = replicate 256 0,
     t_packet = replicate 256 0, t_buffer = None, t_block = 0, t_blocksize = 0, blocksize_str = replicate 6 0, received_len = 0,
     t_retries = 0, huge_load = 0, t_len = 0, tftp_finished = 0, lost_packets = 0, tftp_errno = 0, t_ip_version = 0,
     port_number = 0, t_err = \<lparr>bad_tftp_packets = 0, no_packets = 0, blocks_missed = 0, blocks_received = 0\<rparr>,
     fn_ip = \<lparr>fn_own_ip = 0, fn_own_ip6 = [], fn_server_ip = 0, fn_server_ip6 = [], fn_dns_ip6 = [], fn_filename = [],
       fn_pl_cfgfile = None, fn_pl_prefix = None, fn_fd = 0, fn_ip_version = 0\<rparr>,
     progress_first = 0, progress_last_bytes = 0, progress_i = 1, t_expired = []\<rparr>"

type_synonym 'b tftp_net = "'b tftp_state_scheme net"

abbreviation upd_app :: "('a \<Rightarrow> 'a) \<Rightarrow> 'a net \<Rightarrow> 'a net" where
  "upd_app f st \<equiv> st\<lparr>app := f (app st)\<rparr>"

abbreviation (input) BUFFER_LEN :: nat where
  "BUFFER_LEN \<equiv> 256"

abbreviation (input) MAX_BLOCKSIZE :: u16 where
  "MAX_BLOCKSIZE \<equiv> 1428"

text \<open>The common start of the three senders: the IP and UDP headers for \<open>n\<close> bytes after the IP header. The result also
  has the offset of the UDP header. With an IP version other than 4 and 6 the pointer to it is \<open>NULL\<close>.\<close>

definition start_packet :: "bytes \<Rightarrow> 'b tftp_state_scheme \<Rightarrow> nat \<Rightarrow> u16 \<Rightarrow> (bytes \<times> nat) option" where
  "start_packet own6 a n dport = do {
     p \<leftarrow> memset (t_packet a) 0 BUFFER_LEN;
     (p, u) \<leftarrow> (if t_ip_version a = 4
       then do { p \<leftarrow> fill_iphdr p (of_nat (20 + n)) 17 0 (fn_server_ip (fn_ip a)); Some (p, 20) }
       else if t_ip_version a = 6
       then do { p \<leftarrow> fill_ip6hdr p (of_nat n) 17 own6 (fn_server_ip6 (fn_ip a)); Some (p, 40) }
       else None);
     h \<leftarrow> fill_udphdr (drop u p) (of_nat n) 2001 dport;
     Some (take u p @ h, u) }"

definition finish_packet :: "'b tftp_state_scheme sender \<Rightarrow> 'b tftp_net \<Rightarrow> bytes \<Rightarrow> nat \<Rightarrow> 'b tftp_net option" where
  "finish_packet send_ip st p n = do {
     (_, p, st) \<leftarrow> send_ip (upd_app (t_packet_update (\<lambda>_. p)) st) p (int n);
     Some (upd_app (t_packet_update (\<lambda>_. p)) st) }"

text \<open>\<open>"octet"\<close> and \<open>"blksize"\<close> with their terminators.\<close>

definition octet :: bytes where
  "octet = [111, 99, 116, 101, 116, 0]"

definition blksize :: bytes where
  "blksize = [98, 108, 107, 115, 105, 122, 101, 0]"

definition put_string :: "bytes \<Rightarrow> nat \<Rightarrow> bytes \<Rightarrow> (bytes \<times> nat) option" where
  "put_string p i s = do {
     n \<leftarrow> strlen s;
     d \<leftarrow> rdn s 0 (unat n + 1);
     p \<leftarrow> wrn p i d;
     Some (p, i + unat n + 1) }"

definition send_rrq :: "bytes \<Rightarrow> 'b tftp_state_scheme sender \<Rightarrow> 'b tftp_net \<Rightarrow> 'b tftp_net option" where
  "send_rrq own6 send_ip st = do {
     let a = app st;
     fl \<leftarrow> strlen (fn_filename (fn_ip a));
     bl \<leftarrow> strlen (blocksize_str a);
     let n = 8 + unat fl + 5 + 4 + 7 + unat bl + 2;
     (p, u) \<leftarrow> start_packet own6 a n 69;
     p \<leftarrow> wr16 p (u + 8) 1;
     (p, i) \<leftarrow> put_string p (u + 10) (fn_filename (fn_ip a));
     (p, i) \<leftarrow> put_string p i octet;
     (p, i) \<leftarrow> put_string p i blksize;
     (p, i) \<leftarrow> put_string p i (blocksize_str a);
     finish_packet send_ip st p (u + n) }"

definition send_ack :: "bytes \<Rightarrow> 'b tftp_state_scheme sender \<Rightarrow> int \<Rightarrow> u16 \<Rightarrow> 'b tftp_net \<Rightarrow> 'b tftp_net option" where
  "send_ack own6 send_ip blckno dport st = do {
     (p, u) \<leftarrow> start_packet own6 (app st) (8 + 4) dport;
     p \<leftarrow> wr16 p (u + 8) 4;
     p \<leftarrow> wr16 p (u + 10) (word_of_int blckno);
     finish_packet send_ip st p (u + 12) }"

definition send_error :: "bytes \<Rightarrow> 'b tftp_state_scheme sender \<Rightarrow> int \<Rightarrow> u16 \<Rightarrow> 'b tftp_net \<Rightarrow> 'b tftp_net option" where
  "send_error own6 send_ip error_code dport st = do {
     (p, u) \<leftarrow> start_packet own6 (app st) (8 + 5) dport;
     p \<leftarrow> wr16 p (u + 8) 5;
     p \<leftarrow> wr16 p (u + 10) (word_of_int error_code);
     p \<leftarrow> wr8 p (u + 12) 0;
     finish_packet send_ip st p (u + 13) }"

definition print_progress :: "bool \<Rightarrow> int \<Rightarrow> 'b tftp_state_scheme \<Rightarrow> 'b tftp_state_scheme" where
  "print_progress urgent received_bytes a =
     (let a = (if s32_of (received_bytes - progress_last_bytes a) div 2 ^ 20 > 0 \<or> progress_i a AND 0x3FF = 0 \<or> urgent
               then a\<lparr>progress_i := 1, progress_first := 0, progress_last_bytes := received_bytes\<rparr> else a)
      in a\<lparr>progress_i := progress_i a + 1\<rparr>)"

partial_function (option) blksize_loop :: "bytes \<Rightarrow> int \<Rightarrow> nat \<Rightarrow> int option" where
  "blksize_loop p n pos =
     (if int pos < n
      then do {
        c \<leftarrow> memcmp (drop pos p) blksize 8;
        if c = 0
        then do { (v, _) \<leftarrow> strtoul (drop (pos + 8) p) 10; Some (v mod 65536) }
        else do {
          r \<leftarrow> strchr (drop pos p) 0;
          case r of None \<Rightarrow> Some 0
          | Some k \<Rightarrow> do {
              r \<leftarrow> strchr (drop (pos + k + 1) p) 0;
              case r of None \<Rightarrow> Some 0 | Some j \<Rightarrow> blksize_loop p n (pos + k + 1 + j + 1) } } }
      else Some 0)"

declare blksize_loop.simps [code]

definition get_blksize :: "bytes \<Rightarrow> int \<Rightarrow> int option" where
  "get_blksize p n = blksize_loop p (u32_of n) (8 + 2)"

abbreviation upd_err :: "(tftp_err \<Rightarrow> tftp_err) \<Rightarrow> 'b tftp_net \<Rightarrow> 'b tftp_net" where
  "upd_err f st \<equiv> upd_app (t_err_update f) st"

abbreviation bad_packet :: "'b tftp_net \<Rightarrow> 'b tftp_net" where
  "bad_packet st \<equiv> upd_err (bad_tftp_packets_update (\<lambda>n. n + 1)) st"

text \<open>The label \<open>error\<close>.\<close>

definition tftp_fail :: "int \<Rightarrow> 'b tftp_net \<Rightarrow> int \<times> 'b tftp_net" where
  "tftp_fail e st = (e, upd_app (\<lambda>a. a\<lparr>tftp_errno := e, tftp_finished := 1\<rparr>) st)"

definition error_errno :: "u8 \<Rightarrow> int" where
  "error_errno d = (if d = 1 then -3 else if d = 2 then -4 else if d = 4 then -5 else if d = 5 then -6 else if d = 7 then -7 else -1)"

text \<open>A \<open>DATA\<close> packet: the block number first, then the data.\<close>

definition store_block :: "bytes \<Rightarrow> 'b tftp_state_scheme sender \<Rightarrow> 'b tftp_net \<Rightarrow> bytes \<Rightarrow> bytes \<Rightarrow> u16 \<Rightarrow> u16 \<Rightarrow> (int \<times> 'b tftp_net) option" where
  "store_block own6 send_ip st buffer p num uh_ulen =
     (if s32_of (received_len (app st) + uint uh_ulen - 12) > t_len (app st) then Some (tftp_fail (-2) st)
      else do {
        d \<leftarrow> rdn p 12 (nat (u64_of (uint uh_ulen - 12)));
        b \<leftarrow> wrn buffer (nat (received_len (app st))) d;
        st \<leftarrow> send_ack own6 send_ip (uint num) (port_number (app st)) (upd_app (t_buffer_update (\<lambda>_. Some b)) st);
        let st = upd_app (received_len_update (\<lambda>r. s32_of (r + (uint uh_ulen - 12)))) st;
        if uint uh_ulen < uint (t_blocksize (app st)) + 12 then Some (0, upd_app (tftp_finished_update (\<lambda>_. 1)) st)
        else if t_block (app st) \<ge> 0xffff \<and> huge_load (app st) = 0 then Some (tftp_fail (-9) st)
        else Some (0, st) })"

definition handle_data :: "bytes \<Rightarrow> 'b tftp_state_scheme sender \<Rightarrow> 'b tftp_net \<Rightarrow> bytes \<Rightarrow> bytes \<Rightarrow> (int \<times> 'b tftp_net) option" where
  "handle_data own6 send_ip st buffer p = do {
     num \<leftarrow> rd16 p 10;
     let block = t_block (app st);
     if uint block + 1 = uint num \<or> (block = 0xffff \<and> huge_load (app st) \<noteq> 0 \<and> (num = 0 \<or> num = 1))
     then do {
       let st = upd_err (bad_tftp_packets_update (\<lambda>_. 0)) (upd_app (t_block_update (\<lambda>_. num)) st);
       uh_ulen \<leftarrow> rd16 p 4;
       store_block own6 send_ip st buffer p num uh_ulen }
     else if num = block
     then do {
       st \<leftarrow> send_ack own6 send_ip (uint num) (port_number (app st)) st;
       Some (0, bad_packet (upd_app (lost_packets_update (\<lambda>n. s32_of (n + 1))) st)) }
     else if num < block then Some (0, bad_packet st)
     else Some (tftp_fail (-42) (upd_err (\<lambda>e. e\<lparr>blocks_missed := ucast block + 1, blocks_received := ucast num\<rparr>) st)) }"

definition handle_tftp :: "bytes \<Rightarrow> 'b tftp_state_scheme sender \<Rightarrow> 'b tftp_state_scheme handler" where
  "handle_tftp own6 send_ip st p packetsize =
     (case t_buffer (app st) of None \<Rightarrow> Some (0, st)
      | Some buffer \<Rightarrow> do {
          sport \<leftarrow> rd16 p 0;
          opcode \<leftarrow> rd16 p 8;
          let st = upd_app (\<lambda>a. (print_progress False (received_len a) a)\<lparr>port_number := sport\<rparr>) st;
          if opcode = 6
          then do {
            bs \<leftarrow> get_blksize p packetsize;
            let st = upd_app (t_blocksize_update (\<lambda>_. word_of_int bs)) st;
            if t_blocksize (app st) = 0 \<or> t_blocksize (app st) > MAX_BLOCKSIZE
            then do { st \<leftarrow> send_error own6 send_ip 8 sport st; Some (tftp_fail (-8) st) }
            else do { st \<leftarrow> send_ack own6 send_ip 0 sport st; Some (0, st) } }
          else if opcode = 4
          then do { st \<leftarrow> send_ack own6 send_ip 0 sport (upd_app (t_blocksize_update (\<lambda>_. 512)) st); Some (0, st) }
          else if lo8 opcode = 5
          then do { d \<leftarrow> rd16 p 10; Some (tftp_fail (error_errno (lo8 d)) st) }
          else if opcode = 3 then handle_data own6 send_ip st buffer p
          else Some (0, bad_packet st) })"

definition handle_tftp_dun :: "u8 \<Rightarrow> 'b tftp_net \<Rightarrow> 'b tftp_net" where
  "handle_tftp_dun err_code st = upd_app (\<lambda>a. a\<lparr>tftp_errno := - uint err_code - 10, tftp_finished := 1\<rparr>) st"

definition get_timer :: "'b tftp_net \<Rightarrow> bool \<times> 'b tftp_net" where
  "get_timer st = (case t_expired (app st) of [] \<Rightarrow> (True, st) | b # r \<Rightarrow> (b, upd_app (t_expired_update (\<lambda>_. r)) st))"

text \<open>The reaction to a timeout.\<close>

definition tftp_timeout :: "bytes \<Rightarrow> 'b tftp_state_scheme sender \<Rightarrow> 'b tftp_net \<Rightarrow> 'b tftp_net option" where
  "tftp_timeout own6 send_ip st = do {
     let a = app st;
     st \<leftarrow> (if no_packets (t_err a) > 4 \<and> port_number a \<noteq> -1 \<and> t_block a > 1
       then send_ack own6 send_ip (uint (t_block a)) (port_number a) st
       else if port_number a = -1 \<and> t_block a = 0 \<and> no_packets (t_err a) AND 3 = 3 then send_rrq own6 send_ip st
       else Some st);
     Some (upd_err (no_packets_update (\<lambda>n. n + 1)) st) }"

partial_function (option) tftp_loop ::
    "bytes \<Rightarrow> 'b tftp_state_scheme sender \<Rightarrow> ('b tftp_net \<Rightarrow> (int \<times> 'b tftp_net) option) \<Rightarrow> 'b tftp_net \<Rightarrow> 'b tftp_net option" where
  "tftp_loop own6 send_ip recv_ether st =
     (if tftp_finished (app st) \<noteq> 0 then Some st
      else do {
        let (expired, st) = get_timer st;
        st \<leftarrow> (if expired then tftp_timeout own6 send_ip st else Some st);
        (_, st) \<leftarrow> recv_ether st;
        if bad_tftp_packets (t_err (app st)) > t_retries (app st) then Some (upd_app (tftp_errno_update (\<lambda>_. -40)) st)
        else if no_packets (t_err (app st)) > t_retries (app st) then Some (upd_app (tftp_errno_update (\<lambda>_. -41)) st)
        else tftp_loop own6 send_ip recv_ether st })"

declare tftp_loop.simps [code]

definition tftp_begin :: "filename_ip \<Rightarrow> bytes \<Rightarrow> int \<Rightarrow> u32 \<Rightarrow> tftp_err \<Rightarrow> bytes \<Rightarrow> 'b tftp_state_scheme \<Rightarrow> 'b tftp_state_scheme" where
  "tftp_begin fn buf n rt err bstr a =
     (print_progress True 0 (a\<lparr>t_retries := rt, fn_ip := fn, t_len := n, t_ip_version := fn_ip_version fn, tftp_errno := 0,
        t_err := err\<lparr>bad_tftp_packets := 0, no_packets := 0\<rparr>, t_block := 0, received_len := 0, tftp_finished := 0,
        lost_packets := 0, port_number := -1, progress_first := -1, progress_last_bytes := 0, huge_load := 1,
        t_blocksize := 512, blocksize_str := bstr\<rparr>))\<lparr>t_buffer := Some buf\<rparr>"

text \<open>\<open>tftp\<close> returns the number of bytes or an error number, the buffer and the state.\<close>

definition tftp :: "bytes \<Rightarrow> 'b tftp_state_scheme sender \<Rightarrow> ('b tftp_net \<Rightarrow> (int \<times> 'b tftp_net) option) \<Rightarrow>
    filename_ip \<Rightarrow> bytes \<Rightarrow> int \<Rightarrow> u32 \<Rightarrow> tftp_err \<Rightarrow> 'b tftp_net \<Rightarrow> (int \<times> bytes \<times> 'b tftp_net) option" where
  "tftp own6 send_ip recv_ether fn buf n rt err st = do {
     (_, bstr) \<leftarrow> sprintf (\<lambda>_. []) (Some (blocksize_str (app st))) (Some [37, 100, 0]) [1428];
     bstr \<leftarrow> bstr;
     st \<leftarrow> send_rrq own6 send_ip (upd_app (tftp_begin fn buf n rt err bstr) st);
     st \<leftarrow> tftp_loop own6 send_ip recv_ether st;
     buf \<leftarrow> t_buffer (app st);
     let st = upd_app (t_buffer_update (\<lambda>_. None)) st;
     if tftp_errno (app st) \<noteq> 0 then Some (tftp_errno (app st), buf, st)
     else do {
       let st = upd_app (\<lambda>a. print_progress True (received_len a) a) st;
       Some (received_len (app st), buf, st) } }"

text \<open>The message for an error number of \<open>tftp\<close>. The variables behind the pointers \<open>errstr\<close> and \<open>ecode\<close> and the static
  buffer for messages are passed and returned; an unknown number leaves them as they are.\<close>

definition c_str :: "string \<Rightarrow> bytes" where
  "c_str s = map of_char s @ [0]"

record error_info =
  ei_estrbuf :: bytes
  ei_errstr :: bytes
  ei_ecode :: int

definition fixed_info :: "int \<Rightarrow> string \<Rightarrow> int \<Rightarrow> error_info \<Rightarrow> (int \<times> error_info) option" where
  "fixed_info code s r e = Some (r, e\<lparr>ei_errstr := c_str s, ei_ecode := code\<rparr>)"

definition printed_info :: "int \<Rightarrow> (int \<times> bytes option) option \<Rightarrow> int \<Rightarrow> error_info \<Rightarrow> (int \<times> error_info) option" where
  "printed_info code printed r e = do {
     (_, b) \<leftarrow> printed;
     b \<leftarrow> b;
     Some (r, e\<lparr>ei_estrbuf := b, ei_errstr := b, ei_ecode := code\<rparr>) }"

definition icmp_err_str :: "int \<Rightarrow> bytes" where
  "icmp_err_str rc = c_str (
     if rc = -10 then ''net unreachable'' else if rc = -11 then ''host unreachable''
     else if rc = -12 then ''protocol unreachable'' else if rc = -13 then ''port unreachable''
     else if rc = -14 then ''fragmentation needed and DF set'' else if rc = -15 then ''source route failed''
     else ''UNKNOWN'')"

definition tftp_get_error_info :: "int \<Rightarrow> bytes \<Rightarrow> tftp_err \<Rightarrow> int \<Rightarrow> error_info \<Rightarrow> (int \<times> error_info) option" where
  "tftp_get_error_info n filename err rc e =
     (if rc = -1 then fixed_info 0x3003 ''unknown TFTP error'' (-103) e
      else if rc = -2 then printed_info 0x3004 (snprintf (\<lambda>_. filename) (Some (ei_estrbuf e)) 80
        (Some (c_str ''TFTP buffer of %d bytes is too small for %s'')) [word_of_int n, 0]) (-104) e
      else if rc = -3 then printed_info 0x3009 (snprintf (\<lambda>_. filename) (Some (ei_estrbuf e)) 80
        (Some (c_str ''file not found: %s'')) [0]) (-108) e
      else if rc = -4 then fixed_info 0x3010 ''TFTP access violation'' (-109) e
      else if rc = -5 then fixed_info 0x3011 ''illegal TFTP operation'' (-110) e
      else if rc = -6 then fixed_info 0x3012 ''unknown TFTP transfer ID'' (-111) e
      else if rc = -7 then fixed_info 0x3013 ''no such TFTP user'' (-112) e
      else if rc = -8 then fixed_info 0x3017 ''TFTP blocksize negotiation failed'' (-116) e
      else if rc = -9 then fixed_info 0x3018 ''file exceeds maximum TFTP transfer size'' (-117) e
      else if rc \<le> -10 \<and> rc \<ge> -15 then printed_info 0x3005 (sprintf (\<lambda>_. icmp_err_str rc) (Some (ei_estrbuf e))
        (Some (c_str (''ICMP ERROR '' @ [CHR 0x22] @ ''%s'' @ [CHR 0x22]))) [0]) (-105) e
      else if rc = -40 then printed_info 0x3014 (sprintf (\<lambda>_. []) (Some (ei_estrbuf e))
        (Some (c_str ''TFTP error occurred after %d bad packets received'')) [ucast (bad_tftp_packets err)]) (-113) e
      else if rc = -41 then printed_info 0x3015 (sprintf (\<lambda>_. []) (Some (ei_estrbuf e))
        (Some (c_str ''TFTP error occurred after missing %d responses'')) [ucast (no_packets err)]) (-114) e
      else if rc = -42 then printed_info 0x3016 (sprintf (\<lambda>_. []) (Some (ei_estrbuf e))
        (Some (c_str ''TFTP error missing block %d, expected block was %d''))
        [ucast (blocks_missed err), ucast (blocks_received err)]) (-115) e
      else Some (rc, e))"

end
