(* ===== verification/Net_Transfer.thy ===== *)
theory Net_Transfer
  imports Net_Sender Net_Tftp
begin

text \<open>What the TFTP client achieves: the transfer of a file block by block, against an abstract account of which blocks
  have arrived, through the handler and through the whole stack down to Ethernet frames; and the ways in which it
  fails.\<close>

section \<open>Packets sent\<close>

lemma start_packet_eq:
  assumes "t_ip_version a = 4" "length (t_packet a) = 256"
  shows "start_packet own6 a n dport = Some (ip_header (of_nat (20 + n)) 17 0 (fn_server_ip (fn_ip a)) @ udp_header (of_nat n) 2001 dport @ replicate 228 0, 20)"
proof -
  have "memset (t_packet a) 0 256 = Some (replicate 256 0)" using assms(2) by (simp add: memset_eq_wrn wrn_def)
  moreover have "replicate 256 (0 :: u8) = replicate 20 0 @ replicate 236 0" by (simp add: replicate_add[symmetric])
  moreover have "replicate 236 (0 :: u8) = replicate 8 0 @ replicate 228 0" by (simp add: replicate_add[symmetric])
  ultimately show ?thesis using assms(1) by (simp add: start_packet_def fill_iphdr_eq fill_udphdr_eq)
qed

definition tftp_ok :: "u32 \<Rightarrow> 'b tftp_state_scheme \<Rightarrow> bool" where
  "tftp_ok srv a \<longleftrightarrow> t_ip_version a = 4 \<and> length (t_packet a) = 256 \<and> fn_server_ip (fn_ip a) = srv"

lemma wr16_app: "length h = i \<Longrightarrow> wr16 (h @ x # y # r) i v = Some (h @ hi8 v # lo8 v # r)"
  by (simp add: wr16_def wrn_def)

lemma wr8_app: "length h = i \<Longrightarrow> wr8 (h @ x # r) i v = Some (h @ v # r)"
  by (simp add: wr8_def wrn_def)

definition ack_packet :: "u32 \<Rightarrow> u16 \<Rightarrow> u16 \<Rightarrow> bytes" where
  "ack_packet srv num dport = ip_header 32 17 0 srv @ udp_header 12 2001 dport @ [0, 4, hi8 num, lo8 num] @ replicate 224 0"

lemma hi8_lo8_small: "hi8 4 = 0" "lo8 4 = 4" "hi8 5 = 0" "lo8 5 = 5" "hi8 1 = 0" "lo8 1 = 1"
  by (simp_all add: hi8_def lo8_def)

lemma send_ack_eq:
  assumes "tftp_ok srv (app st)"
  shows "send_ack own6 send blk port st = finish_packet send st (ack_packet srv (word_of_int blk) port) 32"
proof -
  let ?h = "ip_header 32 17 0 srv @ udp_header 12 2001 port"
  have r: "replicate 228 (0 :: u8) = 0 # 0 # 0 # 0 # replicate 224 0" by (simp add: numeral_eq_Suc)
  have "start_packet own6 (app st) (8 + 4) port = Some (?h @ 0 # 0 # 0 # 0 # replicate 224 0, 20)"
    using start_packet_eq[of "app st" own6 "8 + 4" port] assms unfolding r by (simp add: tftp_ok_def)
  moreover have "wr16 (?h @ 0 # 0 # 0 # 0 # replicate 224 0) 28 4 = Some (?h @ 0 # 4 # 0 # 0 # replicate 224 0)"
    by (subst wr16_app) (simp_all add: hi8_lo8_small)
  moreover have "wr16 ((?h @ [0, 4]) @ 0 # 0 # replicate 224 0) 30 w = Some ((?h @ [0, 4]) @ hi8 w # lo8 w # replicate 224 0)" for w
    by (rule wr16_app) simp
  ultimately show ?thesis by (simp add: send_ack_def ack_packet_def)
qed

definition error_packet :: "u32 \<Rightarrow> u16 \<Rightarrow> u16 \<Rightarrow> bytes" where
  "error_packet srv code dport = ip_header 33 17 0 srv @ udp_header 13 2001 dport @ [0, 5, hi8 code, lo8 code, 0] @ replicate 223 0"

lemma send_error_eq:
  assumes "tftp_ok srv (app st)"
  shows "send_error own6 send code port st = finish_packet send st (error_packet srv (word_of_int code) port) 33"
proof -
  let ?h = "ip_header 33 17 0 srv @ udp_header 13 2001 port"
  have r: "replicate 228 (0 :: u8) = 0 # 0 # 0 # 0 # 0 # replicate 223 0" by (simp add: numeral_eq_Suc)
  have "start_packet own6 (app st) (8 + 5) port = Some (?h @ 0 # 0 # 0 # 0 # 0 # replicate 223 0, 20)"
    using start_packet_eq[of "app st" own6 "8 + 5" port] assms unfolding r by (simp add: tftp_ok_def)
  moreover have "wr16 (?h @ 0 # 0 # 0 # 0 # 0 # replicate 223 0) 28 5 = Some (?h @ 0 # 5 # 0 # 0 # 0 # replicate 223 0)"
    by (subst wr16_app) (simp_all add: hi8_lo8_small)
  moreover have "wr16 ((?h @ [0, 5]) @ 0 # 0 # 0 # replicate 223 0) 30 w = Some ((?h @ [0, 5]) @ hi8 w # lo8 w # 0 # replicate 223 0)" for w
    by (rule wr16_app) simp
  moreover have "wr8 ((?h @ [0, 5, hi8 w, lo8 w]) @ 0 # replicate 223 0) 32 0 = Some ((?h @ [0, 5, hi8 w, lo8 w]) @ 0 # replicate 223 0)" for w
    by (rule wr8_app) simp
  ultimately show ?thesis by (simp add: send_error_def error_packet_def)
qed

lemma error_packet_to: "udp_packet_to srv (error_packet srv code dport) 33" "length (error_packet srv code dport) = 256"
proof -
  show "udp_packet_to srv (error_packet srv code dport) 33"
    unfolding error_packet_def using udp_packet_headers[of 13 "[0, 5, hi8 code, lo8 code, 0] @ replicate 223 0" srv 33 2001 dport] by simp
qed (simp add: error_packet_def)

lemma ack_packet_to: "udp_packet_to srv (ack_packet srv num dport) 32" "length (ack_packet srv num dport) = 256"
proof -
  show "udp_packet_to srv (ack_packet srv num dport) 32"
    unfolding ack_packet_def using udp_packet_headers[of 12 "[0, 4, hi8 num, lo8 num] @ replicate 224 0" srv 32 2001 dport] by simp
qed (simp add: ack_packet_def)

section \<open>The transfer\<close>

text \<open>A \<open>DATA\<close> packet with block number \<open>num\<close> and contents \<open>d\<close>; the object may be longer.\<close>

definition data_packet :: "bytes \<Rightarrow> u16 \<Rightarrow> bytes \<Rightarrow> bool" where
  "data_packet p num d \<longleftrightarrow> rd16 p 8 = Some 3 \<and> rd16 p 10 = Some num \<and> rd16 p 4 = Some (of_nat (12 + length d)) \<and>
     12 + length d < 65536 \<and> 12 + length d \<le> length p \<and> take (length d) (drop 12 p) = d"

definition nblocks :: "nat \<Rightarrow> bytes \<Rightarrow> nat" where
  "nblocks bs F = length F div bs + 1"

text \<open>Block \<open>k + 1\<close> of the file.\<close>

definition file_block :: "nat \<Rightarrow> bytes \<Rightarrow> nat \<Rightarrow> bytes" where
  "file_block bs F k = take bs (drop (k * bs) F)"

text \<open>The state after \<open>k\<close> blocks of \<open>F\<close>; the buffer was \<open>buf\<close> at the start.\<close>

definition xfer :: "u32 \<Rightarrow> nat \<Rightarrow> bytes \<Rightarrow> bytes \<Rightarrow> nat \<Rightarrow> 'b tftp_state_scheme \<Rightarrow> bool" where
  "xfer srv bs F buf k a \<longleftrightarrow> tftp_ok srv a \<and> t_blocksize a = of_nat bs \<and> huge_load a \<noteq> 0 \<and> t_block a = of_nat k \<and>
     received_len a = int (length (take (k * bs) F)) \<and> t_buffer a = Some (take (k * bs) F @ drop (length (take (k * bs) F)) buf) \<and>
     int (length F) \<le> t_len a \<and> tftp_errno a = 0 \<and> tftp_finished a = (if k < nblocks bs F then 0 else 1)"

text \<open>What the handler leaves to the main loop.\<close>

definition same_loop :: "'b tftp_state_scheme \<Rightarrow> 'b tftp_state_scheme \<Rightarrow> bool" where
  "same_loop a a' \<longleftrightarrow> no_packets (t_err a') = no_packets (t_err a) \<and> t_retries a' = t_retries a \<and> t_expired a' = t_expired a \<and>
     fn_ip a' = fn_ip a \<and> blocksize_str a' = blocksize_str a"

lemma print_progress_simps [simp]:
  "t_ip_version (print_progress u r a) = t_ip_version a" "t_packet (print_progress u r a) = t_packet a" "fn_ip (print_progress u r a) = fn_ip a"
  "t_blocksize (print_progress u r a) = t_blocksize a" "huge_load (print_progress u r a) = huge_load a" "t_block (print_progress u r a) = t_block a"
  "received_len (print_progress u r a) = received_len a" "t_buffer (print_progress u r a) = t_buffer a" "t_len (print_progress u r a) = t_len a"
  "tftp_errno (print_progress u r a) = tftp_errno a" "tftp_finished (print_progress u r a) = tftp_finished a" "t_err (print_progress u r a) = t_err a"
  "t_retries (print_progress u r a) = t_retries a" "t_expired (print_progress u r a) = t_expired a" "blocksize_str (print_progress u r a) = blocksize_str a"
  by (simp_all add: print_progress_def Let_def)

lemma handle_tftp_data:
  assumes "t_buffer (app st) = Some b" "data_packet p num d"
  shows "\<exists>sport. handle_tftp own6 send st p n = handle_data own6 send (upd_app (\<lambda>a. (print_progress False (received_len a) a)\<lparr>port_number := sport\<rparr>) st) b p"
proof -
  obtain sport where "rd16 p 0 = Some sport" using assms(2) by (auto simp: data_packet_def rd16_def)
  moreover have "lo8 3 \<noteq> 5" by (simp add: lo8_def)
  ultimately show ?thesis using assms by (intro exI[of _ sport]) (simp add: handle_tftp_def data_packet_def)
qed

lemma wrn_append_at: "length zs \<le> length ys \<Longrightarrow> wrn (xs @ ys) (length xs) zs = Some (xs @ zs @ drop (length zs) ys)"
  by (simp add: wrn_def)

lemma uint_of_nat16: "n < 65536 \<Longrightarrow> uint (of_nat n :: u16) = int n"
  by (simp add: unsigned_of_nat take_bit_nat_eq_self)

lemma next_number:
  fixes k :: nat
  shows "uint (of_nat k :: u16) + 1 = uint (of_nat (k + 1) :: u16) \<or> ((of_nat k :: u16) = 0xffff \<and> (of_nat (k + 1) :: u16) = 0)"
proof (cases "(of_nat k :: u16) = 0xffff")
  case True
  then show ?thesis by simp
next
  case False
  moreover have m: "(-1 :: u16) = 0xffff" by simp
  ultimately have "(of_nat k :: u16) < 0xffff" using word_order.not_eq_extremum[of "of_nat k :: u16"] unfolding m by blast
  then have "unat (of_nat k + 1 :: u16) = Suc (unat (of_nat k :: u16))" by (rule unat_inc)
  then have "uint (of_nat k + 1 :: u16) = uint (of_nat k :: u16) + 1" by (metis of_nat_Suc of_nat_unat add.commute int_nat_eq uint_nat)
  then show ?thesis by (simp add: add.commute)
qed

lemma block_step:
  assumes k: "k < nblocks bs F" and bs: "0 < bs"
  shows "k * bs \<le> length F" "take (Suc k * bs) F = take (k * bs) F @ file_block bs F k"
    "length (file_block bs F k) < bs \<longleftrightarrow> \<not> Suc k < nblocks bs F" "length (file_block bs F k) \<le> bs"
proof -
  have "k \<le> length F div bs" using k by (simp add: nblocks_def)
  then show le: "k * bs \<le> length F" using bs by (simp add: less_eq_div_iff_mult_less_eq)
  have "Suc k * bs = k * bs + bs" by simp
  then show "take (Suc k * bs) F = take (k * bs) F @ file_block bs F k" by (simp only: file_block_def take_add)
  have "Suc k < nblocks bs F \<longleftrightarrow> Suc k * bs \<le> length F" using bs by (simp add: nblocks_def Suc_le_eq[symmetric] less_eq_div_iff_mult_less_eq)
  then show "length (file_block bs F k) < bs \<longleftrightarrow> \<not> Suc k < nblocks bs F" using le by (auto simp: file_block_def)
qed (simp add: file_block_def)

locale tftp_sender = ip_sender send srv ready
  for send :: "'b tftp_state_scheme sender" and srv ready
begin

lemma finish_ok:
  assumes "ready st" "udp_packet_to srv p n" "length p = 256"
  shows "\<exists>q st'. finish_packet send st p n = Some st' \<and> app st' = (app st)\<lparr>t_packet := q\<rparr> \<and> length q = 256 \<and> same_host st st' \<and> ready st'"
proof -
  let ?st = "upd_app (t_packet_update (\<lambda>_. p)) st"
  obtain r q st1 where s: "send ?st p (int n) = Some (r, q, st1)" "length q = 256" "app st1 = (app st)\<lparr>t_packet := p\<rparr>" "same_host st st1" "ready st1"
    using send_ok[OF ready_app[OF assms(1)] assms(2), of "(app st)\<lparr>t_packet := p\<rparr>"] assms(3) by auto
  then show ?thesis using ready_app[OF s(5)] by (intro exI[of _ q]) (simp add: finish_packet_def)
qed

lemma send_ack_ok:
  assumes "ready st" "tftp_ok srv (app st)"
  shows "\<exists>q st'. send_ack own6 send blk port st = Some st' \<and> app st' = (app st)\<lparr>t_packet := q\<rparr> \<and> length q = 256 \<and> same_host st st' \<and> ready st'"
  unfolding send_ack_eq[OF assms(2)] by (rule finish_ok[OF assms(1) ack_packet_to])

lemma send_error_ok:
  assumes "ready st" "tftp_ok srv (app st)"
  shows "\<exists>q st'. send_error own6 send code port st = Some st' \<and> app st' = (app st)\<lparr>t_packet := q\<rparr> \<and> length q = 256 \<and> same_host st st' \<and> ready st'"
  unfolding send_error_eq[OF assms(2)] by (rule finish_ok[OF assms(1) error_packet_to])

lemma store_ok:
  assumes r: "ready st" and x: "xfer srv bs F buf k ((app st)\<lparr>t_block := of_nat k\<rparr>)" "t_block (app st) = of_nat (k + 1)" and k: "k < nblocks bs F"
    and F: "0 < bs" "bs \<le> 1428" "length F \<le> length buf" "length F < 2 ^ 31"
    and p: "data_packet p num (file_block bs F k)" and b: "t_buffer (app st) = Some b"
  shows "\<exists>st'. store_block own6 send st b p num (of_nat (12 + length (file_block bs F k))) = Some (0, st') \<and>
     xfer srv bs F buf (k + 1) (app st') \<and> ready st' \<and> same_host st st' \<and> t_err (app st') = t_err (app st) \<and> same_loop (app st) (app st')"
proof -
  let ?d = "file_block bs F k" and ?t = "take (k * bs) F"
  note s = block_step[OF k F(1)]
  have f: "tftp_ok srv (app st)" "t_blocksize (app st) = of_nat bs" "huge_load (app st) \<noteq> 0" "received_len (app st) = int (length ?t)"
    "b = ?t @ drop (length ?t) buf" "int (length F) \<le> t_len (app st)" "tftp_errno (app st) = 0" "tftp_finished (app st) = 0"
    using x(1) b k by (auto simp: xfer_def tftp_ok_def)
  have len: "length (take (Suc k * bs) F) = length ?t + length ?d" unfolding s(2) by simp
  then have le: "length ?t + length ?d \<le> length F" by simp
  have ul: "uint (of_nat (12 + length ?d) :: u16) = 12 + int (length ?d)" using uint_of_nat16[of "12 + length ?d"] s(4) F(2) by simp
  have bs: "uint (of_nat bs :: u16) = int bs" using F(2) by (intro uint_of_nat16) simp
  have rl: "s32_of (int (length ?t) + int (length ?d)) = int (length ?t) + int (length ?d)"
    using le F(4) by (intro s32_of_id) simp_all
  have rd: "rdn p 12 (nat (u64_of (int (length ?d)))) = Some ?d"
    using p s(4) F(2) by (simp add: data_packet_def rdn_def u64_of_id)
  let ?b = "take (Suc k * bs) F @ drop (length (take (Suc k * bs) F)) buf"
  have "length ?d \<le> length (drop (length ?t) buf)" using le F(3) by simp
  then have wr: "wrn b (length ?t) ?d = Some ?b"
    unfolding f(5) s(2) by (simp only: wrn_append_at length_append append_assoc drop_drop) (simp add: add.commute)
  let ?st2 = "upd_app (t_buffer_update (\<lambda>_. Some ?b)) st"
  have ok2: "tftp_ok srv (app ?st2)" using f(1) by (simp add: tftp_ok_def)
  obtain q st3 where a: "send_ack own6 send (uint num) (port_number (app st)) ?st2 = Some st3" "app st3 = (app ?st2)\<lparr>t_packet := q\<rparr>" "length q = 256"
    "same_host ?st2 st3" "ready st3" using send_ack_ok[OF ready_app[OF r] ok2] by blast
  let ?a3 = "(app st)\<lparr>t_buffer := Some ?b, t_packet := q, received_len := int (length ?t) + int (length ?d)\<rparr>"
  let ?st4 = "st3\<lparr>app := if Suc k < nblocks bs F then ?a3 else ?a3\<lparr>tftp_finished := 1\<rparr>\<rparr>"
  have fin: "12 + int (length ?d) < int bs + 12 \<longleftrightarrow> \<not> Suc k < nblocks bs F" using s(3) by simp
  have e: "int (length ?t) + (12 + int (length ?d)) - 12 = int (length ?t) + int (length ?d)" "12 + int (length ?d) - 12 = int (length ?d)" by simp_all
  have "store_block own6 send st b p num (of_nat (12 + length ?d)) = Some (0, ?st4)"
    unfolding store_block_def ul f(4) e rl
    using f(2,3,6) le rd wr a(1,2) rl fin bs by (simp add: f(4) e del: length_take)
  moreover have "xfer srv bs F buf (k + 1) (app ?st4)"
    using f x(2) a(3) len by (auto simp: xfer_def tftp_ok_def)
  moreover have "ready ?st4" by (rule ready_app[OF a(5)])
  ultimately show ?thesis using a(4) by (auto simp: same_loop_def)
qed

lemma data_next:
  assumes r: "ready st" and x: "xfer srv bs F buf k (app st)" and k: "k < nblocks bs F"
    and F: "0 < bs" "bs \<le> 1428" "length F \<le> length buf" "length F < 2 ^ 31"
    and p: "data_packet p (of_nat (k + 1)) (file_block bs F k)"
  shows "\<exists>st'. handle_tftp own6 send st p n = Some (0, st') \<and> xfer srv bs F buf (k + 1) (app st') \<and> ready st' \<and> same_host st st' \<and>
     bad_tftp_packets (t_err (app st')) = 0 \<and> same_loop (app st) (app st')"
proof -
  obtain b where b: "t_buffer (app st) = Some b" using x by (auto simp: xfer_def)
  obtain sport where h: "handle_tftp own6 send st p n = handle_data own6 send (upd_app (\<lambda>a. (print_progress False (received_len a) a)\<lparr>port_number := sport\<rparr>) st) b p"
    using handle_tftp_data[OF b p] by blast
  let ?st0 = "st\<lparr>app := (print_progress False (received_len (app st)) (app st))\<lparr>port_number := sport\<rparr>\<rparr>"
  let ?st1 = "upd_err (bad_tftp_packets_update (\<lambda>_. 0)) (upd_app (t_block_update (\<lambda>_. of_nat (k + 1))) ?st0)"
  have "xfer srv bs F buf k ((app ?st1)\<lparr>t_block := of_nat k\<rparr>)" using x by (simp add: xfer_def tftp_ok_def)
  moreover have "t_block (app ?st1) = of_nat (k + 1)" "t_buffer (app ?st1) = Some b" using b by simp_all
  ultimately obtain st' where s: "store_block own6 send ?st1 b p (of_nat (k + 1)) (of_nat (12 + length (file_block bs F k))) = Some (0, st')"
     "xfer srv bs F buf (k + 1) (app st')" "ready st'" "same_host ?st1 st'" "t_err (app st') = t_err (app ?st1)" "same_loop (app ?st1) (app st')"
    using store_ok[OF _ _ _ k F p, of ?st1 b own6] ready_app[OF r] by auto
  have c: "t_block (app ?st0) = of_nat k" "rd16 p 10 = Some (of_nat (k + 1))" "rd16 p 4 = Some (of_nat (12 + length (file_block bs F k)))"
    "huge_load (app ?st0) \<noteq> 0" using x p by (simp_all add: xfer_def data_packet_def)
  have nn: "uint (of_nat k :: u16) + 1 = uint (of_nat (k + 1) :: u16) \<or>
      ((of_nat k :: u16) = 0xffff \<and> huge_load (app ?st0) \<noteq> 0 \<and> ((of_nat (k + 1) :: u16) = 0 \<or> (of_nat (k + 1) :: u16) = 1))"
    using next_number[of k] c(4) by blast
  have "handle_tftp own6 send st p n = store_block own6 send ?st1 b p (of_nat (k + 1)) (of_nat (12 + length (file_block bs F k)))"
    unfolding h handle_data_def Let_def c(1-3) Option.bind.bind_lunit using nn by (simp only: if_True)
  then show ?thesis using s by (auto simp: same_loop_def)
qed

lemma data_again:
  assumes r: "ready st" and x: "xfer srv bs F buf k (app st)" and p: "data_packet p num d"
    and num: "num = of_nat k \<or> num < of_nat k \<and> (of_nat k :: u16) \<noteq> 0xffff"
  shows "\<exists>st'. handle_tftp own6 send st p n = Some (0, st') \<and> xfer srv bs F buf k (app st') \<and> ready st' \<and> same_host st st' \<and>
     bad_tftp_packets (t_err (app st')) = bad_tftp_packets (t_err (app st)) + 1 \<and> same_loop (app st) (app st')"
proof -
  obtain b where b: "t_buffer (app st) = Some b" using x by (auto simp: xfer_def)
  obtain sport where h: "handle_tftp own6 send st p n = handle_data own6 send (upd_app (\<lambda>a. (print_progress False (received_len a) a)\<lparr>port_number := sport\<rparr>) st) b p"
    using handle_tftp_data[OF b p] by blast
  let ?st1 = "st\<lparr>app := (print_progress False (received_len (app st)) (app st))\<lparr>port_number := sport\<rparr>\<rparr>"
  have x1: "xfer srv bs F buf k (app ?st1)" "same_loop (app st) (app ?st1)" using x by (simp_all add: xfer_def tftp_ok_def same_loop_def)
  have c: "t_block (app ?st1) = of_nat k" "rd16 p 10 = Some num" using x p by (simp_all add: xfer_def data_packet_def)
  have nn: "\<not> (uint (of_nat k :: u16) + 1 = uint num \<or> ((of_nat k :: u16) = 0xffff \<and> huge_load (app ?st1) \<noteq> 0 \<and> (num = 0 \<or> num = 1)))"
    using num by (auto simp: word_less_def)
  show ?thesis
  proof (cases "num = of_nat k")
    case True
    have ok1: "tftp_ok srv (app ?st1)" using x by (simp add: xfer_def tftp_ok_def)
    obtain q st2 where a: "send_ack own6 send (uint num) (port_number (app ?st1)) ?st1 = Some st2" "app st2 = (app ?st1)\<lparr>t_packet := q\<rparr>" "length q = 256"
      "same_host ?st1 st2" "ready st2" using send_ack_ok[OF ready_app[OF r] ok1] by blast
    have "handle_tftp own6 send st p n = Some (0, bad_packet (upd_app (lost_packets_update (\<lambda>n. s32_of (n + 1))) st2))"
      unfolding h handle_data_def Let_def c Option.bind.bind_lunit using a(1) nn unfolding True by (simp only: if_False if_True Option.bind.bind_lunit refl)
    then show ?thesis using a x1 ready_app[OF a(5)] by (auto simp: xfer_def tftp_ok_def same_loop_def)
  next
    case False
    then have "handle_tftp own6 send st p n = Some (0, bad_packet ?st1)"
      unfolding h handle_data_def Let_def c Option.bind.bind_lunit using nn num by (simp only: if_False if_True simp_thms)
    then show ?thesis using x1 ready_app[OF r] by (auto simp: xfer_def tftp_ok_def same_loop_def)
  qed
qed

end

interpretation t4: tftp_sender "send_ipv4 io recv" srv "resolved srv" for io recv srv ..

section \<open>The read request\<close>

lemma put_string_ok:
  assumes "terminated s" "i + length (cstr s) + 1 \<le> length p" "length p < 2147483648"
  shows "\<exists>p'. put_string p i s = Some (p', i + length (cstr s) + 1) \<and> length p' = length p \<and> (\<forall>j<i. p' ! j = p ! j)"
proof -
  have l: "strlen s = Some (of_nat (length (cstr s)))" "unat (of_nat (length (cstr s)) :: u64) = length (cstr s)"
    using strlen_short[OF assms(1)] assms(2,3) by simp_all
  have "length (cstr s) + 1 \<le> length s" using length_cstr[OF assms(1)] by simp
  then obtain p' where p': "wrn p i (take (length (cstr s) + 1) s) = Some p'" using assms(2) by (auto simp: wrn_def)
  then show ?thesis using l wrn_length[OF p'] wrn_frame[OF p'] \<open>length (cstr s) + 1 \<le> length s\<close>
    by (simp add: put_string_def rdn_def)
qed

lemma udp_packet_cong:
  assumes "udp_packet_to dst p n" "length p' = length p" "\<And>j. j < 28 \<Longrightarrow> p' ! j = p ! j"
  shows "udp_packet_to dst p' n"
proof -
  have "28 \<le> length p" using assms(1) by (simp add: udp_packet_to_def)
  then have "rd32 p' 12 = rd32 p 12" "rd32 p' 16 = rd32 p 16" using assms(2,3) by (simp_all add: rd32_def)
  moreover have "udp_fits p'" using assms udp_fits_cong[of p p'] by (simp add: udp_packet_to_def)
  ultimately show ?thesis using assms by (simp add: udp_packet_to_def)
qed

definition rrq_ok :: "'b tftp_state_scheme \<Rightarrow> bool" where
  "rrq_ok a \<longleftrightarrow> terminated (fn_filename (fn_ip a)) \<and> length (cstr (fn_filename (fn_ip a))) \<le> 206 \<and> terminated (blocksize_str a) \<and>
     length (cstr (blocksize_str a)) = 4"

lemma rrq_packet:
  assumes ok: "tftp_ok srv a" and r: "rrq_ok a"
  shows "\<exists>p n. (\<forall>st. app st = a \<longrightarrow> send_rrq own6 send st = finish_packet send st p n) \<and> udp_packet_to srv p n \<and> length p = 256"
proof -
  let ?L = "length (cstr (fn_filename (fn_ip a)))"
  have L: "?L \<le> 206" "terminated (fn_filename (fn_ip a))" "terminated (blocksize_str a)" "length (cstr (blocksize_str a)) = 4"
    using r by (auto simp: rrq_ok_def)
  have sl: "strlen (fn_filename (fn_ip a)) = Some (of_nat ?L)" "unat (of_nat ?L :: u64) = ?L"
    "strlen (blocksize_str a) = Some (of_nat 4)"
    using strlen_short[OF L(2)] strlen_short[OF L(3)] L(1,4) by simp_all
  define p0 where "p0 = ip_header (of_nat (20 + (30 + ?L))) 17 0 srv @ udp_header (of_nat (30 + ?L)) 2001 69 @ replicate 228 0"
  have p0: "start_packet own6 a (30 + ?L) 69 = Some (p0, 20)" "length p0 = 256"
    using start_packet_eq[of a own6 "30 + ?L" 69] ok by (simp_all add: tftp_ok_def p0_def)
  have to: "udp_packet_to srv p0 (20 + (30 + ?L))" unfolding p0_def by (rule udp_packet_headers) (use L(1) in auto)
  obtain p1 where p1: "wr16 p0 28 1 = Some p1" using wr16_Some[of 28 p0] p0(2) by auto
  have l1: "length p1 = 256" "\<And>j. j < 28 \<Longrightarrow> p1 ! j = p0 ! j" using wr16_length[OF p1] wr16_frame[OF p1] p0(2) by auto
  obtain p2 where p2: "put_string p1 30 (fn_filename (fn_ip a)) = Some (p2, 31 + ?L)" "length p2 = 256" "\<And>j. j < 30 \<Longrightarrow> p2 ! j = p1 ! j"
    using put_string_ok[OF L(2), of 30 p1] l1(1) L(1) by auto
  have c: "terminated octet" "cstr octet = [111, 99, 116, 101, 116]" "terminated blksize" "cstr blksize = [98, 108, 107, 115, 105, 122, 101]"
    by (simp_all add: octet_def blksize_def cstr_def)
  obtain p3 where p3: "put_string p2 (31 + ?L) octet = Some (p3, 37 + ?L)" "length p3 = 256" "\<And>j. j < 31 + ?L \<Longrightarrow> p3 ! j = p2 ! j"
    using put_string_ok[OF c(1), of "31 + ?L" p2] p2(2) L(1) c(2) by auto
  obtain p4 where p4: "put_string p3 (37 + ?L) blksize = Some (p4, 45 + ?L)" "length p4 = 256" "\<And>j. j < 37 + ?L \<Longrightarrow> p4 ! j = p3 ! j"
    using put_string_ok[OF c(3), of "37 + ?L" p3] p3(2) L(1) c(4) by auto
  obtain p5 where p5: "put_string p4 (45 + ?L) (blocksize_str a) = Some (p5, 50 + ?L)" "length p5 = 256" "\<And>j. j < 45 + ?L \<Longrightarrow> p5 ! j = p4 ! j"
    using put_string_ok[OF L(3), of "45 + ?L" p4] p4(2) L(1,4) by auto
  have "send_rrq own6 send st = finish_packet send st p5 (50 + ?L)" if "app st = a" for st
  proof -
    have n: "8 + unat (of_nat ?L :: u64) + 5 + 4 + 7 + unat (of_nat 4 :: u64) + 2 = 30 + ?L" using sl(2) by simp
    show ?thesis unfolding send_rrq_def that Let_def sl(1,3) Option.bind.bind_lunit n p0(1)
      using p1 p2(1) p3(1) p4(1) p5(1) by simp
  qed
  moreover have "udp_packet_to srv p5 (50 + ?L)"
    using udp_packet_cong[OF to, of p5] p0(2) p5 p4(3) p3(3) p2(3) l1(2) by simp
  ultimately show ?thesis using p5(2) by blast
qed

context tftp_sender
begin

lemma send_rrq_ok:
  assumes "ready st" "tftp_ok srv (app st)" "rrq_ok (app st)"
  shows "\<exists>q st'. send_rrq own6 send st = Some st' \<and> app st' = (app st)\<lparr>t_packet := q\<rparr> \<and> length q = 256 \<and> same_host st st' \<and> ready st'"
  using rrq_packet[OF assms(2,3), of own6 send] finish_ok[OF assms(1)] by metis

lemma timeout_ok:
  assumes "ready st" "tftp_ok srv (app st)" "rrq_ok (app st)"
  shows "\<exists>q st'. tftp_timeout own6 send st = Some st' \<and>
    app st' = (app st)\<lparr>t_packet := q, t_err := (t_err (app st))\<lparr>no_packets := no_packets (t_err (app st)) + 1\<rparr>\<rparr> \<and>
    length q = 256 \<and> same_host st st' \<and> ready st'"
proof -
  let ?ack = "no_packets (t_err (app st)) > 4 \<and> port_number (app st) \<noteq> -1 \<and> t_block (app st) > 1"
    and ?rrq = "port_number (app st) = -1 \<and> t_block (app st) = 0 \<and> no_packets (t_err (app st)) AND 3 = 3"
  let ?r = "if ?ack then send_ack own6 send (uint (t_block (app st))) (port_number (app st)) st else if ?rrq then send_rrq own6 send st else Some st"
  have "\<exists>q st1. ?r = Some st1 \<and> app st1 = (app st)\<lparr>t_packet := q\<rparr> \<and> length q = 256 \<and> same_host st st1 \<and> ready st1"
  proof -
    consider "?ack" | "\<not> ?ack" "?rrq" | "\<not> ?ack" "\<not> ?rrq" by blast
    then show ?thesis
    proof cases
      case 1
      show ?thesis unfolding if_P[OF 1] by (rule send_ack_ok[OF assms(1,2)])
    next
      case 2
      show ?thesis unfolding if_not_P[OF 2(1)] if_P[OF 2(2)] by (rule send_rrq_ok[OF assms])
    next
      case 3
      show ?thesis unfolding if_not_P[OF 3(1)] if_not_P[OF 3(2)]
        using assms(1,2) by (intro exI[of _ "t_packet (app st)"] exI[of _ st]) (simp add: tftp_ok_def)
    qed
  qed
  then obtain q st1 where s: "?r = Some st1" "app st1 = (app st)\<lparr>t_packet := q\<rparr>" "length q = 256" "same_host st st1" "ready st1" by blast
  show ?thesis unfolding tftp_timeout_def Let_def s(1) Option.bind.bind_lunit using s(2-5) ready_app[OF s(5)]
    by (intro exI[of _ q] exI[of _ "upd_err (no_packets_update (\<lambda>n. n + 1)) st1"]) simp
qed

end

section \<open>Sequences of packets\<close>

text \<open>The packets of a transfer, by block number from 1: the next block, the last one again, or an older one. The result is
  the number of blocks received.\<close>

fun delivered :: "nat \<Rightarrow> nat list \<Rightarrow> nat option" where
  "delivered k [] = Some k"
| "delivered k (j # js) = (if j = k + 1 then delivered j js else if j = k \<or> j < k \<and> k < 65535 then delivered k js else None)"

fun handle_all :: "bytes \<Rightarrow> 'b tftp_state_scheme sender \<Rightarrow> 'b tftp_net \<Rightarrow> bytes list \<Rightarrow> 'b tftp_net option" where
  "handle_all own6 send st [] = Some st"
| "handle_all own6 send st (p # ps) = do { (_, st) \<leftarrow> handle_tftp own6 send st p (int (length p)); handle_all own6 send st ps }"

lemma delivered_le: "delivered k js = Some n \<Longrightarrow> k \<le> n"
  by (induction k js rule: delivered.induct) (auto split: if_splits)

lemma of_nat16_less: "j < k \<Longrightarrow> k < 65535 \<Longrightarrow> (of_nat j :: u16) < of_nat k \<and> (of_nat k :: u16) \<noteq> 0xffff"
proof -
  assume a: "j < k" "k < 65535"
  then have "uint (of_nat j :: u16) = int j" "uint (of_nat k :: u16) = int k" by (simp_all add: uint_of_nat16)
  moreover have "uint (0xffff :: u16) = 65535" by simp
  ultimately show ?thesis using a unfolding word_less_def by (metis less_irrefl of_nat_less_iff of_nat_numeral)
qed

context tftp_sender
begin

lemma handle_all_ok:
  assumes F: "0 < bs" "bs \<le> 1428" "length F \<le> length buf" "length F < 2 ^ 31"
  shows "ready st \<Longrightarrow> xfer srv bs F buf k (app st) \<Longrightarrow> delivered k js = Some n \<Longrightarrow> n \<le> nblocks bs F \<Longrightarrow>
    list_all2 (\<lambda>j p. data_packet p (of_nat j) (file_block bs F (j - 1))) js ps \<Longrightarrow>
    \<exists>st'. handle_all own6 send st ps = Some st' \<and> xfer srv bs F buf n (app st') \<and> ready st'"
proof (induction js arbitrary: st k ps)
  case Nil
  then show ?case by auto
next
  case (Cons j js)
  obtain p ps' where ps: "ps = p # ps'" "data_packet p (of_nat j) (file_block bs F (j - 1))"
    "list_all2 (\<lambda>j p. data_packet p (of_nat j) (file_block bs F (j - 1))) js ps'"
    using Cons.prems(5) by (auto simp: list_all2_Cons1)
  have "\<exists>k' st1. handle_tftp own6 send st p (int (length p)) = Some (0, st1) \<and> xfer srv bs F buf k' (app st1) \<and> ready st1 \<and> delivered k' js = Some n"
  proof (cases "j = k + 1")
    case True
    then have d: "delivered j js = Some n" using Cons.prems(3) by simp
    then have "k < nblocks bs F" using delivered_le[OF d] Cons.prems(4) True by simp
    then show ?thesis using data_next[OF Cons.prems(1,2) _ F, of p own6] ps(2) True d by fastforce
  next
    case False
    then have "j = k \<or> j < k \<and> k < 65535" "delivered k js = Some n" using Cons.prems(3) by (auto split: if_splits)
    then show ?thesis using data_again[OF Cons.prems(1,2) ps(2)] of_nat16_less[of j k] by blast
  qed
  then show ?case using Cons.IH[OF _ _ _ Cons.prems(4) ps(3)] ps(1) by fastforce
qed

end

section \<open>From Ethernet frames\<close>

text \<open>A frame for this host that carries block \<open>num\<close>, as it lies in the receive buffer.\<close>

definition tftp_frame :: "'a net \<Rightarrow> bytes \<Rightarrow> u16 \<Rightarrow> bytes \<Rightarrow> bool" where
  "tftp_frame st f num d \<longleftrightarrow> (let p = drop 14 (f @ replicate (1518 - length f) 0) in
     14 \<le> length f \<and> 34 \<le> length f \<and> length f \<le> 1518 \<and> take 6 f = own_mac st \<and> rd16 f 12 = Some 0x0800 \<and>
     (\<exists>len ident src. ip_packet p len ident 0 17 src (own_ip st) \<and> 28 \<le> len) \<and> rd16 p 22 = Some 2001 \<and> data_packet (drop 20 p) num d)"

lemma rd16_append: "i + 1 < length f \<Longrightarrow> rd16 (f @ r) i = rd16 f i"
  by (simp add: rd16_def nth_append)

lemma rd16_drop: "rd16 (drop k p) i = rd16 p (k + i)"
  by (auto simp: rd16_def)

lemma receive_tftp:
  assumes f: "tftp_frame st f num d" and rx: "rx st = Frame f # r" and host: "\<not> not_for_us st (own_ip st)" "length (own_mac st) = 6"
  shows "\<exists>p n. receive_ether up io (Suc m) st = up_tftp up (send_ipv4 io (receive_ether up io m))
      (st\<lparr>ether_packet := f @ replicate (1518 - length f) 0, rx := r\<rparr>) p n \<and> data_packet p num d"
proof -
  let ?b = "f @ replicate (1518 - length f) 0"
  define P where "P = drop 14 ?b"
  let ?st = "st\<lparr>ether_packet := ?b, rx := r\<rparr>"
  obtain len ident src where p: "34 \<le> length f" "length f \<le> 1518" "take 6 f = own_mac st" "rd16 f 12 = Some 0x0800"
    "ip_packet P len ident 0 17 src (own_ip st)" "28 \<le> len" "rd16 P 22 = Some 2001" "data_packet (drop 20 P) num d"
    using f unfolding tftp_frame_def Let_def P_def by blast
  have rp: "recv_packet st = (int (length f), ?st)" using rx p(2) by (simp add: recv_packet_def)
  have u: "memcmp ?b (own_mac st) 6 = Some 0" using memcmp_0_iff[of 6 ?b "own_mac st"] p(1,3) host(2) by simp
  obtain x1 x2 x3 where x: "memcmp ?b broadcast_mac 6 = Some x1" "memcmp ?b [1, 0, 0x5E] 3 = Some x2" "is_multicast_mac ?b = Some x3"
    using memcmp_Some[of 6 ?b broadcast_mac] memcmp_Some[of 3 ?b "[1, 0, 0x5E]"] memcmp_Some[of 2 ?b "[0x33, 0x33]"] p(1,2)
    by (auto simp: broadcast_mac_def is_multicast_mac_def)
  have ty: "rd16 ?b 12 = Some 0x0800" using rd16_append[of 12 f] p(1,4) by simp
  let ?send = "send_ipv4 io (receive_ether up io m)"
  have "receive_ether up io (Suc m) st = handle_ipv4 up ?send ?st P (int (length f) - 14)"
    using p(1) u x ty by (cases f) (simp_all add: receive_ether_body_def rp P_def)
  also have "\<dots> = dispatch_ipv4 up ?send ?st (no_sum P)"
    using handle_ipv4_accepted[OF p(5), of ?st] host(1) p(1) by (simp add: not_for_us_def)
  also have "\<dots> = handle_udp up ?send ?st (drop 20 P) (u32_of (uint len - 20))"
  proof -
    have l: "20 \<le> length P" using p(5) by (simp add: ip_packet_def)
    show ?thesis using p(5) by (simp add: dispatch_ipv4_def no_sum_fields[OF l] no_sum_drop[OF l] ip_packet_def)
  qed
  also have "\<dots> = up_tftp up ?send ?st (drop 20 P) (u32_of (uint len - 20))"
  proof -
    have "28 \<le> uint len" using p(6) by (simp add: word_le_def)
    moreover have "uint len < 65536" using uint_lt2p[of len] by simp
    ultimately have n: "u32_of (uint len - 20) = uint len - 20" by (intro u32_of_id) simp_all
    have "rd16 (drop 20 P) 2 = Some 2001" using p(7) unfolding rd16_drop by simp
    moreover obtain sport where "rd16 (drop 20 P) 0 = Some sport" using p(8) by (auto simp: rd16_def data_packet_def)
    ultimately show ?thesis using \<open>28 \<le> uint len\<close> unfolding handle_udp_def n by simp
  qed
  finally show ?thesis using p(8) by blast
qed

section \<open>The main loop\<close>

text \<open>The number of timeouts in \<open>n\<close> rounds.\<close>

fun timeouts :: "nat \<Rightarrow> bool list \<Rightarrow> nat" where
  "timeouts 0 bs = 0"
| "timeouts (Suc n) [] = Suc (timeouts n [])"
| "timeouts (Suc n) (b # bs) = (if b then 1 else 0) + timeouts n bs"

text \<open>Frames with the blocks of \<open>F\<close> from \<open>k + 1\<close> on.\<close>

fun frames :: "'a net \<Rightarrow> nat \<Rightarrow> bytes \<Rightarrow> nat \<Rightarrow> bytes list \<Rightarrow> bool" where
  "frames st bs F k [] = True"
| "frames st bs F k (f # fs) \<longleftrightarrow> tftp_frame st f (of_nat (k + 1)) (file_block bs F k) \<and> frames st bs F (k + 1) fs"

lemma frames_cong: "own_mac st' = own_mac st \<Longrightarrow> own_ip st' = own_ip st \<Longrightarrow> frames st' bs F k fs = frames st bs F k fs"
  by (induction fs arbitrary: k) (simp_all add: tftp_frame_def)

lemma round_start:
  assumes r: "resolved srv st" and x: "xfer srv bs F buf k (app st)" and q: "rrq_ok (app st)"
    and t: "unat (no_packets (t_err (app st))) + timeouts (Suc n) (t_expired (app st)) \<le> unat (t_retries (app st))"
  shows "\<exists>b st0 st1. get_timer st = (b, st0) \<and> (if b then tftp_timeout own6 (send_ipv4 io recv) st0 else Some st0) = Some st1 \<and>
    resolved srv st1 \<and> xfer srv bs F buf k (app st1) \<and> rrq_ok (app st1) \<and> same_host st st1 \<and> t_retries (app st1) = t_retries (app st) \<and>
    unat (no_packets (t_err (app st1))) + timeouts n (t_expired (app st1)) \<le> unat (t_retries (app st))"
proof -
  obtain b es where g: "get_timer st = (b, st\<lparr>app := (app st)\<lparr>t_expired := es\<rparr>\<rparr>)"
    "timeouts (Suc n) (t_expired (app st)) = (if b then 1 else 0) + timeouts n es"
  proof (cases "t_expired (app st)")
    case Nil
    have "(app st)\<lparr>t_expired := t_expired (app st)\<rparr> = app st" by simp
    then show ?thesis using that[of True "[]"] Nil by (simp add: get_timer_def)
  qed (auto simp: get_timer_def intro: that)
  let ?st = "st\<lparr>app := (app st)\<lparr>t_expired := es\<rparr>\<rparr>"
  have x0: "xfer srv bs F buf k (app ?st)" "rrq_ok (app ?st)" "tftp_ok srv (app ?st)" "resolved srv ?st"
    using x q v4.ready_app[OF r] by (simp_all add: xfer_def tftp_ok_def rrq_ok_def)
  show ?thesis
  proof (cases b)
    case True
    obtain p st1 where s: "tftp_timeout own6 (send_ipv4 io recv) ?st = Some st1"
      "app st1 = (app ?st)\<lparr>t_packet := p, t_err := (t_err (app ?st))\<lparr>no_packets := no_packets (t_err (app ?st)) + 1\<rparr>\<rparr>"
      "length p = 256" "same_host ?st st1" "resolved srv st1" using t4.timeout_ok[OF x0(4,3,2)] by blast
    have "no_packets (t_err (app st)) < t_retries (app st)" using t g(2) True by (simp add: word_less_nat_alt)
    then have "unat (no_packets (t_err (app st)) + 1) = Suc (unat (no_packets (t_err (app st))))" by (rule unat_inc)
    then have "unat (no_packets (t_err (app st1))) + timeouts n (t_expired (app st1)) \<le> unat (t_retries (app st))"
      using t g(2) True s(2) by simp
    then show ?thesis using g(1) True s x0 by (auto simp: xfer_def tftp_ok_def rrq_ok_def)
  next
    case False
    then show ?thesis using g x0 t by auto
  qed
qed

lemma tftp_loop_receives:
  fixes up :: "'b tftp_state_scheme upper"
  assumes up: "up_tftp up = handle_tftp own6" and F: "0 < bs" "bs \<le> 1428" "length F \<le> length buf" "length F < 2 ^ 31"
  shows "resolved srv st \<Longrightarrow> xfer srv bs F buf k (app st) \<Longrightarrow> rrq_ok (app st) \<Longrightarrow> \<not> not_for_us st (own_ip st) \<Longrightarrow>
    rx st = map Frame fs @ rs \<Longrightarrow> k + length fs = nblocks bs F \<Longrightarrow> frames st bs F k fs \<Longrightarrow>
    unat (no_packets (t_err (app st))) + timeouts (length fs) (t_expired (app st)) \<le> unat (t_retries (app st)) \<Longrightarrow>
    \<exists>st'. tftp_loop own6 (send_ipv4 io recv) (receive_ether up io (Suc m)) st = Some st' \<and> xfer srv bs F buf (nblocks bs F) (app st')"
proof (induction fs arbitrary: st k)
  case Nil
  then have "tftp_finished (app st) = 1" by (simp add: xfer_def)
  then show ?case using Nil by (subst tftp_loop.simps) simp
next
  case (Cons f fs)
  have k: "k < nblocks bs F" using Cons.prems(6) by simp
  then have go: "tftp_finished (app st) = 0" using Cons.prems(2) by (simp add: xfer_def)
  obtain b st0 st1 where s1: "get_timer st = (b, st0)" "(if b then tftp_timeout own6 (send_ipv4 io recv) st0 else Some st0) = Some st1"
    "resolved srv st1" "xfer srv bs F buf k (app st1)" "rrq_ok (app st1)" "same_host st st1" "t_retries (app st1) = t_retries (app st)"
    "unat (no_packets (t_err (app st1))) + timeouts (length fs) (t_expired (app st1)) \<le> unat (t_retries (app st))"
    using round_start[OF Cons.prems(1-3), of "length fs" own6 io recv] Cons.prems(8) by auto
  have fr: "tftp_frame st1 f (of_nat (k + 1)) (file_block bs F k)" using Cons.prems(7) s1(6) by (simp add: tftp_frame_def same_host_def)
  have host: "\<not> not_for_us st1 (own_ip st1)" "length (own_mac st1) = 6" "rx st1 = Frame f # map Frame fs @ rs"
    using Cons.prems(4,5) s1(3,6) by (simp_all add: not_for_us_def same_host_def resolved_def net_ok_def)
  let ?st2 = "st1\<lparr>ether_packet := f @ replicate (1518 - length f) 0, rx := map Frame fs @ rs\<rparr>"
  obtain p n where rc: "receive_ether up io (Suc m) st1 = handle_tftp own6 (send_ipv4 io (receive_ether up io m)) ?st2 p n"
    "data_packet p (of_nat (k + 1)) (file_block bs F k)" using receive_tftp[OF fr host(3,1,2), of up io m] up by auto
  have x2: "xfer srv bs F buf k (app ?st2)" "resolved srv ?st2" using s1(4) v4.ready_rx[OF s1(3)] by simp_all
  obtain st3 where s3: "handle_tftp own6 (send_ipv4 io (receive_ether up io m)) ?st2 p n = Some (0, st3)" "xfer srv bs F buf (k + 1) (app st3)"
    "resolved srv st3" "same_host ?st2 st3" "bad_tftp_packets (t_err (app st3)) = 0" "same_loop (app ?st2) (app st3)"
    using t4.data_next[OF x2(2,1) k F rc(2)] by blast
  have le: "\<not> no_packets (t_err (app st3)) > t_retries (app st3)" using s3(6) s1(7,8) by (simp add: same_loop_def word_less_nat_alt)
  have "tftp_loop own6 (send_ipv4 io recv) (receive_ether up io (Suc m)) st = tftp_loop own6 (send_ipv4 io recv) (receive_ether up io (Suc m)) st3"
    using go s1(1,2) rc(1) s3(1,5) le by (subst tftp_loop.simps) (simp del: receive_ether.simps)
  moreover have "rrq_ok (app st3)" "unat (no_packets (t_err (app st3))) + timeouts (length fs) (t_expired (app st3)) \<le> unat (t_retries (app st3))"
    using s3(6) s1(5,7,8) by (simp_all add: same_loop_def rrq_ok_def)
  moreover have "\<not> not_for_us st3 (own_ip st3)" "rx st3 = map Frame fs @ rs" "frames st3 bs F (k + 1) fs"
    using s3(4) host(1) Cons.prems(7) s1(6) by (simp_all add: same_host_def not_for_us_def frames_cong[of st3 st])
  ultimately show ?case using Cons.IH[OF s3(3,2)] Cons.prems(6) by (simp del: receive_ether.simps)
qed

section \<open>The whole download\<close>

lemma wr8_steps: "wr8 (x # b) (Suc i) v = map_option (Cons x) (wr8 b i v)"
  "wr8 (x # b) (numeral k) v = map_option (Cons x) (wr8 b (pred_numeral k) v)" "wr8 (x # b) 0 v = Some (v # b)"
  by (simp_all add: wr8_def wrn_def numeral_eq_Suc)

lemma itoa_1428: "itoa_loop [a, b, c, d, e, f] 0 4 1428 10 False = Some [49, 52, 50, 56, e, f]"
  by (simp add: itoa_loop.simps[of _ _ _ 1428] itoa_loop.simps[of _ _ _ 142] itoa_loop.simps[of _ _ _ 14] itoa_loop.simps[of _ _ _ "Suc 0"]
    rd8_def zeichen_def wr8_steps)

lemma sprintf_1428: "sprintf (\<lambda>_. []) (Some [a, b, c, d, e, f]) (Some [37, 100, 0]) [1428] = Some (4, Some [49, 52, 50, 56, 0, f])"
proof -
  have l: "print_intlen 1428 10 = Some 4" "strtoul [0] 10 = Some (0, 0)"
    by (simp_all add: print_intlen_def intlen_loop.simps strtoul_def base_prefix_def rd8_def)
  have "print_format (\<lambda>_. []) ([a, b, c, d, e, f], 0) 2147483646 [37, 100, 0] 1428 = Some ([49, 52, 50, 56, e, f], 4)"
    by (simp add: print_format_def rd8_def format_loop.simps is_conv_def print_conv_def print_number_def print_fill_def l itoa_1428 print_itoa_def s32_of_def)
  then show ?thesis by (simp add: sprintf_def vsprintf_def vsnprintf_def printf_loop.simps is_conv_def wr8_steps s32_of_def)
qed

lemma tftp_begin_xfer:
  assumes "length (t_packet a) = 256" "fn_ip_version fn = 4" "fn_server_ip fn = srv" "int (length F) \<le> len"
    and a': "a' = tftp_begin fn buf len rt err [49, 52, 50, 56, 0, x] a"
  shows "xfer srv 512 F buf 0 a'" "t_retries a' = rt" "no_packets (t_err a') = 0" "t_expired a' = t_expired a" "fn_ip a' = fn"
    "blocksize_str a' = [49, 52, 50, 56, 0, x]"
  using assms(1-4) by (simp_all add: a' xfer_def tftp_begin_def tftp_ok_def nblocks_def)

text \<open>A host with a server in its network, for the witnesses.\<close>

definition lab :: "'a \<Rightarrow> 'a net" where
  "lab a = (net_start a)\<lparr>own_ip := 0x0A000001, subnet_mask := 0xFF000000, own_mac := [2, 0, 0, 0, 0, 1], arp_producer := 1,
     arp_table := (arp_table (net_start a))[0 := \<lparr>ipv4_addr = 0x0A000002, mac_addr = [2, 0, 0, 0, 0, 2],
       eth_frame = replicate 1518 0, eth_len = 0, pkt_pending = 0\<rparr>]\<rparr>"

definition lab_file :: filename_ip where
  "lab_file = \<lparr>fn_own_ip = 0, fn_own_ip6 = [], fn_server_ip = 0x0A000002, fn_server_ip6 = [], fn_dns_ip6 = [], fn_filename = [97, 0],
     fn_pl_cfgfile = None, fn_pl_prefix = None, fn_fd = 0, fn_ip_version = 4\<rparr>"

definition lab_err :: tftp_err where
  "lab_err = \<lparr>bad_tftp_packets = 0, no_packets = 0, blocks_missed = 0, blocks_received = 0\<rparr>"

definition lab_data :: bytes where
  "lab_data = [4, 1, 7, 209, 0, 15, 0, 0, 0, 3, 0, 1, 1, 2, 3]"

definition lab_frame :: bytes where
  "lab_frame = [2, 0, 0, 0, 0, 1, 2, 0, 0, 0, 0, 2, 8, 0, 69, 0, 0, 35, 0, 0, 0, 0, 64, 17, 102, 200, 10, 0, 0, 2, 10, 0, 0, 1] @ lab_data"

lemma lab_host: "net_ok (lab a)" "\<not> not_for_us (lab a) (own_ip (lab a))" "rx (lab a) = []" "app (lab a) = a" "own_mac (lab a) = [2, 0, 0, 0, 0, 1]"
  "own_ip (lab a) = 0x0A000001"
proof -
  have "set ((arp_table (net_start a))[0 := e]) \<subseteq> insert e (set (arp_table (net_start a)))" for e by (rule set_update_subset_insert)
  then have "entry_ok x" if "x \<in> set (arp_table (lab a))" for x
    using that unfolding lab_def by (fastforce simp: net_start_def entry_ok_def)
  then show "net_ok (lab a)" by (simp add: net_ok_def) (simp add: lab_def net_start_def)
  show "\<not> not_for_us (lab a) (own_ip (lab a))" by (simp add: not_for_us_def lab_def net_start_def)
qed (simp_all add: lab_def net_start_def)

lemma lab_resolved: "resolved 0x0A000002 (lab a)"
proof -
  have t: "arp_table (lab a) ! 0 = \<lparr>ipv4_addr = 0x0A000002, mac_addr = [2, 0, 0, 0, 0, 2], eth_frame = replicate 1518 0, eth_len = 0, pkt_pending = 0\<rparr>"
    "length (arp_table (lab a)) = 10" "arp_producer (lab a) = 1" "arp_consumer (lab a) = 0"
    by (simp_all add: lab_def net_start_def)
  then have "lookup_mac_addr (lab a) 0x0A000002 = Some (Some 0)" by (simp add: lookup_mac_addr_def ring_search.simps)
  moreover have "arp_entry_at (lab a) 0 = Some (arp_table (lab a) ! 0)" using t(2) by (simp add: arp_entry_at_def)
  moreover have "memcmp [2, 0, 0, 0, 0, 2] null_mac_addr 6 = Some 2" by code_simp
  ultimately have "route (lab a) 0x0A000002 = Some (Some 0, Some [2, 0, 0, 0, 0, 2], 0x0A000002)"
    using t by (simp add: route_def) (simp add: lab_def net_start_def)
  then show ?thesis using lab_host(1) by (simp add: resolved_def)
qed

lemma lab_data_packet: "data_packet (lab_data @ r) 1 [1, 2, 3]"
proof -
  have "rd16 lab_data 8 = Some 3" "rd16 lab_data 10 = Some 1" "rd16 lab_data 4 = Some 15" "length lab_data = 15" by code_simp+
  then have "rd16 (lab_data @ r) 8 = Some 3" "rd16 (lab_data @ r) 10 = Some 1" "rd16 (lab_data @ r) 4 = Some 15" by (simp_all add: rd16_append)
  then show ?thesis by (simp add: data_packet_def) (simp add: lab_data_def)
qed

lemma ip_packet_append: "ip_packet h len ident off proto src dst \<Longrightarrow> ip_packet (h @ r) len ident off proto src dst"
proof -
  assume p: "ip_packet h len ident off proto src dst"
  then have l: "20 \<le> length h" by (simp add: ip_packet_def)
  obtain h0 c where h: "wr16 h 10 0 = Some h0" "checksum h0 10 = Some c" "rd16 h 10 = Some c" using p by (auto simp: ip_packet_def)
  have "wr16 (h @ r) 10 0 = Some (h0 @ r)" using h(1) l by (auto simp: wr16_def wrn_def)
  moreover have "checksum (h0 @ r) 10 = checksum h0 10" using wr16_length[OF h(1)] l wsum_same[of 0 10 "h0 @ r" h0] by (simp add: checksum_eq nth_append)
  ultimately show ?thesis using p h l by (simp add: ip_packet_def rd16_append) (simp add: rd8_def rd32_def nth_append)
qed

lemma lab_frame_ok: "tftp_frame (lab a) lab_frame 1 [1, 2, 3]"
proof -
  let ?ip = "[69, 0, 0, 35, 0, 0, 0, 0, 64, 17, 102, 200, 10, 0, 0, 2, 10, 0, 0, 1] :: u8 list"
  have l: "length lab_frame = 49" "take 6 lab_frame = [2, 0, 0, 0, 0, 1]" "rd16 lab_frame 12 = Some 0x0800" by code_simp+
  have d: "drop 14 (lab_frame @ r) = ?ip @ lab_data @ r" for r by (simp add: lab_frame_def)
  have "wr16 ?ip 10 0 = Some [69, 0, 0, 35, 0, 0, 0, 0, 64, 17, 0, 0, 10, 0, 0, 2, 10, 0, 0, 1]" by code_simp
  moreover have "checksum [69, 0, 0, 35, 0, 0, 0, 0, 64, 17, 0, 0, 10, 0, 0, 2, 10, 0, 0, 1] 10 = Some 0x66c8" by code_simp
  moreover have "rd16 ?ip 2 = Some 35" "rd16 ?ip 4 = Some 0" "rd16 ?ip 6 = Some 0" "rd8 ?ip 9 = Some 17" "rd32 ?ip 12 = Some 0x0A000002"
    "rd32 ?ip 16 = Some 0x0A000001" "rd16 ?ip 10 = Some 0x66c8" by code_simp+
  ultimately have ip: "ip_packet ?ip 35 0 0 17 0x0A000002 0x0A000001" by (simp add: ip_packet_def)
  have u: "rd16 (?ip @ lab_data) 22 = Some 2001" by code_simp
  have "rd16 (?ip @ lab_data @ r) 22 = Some 2001" for r using rd16_append[of 22 "?ip @ lab_data" r] u by (simp add: lab_data_def)
  moreover have "drop 20 (?ip @ lab_data @ r) = lab_data @ r" for r by simp
  moreover have "\<exists>len ident src. ip_packet (?ip @ lab_data @ r) len ident 0 17 src (own_ip (lab a)) \<and> 28 \<le> len" for r
    unfolding lab_host by (rule exI[of _ 35], rule exI[of _ 0], rule exI[of _ "0x0A000002"]) (use ip_packet_append[OF ip] in simp)
  ultimately show ?thesis unfolding tftp_frame_def Let_def d using l lab_data_packet by (simp only: lab_host) simp
qed

lemma lab_begin: "xfer 0x0A000002 512 [1, 2, 3] (replicate 9 0) 0 (tftp_begin lab_file (replicate 9 0) 9 10 lab_err [49, 52, 50, 56, 0, 0] tftp_start)"
  by (rule tftp_begin_xfer) (simp_all add: lab_file_def tftp_start_def)

text \<open>C28: The whole download: if the address of the server is resolved, the file name fits into the request, the frames
  in the queue carry the blocks of the file \<open>F\<close> in order (blocks of 512 bytes, the last one shorter, block numbers wrapping
  around after 65535) and at most \<open>retries\<close> timeouts happen, then \<open>tftp\<close>, running on the whole stack from Ethernet frames up
  to the handler, returns the length of \<open>F\<close>, and the buffer starts with exactly \<open>F\<close> and is unchanged behind it.\<close>

theorem tftp_downloads_file:
  fixes st :: "'b tftp_net"
  assumes up: "up_tftp up = handle_tftp own6" and r: "resolved (fn_server_ip fn) st" and us: "\<not> not_for_us st (own_ip st)"
    and a: "length (t_packet (app st)) = 256" "length (blocksize_str (app st)) = 6" "fn_ip_version fn = 4"
    and name: "terminated (fn_filename fn)" "length (cstr (fn_filename fn)) \<le> 206"
    and F: "length F \<le> length buf" "int (length F) \<le> len" "len < 2 ^ 31"
    and fs: "rx st = map Frame fs @ rs" "length fs = nblocks 512 F" "frames st 512 F 0 fs"
    and t: "timeouts (length fs) (t_expired (app st)) \<le> unat retries"
  shows "\<exists>st'. tftp own6 (send_ipv4 io recv) (receive_ether up io (Suc m)) fn buf len retries err st =
    Some (int (length F), F @ drop (length F) buf, st')"
proof -
  obtain c1 c2 c3 c4 c5 c6 where b: "blocksize_str (app st) = [c1, c2, c3, c4, c5, c6]"
    using a(2) by (auto simp: length_Suc_conv numeral_eq_Suc)
  let ?a = "tftp_begin fn buf len retries err [49, 52, 50, 56, 0, c6] (app st)" and ?srv = "fn_server_ip fn"
  let ?st = "st\<lparr>app := ?a\<rparr>"
  note x = tftp_begin_xfer[OF a(1,3) refl F(2) refl, of buf retries err c6]
  have q: "rrq_ok (app ?st)" using name x(5,6) by (simp add: rrq_ok_def cstr_def)
  obtain p st1 where s1: "send_rrq own6 (send_ipv4 io recv) ?st = Some st1" "app st1 = ?a\<lparr>t_packet := p\<rparr>" "length p = 256" "same_host ?st st1" "resolved ?srv st1"
    using t4.send_rrq_ok[OF v4.ready_app[OF r] _ q, of own6 io recv] x(1) by (auto simp: xfer_def)
  have x1: "xfer ?srv 512 F buf 0 (app st1)" "rrq_ok (app st1)" using x(1) q s1(2,3) by (simp_all add: xfer_def tftp_ok_def rrq_ok_def)
  have "length F < 2 ^ 31" using F(2,3) by simp
  moreover have "frames st1 512 F 0 fs" "rx st1 = map Frame fs @ rs" "\<not> not_for_us st1 (own_ip st1)"
    using fs s1(4) us frames_cong[of st1 st] by (simp_all add: same_host_def not_for_us_def)
  moreover have "unat (no_packets (t_err (app st1))) + timeouts (length fs) (t_expired (app st1)) \<le> unat (t_retries (app st1))"
    using t s1(2) x(2-4) by simp
  ultimately obtain st2 where s2: "tftp_loop own6 (send_ipv4 io recv) (receive_ether up io (Suc m)) st1 = Some st2" "xfer ?srv 512 F buf (nblocks 512 F) (app st2)"
    using tftp_loop_receives[OF up _ _ F(1) _ s1(5) x1, of fs rs io recv m] fs(2) by auto
  have "length F \<le> nblocks 512 F * 512" unfolding nblocks_def using div_mult_mod_eq[of "length F" 512] mod_less_divisor[of 512 "length F"] by simp
  then have "received_len (app st2) = int (length F)" "t_buffer (app st2) = Some (F @ drop (length F) buf)" "tftp_errno (app st2) = 0"
    using s2(2) by (simp_all add: xfer_def)
  then show ?thesis using s1(1) s2(1) b by (simp add: tftp_def sprintf_1428 del: receive_ether.simps)
qed

definition tftp_upper :: "bytes \<Rightarrow> tftp_state upper" where
  "tftp_upper own6 = \<lparr>up_dhcp = \<lambda>_ st _ _. Some (-1, st), up_dns = handle_dns, up_dhcpv6 = \<lambda>st _ _. Some (-1, st),
     up_tftp = handle_tftp own6, up_tftp_dun = handle_tftp_dun, up_ipv6 = \<lambda>st _ _. Some (-1, st)\<rparr>"

theorem tftp_downloads_file_witness:
  "\<exists>st'. tftp [] (send_ipv4 (\<lambda>_. 0) (\<lambda>_. None)) (receive_ether (tftp_upper []) (\<lambda>_. 0) (Suc 5)) lab_file (replicate 9 0) 9 10 lab_err
     ((lab tftp_start)\<lparr>ether_packet := [], rx := [Frame lab_frame]\<rparr>) = Some (3, [1, 2, 3, 0, 0, 0, 0, 0, 0], st')"
proof -
  let ?st = "(lab tftp_start)\<lparr>ether_packet := [], rx := [Frame lab_frame]\<rparr>"
  have r: "resolved (fn_server_ip lab_file) ?st" "\<not> not_for_us ?st (own_ip ?st)"
    using v4.ready_rx[OF lab_resolved] lab_host(2)[of tftp_start] by (simp_all add: lab_file_def not_for_us_def)
  have n: "nblocks 512 [1, 2, 3 :: u8] = 1" by (simp add: nblocks_def)
  have "frames ?st 512 [1, 2, 3] 0 [lab_frame]" using lab_frame_ok[of tftp_start] by (simp add: file_block_def tftp_frame_def)
  moreover have "replicate 9 (0 :: u8) = [0, 0, 0, 0, 0, 0, 0, 0, 0]" by (simp add: numeral_eq_Suc)
  ultimately show ?thesis
    using tftp_downloads_file[of "tftp_upper []" "[]" lab_file ?st "[1, 2, 3]" "replicate 9 0" 9 "[lab_frame]" "[]" 10 "\<lambda>_. 0" "\<lambda>_. None" 5 lab_err] r n
    by (simp add: tftp_upper_def lab_host cstr_def del: receive_ether.simps) (simp add: tftp_start_def lab_file_def)
qed

text \<open>C29: Packets that arrive twice or late do no harm: the handler is given packets with blocks of \<open>F\<close>, each the next block, the last
  one again, or (before block 65535) an older one. Then it never fails, and in the end the buffer holds exactly the blocks
  delivered, in order; after the last block the transfer is finished without error.\<close>

theorem tftp_ordered_delivery:
  fixes st :: "'b tftp_net"
  assumes "resolved srv st" "xfer srv bs F buf 0 (app st)" "0 < bs" "bs \<le> 1428" "length F \<le> length buf" "length F < 2 ^ 31"
    "delivered 0 js = Some n" "n \<le> nblocks bs F" "list_all2 (\<lambda>j p. data_packet p (of_nat j) (file_block bs F (j - 1))) js ps"
  shows "\<exists>st'. handle_all own6 (send_ipv4 io recv) st ps = Some st' \<and>
    t_buffer (app st') = Some (take (n * bs) F @ drop (length (take (n * bs) F)) buf) \<and>
    received_len (app st') = int (length (take (n * bs) F)) \<and> tftp_errno (app st') = 0 \<and>
    tftp_finished (app st') = (if n < nblocks bs F then 0 else 1)"
  using t4.handle_all_ok[OF assms(3-6,1,2,7-9), of own6 io recv] unfolding xfer_def by blast

theorem tftp_ordered_delivery_witness:
  "\<exists>st'. handle_all [] (send_ipv4 (\<lambda>_. 0) (\<lambda>_. None)) (lab (tftp_begin lab_file (replicate 9 0) 9 10 lab_err [49, 52, 50, 56, 0, 0] tftp_start)) [lab_data, lab_data] = Some st' \<and>
     t_buffer (app st') = Some [1, 2, 3, 0, 0, 0, 0, 0, 0] \<and> tftp_finished (app st') = 1"
proof -
  let ?st = "lab (tftp_begin lab_file (replicate 9 0) 9 10 lab_err [49, 52, 50, 56, 0, 0] tftp_start)"
  have x: "xfer 0x0A000002 512 [1, 2, 3] (replicate 9 0) 0 (app ?st)" unfolding lab_host(4) by (rule lab_begin)
  have js: "list_all2 (\<lambda>j p. data_packet p (of_nat j) (file_block 512 [1, 2, 3] (j - 1))) [1, 1] [lab_data, lab_data]"
    using lab_data_packet[of "[]"] by (simp add: file_block_def)
  have "nblocks 512 [1, 2, 3 :: u8] = 1" by (simp add: nblocks_def)
  moreover have "replicate 9 (0 :: u8) = [0, 0, 0, 0, 0, 0, 0, 0, 0]" by (simp add: numeral_eq_Suc)
  ultimately show ?thesis using tftp_ordered_delivery[OF lab_resolved x _ _ _ _ _ _ js, of 1 "[]" "\<lambda>_. 0" "\<lambda>_. None"] by auto
qed

section \<open>A silent server\<close>

definition waiting :: "u32 \<Rightarrow> bytes \<Rightarrow> 'b tftp_net \<Rightarrow> bool" where
  "waiting srv buf st \<longleftrightarrow> resolved srv st \<and> rx st = [] \<and> tftp_ok srv (app st) \<and> rrq_ok (app st) \<and> tftp_finished (app st) = 0 \<and>
     bad_tftp_packets (t_err (app st)) = 0 \<and> t_buffer (app st) = Some buf \<and> no_packets (t_err (app st)) \<le> t_retries (app st) \<and>
     t_retries (app st) < 0xffffffff"

lemma waiting_app: "waiting srv buf st \<Longrightarrow> waiting srv buf (st\<lparr>app := (app st)\<lparr>t_expired := es\<rparr>\<rparr>)"
  using v4.ready_app by (auto simp: waiting_def tftp_ok_def rrq_ok_def)

lemma silent_round:
  assumes "resolved srv st" "rx st = []"
  shows "receive_ether up io (Suc m) st = Some (0, st\<lparr>ether_packet := replicate 1518 0\<rparr>)" "resolved srv (st\<lparr>ether_packet := replicate 1518 0\<rparr>)"
proof -
  have "st\<lparr>ether_packet := replicate 1518 0, rx := []\<rparr> = st\<lparr>ether_packet := replicate 1518 0\<rparr>" using assms(2) by simp
  then show "resolved srv (st\<lparr>ether_packet := replicate 1518 0\<rparr>)" using v4.ready_rx[OF assms(1), of "[]" "replicate 1518 0"] by simp
  show "receive_ether up io (Suc m) st = Some (0, st\<lparr>ether_packet := replicate 1518 0\<rparr>)"
    using assms(2) by (simp add: receive_ether_body_def recv_packet_def)
qed

lemma waiting_ether: "waiting srv buf st \<Longrightarrow> waiting srv buf (st\<lparr>ether_packet := replicate 1518 0\<rparr>)"
  using silent_round(2) by (auto simp: waiting_def)

lemma tftp_loop_silent:
  assumes "waiting srv buf st"
  shows "\<exists>st'. tftp_loop own6 (send_ipv4 io recv) (receive_ether up io (Suc m)) st = Some st' \<and> tftp_errno (app st') = -41 \<and> t_buffer (app st') = Some buf"
  using assms
proof (induction "length (t_expired (app st)) + (unat (t_retries (app st)) - unat (no_packets (t_err (app st))))" arbitrary: st rule: less_induct)
  case less
  let ?loop = "tftp_loop own6 (send_ipv4 io recv) (receive_ether up io (Suc m))"
  have w: "resolved srv st" "rx st = []" "tftp_ok srv (app st)" "rrq_ok (app st)" "tftp_finished (app st) = 0"
    "bad_tftp_packets (t_err (app st)) = 0" "t_buffer (app st) = Some buf" "no_packets (t_err (app st)) \<le> t_retries (app st)" "t_retries (app st) < 0xffffffff"
    using less.prems by (auto simp: waiting_def)
  show ?case
  proof (cases "\<exists>es. t_expired (app st) = False # es")
    case True
    then obtain es where es: "t_expired (app st) = False # es" by blast
    let ?st = "st\<lparr>app := (app st)\<lparr>t_expired := es\<rparr>, ether_packet := replicate 1518 0\<rparr>"
    note w1 = waiting_app[OF less.prems, of es]
    have "?loop st = ?loop ?st" using w es silent_round(1)[of srv "st\<lparr>app := (app st)\<lparr>t_expired := es\<rparr>\<rparr>"] w1
      by (subst tftp_loop.simps) (auto simp: get_timer_def waiting_def simp del: receive_ether.simps)
    moreover have "waiting srv buf ?st" using waiting_ether[OF w1] by simp
    ultimately show ?thesis using less.hyps[of ?st] es by simp
  next
    case False
    then obtain es where es: "get_timer st = (True, st\<lparr>app := (app st)\<lparr>t_expired := es\<rparr>\<rparr>)" "length es \<le> length (t_expired (app st))"
    proof (cases "t_expired (app st)")
      case Nil
      have "(app st)\<lparr>t_expired := t_expired (app st)\<rparr> = app st" by simp
      then show ?thesis using that[of "[]"] Nil by (simp add: get_timer_def)
    next
      case (Cons b es)
      then show ?thesis using that[of es] False by (cases b) (simp_all add: get_timer_def)
    qed
    let ?st0 = "st\<lparr>app := (app st)\<lparr>t_expired := es\<rparr>\<rparr>"
    have w0: "waiting srv buf ?st0" by (rule waiting_app[OF less.prems])
    obtain p st1 where s1: "tftp_timeout own6 (send_ipv4 io recv) ?st0 = Some st1"
      "app st1 = (app ?st0)\<lparr>t_packet := p, t_err := (t_err (app ?st0))\<lparr>no_packets := no_packets (t_err (app ?st0)) + 1\<rparr>\<rparr>"
      "length p = 256" "same_host ?st0 st1" "resolved srv st1"
      using t4.timeout_ok[of srv ?st0 own6 io recv] w0 by (auto simp: waiting_def)
    have rx1: "rx st1 = []" using s1(4) w(2) by (simp add: same_host_def)
    let ?st2 = "st1\<lparr>ether_packet := replicate 1518 0\<rparr>"
    have "no_packets (t_err (app st)) < 0xffffffff" using w(8,9) by simp
    then have inc: "unat (no_packets (t_err (app st)) + 1) = Suc (unat (no_packets (t_err (app st))))" by (rule unat_inc)
    have step: "?loop st = (if no_packets (t_err (app st1)) > t_retries (app st1) then Some (upd_app (tftp_errno_update (\<lambda>_. -41)) ?st2) else ?loop ?st2)"
      using w es(1) s1(1,2) silent_round(1)[OF s1(5) rx1] by (subst tftp_loop.simps) (simp del: receive_ether.simps)
    show ?thesis
    proof (cases "no_packets (t_err (app st1)) > t_retries (app st1)")
      case True
      then show ?thesis using step s1(2) w(7) by simp
    next
      case False
      then have "waiting srv buf ?st2" using s1 rx1 w silent_round(2)[OF s1(5) rx1] by (simp add: waiting_def tftp_ok_def rrq_ok_def)
      moreover have "unat (no_packets (t_err (app st))) < unat (t_retries (app st))"
        using False s1(2) inc by (simp add: word_less_nat_alt not_less)
      ultimately show ?thesis using step False less.hyps[of ?st2] s1(2) inc es(2) by simp
    qed
  qed
qed



section \<open>Any packet\<close>

lemma strchr_0: "terminated s \<Longrightarrow> strchr s 0 = Some None"
  by (induction s) auto

lemma get_blksize_total:
  assumes "19 \<le> length p" "last p = 0"
  shows "\<exists>v. get_blksize p n = Some v"
proof -
  have "p \<noteq> []" using assms(1) by auto
  then have t: "terminated (drop 10 p)" "terminated (drop 18 p)" using assms last_in_set[of "drop 10 p"] last_in_set[of "drop 18 p"] by auto
  obtain c where "memcmp (drop 10 p) blksize 8 = Some c" 
    using memcmp_Some[of 8 "drop 10 p" blksize] assms(1) by (fastforce simp: blksize_def)
  then show ?thesis using strchr_0[OF t(1)] strtoul_total[OF t(2)] unfolding get_blksize_def
    by (subst blksize_loop.simps) auto
qed

definition tftp_safe :: "u32 \<Rightarrow> 'b tftp_state_scheme \<Rightarrow> bool" where
  "tftp_safe srv a \<longleftrightarrow> tftp_ok srv a \<and> (\<forall>b. t_buffer a = Some b \<longrightarrow>
     0 \<le> received_len a \<and> received_len a \<le> t_len a \<and> t_len a \<le> int (length b) \<and> t_len a < 2 ^ 31 - 2 ^ 16)"

text \<open>The packet is zero at its end, as the receive buffer is behind every frame that does not fill it, and the UDP length
  of a \<open>DATA\<close> packet lies inside the packet.\<close>

definition packet_sane :: "bytes \<Rightarrow> bool" where
  "packet_sane p \<longleftrightarrow> 19 \<le> length p \<and> last p = 0 \<and> (rd16 p 8 = Some 3 \<longrightarrow> 12 \<le> word_at p 4 \<and> word_at p 4 \<le> length p)"

context tftp_sender
begin

lemma received_len_upd: "received_len_update f a = a\<lparr>received_len := f (received_len a)\<rparr>" for a :: "'b tftp_state_scheme"
  by (cases a) simp

lemma store_safe:
  assumes r: "ready st" and s: "tftp_safe srv (app st)" and b: "t_buffer (app st) = Some b" and u: "12 \<le> unat ul" "unat ul \<le> length p"
  shows "\<exists>q st'. store_block own6 send st b p num ul = Some (q, st') \<and> tftp_safe srv (app st') \<and> ready st'"
proof (cases "s32_of (received_len (app st) + uint ul - 12) > t_len (app st)")
  case True
  then show ?thesis using s ready_app[OF r] by (auto simp: store_block_def tftp_fail_def tftp_safe_def tftp_ok_def)
next
  case False
  let ?n = "unat ul - 12" and ?r = "received_len (app st)"
  have i: "0 \<le> ?r" "?r \<le> t_len (app st)" "t_len (app st) \<le> int (length b)" "t_len (app st) < 2147418112" "tftp_ok srv (app st)"
    using s b by (auto simp: tftp_safe_def)
  have ui: "uint ul = int (unat ul)" by simp
  have l: "uint ul - 12 = int ?n" "unat ul < 65536" using u(1) unsigned_less[of ul, where ?'a = nat] unfolding ui by simp_all
  have e: "?r + uint ul - 12 = ?r + int ?n" using l(1) by linarith
  have sl: "s32_of (?r + int ?n) = ?r + int ?n" using i l(2) by (intro s32_of_id) linarith+
  have fit: "?r + int ?n \<le> t_len (app st)" using False unfolding e sl by simp
  have rd: "rdn p 12 (nat (u64_of (int ?n))) = Some (take ?n (drop 12 p))"
  proof -
    have "u64_of (int ?n) = int ?n" using l(2) by (intro u64_of_id) linarith+
    then show ?thesis using u by (simp only: nat_int) (simp add: rdn_def)
  qed
  obtain b' where w: "wrn b (nat ?r) (take ?n (drop 12 p)) = Some b'" "length b' = length b"
  proof -
    have "length (take ?n (drop 12 p)) = ?n" using u by simp
    moreover have "int (nat ?r) + int ?n \<le> int (length b)" unfolding int_nat_eq using fit i(1,3) by presburger
    ultimately have "nat ?r + length (take ?n (drop 12 p)) \<le> length b" by linarith
    then obtain b' where "wrn b (nat ?r) (take ?n (drop 12 p)) = Some b'" by (auto simp: wrn_def)
    then show ?thesis using that wrn_length by blast
  qed
  let ?st2 = "upd_app (t_buffer_update (\<lambda>_. Some b')) st"
  have ok2: "tftp_ok srv (app ?st2)" using i(5) by (simp add: tftp_ok_def)
  obtain q st3 where a: "send_ack own6 send (uint num) (port_number (app st)) ?st2 = Some st3" "app st3 = (app ?st2)\<lparr>t_packet := q\<rparr>" "length q = 256" "ready st3"
    using send_ack_ok[OF ready_app[OF r] ok2] by blast
  let ?a = "(app st)\<lparr>t_buffer := Some b', t_packet := q, received_len := ?r + int ?n\<rparr>"
  have "tftp_safe srv ?a" using i fit w(2) a(3) by (simp add: tftp_safe_def tftp_ok_def)
  then have inv: "tftp_safe srv (?a\<lparr>tftp_finished := f\<rparr>)" "tftp_safe srv (?a\<lparr>tftp_errno := e, tftp_finished := f\<rparr>)" "tftp_safe srv ?a" for e f
    by (simp_all add: tftp_safe_def tftp_ok_def)
  have upd: "received_len_update (\<lambda>r. s32_of (r + int ?n)) ((app st)\<lparr>t_buffer := Some b', t_packet := q\<rparr>) = ?a"
    using received_len_upd[of "\<lambda>r. s32_of (r + int ?n)"] sl by simp
  have "\<exists>r a'. store_block own6 send st b p num ul = Some (r, st3\<lparr>app := a'\<rparr>) \<and> tftp_safe srv a'"
    using False rd w(1) a(1,2) sl inv unfolding store_block_def e l(1) by (auto simp: tftp_fail_def upd Let_def)
  then show ?thesis using ready_app[OF a(4)] by fastforce
qed

lemma data_safe:
  assumes r: "ready st" and s: "tftp_safe srv (app st)" and b: "t_buffer (app st) = Some b" and u: "19 \<le> length p" "12 \<le> word_at p 4" "word_at p 4 \<le> length p"
  shows "\<exists>q st'. handle_data own6 send st b p = Some (q, st') \<and> tftp_safe srv (app st') \<and> ready st'"
proof -
  obtain num ul where h: "rd16 p 10 = Some num" "rd16 p 4 = Some ul" "word_at p 4 = unat ul" using u(1) by (simp add: rd16_def word_at_def)
  let ?s = "upd_err (bad_tftp_packets_update (\<lambda>_. 0)) (upd_app (t_block_update (\<lambda>_. num)) st)"
  have "tftp_safe srv (app ?s)" "t_buffer (app ?s) = Some b" "ready ?s" using s b ready_app[OF r] by (simp_all add: tftp_safe_def tftp_ok_def)
  note st = store_safe[OF this(3,1,2), of ul p own6 num]
  have ok: "tftp_ok srv (app st)" using s by (simp add: tftp_safe_def)
  obtain q st1 where a: "send_ack own6 send (uint num) (port_number (app st)) st = Some st1" "app st1 = (app st)\<lparr>t_packet := q\<rparr>" "length q = 256" "ready st1"
    using send_ack_ok[OF r ok] by blast
  have "tftp_safe srv (app (bad_packet (upd_app (lost_packets_update g) st1)))" "tftp_safe srv (app (bad_packet st))"
    "tftp_safe srv (app (snd (tftp_fail e (upd_err f st))))" for e f g
    using s a(2,3) by (simp_all add: tftp_safe_def tftp_ok_def tftp_fail_def)
  moreover have "ready (st\<lparr>app := x\<rparr>)" "ready (st1\<lparr>app := x\<rparr>)" for x using ready_app r a(4) by blast+
  ultimately show ?thesis using st h u a(1) unfolding handle_data_def by (auto simp: Let_def tftp_fail_def)
qed

lemma handler_safe:
  assumes r: "ready st" and s: "tftp_safe srv (app st)" and p: "packet_sane p"
  shows "\<exists>q st'. handle_tftp own6 send st p n = Some (q, st') \<and> tftp_safe srv (app st') \<and> ready st'"
proof (cases "t_buffer (app st)")
  case None
  then show ?thesis using r s by (simp add: handle_tftp_def)
next
  case (Some b)
  have lp: "19 \<le> length p" "last p = 0" using p by (simp_all add: packet_sane_def)
  obtain sport op num where h: "rd16 p 0 = Some sport" "rd16 p 8 = Some op" "rd16 p 10 = Some num" using lp(1) by (simp add: rd16_def)
  let ?st = "st\<lparr>app := (print_progress False (received_len (app st)) (app st))\<lparr>port_number := sport\<rparr>\<rparr>"
  have s0: "tftp_safe srv (app ?st)" "ready ?st" "t_buffer (app ?st) = Some b" using s Some ready_app[OF r] by (simp_all add: tftp_safe_def tftp_ok_def)
  have frame: "tftp_safe srv (a\<lparr>t_packet := q\<rparr>)" if "tftp_safe srv a" "length q = 256" for a :: "'b tftp_state_scheme" and q
    using that by (simp add: tftp_safe_def tftp_ok_def)
  have bs: "tftp_safe srv (app (upd_app (t_blocksize_update (\<lambda>_. w)) ?st))" "ready (upd_app (t_blocksize_update (\<lambda>_. w)) ?st)" for w
    using s0(1) ready_app[OF r] by (simp_all add: tftp_safe_def tftp_ok_def)
  have fail: "tftp_safe srv (app (snd (tftp_fail e st1)))" "ready (snd (tftp_fail e st1))" if "tftp_safe srv (app st1)" "ready st1" for e st1
    using that ready_app[OF that(2)] by (simp_all add: tftp_fail_def tftp_safe_def tftp_ok_def)
  have bad: "tftp_safe srv (app (upd_err f (upd_app (lost_packets_update g) st1)))" "tftp_safe srv (app (upd_err f st1))" if "tftp_safe srv (app st1)" for f g st1
    using that by (simp_all add: tftp_safe_def tftp_ok_def)
  consider "op = 6" | "op = 4" | "op \<noteq> 6" "op \<noteq> 4" "lo8 op = 5" | "op = 3" | "op \<noteq> 6" "op \<noteq> 4" "lo8 op \<noteq> 5" "op \<noteq> 3" by blast
  then show ?thesis
  proof cases
    case 1
    obtain v where v: "get_blksize p n = Some v" using get_blksize_total[OF lp] by blast
    let ?s = "upd_app (t_blocksize_update (\<lambda>_. word_of_int v)) ?st"
    have ok: "tftp_ok srv (app ?s)" using bs(1) by (simp add: tftp_safe_def)
    obtain q1 st1 where e1: "send_error own6 send 8 sport ?s = Some st1" "app st1 = (app ?s)\<lparr>t_packet := q1\<rparr>" "length q1 = 256" "ready st1"
      using send_error_ok[OF bs(2) ok] by blast
    obtain q2 st2 where e2: "send_ack own6 send 0 sport ?s = Some st2" "app st2 = (app ?s)\<lparr>t_packet := q2\<rparr>" "length q2 = 256" "ready st2"
      using send_ack_ok[OF bs(2) ok] by blast
    have i1: "tftp_safe srv (app st1)" unfolding e1(2) by (rule frame[OF bs(1) e1(3)])
    have i2: "tftp_safe srv (app st2)" unfolding e2(2) by (rule frame[OF bs(1) e2(3)])
    have "handle_tftp own6 send st p n = (if t_blocksize (app ?s) = 0 \<or> t_blocksize (app ?s) > 1428 then Some (tftp_fail (-8) st1) else Some (0, st2))"
      using Some h 1 v e1(1) e2(1) by (simp add: handle_tftp_def)
    then show ?thesis using i2 e2(4) fail[OF i1 e1(4), of "-8"] by (cases "tftp_fail (-8) st1") auto
  next
    case 2
    let ?s = "upd_app (t_blocksize_update (\<lambda>_. 512)) ?st"
    have ok: "tftp_ok srv (app ?s)" using bs(1) by (simp add: tftp_safe_def)
    obtain q2 st2 where e2: "send_ack own6 send 0 sport ?s = Some st2" "app st2 = (app ?s)\<lparr>t_packet := q2\<rparr>" "length q2 = 256" "ready st2"
      using send_ack_ok[OF bs(2) ok] by blast
    have "tftp_safe srv (app st2)" unfolding e2(2) by (rule frame[OF bs(1) e2(3)])
    then show ?thesis using Some h 2 e2(1,4) by (simp add: handle_tftp_def)
  next
    case 3
    then have "handle_tftp own6 send st p n = Some (tftp_fail (error_errno (lo8 num)) ?st)" using Some h by (simp add: handle_tftp_def)
    then show ?thesis using fail[OF s0(1,2), of "error_errno (lo8 num)"] by (cases "tftp_fail (error_errno (lo8 num)) ?st") auto
  next
    case 4
    then have e: "handle_tftp own6 send st p n = handle_data own6 send ?st b p" using Some h by (simp add: handle_tftp_def lo8_def)
    show ?thesis unfolding e by (rule data_safe[OF s0(2,1,3)]) (use p h 4 in \<open>simp_all add: packet_sane_def\<close>)
  next
    case 5
    then have "handle_tftp own6 send st p n = Some (0, bad_packet ?st)" using Some h by (simp add: handle_tftp_def)
    then show ?thesis using bad(2)[OF s0(1)] ready_app[OF r] by simp
  qed
qed

end



section \<open>Failures\<close>

text \<open>The options of an \<open>OACK\<close> are understood only if \<open>blksize\<close> comes first: \<open>strchr\<close> of this C library never finds the terminator,
  so after any other option \<open>get_blksize\<close> gives up, and the handler answers with an error packet and ends the transfer with
  error -8, even if the server has accepted the block size.\<close>

theorem oack_option_order:
  fixes st :: "'b tftp_net"
  assumes r: "resolved srv st" and ok: "tftp_ok srv (app st)" "t_buffer (app st) \<noteq> None"
    and p: "rd16 p 8 = Some 6" "memcmp (drop 10 p) blksize 8 = Some c" "c \<noteq> 0" "terminated (drop 10 p)" "10 < n" "n < 65536"
  shows "\<exists>st'. handle_tftp own6 (send_ipv4 io recv) st p n = Some (-8, st') \<and> tftp_finished (app st') = 1 \<and> tftp_errno (app st') = -8"
proof -
  have g: "get_blksize p n = Some 0" using p strchr_0[OF p(4)] unfolding get_blksize_def
    by (subst blksize_loop.simps) (simp add: u32_of_id)
  obtain b sport where s: "t_buffer (app st) = Some b" "rd16 p 0 = Some sport" using ok(2) p(1) by (auto simp: rd16_def split: if_splits)
  let ?st1 = "st\<lparr>app := (print_progress False (received_len (app st)) (app st))\<lparr>port_number := sport, t_blocksize := 0\<rparr>\<rparr>"
  have ok1: "tftp_ok srv (app ?st1)" using ok(1) by (simp add: tftp_ok_def)
  obtain q st2 where e: "send_error own6 (send_ipv4 io recv) 8 sport ?st1 = Some st2" "app st2 = (app ?st1)\<lparr>t_packet := q\<rparr>"
    using t4.send_error_ok[OF v4.ready_app[OF r] ok1] by blast
  have "handle_tftp own6 (send_ipv4 io recv) st p n = Some (tftp_fail (-8) st2)"
    using s p(1) g e(1) by (simp add: handle_tftp_def)
  then show ?thesis by (simp add: tftp_fail_def)
qed

theorem oack_option_order_witness:
  "\<exists>st'. handle_tftp [] (send_ipv4 (\<lambda>_. 0) (\<lambda>_. None)) (lab (tftp_begin lab_file (replicate 9 0) 9 10 lab_err [49, 52, 50, 56, 0, 0] tftp_start))
     [4, 1, 7, 209, 0, 31, 0, 0, 0, 6, 116, 115, 105, 122, 101, 0, 51, 0, 98, 108, 107, 115, 105, 122, 101, 0, 53, 49, 50, 0] 30 = Some (-8, st')"
proof -
  let ?a = "tftp_begin lab_file (replicate 9 0) 9 10 lab_err [49, 52, 50, 56, 0, 0] tftp_start"
  let ?p = "[4, 1, 7, 209, 0, 31, 0, 0, 0, 6, 116, 115, 105, 122, 101, 0, 51, 0, 98, 108, 107, 115, 105, 122, 101, 0, 53, 49, 50, 0] :: bytes"
  have "tftp_ok 0x0A000002 (app (lab ?a))" "t_buffer (app (lab ?a)) \<noteq> None" using lab_begin unfolding lab_host(4) by (simp_all add: xfer_def)
  moreover have "rd16 ?p 8 = Some 6" "memcmp (drop 10 ?p) blksize 8 = Some 18" by code_simp+
  ultimately show ?thesis using oack_option_order[OF lab_resolved, of ?a ?p 18 30 "[]" "\<lambda>_. 0" "\<lambda>_. None"] by auto
qed

text \<open>A \<open>DATA\<close> packet whose UDP length is below 12 makes the handler copy with a negative length, which \<open>memcpy\<close> takes as a huge
  one: the access leaves the packet.\<close>

theorem tftp_short_data:
  assumes "t_buffer (app st) \<noteq> None" "rd16 p 8 = Some 3" "rd16 p 10 = Some (t_block (app st) + 1)" "t_block (app st) \<noteq> 0xffff"
    "rd16 p 4 = Some ulen" "ulen < 12" "length p < 2 ^ 32" "0 \<le> received_len (app st)" "received_len (app st) \<le> t_len (app st)" "t_len (app st) < 2 ^ 31"
  shows "handle_tftp own6 send st p n = None"
proof -
  obtain b sport where s: "t_buffer (app st) = Some b" "rd16 p 0 = Some sport" using assms(1,2) by (auto simp: rd16_def split: if_splits)
  have m: "(-1 :: u16) = 0xffff" by simp
  have "t_block (app st) < 0xffff" using word_order.not_eq_extremum[of "t_block (app st)"] assms(4) unfolding m by blast
  from unat_inc[OF this] have num: "uint (t_block (app st)) + 1 = uint (t_block (app st) + 1)" by (metis of_nat_Suc of_nat_unat add.commute)
  have u: "0 \<le> uint ulen" "uint ulen < 12" using assms(6) by (simp_all add: word_less_def)
  then have "u64_of (uint ulen - 12) = uint ulen - 12 + 18446744073709551616" by (intro u64_of_neg) simp_all
  then have "18446744073709551604 \<le> nat (u64_of (uint ulen - 12))" using u by linarith
  moreover have "length p < 4294967296" using assms(7) by simp
  ultimately have rd: "rdn p 12 (nat (u64_of (uint ulen - 12))) = None" by (simp add: rdn_def)
  have "\<not> s32_of (received_len (app st) + uint ulen - 12) > t_len (app st)"
    using u assms(8-10) s32_of_id[of "received_len (app st) + uint ulen - 12"] by simp
  then show ?thesis using s assms(2,3,5) num rd by (simp add: handle_tftp_def handle_data_def store_block_def lo8_def)
qed

theorem tftp_short_data_witness:
  "handle_tftp [] (\<lambda>st p n. None) (lab (tftp_begin lab_file (replicate 9 0) 9 10 lab_err [49, 52, 50, 56, 0, 0] tftp_start)) [4, 1, 7, 209, 0, 11, 0, 0, 0, 3, 0, 1] 12 = None"
proof -
  let ?p = "[4, 1, 7, 209, 0, 11, 0, 0, 0, 3, 0, 1] :: bytes"
  have p: "rd16 ?p 8 = Some 3" "rd16 ?p 10 = Some 1" "rd16 ?p 4 = Some 11" by code_simp+
  show ?thesis by (rule tftp_short_data[of _ _ 11]) (simp_all add: lab_host p tftp_begin_def)
qed

text \<open>After the block number has wrapped around, a repeated packet of the block before aborts the transfer: the handler takes block
  65535 for one from the future and ends with error -42.\<close>

theorem tftp_wrap_duplicate:
  assumes "t_buffer (app st) \<noteq> None" "t_block (app st) = 0" "data_packet p 0xffff d"
  shows "\<exists>st'. handle_tftp own6 send st p n = Some (-42, st') \<and> tftp_finished (app st') = 1 \<and> tftp_errno (app st') = -42"
proof -
  obtain b where b: "t_buffer (app st) = Some b" using assms(1) by blast
  obtain sport where "handle_tftp own6 send st p n =
      handle_data own6 send (upd_app (\<lambda>a. (print_progress False (received_len a) a)\<lparr>port_number := sport\<rparr>) st) b p"
    using handle_tftp_data[OF b assms(3)] by blast
  then show ?thesis using assms(2,3) by (simp add: handle_data_def data_packet_def tftp_fail_def)
qed

theorem tftp_wrap_duplicate_witness:
  "\<exists>st'. handle_tftp [] (\<lambda>st p n. None) (lab (tftp_start\<lparr>t_buffer := Some [1], received_len := 1\<rparr>)) [4, 1, 7, 209, 0, 12, 0, 0, 0, 3, 255, 255] 12 = Some (-42, st')"
proof -
  let ?p = "[4, 1, 7, 209, 0, 12, 0, 0, 0, 3, 255, 255] :: bytes"
  have "rd16 ?p 8 = Some 3" "rd16 ?p 10 = Some 0xffff" "rd16 ?p 4 = Some 12" by code_simp+
  then have "data_packet ?p 0xffff []" by (simp add: data_packet_def)
  then show ?thesis using tftp_wrap_duplicate[of "lab (tftp_start\<lparr>t_buffer := Some [1], received_len := 1\<rparr>)" ?p "[]"]
    by (fastforce simp: lab_host tftp_start_def)
qed

end
