(* ===== verification/Elf.thy ===== *)
theory Elf
  imports Libc_String
begin

text \<open>The ELF loader (\<open>src/lib/libelf\<close>). The file and the places its segments are loaded to are parts of one memory,
  a list of bytes from address 0 on; an address is a 64-bit word, and an access beyond the memory is \<open>None\<close>. Structure
  fields are read from memory each time the code reads them, since loading may overwrite them. The functions called
  before and after a segment is loaded are arguments that pass a state of their own: in the firmware the first is the
  Forth word \<open>elf-claim-segment\<close>, the second flushes the cache.\<close>

section \<open>Memory\<close>

definition ld8 :: "bytes \<Rightarrow> u64 \<Rightarrow> u8 option" where
  "ld8 m a = rd8 m (unat a)"

definition ld16 :: "bytes \<Rightarrow> u64 \<Rightarrow> u16 option" where
  "ld16 m a = rd16 m (unat a)"

definition ld32 :: "bytes \<Rightarrow> u64 \<Rightarrow> u32 option" where
  "ld32 m a = rd32 m (unat a)"

definition ld64 :: "bytes \<Rightarrow> u64 \<Rightarrow> u64 option" where
  "ld64 m a = do { h \<leftarrow> rd32 m (unat a); l \<leftarrow> rd32 m (unat a + 4); Some (cat64 h l) }"

definition st16 :: "bytes \<Rightarrow> u64 \<Rightarrow> u16 \<Rightarrow> bytes option" where
  "st16 m a v = wr16 m (unat a) v"

definition st32 :: "bytes \<Rightarrow> u64 \<Rightarrow> u32 \<Rightarrow> bytes option" where
  "st32 m a v = wr32 m (unat a) v"

definition st64 :: "bytes \<Rightarrow> u64 \<Rightarrow> u64 \<Rightarrow> bytes option" where
  "st64 m a v = wrn m (unat a) (be32 (hi32 v) @ be32 (lo32 v))"

definition set_bytes :: "bytes \<Rightarrow> u64 \<Rightarrow> int \<Rightarrow> nat \<Rightarrow> bytes option" where
  "set_bytes m a c n = map_option (\<lambda>d. take (unat a) m @ d) (memset (drop (unat a) m) c n)"

definition bswap_16 :: "u16 \<Rightarrow> u16" where
  "bswap_16 v = cat16 (lo8 v) (hi8 v)"

definition bswap_32 :: "u32 \<Rightarrow> u32" where
  "bswap_32 v = cat32 (bswap_16 (lo16 v)) (bswap_16 (hi16 v))"

definition bswap_64 :: "u64 \<Rightarrow> u64" where
  "bswap_64 v = cat64 (bswap_32 (lo32 v)) (bswap_32 (hi32 v))"

definition bswap_16p :: "bytes \<Rightarrow> u64 \<Rightarrow> bytes option" where
  "bswap_16p m a = do { v \<leftarrow> ld16 m a; st16 m a (bswap_16 v) }"

definition bswap_32p :: "bytes \<Rightarrow> u64 \<Rightarrow> bytes option" where
  "bswap_32p m a = do { v \<leftarrow> ld32 m a; st32 m a (bswap_32 v) }"

definition bswap_64p :: "bytes \<Rightarrow> u64 \<Rightarrow> bytes option" where
  "bswap_64p m a = do { v \<leftarrow> ld64 m a; st64 m a (bswap_64 v) }"

type_synonym 's pre_load = "(u64 \<Rightarrow> u64 \<Rightarrow> 's \<Rightarrow> int \<times> 's) option"
type_synonym 's post_load = "(u64 \<Rightarrow> u64 \<Rightarrow> 's \<Rightarrow> 's) option"

definition run_pre :: "'s pre_load \<Rightarrow> u64 \<Rightarrow> u64 \<Rightarrow> 's \<Rightarrow> bool \<times> 's" where
  "run_pre pre dest n s = (case pre of None \<Rightarrow> (True, s) | Some f \<Rightarrow> let (r, s) = f dest n s in (r = 0, s))"

definition run_post :: "'s post_load \<Rightarrow> u64 \<Rightarrow> u64 \<Rightarrow> 's \<Rightarrow> 's" where
  "run_post post dest n s = (case post of None \<Rightarrow> s | Some f \<Rightarrow> if n \<noteq> 0 then f dest n s else s)"

section \<open>32-bit files\<close>

text \<open>Offsets in \<open>struct ehdr32\<close>: type 16, machine 18, version 20, entry 24, phoff 28, shoff 32, flags 36, ehsize 40,
  phentsize 42, phnum 44, shentsize 46, shnum 48, shstrndx 50. In \<open>struct phdr32\<close>: type 0, offset 4, vaddr 8, paddr 12, filesz
  16, memsz 20, flags 24, align 28. In \<open>struct shdr32\<close>: offset 16, size 20.\<close>

definition get_phdr32 :: "bytes \<Rightarrow> u64 \<Rightarrow> u64 option" where
  "get_phdr32 m file_addr = do { o_ph \<leftarrow> ld32 m (file_addr + 28); Some (file_addr + ucast o_ph) }"

definition load_segment :: "u64 \<Rightarrow> u64 \<Rightarrow> u64 \<Rightarrow> 's pre_load \<Rightarrow> 's post_load \<Rightarrow> bytes \<times> 's \<Rightarrow> (bytes \<times> 's) option" where
  "load_segment file_addr phdr off pre post ms = do {
     let (m, s) = ms;
     p_offset \<leftarrow> ld32 m (phdr + 4);
     let src = ucast p_offset + file_addr;
     p_paddr \<leftarrow> ld32 m (phdr + 12);
     let destaddr = ucast p_paddr + off;
     p_memsz \<leftarrow> ld32 m (phdr + 20);
     let (allowed, s) = run_pre pre destaddr (ucast p_memsz) s;
     if \<not> allowed then Some (m, s)
     else do {
       p_filesz \<leftarrow> ld32 m (phdr + 16);
       m \<leftarrow> memmove m (unat destaddr) (unat src) (unat p_filesz);
       p_filesz \<leftarrow> ld32 m (phdr + 16);
       p_memsz \<leftarrow> ld32 m (phdr + 20);
       m \<leftarrow> set_bytes m (destaddr + ucast p_filesz) 0 (unat (p_memsz - p_filesz));
       p_memsz \<leftarrow> ld32 m (phdr + 20);
       Some (m, run_post post destaddr (ucast p_memsz) s) } }"

function load_loop32 :: "u64 \<Rightarrow> u64 \<Rightarrow> 's pre_load \<Rightarrow> 's post_load \<Rightarrow> nat \<Rightarrow> u64 \<Rightarrow> bytes \<times> 's \<Rightarrow> (bool \<times> bytes \<times> 's) option" where
  "load_loop32 file_addr off pre post i phdr ms =
     Option.bind (ld16 (fst ms) (file_addr + 44)) (\<lambda>e_phnum.
       if i \<le> unat e_phnum
       then Option.bind (ld32 (fst ms) phdr) (\<lambda>p_type.
         Option.bind (if p_type = 1
           then do {
             p_paddr \<leftarrow> ld32 (fst ms) (phdr + 12);
             p_vaddr \<leftarrow> ld32 (fst ms) (phdr + 8);
             if p_paddr \<noteq> p_vaddr then Some (False, ms)
             else map_option (Pair True) (load_segment file_addr phdr off pre post ms) }
           else Some (True, ms)) (\<lambda>r.
         if fst r
         then Option.bind (ld16 (fst (snd r)) (file_addr + 42)) (\<lambda>e_phentsize.
           load_loop32 file_addr off pre post (i + 1) (phdr + ucast e_phentsize) (snd r))
         else Some r))
       else Some (True, ms))"
  by pat_completeness auto
termination
proof (relation "measure (\<lambda>(_, _, _, _, i, _, _). 65536 - i)", goal_cases)
  case 1
  show ?case by simp
next
  case (2 file_addr off pre post i phdr ms e_phnum)
  then show ?case using unsigned_less[of e_phnum, where 'a=nat] by simp
qed

declare load_loop32.simps [simp del]

definition elf_load_segments32 :: "u64 \<Rightarrow> u64 \<Rightarrow> 's pre_load \<Rightarrow> 's post_load \<Rightarrow> bytes \<times> 's \<Rightarrow> (u32 \<times> bytes \<times> 's) option" where
  "elf_load_segments32 file_addr off pre post ms = do {
     phdr \<leftarrow> get_phdr32 (fst ms) file_addr;
     (ok, ms) \<leftarrow> load_loop32 file_addr off pre post 0 phdr ms;
     if \<not> ok then Some (0, ms)
     else do { e_entry \<leftarrow> ld32 (fst ms) (file_addr + 24); Some (e_entry, ms) } }"

text \<open>The loop of \<open>elf_get_base_addr32\<close>; memory does not change, so the number of headers still to be seen is the argument.\<close>

fun base_loop32 :: "bytes \<Rightarrow> u64 \<Rightarrow> nat \<Rightarrow> u64 \<Rightarrow> u32 option" where
  "base_loop32 m file_addr 0 phdr = Some 0"
| "base_loop32 m file_addr (Suc n) phdr = do {
     p_type \<leftarrow> ld32 m phdr;
     if p_type = 1 then ld32 m (phdr + 12)
     else do { e_phentsize \<leftarrow> ld16 m (file_addr + 42); base_loop32 m file_addr n (phdr + ucast e_phentsize) } }"

definition elf_get_base_addr32 :: "bytes \<Rightarrow> u64 \<Rightarrow> u64 option" where
  "elf_get_base_addr32 m file_addr = do {
     phdr \<leftarrow> get_phdr32 m file_addr;
     e_phnum \<leftarrow> ld16 m (file_addr + 44);
     r \<leftarrow> base_loop32 m file_addr (unat e_phnum + 1) phdr;
     Some (ucast r) }"

definition elf_get_eflags_32 :: "bytes \<Rightarrow> u64 \<Rightarrow> u32 option" where
  "elf_get_eflags_32 m file_addr = ld32 m (file_addr + 36)"

definition swap_phdr32 :: "bytes \<Rightarrow> u64 \<Rightarrow> bytes option" where
  "swap_phdr32 m phdr = do {
     m \<leftarrow> bswap_32p m phdr;
     m \<leftarrow> bswap_32p m (phdr + 4);
     m \<leftarrow> bswap_32p m (phdr + 8);
     m \<leftarrow> bswap_32p m (phdr + 12);
     m \<leftarrow> bswap_32p m (phdr + 16);
     m \<leftarrow> bswap_32p m (phdr + 20);
     m \<leftarrow> bswap_32p m (phdr + 24);
     bswap_32p m (phdr + 28) }"

function swap_loop32 :: "u64 \<Rightarrow> nat \<Rightarrow> u64 \<Rightarrow> bytes \<Rightarrow> bytes option" where
  "swap_loop32 file_addr i phdr m =
     Option.bind (ld16 m (file_addr + 44)) (\<lambda>e_phnum.
       if i \<le> unat e_phnum
       then Option.bind (swap_phdr32 m phdr) (\<lambda>m.
         Option.bind (ld16 m (file_addr + 42)) (\<lambda>e_phentsize. swap_loop32 file_addr (i + 1) (phdr + ucast e_phentsize) m))
       else Some m)"
  by pat_completeness auto
termination
proof (relation "measure (\<lambda>(_, i, _, _). 65536 - i)", goal_cases)
  case 1
  show ?case by simp
next
  case (2 file_addr i phdr m e_phnum)
  then show ?case using unsigned_less[of e_phnum, where 'a=nat] by simp
qed

declare swap_loop32.simps [simp del]

definition swap_ehdr32 :: "bytes \<Rightarrow> u64 \<Rightarrow> bytes option" where
  "swap_ehdr32 m file_addr = do {
     m \<leftarrow> bswap_16p m (file_addr + 16);
     m \<leftarrow> bswap_16p m (file_addr + 18);
     m \<leftarrow> bswap_32p m (file_addr + 20);
     m \<leftarrow> bswap_32p m (file_addr + 24);
     m \<leftarrow> bswap_32p m (file_addr + 28);
     m \<leftarrow> bswap_32p m (file_addr + 32);
     m \<leftarrow> bswap_32p m (file_addr + 36);
     m \<leftarrow> bswap_16p m (file_addr + 40);
     m \<leftarrow> bswap_16p m (file_addr + 42);
     m \<leftarrow> bswap_16p m (file_addr + 44);
     m \<leftarrow> bswap_16p m (file_addr + 46);
     m \<leftarrow> bswap_16p m (file_addr + 48);
     bswap_16p m (file_addr + 50) }"

definition elf_byteswap_header32 :: "bytes \<Rightarrow> u64 \<Rightarrow> bytes option" where
  "elf_byteswap_header32 m file_addr = do {
     m \<leftarrow> swap_ehdr32 m file_addr;
     phdr \<leftarrow> get_phdr32 m file_addr;
     swap_loop32 file_addr 0 phdr m }"

text \<open>\<open>elf16_to_cpu\<close>, \<open>elf32_to_cpu\<close> and \<open>elf64_to_cpu\<close>: fields of an image in the byte order its header names.\<close>

definition elf16_to_cpu :: "bytes \<Rightarrow> u64 \<Rightarrow> u16 \<Rightarrow> u16 option" where
  "elf16_to_cpu m ehdr x = do { d \<leftarrow> ld8 m (ehdr + 5); Some (if d = 2 then x else bswap_16 x) }"

definition elf32_to_cpu :: "bytes \<Rightarrow> u64 \<Rightarrow> u32 \<Rightarrow> u32 option" where
  "elf32_to_cpu m ehdr x = do { d \<leftarrow> ld8 m (ehdr + 5); Some (if d = 2 then x else bswap_32 x) }"

definition elf64_to_cpu :: "bytes \<Rightarrow> u64 \<Rightarrow> u64 \<Rightarrow> u64 option" where
  "elf64_to_cpu m ehdr x = do { d \<leftarrow> ld8 m (ehdr + 5); Some (if d = 2 then x else bswap_64 x) }"

text \<open>The loop over headers of \<open>elf_get_file_size32\<close>: offset and size of the extent are at \<open>fo\<close> and \<open>fs\<close> in a header. The sum has 32
  bits. The outer \<open>None\<close> is an access outside memory, the inner one the result -1.\<close>

fun extent_loop32 :: "bytes \<Rightarrow> u64 \<Rightarrow> u64 \<Rightarrow> u16 \<Rightarrow> u64 \<Rightarrow> u64 \<Rightarrow> nat \<Rightarrow> u64 \<Rightarrow> u64 \<Rightarrow> u64 option option" where
  "extent_loop32 m ehdr buffer_end entsize fo fs 0 hdr elf_size = Some (Some elf_size)"
| "extent_loop32 m ehdr buffer_end entsize fo fs (Suc n) hdr elf_size =
     (if hdr + ucast entsize > buffer_end then Some None
      else do {
        x \<leftarrow> ld32 m (hdr + fo);
        x \<leftarrow> elf32_to_cpu m ehdr x;
        y \<leftarrow> ld32 m (hdr + fs);
        y \<leftarrow> elf32_to_cpu m ehdr y;
        extent_loop32 m ehdr buffer_end entsize fo fs n (hdr + ucast entsize) (max (ucast (x + y)) elf_size) })"

definition round_up4 :: "u64 \<Rightarrow> u64" where
  "round_up4 x = ((x + 3) div 4) * 4"

definition elf_get_file_size32 :: "bytes \<Rightarrow> u64 \<Rightarrow> u64 \<Rightarrow> int option" where
  "elf_get_file_size32 m buffer buffer_size =
     (if buffer_size < 24 then Some (-1)
      else do {
        e_ehsize \<leftarrow> ld16 m (buffer + 40);
        if e_ehsize \<noteq> 52 then Some (-1)
        else do {
          phoff \<leftarrow> ld32 m (buffer + 28);
          phoff \<leftarrow> elf32_to_cpu m buffer phoff;
          entsize \<leftarrow> ld16 m (buffer + 42);
          entsize \<leftarrow> elf16_to_cpu m buffer entsize;
          n \<leftarrow> ld16 m (buffer + 44);
          n \<leftarrow> elf16_to_cpu m buffer n;
          r \<leftarrow> extent_loop32 m buffer (buffer + buffer_size) entsize 4 16 (unat n) (buffer + ucast phoff) 0;
          case r of None \<Rightarrow> Some (-1)
          | Some elf_size \<Rightarrow> do {
              shoff \<leftarrow> ld32 m (buffer + 32);
              shoff \<leftarrow> elf32_to_cpu m buffer shoff;
              entsize \<leftarrow> ld16 m (buffer + 46);
              entsize \<leftarrow> elf16_to_cpu m buffer entsize;
              n \<leftarrow> ld16 m (buffer + 48);
              n \<leftarrow> elf16_to_cpu m buffer n;
              r \<leftarrow> extent_loop32 m buffer (buffer + buffer_size) entsize 16 20 (unat n) (buffer + ucast shoff) elf_size;
              case r of None \<Rightarrow> Some (-1)
              | Some elf_size \<Rightarrow>
                  if round_up4 elf_size > buffer_size then Some (-1) else Some (sint (round_up4 elf_size)) } } })"

section \<open>64-bit files\<close>

text \<open>Offsets in \<open>struct ehdr64\<close>: type 16, machine 18, version 20, entry 24, phoff 32, shoff 40, flags 48, ehsize 52,
  phentsize 54, phnum 56, shentsize 58, shnum 60, shstrndx 62. In \<open>struct phdr64\<close>: type 0, flags 4, offset 8, vaddr 16, paddr
  24, filesz 32, memsz 40, align 48. In \<open>struct shdr64\<close>, of 64 bytes: type 4, flags 8, offset 24, size 32, link 40, info 44,
  entsize 56. In \<open>struct rela\<close>: offset 0, info 8, addend 16. In \<open>struct sym64\<close>, of 24 bytes: value 8.\<close>

definition get_phdr64 :: "bytes \<Rightarrow> u64 \<Rightarrow> u64 option" where
  "get_phdr64 m file_addr = do { o_ph \<leftarrow> ld64 m (file_addr + 32); Some (file_addr + o_ph) }"

definition load_segment64 :: "u64 \<Rightarrow> u64 \<Rightarrow> u64 \<Rightarrow> 's pre_load \<Rightarrow> 's post_load \<Rightarrow> bytes \<times> 's \<Rightarrow> (bytes \<times> 's) option" where
  "load_segment64 file_addr phdr off pre post ms = do {
     let (m, s) = ms;
     p_offset \<leftarrow> ld64 m (phdr + 8);
     let src = p_offset + file_addr;
     p_paddr \<leftarrow> ld64 m (phdr + 24);
     let destaddr = p_paddr + off;
     p_memsz \<leftarrow> ld64 m (phdr + 40);
     let (allowed, s) = run_pre pre destaddr p_memsz s;
     if \<not> allowed then Some (m, s)
     else do {
       p_filesz \<leftarrow> ld64 m (phdr + 32);
       m \<leftarrow> memmove m (unat destaddr) (unat src) (unat p_filesz);
       p_filesz \<leftarrow> ld64 m (phdr + 32);
       p_memsz \<leftarrow> ld64 m (phdr + 40);
       m \<leftarrow> set_bytes m (destaddr + p_filesz) 0 (unat (p_memsz - p_filesz));
       p_memsz \<leftarrow> ld64 m (phdr + 40);
       Some (m, run_post post destaddr p_memsz s) } }"

function load_loop64 :: "u64 \<Rightarrow> u64 \<Rightarrow> 's pre_load \<Rightarrow> 's post_load \<Rightarrow> nat \<Rightarrow> u64 \<Rightarrow> bytes \<times> 's \<Rightarrow> (bool \<times> bytes \<times> 's) option" where
  "load_loop64 file_addr off pre post i phdr ms =
     Option.bind (ld16 (fst ms) (file_addr + 56)) (\<lambda>e_phnum.
       if i \<le> unat e_phnum
       then Option.bind (ld32 (fst ms) phdr) (\<lambda>p_type.
         Option.bind (if p_type = 1
           then do {
             p_paddr \<leftarrow> ld64 (fst ms) (phdr + 24);
             p_vaddr \<leftarrow> ld64 (fst ms) (phdr + 16);
             if p_paddr \<noteq> p_vaddr then Some (False, ms)
             else map_option (Pair True) (load_segment64 file_addr phdr off pre post ms) }
           else Some (True, ms)) (\<lambda>r.
         if fst r
         then Option.bind (ld16 (fst (snd r)) (file_addr + 54)) (\<lambda>e_phentsize.
           load_loop64 file_addr off pre post (i + 1) (phdr + ucast e_phentsize) (snd r))
         else Some r))
       else Some (True, ms))"
  by pat_completeness auto
termination
proof (relation "measure (\<lambda>(_, _, _, _, i, _, _). 65536 - i)", goal_cases)
  case 1
  show ?case by simp
next
  case (2 file_addr off pre post i phdr ms e_phnum)
  then show ?case using unsigned_less[of e_phnum, where 'a=nat] by simp
qed

declare load_loop64.simps [simp del]

definition elf_load_segments64 :: "u64 \<Rightarrow> u64 \<Rightarrow> 's pre_load \<Rightarrow> 's post_load \<Rightarrow> bytes \<times> 's \<Rightarrow> (u64 \<times> bytes \<times> 's) option" where
  "elf_load_segments64 file_addr off pre post ms = do {
     phdr \<leftarrow> get_phdr64 (fst ms) file_addr;
     (ok, ms) \<leftarrow> load_loop64 file_addr off pre post 0 phdr ms;
     if \<not> ok then Some (0, ms)
     else do { e_entry \<leftarrow> ld64 (fst ms) (file_addr + 24); Some (e_entry, ms) } }"

fun base_loop64 :: "bytes \<Rightarrow> u64 \<Rightarrow> nat \<Rightarrow> u64 \<Rightarrow> u64 option" where
  "base_loop64 m file_addr 0 phdr = Some 0"
| "base_loop64 m file_addr (Suc n) phdr = do {
     p_type \<leftarrow> ld32 m phdr;
     if p_type = 1 then ld64 m (phdr + 24)
     else do { e_phentsize \<leftarrow> ld16 m (file_addr + 54); base_loop64 m file_addr n (phdr + ucast e_phentsize) } }"

definition elf_get_base_addr64 :: "bytes \<Rightarrow> u64 \<Rightarrow> u64 option" where
  "elf_get_base_addr64 m file_addr = do {
     phdr \<leftarrow> get_phdr64 m file_addr;
     e_phnum \<leftarrow> ld16 m (file_addr + 56);
     base_loop64 m file_addr (unat e_phnum + 1) phdr }"

text \<open>One relocation. The types that are ignored and the unknown types, for which a message is printed, leave the memory
  as it is.\<close>

definition elf_apply_rela64 :: "u64 \<Rightarrow> u64 \<Rightarrow> u64 \<Rightarrow> u64 \<Rightarrow> bytes \<Rightarrow> bytes option" where
  "elf_apply_rela64 file_addr off relaentry symtabentry m = do {
     base_addr \<leftarrow> elf_get_base_addr64 m file_addr;
     r_offset \<leftarrow> ld64 m relaentry;
     if r_offset < base_addr then Some m
     else do {
       let addr = r_offset + off;
       st_value \<leftarrow> ld64 m (symtabentry + 8);
       r_addend \<leftarrow> ld64 m (relaentry + 16);
       let s_a = st_value + off + r_addend;
       r_info \<leftarrow> ld64 m (relaentry + 8);
       let r_type = (ucast r_info :: u32);
       if r_type = 1 then st32 m addr (ucast s_a)
       else if r_type = 38 then st64 m addr s_a
       else if r_type = 51 then do { v \<leftarrow> ld64 m addr; st64 m addr (v + off) }
       else if r_type = 41 then st16 m addr (ucast (drop_bit 48 s_a))
       else if r_type = 39 then st16 m addr (ucast (drop_bit 32 s_a))
       else if r_type = 5 then st16 m addr (ucast (drop_bit 16 s_a))
       else if r_type = 4 then st16 m addr (ucast s_a)
       else if r_type = 57 then st16 m addr (ucast (s_a AND 0xfffc))
       else if r_type = 6 then st16 m addr (ucast (drop_bit 16 s_a + (if s_a AND 0x8000 \<noteq> 0 then 1 else 0)))
       else Some m } }"

text \<open>The loop over the entries of a relocation section need not end: \<open>i\<close> has 32 bits, and the entry size may be 0.\<close>

partial_function (option) rela_loop :: "u64 \<Rightarrow> u64 \<Rightarrow> u64 \<Rightarrow> u64 \<Rightarrow> u32 \<Rightarrow> bytes \<Rightarrow> bytes option" where
  "rela_loop file_addr off rela_shdr sym_shdr i m = do {
     sh_size \<leftarrow> ld64 m (rela_shdr + 32);
     if ucast i < sh_size
     then do {
       sh_offset \<leftarrow> ld64 m (rela_shdr + 24);
       let relaentry = file_addr + sh_offset + ucast i;
       r_info \<leftarrow> ld64 m (relaentry + 8);
       let symbolidx = hi32 r_info;
       sym_offset \<leftarrow> ld64 m (sym_shdr + 24);
       m \<leftarrow> elf_apply_rela64 file_addr off relaentry (file_addr + sym_offset + ucast symbolidx * 24) m;
       sh_entsize \<leftarrow> ld64 m (rela_shdr + 56);
       rela_loop file_addr off rela_shdr sym_shdr (ucast (ucast i + sh_entsize)) m }
     else Some m }"

declare rela_loop.simps [code]

definition elf_apply_all_rela64 :: "u64 \<Rightarrow> u64 \<Rightarrow> u64 \<Rightarrow> nat \<Rightarrow> bytes \<Rightarrow> bytes option" where
  "elf_apply_all_rela64 file_addr off shdrs idx m = do {
     let rela_shdr = shdrs + of_nat idx * 64;
     sh_info \<leftarrow> ld32 m (rela_shdr + 44);
     let dst_shdr = shdrs + ucast sh_info * 64;
     sh_link \<leftarrow> ld32 m (rela_shdr + 40);
     let sym_shdr = shdrs + ucast sh_link * 64;
     sh_flags \<leftarrow> ld64 m (dst_shdr + 8);
     if sh_flags AND 2 \<noteq> 2 then Some m
     else rela_loop file_addr off rela_shdr sym_shdr 0 m }"

function relocate_loop :: "u64 \<Rightarrow> u64 \<Rightarrow> u64 \<Rightarrow> nat \<Rightarrow> bytes \<Rightarrow> bytes option" where
  "relocate_loop file_addr off shdrs i m =
     Option.bind (ld16 m (file_addr + 60)) (\<lambda>e_shnum.
       if i \<le> unat e_shnum
       then Option.bind (ld32 m (shdrs + of_nat i * 64 + 4)) (\<lambda>sh_type.
         Option.bind (if sh_type = 4 then elf_apply_all_rela64 file_addr off shdrs i m else Some m) (\<lambda>m.
           relocate_loop file_addr off shdrs (i + 1) m))
       else Some m)"
  by pat_completeness auto
termination
proof (relation "measure (\<lambda>(_, _, _, i, _). 65536 - i)", goal_cases)
  case 1
  show ?case by simp
next
  case (2 file_addr off shdrs i m e_shnum)
  then show ?case using unsigned_less[of e_shnum, where 'a=nat] by simp
qed

declare relocate_loop.simps [simp del]

definition elf_relocate64 :: "u64 \<Rightarrow> u64 \<Rightarrow> bytes \<Rightarrow> bytes option" where
  "elf_relocate64 file_addr off m = do {
     e_shoff \<leftarrow> ld64 m (file_addr + 40);
     relocate_loop file_addr off (file_addr + e_shoff) 0 m }"

definition swap_phdr64 :: "bytes \<Rightarrow> u64 \<Rightarrow> bytes option" where
  "swap_phdr64 m phdr = do {
     m \<leftarrow> bswap_32p m phdr;
     m \<leftarrow> bswap_32p m (phdr + 4);
     m \<leftarrow> bswap_64p m (phdr + 8);
     m \<leftarrow> bswap_64p m (phdr + 16);
     m \<leftarrow> bswap_64p m (phdr + 24);
     m \<leftarrow> bswap_64p m (phdr + 32);
     m \<leftarrow> bswap_64p m (phdr + 40);
     bswap_64p m (phdr + 48) }"

function swap_loop64 :: "u64 \<Rightarrow> nat \<Rightarrow> u64 \<Rightarrow> bytes \<Rightarrow> bytes option" where
  "swap_loop64 file_addr i phdr m =
     Option.bind (ld16 m (file_addr + 56)) (\<lambda>e_phnum.
       if i \<le> unat e_phnum
       then Option.bind (swap_phdr64 m phdr) (\<lambda>m.
         Option.bind (ld16 m (file_addr + 54)) (\<lambda>e_phentsize. swap_loop64 file_addr (i + 1) (phdr + ucast e_phentsize) m))
       else Some m)"
  by pat_completeness auto
termination
proof (relation "measure (\<lambda>(_, i, _, _). 65536 - i)", goal_cases)
  case 1
  show ?case by simp
next
  case (2 file_addr i phdr m e_phnum)
  then show ?case using unsigned_less[of e_phnum, where 'a=nat] by simp
qed

declare swap_loop64.simps [simp del]

definition swap_ehdr64 :: "bytes \<Rightarrow> u64 \<Rightarrow> bytes option" where
  "swap_ehdr64 m file_addr = do {
     m \<leftarrow> bswap_16p m (file_addr + 16);
     m \<leftarrow> bswap_16p m (file_addr + 18);
     m \<leftarrow> bswap_32p m (file_addr + 20);
     m \<leftarrow> bswap_64p m (file_addr + 24);
     m \<leftarrow> bswap_64p m (file_addr + 32);
     m \<leftarrow> bswap_64p m (file_addr + 40);
     m \<leftarrow> bswap_32p m (file_addr + 48);
     m \<leftarrow> bswap_16p m (file_addr + 52);
     m \<leftarrow> bswap_16p m (file_addr + 54);
     m \<leftarrow> bswap_16p m (file_addr + 56);
     m \<leftarrow> bswap_16p m (file_addr + 58);
     m \<leftarrow> bswap_16p m (file_addr + 60);
     bswap_16p m (file_addr + 62) }"

definition elf_byteswap_header64 :: "bytes \<Rightarrow> u64 \<Rightarrow> bytes option" where
  "elf_byteswap_header64 m file_addr = do {
     m \<leftarrow> swap_ehdr64 m file_addr;
     phdr \<leftarrow> get_phdr64 m file_addr;
     swap_loop64 file_addr 0 phdr m }"

definition elf_get_eflags_64 :: "bytes \<Rightarrow> u64 \<Rightarrow> u32 option" where
  "elf_get_eflags_64 m file_addr = ld32 m (file_addr + 48)"

fun extent_loop64 :: "bytes \<Rightarrow> u64 \<Rightarrow> u64 \<Rightarrow> u16 \<Rightarrow> u64 \<Rightarrow> u64 \<Rightarrow> nat \<Rightarrow> u64 \<Rightarrow> u64 \<Rightarrow> u64 option option" where
  "extent_loop64 m ehdr buffer_end entsize fo fs 0 hdr elf_size = Some (Some elf_size)"
| "extent_loop64 m ehdr buffer_end entsize fo fs (Suc n) hdr elf_size =
     (if hdr + ucast entsize > buffer_end then Some None
      else do {
        x \<leftarrow> ld64 m (hdr + fo);
        x \<leftarrow> elf64_to_cpu m ehdr x;
        y \<leftarrow> ld64 m (hdr + fs);
        y \<leftarrow> elf64_to_cpu m ehdr y;
        extent_loop64 m ehdr buffer_end entsize fo fs n (hdr + ucast entsize) (max (x + y) elf_size) })"

definition elf_get_file_size64 :: "bytes \<Rightarrow> u64 \<Rightarrow> u64 \<Rightarrow> int option" where
  "elf_get_file_size64 m buffer buffer_size =
     (if buffer_size < 24 then Some (-1)
      else do {
        e_ehsize \<leftarrow> ld16 m (buffer + 52);
        if e_ehsize \<noteq> 64 then Some (-1)
        else do {
          phoff \<leftarrow> ld64 m (buffer + 32);
          phoff \<leftarrow> elf64_to_cpu m buffer phoff;
          entsize \<leftarrow> ld16 m (buffer + 54);
          entsize \<leftarrow> elf16_to_cpu m buffer entsize;
          n \<leftarrow> ld16 m (buffer + 56);
          n \<leftarrow> elf16_to_cpu m buffer n;
          r \<leftarrow> extent_loop64 m buffer (buffer + buffer_size) entsize 8 32 (unat n) (buffer + phoff) 0;
          case r of None \<Rightarrow> Some (-1)
          | Some elf_size \<Rightarrow> do {
              shoff \<leftarrow> ld64 m (buffer + 40);
              shoff \<leftarrow> elf64_to_cpu m buffer shoff;
              entsize \<leftarrow> ld16 m (buffer + 58);
              entsize \<leftarrow> elf16_to_cpu m buffer entsize;
              n \<leftarrow> ld16 m (buffer + 60);
              n \<leftarrow> elf16_to_cpu m buffer n;
              r \<leftarrow> extent_loop64 m buffer (buffer + buffer_size) entsize 24 32 (unat n) (buffer + shoff) elf_size;
              case r of None \<Rightarrow> Some (-1)
              | Some elf_size \<Rightarrow>
                  if round_up4 elf_size > buffer_size then Some (-1) else Some (sint (round_up4 elf_size)) } } })"

section \<open>Files of either class\<close>

definition elf_check_file :: "bytes \<Rightarrow> u64 \<Rightarrow> (int \<times> bytes) option" where
  "elf_check_file m file_addr = do {
     ei_ident \<leftarrow> ld32 m file_addr;
     if ei_ident \<noteq> 0x7f454c46 then Some (-1, m)
     else do {
       ei_data \<leftarrow> ld8 m (file_addr + 5);
       m \<leftarrow> (if 2 \<noteq> ei_data
         then do {
           ei_class \<leftarrow> ld8 m (file_addr + 4);
           if ei_class = 1 then elf_byteswap_header32 m file_addr
           else if ei_class = 2 then elf_byteswap_header64 m file_addr
           else Some m }
         else Some m);
       e_type \<leftarrow> ld16 m (file_addr + 16);
       if e_type \<noteq> 2 \<and> e_type \<noteq> 3 then Some (-3, m)
       else do {
         e_machine \<leftarrow> ld16 m (file_addr + 18);
         if e_machine \<noteq> 0x14 \<and> e_machine \<noteq> 0x15 then Some (-4, m)
         else do {
           ei_class \<leftarrow> ld8 m (file_addr + 4);
           Some (uint ei_class, m) } } } }"

text \<open>The type of a loaded 64-bit file.\<close>

definition type64 :: "bytes \<Rightarrow> u64 \<Rightarrow> int option" where
  "type64 m file_addr = do {
     ei_data \<leftarrow> ld8 m (file_addr + 5);
     if ei_data \<noteq> 2
     then do { flags \<leftarrow> elf_get_eflags_64 m file_addr; Some (if flags AND 3 = 2 then 4 else 3) }
     else Some 2 }"

text \<open>\<open>elf_load_file\<close> and \<open>elf_load_file_to_addr\<close> return the type, the variable behind \<open>entry\<close> and the memory.\<close>

definition elf_load_file :: "u64 \<Rightarrow> u64 \<Rightarrow> 's pre_load \<Rightarrow> 's post_load \<Rightarrow> bytes \<times> 's \<Rightarrow> (int \<times> u64 \<times> bytes \<times> 's) option" where
  "elf_load_file file_addr entry pre post ms = do {
     (ty, m) \<leftarrow> elf_check_file (fst ms) file_addr;
     (ty, entry, ms) \<leftarrow> (
       if ty = 1
       then do {
         (e, ms) \<leftarrow> elf_load_segments32 file_addr 0 pre post (m, snd ms);
         ei_data \<leftarrow> ld8 (fst ms) (file_addr + 5);
         Some (if ei_data \<noteq> 2 then 5 else 1, ucast e, ms) }
       else if ty = 2
       then do {
         (e, ms) \<leftarrow> elf_load_segments64 file_addr 0 pre post (m, snd ms);
         ty \<leftarrow> type64 (fst ms) file_addr;
         Some (ty, e, ms) }
       else Some (ty, entry, m, snd ms));
     Some (if entry = 0 then 0 else ty, entry, ms) }"

definition elf_load_file_to_addr :: "u64 \<Rightarrow> u64 \<Rightarrow> u64 \<Rightarrow> 's pre_load \<Rightarrow> 's post_load \<Rightarrow> bytes \<times> 's \<Rightarrow> (int \<times> u64 \<times> bytes \<times> 's) option" where
  "elf_load_file_to_addr file_addr addr entry pre post ms = do {
     (ty, m) \<leftarrow> elf_check_file (fst ms) file_addr;
     if ty = 1
     then do {
       base \<leftarrow> elf_get_base_addr32 m file_addr;
       let off = addr - base;
       (e, ms) \<leftarrow> elf_load_segments32 file_addr off pre post (m, snd ms);
       Some (ty, ucast e + off, ms) }
     else if ty = 2
     then do {
       base \<leftarrow> elf_get_base_addr64 m file_addr;
       let off = addr - base;
       (e, m, s) \<leftarrow> elf_load_segments64 file_addr off pre post (m, snd ms);
       m \<leftarrow> elf_relocate64 file_addr off m;
       ty \<leftarrow> type64 m file_addr;
       Some (ty, e + off, m, s) }
     else Some (ty, entry, m, snd ms) }"

definition elf_get_base_addr :: "bytes \<Rightarrow> u64 \<Rightarrow> (int \<times> bytes) option" where
  "elf_get_base_addr m file_addr = do {
     (ty, m) \<leftarrow> elf_check_file m file_addr;
     if ty = 1 then do { b \<leftarrow> elf_get_base_addr32 m file_addr; Some (sint b, m) }
     else if ty = 2 then do { b \<leftarrow> elf_get_base_addr64 m file_addr; Some (sint b, m) }
     else Some (-1, m) }"

definition elf_get_file_size :: "bytes \<Rightarrow> u64 \<Rightarrow> u64 \<Rightarrow> int option" where
  "elf_get_file_size m buffer buffer_size =
     (if buffer_size < 24 then Some (-1)
      else do {
        ei_ident \<leftarrow> ld32 m buffer;
        if ei_ident \<noteq> 0x7f454c46 then Some (-1)
        else do {
          ei_class \<leftarrow> ld8 m (buffer + 4);
          if ei_class = 1 then elf_get_file_size32 m buffer buffer_size
          else if ei_class = 2 then elf_get_file_size64 m buffer buffer_size
          else Some (-1) } })"

end
