(* ===== verification/Elf_Load.thy ===== *)
theory Elf_Load
  imports Elf
begin

text \<open>Correctness of the ELF loader. The program headers of a file are a list of segments; the loop that loads them is the
  same for both classes of files, so it is verified once against the locale \<open>segment_loader\<close>.\<close>

section \<open>Memory that agrees on a range\<close>

definition same :: "nat \<Rightarrow> nat \<Rightarrow> bytes \<Rightarrow> bytes \<Rightarrow> bool" where
  "same lo hi m m' \<longleftrightarrow> length m' = length m \<and> (\<forall>i. lo \<le> i \<and> i < hi \<longrightarrow> m' ! i = m ! i)"

lemma same_refl [simp]: "same lo hi m m"
  by (simp add: same_def)

lemma same_trans: "same lo hi m m' \<Longrightarrow> same lo hi m' m'' \<Longrightarrow> same lo hi m m''"
  by (simp add: same_def)

lemma same_mono: "same lo hi m m' \<Longrightarrow> lo \<le> lo' \<Longrightarrow> hi' \<le> hi \<Longrightarrow> same lo' hi' m m'"
  by (auto simp: same_def)

lemma same_length: "same lo hi m m' \<Longrightarrow> length m' = length m"
  by (simp add: same_def)

lemma rd16_same: "same i (i + 2) m m' \<Longrightarrow> rd16 m' i = rd16 m i"
  by (simp add: same_def rd16_def)

lemma rd32_same: "same i (i + 4) m m' \<Longrightarrow> rd32 m' i = rd32 m i"
  by (simp add: same_def rd32_def)

lemma ld8_same: "same (unat a) (unat a + 1) m m' \<Longrightarrow> ld8 m' a = ld8 m a"
  by (simp add: same_def ld8_def rd8_def)

lemma ld16_same: "same (unat a) (unat a + 2) m m' \<Longrightarrow> ld16 m' a = ld16 m a"
  by (simp add: ld16_def rd16_same)

lemma ld32_same: "same (unat a) (unat a + 4) m m' \<Longrightarrow> ld32 m' a = ld32 m a"
  by (simp add: ld32_def rd32_same)

lemma ld64_same: "same (unat a) (unat a + 8) m m' \<Longrightarrow> ld64 m' a = ld64 m a"
  using rd32_same[of "unat a" m m'] rd32_same[of "unat a + 4" m m']
  by (simp add: ld64_def same_mono)

lemmas ld_same = ld8_same ld16_same ld32_same ld64_same

definition in_mem :: "bytes \<Rightarrow> u64 \<Rightarrow> nat \<Rightarrow> bool" where
  "in_mem m a n \<longleftrightarrow> unat a + n \<le> length m \<and> length m < 2 ^ 64"

lemma unat_off:
  assumes "in_mem m a n" "k \<le> n"
  shows "unat (a + of_nat k) = unat a + k"
proof -
  have "unat a + k < 2 ^ LENGTH(64)" using assms by (simp add: in_mem_def)
  moreover have "unat (of_nat k :: u64) = k" using assms by (simp add: in_mem_def unsigned_of_nat take_bit_nat_eq_self_iff)
  ultimately show ?thesis by (simp add: unat_word_ariths)
qed

lemma unat_off_numeral: "in_mem m a n \<Longrightarrow> numeral k \<le> n \<Longrightarrow> unat (a + numeral k) = unat a + numeral k"
  using unat_off[of m a n "numeral k"] by simp

section \<open>Segments\<close>

record segment =
  sg_type :: u32
  sg_offset :: u64
  sg_vaddr :: u64
  sg_paddr :: u64
  sg_filesz :: u64
  sg_memsz :: u64

definition overlay :: "bytes \<Rightarrow> nat \<Rightarrow> bytes \<Rightarrow> bytes" where
  "overlay m a xs = take a m @ xs @ drop (a + length xs) m"

lemma length_overlay: "a + length xs \<le> length m \<Longrightarrow> length (overlay m a xs) = length m"
  by (simp add: overlay_def)

lemma nth_overlay:
  "a + length xs \<le> length m \<Longrightarrow> i < length m \<Longrightarrow>
    overlay m a xs ! i = (if a \<le> i \<and> i < a + length xs then xs ! (i - a) else m ! i)"
  by (auto simp: overlay_def nth_append)

lemma same_overlay:
  assumes "a + length xs \<le> length m" "hi \<le> a \<or> a + length xs \<le> lo" "hi \<le> length m"
  shows "same lo hi m (overlay m a xs)"
  using assms by (auto simp: same_def length_overlay nth_overlay)

lemma overlay_overlay: "a + length xs + length ys \<le> length m \<Longrightarrow> overlay (overlay m a xs) (a + length xs) ys = overlay m a (xs @ ys)"
  by (simp add: overlay_def ac_simps)

text \<open>What loading one segment does: the callback may refuse it; otherwise the bytes of the file are followed by zeros.\<close>

abbreviation seg_dest :: "u64 \<Rightarrow> segment \<Rightarrow> nat" where
  "seg_dest off sg \<equiv> unat (sg_paddr sg + off)"

definition seg_data :: "u64 \<Rightarrow> segment \<Rightarrow> bytes \<Rightarrow> bytes" where
  "seg_data f sg m = take (unat (sg_filesz sg)) (drop (unat (sg_offset sg + f)) m) @
     replicate (unat (sg_memsz sg) - unat (sg_filesz sg)) 0"

definition put_segment :: "u64 \<Rightarrow> u64 \<Rightarrow> 's pre_load \<Rightarrow> 's post_load \<Rightarrow> segment \<Rightarrow> bytes \<times> 's \<Rightarrow> bytes \<times> 's" where
  "put_segment f off pre post sg ms =
     (let (allowed, s) = run_pre pre (sg_paddr sg + off) (sg_memsz sg) (snd ms)
      in if allowed then (overlay (fst ms) (seg_dest off sg) (seg_data f sg (fst ms)), run_post post (sg_paddr sg + off) (sg_memsz sg) s)
         else (fst ms, s))"

definition seg_ok :: "u64 \<Rightarrow> u64 \<Rightarrow> nat \<Rightarrow> nat \<Rightarrow> segment \<Rightarrow> bytes \<Rightarrow> bool" where
  "seg_ok f off lo hi sg m \<longleftrightarrow> sg_vaddr sg = sg_paddr sg \<and> sg_filesz sg \<le> sg_memsz sg \<and>
     seg_dest off sg + unat (sg_memsz sg) \<le> length m \<and> unat (sg_offset sg + f) + unat (sg_filesz sg) \<le> length m \<and>
     (seg_dest off sg + unat (sg_memsz sg) \<le> lo \<or> hi \<le> seg_dest off sg)"

lemma length_seg_data: "seg_ok f off lo hi sg m \<Longrightarrow> length (seg_data f sg m) = unat (sg_memsz sg)"
  by (auto simp: seg_ok_def seg_data_def word_le_nat_alt)

lemma put_segment_same:
  assumes "seg_ok f off lo hi sg m" "hi \<le> length m"
  shows "same lo hi m (fst (put_segment f off pre post sg (m, s)))"
proof -
  have "same lo hi m (overlay m (seg_dest off sg) (seg_data f sg m))"
    using assms length_seg_data[OF assms(1)] by (intro same_overlay) (auto simp: seg_ok_def)
  then show ?thesis by (auto simp: put_segment_def split: prod.split)
qed

lemma seg_ok_length: "seg_ok f off lo hi sg m \<Longrightarrow> length m' = length m \<Longrightarrow> seg_ok f off lo hi sg m'"
  by (simp add: seg_ok_def)

text \<open>The program headers from an address on, all inside the range from \<open>lo\<close> to \<open>hi\<close>.\<close>

fun hdrs_at :: "(bytes \<Rightarrow> u64 \<Rightarrow> segment \<Rightarrow> bool) \<Rightarrow> nat \<Rightarrow> nat \<Rightarrow> nat \<Rightarrow> bytes \<Rightarrow> u16 \<Rightarrow> u64 \<Rightarrow> segment list \<Rightarrow> bool" where
  "hdrs_at hdr sz lo hi m ent a [] = True"
| "hdrs_at hdr sz lo hi m ent a (sg # sgs) =
     (hdr m a sg \<and> lo \<le> unat a \<and> unat a + sz \<le> hi \<and> hdrs_at hdr sz lo hi m ent (a + ucast ent) sgs)"

definition load_all :: "u64 \<Rightarrow> u64 \<Rightarrow> 's pre_load \<Rightarrow> 's post_load \<Rightarrow> segment list \<Rightarrow> bytes \<times> 's \<Rightarrow> bytes \<times> 's" where
  "load_all f off pre post sgs ms = foldl (\<lambda>ms sg. if sg_type sg = 1 then put_segment f off pre post sg ms else ms) ms sgs"

section \<open>The loop over the program headers\<close>

text \<open>What the two loaders have in common: \<open>hdr\<close> is a program header of \<open>sz\<close> bytes, \<open>num\<close> the number and size of the headers
  in the file header of \<open>esz\<close> bytes, \<open>load1\<close> loads one segment and \<open>lp\<close> is the loop.\<close>

locale segment_loader =
  fixes hdr :: "bytes \<Rightarrow> u64 \<Rightarrow> segment \<Rightarrow> bool"
    and sz :: nat
    and num :: "bytes \<Rightarrow> u64 \<Rightarrow> u16 \<Rightarrow> u16 \<Rightarrow> bool"
    and esz :: nat
    and lp :: "u64 \<Rightarrow> u64 \<Rightarrow> 's pre_load \<Rightarrow> 's post_load \<Rightarrow> nat \<Rightarrow> u64 \<Rightarrow> bytes \<times> 's \<Rightarrow> (bool \<times> bytes \<times> 's) option"
  assumes hdr_same: "hdr m a sg \<Longrightarrow> in_mem m a sz \<Longrightarrow> same (unat a) (unat a + sz) m m' \<Longrightarrow> hdr m' a sg"
    and num_same: "num m f n ent \<Longrightarrow> in_mem m f esz \<Longrightarrow> same (unat f) (unat f + esz) m m' \<Longrightarrow> num m' f n ent"
    and lp_end: "num m f n ent \<Longrightarrow> unat n < i \<Longrightarrow> lp f off pre post i a (m, s) = Some (True, m, s)"
    and lp_skip: "num m f n ent \<Longrightarrow> i \<le> unat n \<Longrightarrow> hdr m a sg \<Longrightarrow> sg_type sg \<noteq> 1 \<Longrightarrow>
      lp f off pre post i a (m, s) = lp f off pre post (i + 1) (a + ucast ent) (m, s)"
    and lp_refuse: "num m f n ent \<Longrightarrow> i \<le> unat n \<Longrightarrow> hdr m a sg \<Longrightarrow> sg_type sg = 1 \<Longrightarrow> sg_paddr sg \<noteq> sg_vaddr sg \<Longrightarrow>
      lp f off pre post i a (m, s) = Some (False, m, s)"
    and lp_load: "num m f n ent \<Longrightarrow> i \<le> unat n \<Longrightarrow> hdr m a sg \<Longrightarrow> sg_type sg = 1 \<Longrightarrow> in_mem m a sz \<Longrightarrow> in_mem m f esz \<Longrightarrow>
      seg_ok f off lo hi sg m \<Longrightarrow> lo \<le> unat f \<Longrightarrow> unat f + esz \<le> hi \<Longrightarrow> lo \<le> unat a \<Longrightarrow> unat a + sz \<le> hi \<Longrightarrow> hi \<le> length m \<Longrightarrow>
      lp f off pre post i a (m, s) = lp f off pre post (i + 1) (a + ucast ent) (put_segment f off pre post sg (m, s))"
begin

lemma hdrs_same:
  assumes "hdrs_at hdr sz lo hi m ent a sgs" "same lo hi m m'" "hi \<le> length m" "length m < 2 ^ 64"
  shows "hdrs_at hdr sz lo hi m' ent a sgs"
  using assms
proof (induction sgs arbitrary: a)
  case (Cons sg sgs)
  then have "in_mem m a sz" "same (unat a) (unat a + sz) m m'"
    using same_mono[OF Cons.prems(2)] by (simp_all add: in_mem_def)
  then have "hdr m' a sg" using Cons.prems(1) hdr_same[of m a sg m'] by simp
  with Cons show ?case by simp
qed simp

lemma loop_loads:
  assumes "num m f n ent" "i + length sgs = unat n + 1" "hdrs_at hdr sz lo hi m ent a sgs"
    "\<forall>sg \<in> set sgs. sg_type sg = 1 \<longrightarrow> seg_ok f off lo hi sg m"
    "lo \<le> unat f" "unat f + esz \<le> hi" "hi \<le> length m" "length m < 2 ^ 64"
  shows "lp f off pre post i a (m, s) = Some (True, load_all f off pre post sgs (m, s))"
  using assms
proof (induction sgs arbitrary: i a m s)
  case Nil
  then show ?case using lp_end by (simp add: load_all_def)
next
  case (Cons sg sgs)
  have h: "hdr m a sg" "in_mem m a sz" "in_mem m f esz" "lo \<le> unat a" "unat a + sz \<le> hi" "i \<le> unat n"
    using Cons.prems by (auto simp: in_mem_def)
  show ?case
  proof (cases "sg_type sg = 1")
    case False
    then show ?thesis using lp_skip[OF Cons.prems(1) h(6,1) False] Cons.IH[of m "i + 1" "a + ucast ent" s] Cons.prems
      by (simp add: load_all_def)
  next
    case True
    let ?r = "put_segment f off pre post sg (m, s)"
    have ok: "seg_ok f off lo hi sg m" using Cons.prems(4) True by simp
    have sm: "same lo hi m (fst ?r)" using put_segment_same[OF ok Cons.prems(7)] .
    then have len: "length (fst ?r) = length m" by (rule same_length)
    have "lp f off pre post i a (m, s) = lp f off pre post (i + 1) (a + ucast ent) (fst ?r, snd ?r)"
      using lp_load[OF Cons.prems(1) h(6,1) True h(2,3) ok Cons.prems(5,6) h(4,5) Cons.prems(7)] by simp
    also have "\<dots> = Some (True, load_all f off pre post sgs (fst ?r, snd ?r))"
    proof (rule Cons.IH)
      show "num (fst ?r) f n ent"
        using Cons.prems(5,6) by (intro num_same[OF Cons.prems(1) h(3)] same_mono[OF sm])
      show "hdrs_at hdr sz lo hi (fst ?r) ent (a + ucast ent) sgs"
        using Cons.prems(3,7,8) by (intro hdrs_same[OF _ sm]) simp_all
      show "\<forall>sg\<in>set sgs. sg_type sg = 1 \<longrightarrow> seg_ok f off lo hi sg (fst ?r)"
        using Cons.prems(4) seg_ok_length[OF _ len] by auto
    qed (use Cons.prems len in auto)
    finally show ?thesis using True by (simp add: load_all_def)
  qed
qed

end

section \<open>Both loaders are instances\<close>

definition phdr32_at :: "bytes \<Rightarrow> u64 \<Rightarrow> segment \<Rightarrow> bool" where
  "phdr32_at m a sg \<longleftrightarrow> ld32 m a = Some (sg_type sg) \<and> map_option ucast (ld32 m (a + 4)) = Some (sg_offset sg) \<and>
     map_option ucast (ld32 m (a + 8)) = Some (sg_vaddr sg) \<and> map_option ucast (ld32 m (a + 12)) = Some (sg_paddr sg) \<and>
     map_option ucast (ld32 m (a + 16)) = Some (sg_filesz sg) \<and> map_option ucast (ld32 m (a + 20)) = Some (sg_memsz sg)"

definition num32_at :: "bytes \<Rightarrow> u64 \<Rightarrow> u16 \<Rightarrow> u16 \<Rightarrow> bool" where
  "num32_at m f n ent \<longleftrightarrow> ld16 m (f + 44) = Some n \<and> ld16 m (f + 42) = Some ent"

definition phdr64_at :: "bytes \<Rightarrow> u64 \<Rightarrow> segment \<Rightarrow> bool" where
  "phdr64_at m a sg \<longleftrightarrow> ld32 m a = Some (sg_type sg) \<and> ld64 m (a + 8) = Some (sg_offset sg) \<and>
     ld64 m (a + 16) = Some (sg_vaddr sg) \<and> ld64 m (a + 24) = Some (sg_paddr sg) \<and>
     ld64 m (a + 32) = Some (sg_filesz sg) \<and> ld64 m (a + 40) = Some (sg_memsz sg)"

definition num64_at :: "bytes \<Rightarrow> u64 \<Rightarrow> u16 \<Rightarrow> u16 \<Rightarrow> bool" where
  "num64_at m f n ent \<longleftrightarrow> ld16 m (f + 56) = Some n \<and> ld16 m (f + 54) = Some ent"

lemma unat_off_word:
  assumes "in_mem m a n" "unat c \<le> n"
  shows "unat (a + c) = unat a + unat c"
  using unat_off[OF assms] by simp

lemma ld_in_range:
  assumes "in_mem m a n" "same (unat a) (unat a + n) m m'"
  shows "unat c + 1 \<le> n \<Longrightarrow> ld8 m' (a + c) = ld8 m (a + c)"
    "unat c + 2 \<le> n \<Longrightarrow> ld16 m' (a + c) = ld16 m (a + c)"
    "unat c + 4 \<le> n \<Longrightarrow> ld32 m' (a + c) = ld32 m (a + c)"
    "unat c + 8 \<le> n \<Longrightarrow> ld64 m' (a + c) = ld64 m (a + c)"
    "4 \<le> n \<Longrightarrow> ld32 m' a = ld32 m a"
  using unat_off_word[OF assms(1), of c] same_mono[OF assms(2)] by (simp_all add: ld_same)

lemma phdr32_same:
  assumes "phdr32_at m a sg" "in_mem m a 32" "same (unat a) (unat a + 32) m m'"
  shows "phdr32_at m' a sg"
  using assms(1) by (simp add: phdr32_at_def ld_in_range[OF assms(2,3)])

lemma num32_same:
  assumes "num32_at m f n ent" "in_mem m f 52" "same (unat f) (unat f + 52) m m'"
  shows "num32_at m' f n ent"
  using assms(1) by (simp add: num32_at_def ld_in_range[OF assms(2,3)])

lemma phdr64_same:
  assumes "phdr64_at m a sg" "in_mem m a 56" "same (unat a) (unat a + 56) m m'"
  shows "phdr64_at m' a sg"
  using assms(1) by (simp add: phdr64_at_def ld_in_range[OF assms(2,3)])

lemma num64_same:
  assumes "num64_at m f n ent" "in_mem m f 64" "same (unat f) (unat f + 64) m m'"
  shows "num64_at m' f n ent"
  using assms(1) by (simp add: num64_at_def ld_in_range[OF assms(2,3)])

text \<open>Copying the bytes of the file and clearing the rest.\<close>

lemma set_bytes_overlay: "unat a + n \<le> length m \<Longrightarrow> set_bytes m a 0 n = Some (overlay m (unat a) (replicate n 0))"
  by (auto simp: set_bytes_def memset_eq_wrn wrn_def overlay_def add.commute)

lemma copy_and_clear:
  assumes "seg_ok f off lo hi sg m" "length m < 2 ^ 64"
  defines "d \<equiv> sg_paddr sg + off" and "fs \<equiv> sg_filesz sg"
  shows "memmove m (unat d) (unat (sg_offset sg + f)) (unat fs) =
      Some (overlay m (unat d) (take (unat fs) (drop (unat (sg_offset sg + f)) m)))"
    and "set_bytes (overlay m (unat d) (take (unat fs) (drop (unat (sg_offset sg + f)) m))) (d + fs) 0 (unat (sg_memsz sg) - unat fs) =
      Some (overlay m (unat d) (seg_data f sg m))"
proof -
  let ?x = "take (unat fs) (drop (unat (sg_offset sg + f)) m)"
  have le: "unat fs \<le> unat (sg_memsz sg)" "unat d + unat (sg_memsz sg) \<le> length m" "unat (sg_offset sg + f) + unat fs \<le> length m"
    using assms(1) by (simp_all add: seg_ok_def d_def fs_def word_le_nat_alt)
  have lx: "length ?x = unat fs" using le by simp
  show "memmove m (unat d) (unat (sg_offset sg + f)) (unat fs) = Some (overlay m (unat d) ?x)"
    using le lx by (simp add: memmove_splice overlay_def)
  have "in_mem m d (unat (sg_memsz sg))" using le assms(2) by (simp add: in_mem_def)
  then have a: "unat (d + fs) = unat d + unat fs" using unat_off[of m d "unat (sg_memsz sg)" "unat fs"] le by simp
  have len: "length (overlay m (unat d) ?x) = length m" using le lx by (simp add: length_overlay)
  have "set_bytes (overlay m (unat d) ?x) (d + fs) 0 (unat (sg_memsz sg) - unat fs) =
      Some (overlay (overlay m (unat d) ?x) (unat d + length ?x) (replicate (unat (sg_memsz sg) - unat fs) 0))"
    using le a len lx by (subst set_bytes_overlay) simp_all
  also have "\<dots> = Some (overlay m (unat d) (seg_data f sg m))"
    using le lx by (subst overlay_overlay) (simp_all add: seg_data_def fs_def)
  finally show "set_bytes (overlay m (unat d) ?x) (d + fs) 0 (unat (sg_memsz sg) - unat fs) =
      Some (overlay m (unat d) (seg_data f sg m))" .
qed

lemma copied_same:
  assumes "seg_ok f off lo hi sg m" "hi \<le> length m" "lo \<le> a" "a + n \<le> hi"
  shows "same a (a + n) m (overlay m (seg_dest off sg) (take (unat (sg_filesz sg)) (drop (unat (sg_offset sg + f)) m)))"
    "same a (a + n) m (overlay m (seg_dest off sg) (seg_data f sg m))"
  using assms length_seg_data[OF assms(1)]
  by (auto intro!: same_overlay simp: seg_ok_def word_le_nat_alt)

lemma unat_sub_le: "b \<le> a \<Longrightarrow> unat (a - b) = unat a - unat (b :: 'a :: len word)"
  by (simp add: unat_sub)

lemma load_segment64_ok:
  assumes "phdr64_at m a sg" "in_mem m a 56" "seg_ok f off lo hi sg m" "lo \<le> unat a" "unat a + 56 \<le> hi" "hi \<le> length m"
  shows "load_segment64 f a off pre post (m, s) = Some (put_segment f off pre post sg (m, s))"
proof -
  let ?d = "sg_paddr sg + off"
  let ?x = "overlay m (unat ?d) (take (unat (sg_filesz sg)) (drop (unat (sg_offset sg + f)) m))"
  let ?y = "overlay m (unat ?d) (seg_data f sg m)"
  have h: "phdr64_at ?x a sg" "phdr64_at ?y a sg"
    using copied_same[OF assms(3,6,4,5)] by (auto intro: phdr64_same[OF assms(1,2)])
  have "length m < 2 ^ 64" using assms(2) by (simp add: in_mem_def)
  note c = copy_and_clear[OF assms(3) this]
  have sub: "unat (sg_memsz sg - sg_filesz sg) = unat (sg_memsz sg) - unat (sg_filesz sg)"
    using assms(3) by (intro unat_sub_le) (simp add: seg_ok_def)
  obtain ok s' where r: "run_pre pre ?d (sg_memsz sg) s = (ok, s')" by fastforce
  show ?thesis
  proof (cases ok)
    case True
    then show ?thesis using assms(1) h c sub r by (simp add: load_segment64_def put_segment_def phdr64_at_def Let_def)
  next
    case False
    then show ?thesis using assms(1) r by (simp add: load_segment64_def put_segment_def phdr64_at_def Let_def)
  qed
qed

lemma unat_ucast_u32: "unat (ucast (a :: u32) :: u64) = unat a"
  using unsigned_less[of a, where 'a=nat] by (simp add: unsigned_ucast_eq take_bit_nat_eq_self_iff)

lemma ucast_le_u32: "ucast (a :: u32) \<le> (ucast b :: u64) \<longleftrightarrow> a \<le> b"
  by (simp add: word_le_nat_alt unat_ucast_u32)

lemma load_segment_ok:
  assumes "phdr32_at m a sg" "in_mem m a 32" "seg_ok f off lo hi sg m" "lo \<le> unat a" "unat a + 32 \<le> hi" "hi \<le> length m"
  shows "load_segment f a off pre post (m, s) = Some (put_segment f off pre post sg (m, s))"
proof -
  let ?d = "sg_paddr sg + off"
  let ?x = "overlay m (unat ?d) (take (unat (sg_filesz sg)) (drop (unat (sg_offset sg + f)) m))"
  let ?y = "overlay m (unat ?d) (seg_data f sg m)"
  have h: "phdr32_at ?x a sg" "phdr32_at ?y a sg"
    using copied_same[OF assms(3,6,4,5)] by (auto intro: phdr32_same[OF assms(1,2)])
  have "length m < 2 ^ 64" using assms(2) by (simp add: in_mem_def)
  note c = copy_and_clear[OF assms(3) this]
  obtain po pp fs ms :: u32 where v: "sg_offset sg = ucast po" "sg_paddr sg = ucast pp" "sg_filesz sg = ucast fs" "sg_memsz sg = ucast ms"
    using assms(1) unfolding phdr32_at_def map_option_eq_Some by metis
  have inj: "(ucast (x :: u32) :: u64) = ucast y \<longleftrightarrow> x = y" for x y by (simp add: ucast_le_u32 order_eq_iff)
  have sub: "unat (ms - fs) = unat (sg_memsz sg) - unat (sg_filesz sg)" "unat fs = unat (sg_filesz sg)"
    using assms(3) v by (simp_all add: seg_ok_def ucast_le_u32 unat_sub_le unat_ucast_u32)
  have f: "ld32 z (a + 16) = Some fs" "ld32 z (a + 20) = Some ms" "ld32 z (a + 4) = Some po" "ld32 z (a + 12) = Some pp"
    if "phdr32_at z a sg" for z
    using that v by (auto simp: phdr32_at_def inj)
  obtain ok s' where r: "run_pre pre ?d (sg_memsz sg) s = (ok, s')" by fastforce
  show ?thesis
  proof (cases ok)
    case True
    then show ?thesis using c sub r v f[OF h(1)] f[OF h(2)] by (simp add: load_segment_def put_segment_def Let_def f[OF assms(1)])
  next
    case False
    then show ?thesis using r v by (simp add: load_segment_def put_segment_def Let_def f[OF assms(1)])
  qed
qed

interpretation e64: segment_loader phdr64_at 56 num64_at 64 load_loop64
proof (unfold_locales, goal_cases)
  case 1 then show ?case by (rule phdr64_same)
next
  case 2 then show ?case by (rule num64_same)
next
  case 3 then show ?case by (subst load_loop64.simps) (simp add: num64_at_def)
next
  case 4 then show ?case by (subst load_loop64.simps) (simp add: num64_at_def phdr64_at_def)
next
  case 5 then show ?case by (subst load_loop64.simps) (simp add: num64_at_def phdr64_at_def)
next
  case (6 m f n ent i a sg off lo hi pre post s)
  have "same (unat f) (unat f + 64) m (fst (put_segment f off pre post sg (m, s)))"
    using put_segment_same[OF 6(7,12)] 6(8,9) by (rule same_mono)
  from num64_same[OF 6(1,6) this] have "ld16 (fst (put_segment f off pre post sg (m, s))) (f + 54) = Some ent"
    by (simp add: num64_at_def)
  moreover have "ld64 m (a + 24) = Some (sg_paddr sg)" "ld64 m (a + 16) = Some (sg_paddr sg)" "ld32 m a = Some 1"
    using 6(3,4,7) by (simp_all add: phdr64_at_def seg_ok_def)
  moreover note load_segment64_ok[OF 6(3,5,7,10,11,12), of pre post s]
  ultimately show ?case using 6(1,2) by (subst load_loop64.simps) (simp add: num64_at_def)
qed

interpretation e32: segment_loader phdr32_at 32 num32_at 52 load_loop32
proof (unfold_locales, goal_cases)
  case 1 then show ?case by (rule phdr32_same)
next
  case 2 then show ?case by (rule num32_same)
next
  case 3 then show ?case by (subst load_loop32.simps) (simp add: num32_at_def)
next
  case 4 then show ?case by (subst load_loop32.simps) (simp add: num32_at_def phdr32_at_def)
next
  case 5 then show ?case by (subst load_loop32.simps) (auto simp: num32_at_def phdr32_at_def)
next
  case (6 m f n ent i a sg off lo hi pre post s)
  have "same (unat f) (unat f + 52) m (fst (put_segment f off pre post sg (m, s)))"
    using put_segment_same[OF 6(7,12)] 6(8,9) by (rule same_mono)
  from num32_same[OF 6(1,6) this] have "ld16 (fst (put_segment f off pre post sg (m, s))) (f + 42) = Some ent"
    by (simp add: num32_at_def)
  moreover obtain p v where "ld32 m (a + 12) = Some p" "ld32 m (a + 8) = Some v" "ucast p = (ucast v :: u64)" "ld32 m a = Some 1"
    using 6(3,4,7) by (auto simp: phdr32_at_def seg_ok_def)
  moreover have "p = v" using \<open>ucast p = (ucast v :: u64)\<close> by (simp add: ucast_le_u32 order_eq_iff)
  moreover note load_segment_ok[OF 6(3,5,7,10,11,12), of pre post s]
  ultimately show ?case using 6(1,2) by (subst load_loop32.simps) (simp add: num32_at_def)
qed

end
