(* ===== verification/Elf_Swap.thy ===== *)
theory Elf_Swap
  imports Elf_Load
begin

text \<open>Files in the other byte order: \<open>elf_check_file\<close> turns the headers round in memory. The loop over the program headers
  is again the same for both classes (locale \<open>header_swapper\<close>).\<close>

section \<open>Turning fields round\<close>

lemma bswap_involutive [simp]: "bswap_16 (bswap_16 v) = v" "bswap_32 (bswap_32 x) = x" "bswap_64 (bswap_64 y) = y"
  by (simp_all add: bswap_16_def bswap_32_def bswap_64_def be_simps)

definition outside :: "nat \<Rightarrow> nat \<Rightarrow> bytes \<Rightarrow> bytes \<Rightarrow> bool" where
  "outside lo hi m m' \<longleftrightarrow> same 0 lo m m' \<and> same hi (length m) m m'"

lemma outside_refl [simp]: "outside lo hi m m"
  by (simp add: outside_def)

lemma outsideI: "wrn m i xs = Some m' \<Longrightarrow> hi = i + length xs \<Longrightarrow> outside i hi m m'"
  by (auto simp: outside_def same_def wrn_length intro: wrn_frame)

lemma outside_same:
  assumes "outside lo hi m m'" "b \<le> lo \<or> hi \<le> a" "b \<le> length m"
  shows "same a b m m'"
  using assms by (auto simp: outside_def same_def)

lemma outside_trans: "outside lo hi m m' \<Longrightarrow> outside lo' hi' m' m'' \<Longrightarrow> outside (min lo lo') (max hi hi') m m''"
  by (auto simp: outside_def same_def)

lemma outside_mono: "outside lo hi m m' \<Longrightarrow> lo' \<le> lo \<Longrightarrow> hi \<le> hi' \<Longrightarrow> outside lo' hi' m m'"
  by (auto simp: outside_def same_def)

lemma outside_length: "outside lo hi m m' \<Longrightarrow> length m' = length m"
  by (simp add: outside_def same_def)

lemma ld64_st64: "st64 m a v = Some m' \<Longrightarrow> ld64 m' a = Some v"
  by (auto simp: st64_def ld64_def rd32_def wrn_def nth_append be32_def be_simps numeral_eq_Suc split: if_splits)

lemma ld16_st16: "st16 m a v = Some m' \<Longrightarrow> ld16 m' a = Some v"
  by (auto simp: st16_def ld16_def rd16_wr16)

lemma ld32_st32: "st32 m a v = Some m' \<Longrightarrow> ld32 m' a = Some v"
  by (auto simp: st32_def ld32_def rd32_wr32)

definition swap_field :: "nat \<Rightarrow> bytes \<Rightarrow> u64 \<Rightarrow> bytes option" where
  "swap_field w m a = (if w = 2 then bswap_16p m a else if w = 4 then bswap_32p m a else bswap_64p m a)"

definition swapped :: "nat \<Rightarrow> bytes \<Rightarrow> bytes \<Rightarrow> u64 \<Rightarrow> bool" where
  "swapped w m m' a \<longleftrightarrow> (if w = 2 then ld16 m' a = map_option bswap_16 (ld16 m a)
     else if w = 4 then ld32 m' a = map_option bswap_32 (ld32 m a) else ld64 m' a = map_option bswap_64 (ld64 m a))"

lemma swap_field_ok:
  assumes "w = 2 \<or> w = 4 \<or> w = 8" "unat a + w \<le> length m"
  shows "\<exists>m'. swap_field w m a = Some m' \<and> outside (unat a) (unat a + w) m m' \<and> swapped w m m' a"
proof -
  have 2: "\<exists>m'. bswap_16p m a = Some m' \<and> outside (unat a) (unat a + 2) m m' \<and> ld16 m' a = map_option bswap_16 (ld16 m a)"
    if r: "unat a + 2 \<le> length m"
  proof -
    obtain v where v: "ld16 m a = Some v" using r by (simp add: ld16_def rd16_def)
    obtain m' where m': "st16 m a (bswap_16 v) = Some m'"
      using r by (simp add: st16_def wr16_def wrn_def)
    then have "outside (unat a) (unat a + 2) m m'" by (auto simp: st16_def wr16_def intro!: outsideI)
    with v m' ld16_st16[OF m'] show ?thesis by (simp add: bswap_16p_def)
  qed
  have 4: "\<exists>m'. bswap_32p m a = Some m' \<and> outside (unat a) (unat a + 4) m m' \<and> ld32 m' a = map_option bswap_32 (ld32 m a)"
    if r: "unat a + 4 \<le> length m"
  proof -
    obtain v where v: "ld32 m a = Some v" using r by (simp add: ld32_def rd32_def)
    obtain m' where m': "st32 m a (bswap_32 v) = Some m'" using r by (simp add: st32_def wr32_def wrn_def)
    then have "outside (unat a) (unat a + 4) m m'" by (auto simp: st32_def wr32_def intro!: outsideI)
    with v m' ld32_st32[OF m'] show ?thesis by (simp add: bswap_32p_def)
  qed
  have 8: "\<exists>m'. bswap_64p m a = Some m' \<and> outside (unat a) (unat a + 8) m m' \<and> ld64 m' a = map_option bswap_64 (ld64 m a)"
    if r: "unat a + 8 \<le> length m"
  proof -
    obtain v where v: "ld64 m a = Some v" using r by (simp add: ld64_def rd32_def)
    obtain m' where m': "st64 m a (bswap_64 v) = Some m'" using r by (simp add: st64_def wrn_def)
    then have "outside (unat a) (unat a + 8) m m'" by (auto simp: st64_def intro!: outsideI)
    with v m' ld64_st64[OF m'] show ?thesis by (simp add: bswap_64p_def)
  qed
  show ?thesis using assms 2 4 8 by (auto simp: swap_field_def swapped_def)
qed

fun swap_fields :: "u64 \<Rightarrow> (nat \<times> nat) list \<Rightarrow> bytes \<Rightarrow> bytes option" where
  "swap_fields a [] m = Some m"
| "swap_fields a ((w, k) # fs) m = do { m \<leftarrow> swap_field w m (a + of_nat k); swap_fields a fs m }"

lemma swap_fields_fun:
  "swap_fields a [] = Some"
  "swap_fields a ((w, k) # fs) = (\<lambda>m. do { m \<leftarrow> swap_field w m (a + of_nat k); swap_fields a fs m })"
  by (simp_all add: fun_eq_iff)

fun fields_ok :: "nat \<Rightarrow> nat \<Rightarrow> (nat \<times> nat) list \<Rightarrow> bool" where
  "fields_ok lo n [] = True"
| "fields_ok lo n ((w, k) # fs) = ((w = 2 \<or> w = 4 \<or> w = 8) \<and> lo \<le> k \<and> k + w \<le> n \<and> fields_ok (k + w) n fs)"

lemma fields_ok_range: "fields_ok lo n fs \<Longrightarrow> (w, k) \<in> set fs \<Longrightarrow> lo \<le> k \<and> k + w \<le> n \<and> (w = 2 \<or> w = 4 \<or> w = 8)"
  by (induction lo n fs rule: fields_ok.induct) fastforce+

lemma swapped_cong:
  assumes "swapped w m1 m2 a" "same (unat a) (unat a + w) m m1" "same (unat a) (unat a + w) m2 m3" "w = 2 \<or> w = 4 \<or> w = 8"
  shows "swapped w m m3 a"
proof -
  have "w = 2 \<Longrightarrow> ld16 m3 a = ld16 m2 a \<and> ld16 m1 a = ld16 m a" using ld16_same[of a m2 m3] ld16_same[of a m m1] assms(2,3) by simp
  moreover have "w = 4 \<Longrightarrow> ld32 m3 a = ld32 m2 a \<and> ld32 m1 a = ld32 m a" using ld32_same[of a m2 m3] ld32_same[of a m m1] assms(2,3) by simp
  moreover have "w = 8 \<Longrightarrow> ld64 m3 a = ld64 m2 a \<and> ld64 m1 a = ld64 m a" using ld64_same[of a m2 m3] ld64_same[of a m m1] assms(2,3) by simp
  ultimately show ?thesis using assms(1,4) by (auto simp: swapped_def)
qed

lemma swap_fields_ok:
  assumes "in_mem m a n" "fields_ok lo n fs"
  shows "\<exists>m'. swap_fields a fs m = Some m' \<and> outside (unat a + lo) (unat a + n) m m' \<and>
    (\<forall>(w, k) \<in> set fs. swapped w m m' (a + of_nat k))"
  using assms
proof (induction lo n fs arbitrary: m rule: fields_ok.induct)
  case (1 lo n)
  then show ?case by (simp add: outside_def)
next
  case (2 lo n w k fs)
  let ?b = "a + of_nat k"
  have b: "unat ?b = unat a + k" using unat_off[OF 2(2)] 2(3) by simp
  have "w = 2 \<or> w = 4 \<or> w = 8" "unat ?b + w \<le> length m" using 2(2,3) b by (auto simp: in_mem_def)
  then obtain m1 where m1: "swap_field w m ?b = Some m1" "outside (unat a + k) (unat a + k + w) m m1" "swapped w m m1 ?b"
    using swap_field_ok[of w ?b m] b by auto
  have len: "length m1 = length m" using outside_length[OF m1(2)] .
  have in1: "in_mem m1 a n" using 2(2) len by (simp add: in_mem_def)
  from 2(1)[OF in1] 2(3) obtain m' where m': "swap_fields a fs m1 = Some m'"
    "outside (unat a + (k + w)) (unat a + n) m1 m'" "\<forall>(w, k) \<in> set fs. swapped w m1 m' (a + of_nat k)"
    by auto
  have lim: "unat a + n \<le> length m" using 2(2) by (simp add: in_mem_def)
  have "swapped w m m' ?b"
  proof (rule swapped_cong[OF m1(3) same_refl])
    show "same (unat ?b) (unat ?b + w) m1 m'" using b lim 2(3) len by (intro outside_same[OF m'(2)]) auto
  qed fact
  moreover have "swapped w' m m' (a + of_nat k')" if "(w', k') \<in> set fs" for w' k'
  proof -
    have r: "k + w \<le> k' \<and> k' + w' \<le> n \<and> (w' = 2 \<or> w' = 4 \<or> w' = 8)" using fields_ok_range[of "k + w" n fs w' k'] that 2(3) by simp
    then have "unat (a + of_nat k') = unat a + k'" using unat_off[OF 2(2)] by simp
    then have "same (unat (a + of_nat k')) (unat (a + of_nat k') + w') m m1" using r lim by (intro outside_same[OF m1(2)]) auto
    then show ?thesis using that m'(3) r by (intro swapped_cong[of w' m1 m' _ m m']) auto
  qed
  moreover have "outside (unat a + lo) (unat a + n) m m'"
    using outside_trans[OF m1(2) m'(2)] 2(3) by (auto elim!: outside_mono)
  ultimately show ?case using m1(1) m'(1) by auto
qed

section \<open>The loop over the program headers\<close>

text \<open>\<open>hin\<close> and \<open>hout\<close> are a program header before and after it has been turned round.\<close>

locale header_swapper =
  fixes hin hout :: "bytes \<Rightarrow> u64 \<Rightarrow> segment \<Rightarrow> bool"
    and sz :: nat
    and num :: "bytes \<Rightarrow> u64 \<Rightarrow> u16 \<Rightarrow> u16 \<Rightarrow> bool"
    and esz :: nat
    and swap1 :: "bytes \<Rightarrow> u64 \<Rightarrow> bytes option"
    and lp :: "u64 \<Rightarrow> nat \<Rightarrow> u64 \<Rightarrow> bytes \<Rightarrow> bytes option"
  assumes hin_same: "hin m a sg \<Longrightarrow> in_mem m a sz \<Longrightarrow> same (unat a) (unat a + sz) m m' \<Longrightarrow> hin m' a sg"
    and hout_same: "hout m a sg \<Longrightarrow> in_mem m a sz \<Longrightarrow> same (unat a) (unat a + sz) m m' \<Longrightarrow> hout m' a sg"
    and num_same: "num m f n ent \<Longrightarrow> in_mem m f esz \<Longrightarrow> same (unat f) (unat f + esz) m m' \<Longrightarrow> num m' f n ent"
    and swap1_ok: "hin m a sg \<Longrightarrow> in_mem m a sz \<Longrightarrow>
      \<exists>m'. swap1 m a = Some m' \<and> outside (unat a) (unat a + sz) m m' \<and> hout m' a sg"
    and lp_end: "num m f n ent \<Longrightarrow> unat n < i \<Longrightarrow> lp f i a m = Some m"
    and lp_step: "num m f n ent \<Longrightarrow> i \<le> unat n \<Longrightarrow> swap1 m a = Some m' \<Longrightarrow> num m' f n ent \<Longrightarrow>
      lp f i a m = lp f (i + 1) (a + ucast ent) m'"
begin

lemma hin_hdrs_same:
  assumes "hdrs_at hin sz lo hi m ent a sgs" "same lo hi m m'" "hi \<le> length m" "length m < 2 ^ 64"
  shows "hdrs_at hin sz lo hi m' ent a sgs"
  using assms
proof (induction sgs arbitrary: a)
  case (Cons sg sgs)
  then have "in_mem m a sz" "same (unat a) (unat a + sz) m m'"
    using same_mono[OF Cons.prems(2)] by (simp_all add: in_mem_def)
  then have "hin m' a sg" using Cons.prems(1) hin_same[of m a sg m'] by simp
  with Cons show ?case by simp
qed simp

text \<open>The headers must not overlap: the entry size is at least the size of a header, and the addresses do not wrap around.\<close>

lemma swap_loop_ok:
  assumes "num m f n ent" "i + length sgs = unat n + 1" "hdrs_at hin sz lo hi m ent a sgs" "sz \<le> unat ent"
    "in_mem m f esz" "unat f + esz \<le> lo" "hi \<le> length m" "unat a + length sgs * unat ent < 2 ^ 64" "lo \<le> unat a"
  shows "\<exists>m'. lp f i a m = Some m' \<and> outside (unat a) hi m m' \<and> hdrs_at hout sz lo hi m' ent a sgs \<and> num m' f n ent"
  using assms
proof (induction sgs arbitrary: i a m lo)
  case Nil
  then show ?case using lp_end by fastforce
next
  case (Cons sg sgs)
  have a: "hin m a sg" "in_mem m a sz" "unat a + sz \<le> hi" "i \<le> unat n"
    using Cons.prems by (auto simp: in_mem_def)
  obtain m1 where m1: "swap1 m a = Some m1" "outside (unat a) (unat a + sz) m m1" "hout m1 a sg"
    using swap1_ok[OF a(1,2)] by blast
  have len: "length m1 = length m" using outside_length[OF m1(2)] .
  have ent: "unat (ucast ent :: u64) = unat ent"
    using unsigned_less[of ent, where 'a=nat] by (simp add: unsigned_ucast_eq take_bit_nat_eq_self_iff)
  have "unat a + unat ent < 2 ^ 64" using Cons.prems(8) by simp
  then have next_a: "unat (a + ucast ent) = unat a + unat ent" using ent by (simp add: unat_word_ariths)
  have num1: "num m1 f n ent"
    using Cons.prems(5,6,9) by (intro num_same[OF Cons.prems(1,5)] outside_same[OF m1(2)]) (auto simp: in_mem_def)
  have in1: "in_mem m1 f esz" using Cons.prems(5) len by (simp add: in_mem_def)
  have rest: "hdrs_at hin sz (unat a + sz) hi m1 ent (a + ucast ent) sgs"
  proof -
    have raise: "hdrs_at hin sz (unat a + sz) hi m ent b sgs'"
      if "hdrs_at hin sz lo hi m ent b sgs'" "unat a + sz \<le> unat b" "unat b + length sgs' * unat ent < 2 ^ 64" for b sgs'
      using that
    proof (induction sgs' arbitrary: b)
      case (Cons x xs)
      have "unat (b + ucast ent) = unat b + unat ent" using Cons.prems(3) ent by (simp add: unat_word_ariths)
      with Cons show ?case by simp
    qed simp
    have "hdrs_at hin sz (unat a + sz) hi m ent (a + ucast ent) sgs"
      using Cons.prems(3,4,8) next_a by (intro raise) auto
    then show ?thesis using Cons.prems(2,7) a(2) by (intro hin_hdrs_same[OF _ outside_same[OF m1(2)]]) (auto simp: in_mem_def)
  qed
  obtain m' where m': "lp f (i + 1) (a + ucast ent) m1 = Some m'" "outside (unat (a + ucast ent)) hi m1 m'"
    "hdrs_at hout sz (unat a + sz) hi m' ent (a + ucast ent) sgs" "num m' f n ent"
    using Cons.IH[OF num1 _ rest Cons.prems(4) in1, of "i + 1"] Cons.prems next_a len by auto
  have "same (unat a) (unat a + sz) m1 m'"
    using next_a Cons.prems(4) a(2) len by (intro outside_same[OF m'(2)]) (auto simp: in_mem_def)
  then have "hout m' a sg" using hout_same[OF m1(3)] a(2) len by (simp add: in_mem_def)
  moreover have "outside (unat a) hi m m'"
    using outside_trans[OF m1(2) m'(2)] next_a a(3) by (auto elim!: outside_mono)
  moreover have "hdrs_at hout sz lo hi m' ent (a + ucast ent) sgs"
  proof -
    have lower: "hdrs_at hout sz lo hi m' ent b xs" if "hdrs_at hout sz (unat a + sz) hi m' ent b xs" for b xs
      using that Cons.prems(9) by (induction xs arbitrary: b) auto
    show ?thesis using m'(3) by (rule lower)
  qed
  ultimately show ?case using lp_step[OF Cons.prems(1) a(4) m1(1) num1] m' Cons.prems(9) a(3) by auto
qed

end

section \<open>Headers in either byte order\<close>

definition get16 :: "bool \<Rightarrow> bytes \<Rightarrow> u64 \<Rightarrow> u16 option" where
  "get16 le m a = map_option (if le then bswap_16 else id) (ld16 m a)"

definition get32 :: "bool \<Rightarrow> bytes \<Rightarrow> u64 \<Rightarrow> u32 option" where
  "get32 le m a = map_option (if le then bswap_32 else id) (ld32 m a)"

definition get64 :: "bool \<Rightarrow> bytes \<Rightarrow> u64 \<Rightarrow> u64 option" where
  "get64 le m a = map_option (if le then bswap_64 else id) (ld64 m a)"

lemmas get_defs = get16_def get32_def get64_def

lemma get_big [simp]: "get16 False = ld16" "get32 False = ld32" "get64 False = ld64"
  by (auto simp: get_defs fun_eq_iff option.map_id)

lemma swapped_get:
  "swapped 2 m m' a \<Longrightarrow> ld16 m' a = get16 True m a"
  "swapped 4 m m' a \<Longrightarrow> ld32 m' a = get32 True m a"
  "swapped 8 m m' a \<Longrightarrow> ld64 m' a = get64 True m a"
  by (simp_all add: swapped_def get_defs)

lemma get_in_range:
  assumes "in_mem m a n" "same (unat a) (unat a + n) m m'"
  shows "unat c + 2 \<le> n \<Longrightarrow> get16 le m' (a + c) = get16 le m (a + c)"
    "unat c + 4 \<le> n \<Longrightarrow> get32 le m' (a + c) = get32 le m (a + c)"
    "unat c + 8 \<le> n \<Longrightarrow> get64 le m' (a + c) = get64 le m (a + c)"
    "4 \<le> n \<Longrightarrow> get32 le m' a = get32 le m a"
  by (simp_all add: get_defs ld_in_range[OF assms])

definition phdr64_in :: "bool \<Rightarrow> bytes \<Rightarrow> u64 \<Rightarrow> segment \<Rightarrow> bool" where
  "phdr64_in le m a sg \<longleftrightarrow> get32 le m a = Some (sg_type sg) \<and> get64 le m (a + 8) = Some (sg_offset sg) \<and>
     get64 le m (a + 16) = Some (sg_vaddr sg) \<and> get64 le m (a + 24) = Some (sg_paddr sg) \<and>
     get64 le m (a + 32) = Some (sg_filesz sg) \<and> get64 le m (a + 40) = Some (sg_memsz sg)"

definition phdr32_in :: "bool \<Rightarrow> bytes \<Rightarrow> u64 \<Rightarrow> segment \<Rightarrow> bool" where
  "phdr32_in le m a sg \<longleftrightarrow> get32 le m a = Some (sg_type sg) \<and> map_option ucast (get32 le m (a + 4)) = Some (sg_offset sg) \<and>
     map_option ucast (get32 le m (a + 8)) = Some (sg_vaddr sg) \<and> map_option ucast (get32 le m (a + 12)) = Some (sg_paddr sg) \<and>
     map_option ucast (get32 le m (a + 16)) = Some (sg_filesz sg) \<and> map_option ucast (get32 le m (a + 20)) = Some (sg_memsz sg)"

lemma phdr_in_big [simp]: "phdr64_in False = phdr64_at" "phdr32_in False = phdr32_at"
  by (simp_all add: fun_eq_iff phdr64_in_def phdr64_at_def phdr32_in_def phdr32_at_def)

lemma phdr64_in_same:
  assumes "phdr64_in le m a sg" "in_mem m a 56" "same (unat a) (unat a + 56) m m'"
  shows "phdr64_in le m' a sg"
  using assms(1) by (simp add: phdr64_in_def get_in_range[OF assms(2,3)])

lemma phdr32_in_same:
  assumes "phdr32_in le m a sg" "in_mem m a 32" "same (unat a) (unat a + 32) m m'"
  shows "phdr32_in le m' a sg"
  using assms(1) by (simp add: phdr32_in_def get_in_range[OF assms(2,3)])

lemma swap_phdr64_ok:
  assumes "phdr64_in True m a sg" "in_mem m a 56"
  shows "\<exists>m'. swap_phdr64 m a = Some m' \<and> outside (unat a) (unat a + 56) m m' \<and> phdr64_at m' a sg"
proof -
  let ?fs = "[(4, 0), (4, 4), (8, 8), (8, 16), (8, 24), (8, 32), (8, 40), (8, 48)]"
  have "swap_phdr64 m a = swap_fields a ?fs m" by (simp add: swap_phdr64_def swap_field_def swap_fields_fun)
  then show ?thesis using swap_fields_ok[OF assms(2), of 0 ?fs] assms(1)
    by (auto simp: phdr64_in_def phdr64_at_def swapped_get)
qed

lemma swap_phdr32_ok:
  assumes "phdr32_in True m a sg" "in_mem m a 32"
  shows "\<exists>m'. swap_phdr32 m a = Some m' \<and> outside (unat a) (unat a + 32) m m' \<and> phdr32_at m' a sg"
proof -
  let ?fs = "[(4, 0), (4, 4), (4, 8), (4, 12), (4, 16), (4, 20), (4, 24), (4, 28)]"
  have "swap_phdr32 m a = swap_fields a ?fs m" by (simp add: swap_phdr32_def swap_field_def swap_fields_fun)
  then show ?thesis using swap_fields_ok[OF assms(2), of 0 ?fs] assms(1)
    by (auto simp: phdr32_in_def phdr32_at_def swapped_get)
qed

interpretation s64: header_swapper "phdr64_in True" phdr64_at 56 num64_at 64 swap_phdr64 swap_loop64
proof (unfold_locales, goal_cases)
  case 1 then show ?case by (rule phdr64_in_same)
next
  case 2 then show ?case by (rule phdr64_same)
next
  case 3 then show ?case by (rule num64_same)
next
  case 4 then show ?case by (rule swap_phdr64_ok)
next
  case 5 then show ?case by (subst swap_loop64.simps) (simp add: num64_at_def)
next
  case 6 then show ?case by (subst swap_loop64.simps) (simp add: num64_at_def)
qed

interpretation s32: header_swapper "phdr32_in True" phdr32_at 32 num32_at 52 swap_phdr32 swap_loop32
proof (unfold_locales, goal_cases)
  case 1 then show ?case by (rule phdr32_in_same)
next
  case 2 then show ?case by (rule phdr32_same)
next
  case 3 then show ?case by (rule num32_same)
next
  case 4 then show ?case by (rule swap_phdr32_ok)
next
  case 5 then show ?case by (subst swap_loop32.simps) (simp add: num32_at_def)
next
  case 6 then show ?case by (subst swap_loop32.simps) (simp add: num32_at_def)
qed

text \<open>The file header; \<open>d\<close> is the byte that names the byte order of the file.\<close>

record elf_file =
  ef_type :: u16
  ef_machine :: u16
  ef_entry :: u64
  ef_phoff :: u64
  ef_flags :: u32
  ef_phentsize :: u16
  ef_phnum :: u16

definition ehdr64_in :: "bool \<Rightarrow> u8 \<Rightarrow> bytes \<Rightarrow> u64 \<Rightarrow> elf_file \<Rightarrow> bool" where
  "ehdr64_in le d m f h \<longleftrightarrow> ld32 m f = Some 0x7f454c46 \<and> ld8 m (f + 4) = Some 2 \<and> ld8 m (f + 5) = Some d \<and>
     get16 le m (f + 16) = Some (ef_type h) \<and> get16 le m (f + 18) = Some (ef_machine h) \<and>
     get64 le m (f + 24) = Some (ef_entry h) \<and> get64 le m (f + 32) = Some (ef_phoff h) \<and> get32 le m (f + 48) = Some (ef_flags h) \<and>
     get16 le m (f + 54) = Some (ef_phentsize h) \<and> get16 le m (f + 56) = Some (ef_phnum h)"

definition ehdr32_in :: "bool \<Rightarrow> u8 \<Rightarrow> bytes \<Rightarrow> u64 \<Rightarrow> elf_file \<Rightarrow> bool" where
  "ehdr32_in le d m f h \<longleftrightarrow> ld32 m f = Some 0x7f454c46 \<and> ld8 m (f + 4) = Some 1 \<and> ld8 m (f + 5) = Some d \<and>
     get16 le m (f + 16) = Some (ef_type h) \<and> get16 le m (f + 18) = Some (ef_machine h) \<and>
     map_option ucast (get32 le m (f + 24)) = Some (ef_entry h) \<and> map_option ucast (get32 le m (f + 28)) = Some (ef_phoff h) \<and>
     get16 le m (f + 42) = Some (ef_phentsize h) \<and> get16 le m (f + 44) = Some (ef_phnum h)"

lemma ehdr64_same:
  assumes "ehdr64_in le d m f h" "in_mem m f 64" "same (unat f) (unat f + 64) m m'"
  shows "ehdr64_in le d m' f h"
  using assms(1) by (simp add: ehdr64_in_def get_in_range[OF assms(2,3)] ld_in_range[OF assms(2,3)])

lemma ehdr32_same:
  assumes "ehdr32_in le d m f h" "in_mem m f 52" "same (unat f) (unat f + 52) m m'"
  shows "ehdr32_in le d m' f h"
  using assms(1) by (simp add: ehdr32_in_def get_in_range[OF assms(2,3)] ld_in_range[OF assms(2,3)])

lemma ident_same:
  assumes "outside (unat f + 16) hi m m'" "in_mem m f 16"
  shows "ld32 m' f = ld32 m f" "ld8 m' (f + 4) = ld8 m (f + 4)" "ld8 m' (f + 5) = ld8 m (f + 5)"
proof -
  have s: "same (unat f) (unat f + 16) m m'" using assms by (intro outside_same[OF assms(1)]) (auto simp: in_mem_def)
  show "ld32 m' f = ld32 m f" "ld8 m' (f + 4) = ld8 m (f + 4)" "ld8 m' (f + 5) = ld8 m (f + 5)"
    using ld_in_range[OF assms(2) s] by simp_all
qed

lemma swap_ehdr64_ok:
  assumes "ehdr64_in True d m f h" "in_mem m f 64"
  shows "\<exists>m'. swap_ehdr64 m f = Some m' \<and> outside (unat f + 16) (unat f + 64) m m' \<and> ehdr64_in False d m' f h"
proof -
  let ?fs = "[(2, 16), (2, 18), (4, 20), (8, 24), (8, 32), (8, 40), (4, 48), (2, 52), (2, 54), (2, 56), (2, 58), (2, 60), (2, 62)]"
  have e: "swap_ehdr64 m f = swap_fields f ?fs m" by (simp add: swap_ehdr64_def swap_field_def swap_fields_fun)
  obtain m' where m': "swap_fields f ?fs m = Some m'" "outside (unat f + 16) (unat f + 64) m m'"
    "\<forall>(w, k) \<in> set ?fs. swapped w m m' (f + of_nat k)"
    using swap_fields_ok[OF assms(2), of 16 ?fs] by auto
  have "in_mem m f 16" using assms(2) by (simp add: in_mem_def)
  then have "ehdr64_in False d m' f h"
    using m'(3) assms(1) ident_same[OF m'(2)] by (simp add: ehdr64_in_def swapped_def get_defs option.map_id)
  with e m'(1,2) show ?thesis by simp
qed

lemma swap_ehdr32_ok:
  assumes "ehdr32_in True d m f h" "in_mem m f 52"
  shows "\<exists>m'. swap_ehdr32 m f = Some m' \<and> outside (unat f + 16) (unat f + 52) m m' \<and> ehdr32_in False d m' f h"
proof -
  let ?fs = "[(2, 16), (2, 18), (4, 20), (4, 24), (4, 28), (4, 32), (4, 36), (2, 40), (2, 42), (2, 44), (2, 46), (2, 48), (2, 50)]"
  have e: "swap_ehdr32 m f = swap_fields f ?fs m" by (simp add: swap_ehdr32_def swap_field_def swap_fields_fun)
  obtain m' where m': "swap_fields f ?fs m = Some m'" "outside (unat f + 16) (unat f + 52) m m'"
    "\<forall>(w, k) \<in> set ?fs. swapped w m m' (f + of_nat k)"
    using swap_fields_ok[OF assms(2), of 16 ?fs] by auto
  have "in_mem m f 16" using assms(2) by (simp add: in_mem_def)
  then have "ehdr32_in False d m' f h"
    using m'(3) assms(1) ident_same[OF m'(2)] by (simp add: ehdr32_in_def swapped_def get_defs option.map_id)
  with e m'(1,2) show ?thesis by simp
qed

end
