(* ===== verification/Elf_Image.thy ===== *)
theory Elf_Image
  imports Elf_Swap
begin

text \<open>What \<open>elf_load_file\<close> does with a well-formed file, and the faults of the loader. The code also reads and, in the other
  byte order, turns round the entry behind the last program header; a well-formed file has one there that is not loadable.\<close>

section \<open>The memory after all segments are loaded\<close>

definition accepts :: "'s pre_load \<Rightarrow> bool" where
  "accepts pre \<longleftrightarrow> (\<forall>a n s. fst (run_pre pre a n s))"

definition apart2 :: "u64 \<Rightarrow> segment \<Rightarrow> segment \<Rightarrow> bool" where
  "apart2 off sg sg' \<longleftrightarrow> sg_type sg = 1 \<and> sg_type sg' = 1 \<longrightarrow>
     seg_dest off sg + unat (sg_memsz sg) \<le> seg_dest off sg' \<or> seg_dest off sg' + unat (sg_memsz sg') \<le> seg_dest off sg"

fun apart :: "u64 \<Rightarrow> segment list \<Rightarrow> bool" where
  "apart off [] = True"
| "apart off (sg # sgs) = ((\<forall>sg' \<in> set sgs. apart2 off sg sg') \<and> apart off sgs)"

text \<open>A loadable segment takes its data from the file, between \<open>lo\<close> and \<open>hi\<close>, and goes to a place outside of the file.\<close>

definition seg_from :: "u64 \<Rightarrow> u64 \<Rightarrow> nat \<Rightarrow> nat \<Rightarrow> bytes \<Rightarrow> segment \<Rightarrow> bool" where
  "seg_from f off lo hi m sg \<longleftrightarrow> sg_type sg = 1 \<longrightarrow> seg_ok f off lo hi sg m \<and> lo \<le> unat (sg_offset sg + f) \<and>
     unat (sg_offset sg + f) + unat (sg_filesz sg) \<le> hi"

definition loaded :: "u64 \<Rightarrow> u64 \<Rightarrow> bytes \<Rightarrow> segment list \<Rightarrow> bytes \<Rightarrow> bool" where
  "loaded f off m sgs m' \<longleftrightarrow> length m' = length m \<and>
     (\<forall>sg \<in> set sgs. sg_type sg = 1 \<longrightarrow> take (unat (sg_memsz sg)) (drop (seg_dest off sg) m') = seg_data f sg m) \<and>
     (\<forall>i < length m. (\<forall>sg \<in> set sgs. sg_type sg = 1 \<longrightarrow> i < seg_dest off sg \<or> seg_dest off sg + unat (sg_memsz sg) \<le> i) \<longrightarrow> m' ! i = m ! i)"

lemma same_take_drop: "same lo hi m m' \<Longrightarrow> lo \<le> a \<Longrightarrow> a + n \<le> hi \<Longrightarrow> hi \<le> length m \<Longrightarrow> take n (drop a m') = take n (drop a m)"
  by (auto simp: same_def intro!: nth_equalityI)

lemma seg_data_same:
  assumes "seg_from f off lo hi m sg" "sg_type sg = 1" "same lo hi m m'" "hi \<le> length m"
  shows "seg_data f sg m' = seg_data f sg m"
  using assms same_take_drop[OF assms(3)] by (simp add: seg_data_def seg_from_def)

lemma load_all_Cons:
  "load_all f off pre post (sg # sgs) ms = load_all f off pre post sgs (if sg_type sg = 1 then put_segment f off pre post sg ms else ms)"
  by (simp add: load_all_def)

lemma seg_from_length: "seg_from f off lo hi m sg \<Longrightarrow> length m' = length m \<Longrightarrow> seg_from f off lo hi m' sg"
  by (simp add: seg_from_def seg_ok_def)

lemma load_all_same:
  assumes "\<forall>sg \<in> set sgs. seg_from f off lo hi m sg" "hi \<le> length m"
  shows "same lo hi m (fst (load_all f off pre post sgs (m, s)))"
  using assms
proof (induction sgs arbitrary: m s)
  case (Cons sg sgs)
  let ?r = "if sg_type sg = 1 then put_segment f off pre post sg (m, s) else (m, s)"
  have s1: "same lo hi m (fst ?r)" using Cons.prems put_segment_same[of f off lo hi sg m] by (auto simp: seg_from_def)
  then have "length (fst ?r) = length m" by (rule same_length)
  then have "same lo hi (fst ?r) (fst (load_all f off pre post sgs (fst ?r, snd ?r)))"
    using Cons.prems by (intro Cons.IH) (auto intro: seg_from_length)
  with s1 show ?case by (simp only: load_all_Cons prod.collapse) (rule same_trans)
qed (simp add: load_all_def)

lemma put_segment_accepted: "accepts pre \<Longrightarrow> fst (put_segment f off pre post sg (m, s)) = overlay m (seg_dest off sg) (seg_data f sg m)"
  by (auto simp: put_segment_def accepts_def split: prod.split) (metis fst_conv)

lemma loaded_Cons:
  assumes "seg_from f off lo hi m sg" "sg_type sg = 1" "\<forall>sg' \<in> set sgs. apart2 off sg sg' \<and> seg_from f off lo hi m sg'" "hi \<le> length m"
    "loaded f off (overlay m (seg_dest off sg) (seg_data f sg m)) sgs m'"
  shows "loaded f off m (sg # sgs) m'"
proof -
  let ?d = "seg_dest off sg" and ?x = "seg_data f sg m"
  let ?m = "overlay m ?d ?x"
  have ok: "seg_ok f off lo hi sg m" using assms(1,2) by (simp add: seg_from_def)
  have lx: "length ?x = unat (sg_memsz sg)" using length_seg_data[OF ok] .
  have fit: "?d + length ?x \<le> length m" using ok lx by (simp add: seg_ok_def)
  have len: "length ?m = length m" using length_overlay[OF fit] .
  have sm: "same lo hi m ?m" using copied_same(2)[OF ok assms(4), of lo "hi - lo"] by (cases "lo \<le> hi") (auto simp: same_def len)
  have keep: "m' ! i = ?m ! i" if "?d \<le> i" "i < ?d + length ?x" for i
  proof -
    have "i < length ?m" using that fit len by simp
    moreover have "i < seg_dest off sg' \<or> seg_dest off sg' + unat (sg_memsz sg') \<le> i" if "sg' \<in> set sgs" "sg_type sg' = 1" for sg'
    proof -
      have "apart2 off sg sg'" using assms(3) that by simp
      then show ?thesis using \<open>?d \<le> i\<close> \<open>i < ?d + length ?x\<close> lx that assms(2) by (auto simp: apart2_def)
    qed
    ultimately show ?thesis using assms(5) by (simp add: loaded_def)
  qed
  have "take (unat (sg_memsz sg)) (drop ?d m') = ?x"
    using fit lx assms(5) len keep by (intro nth_equalityI) (auto simp: loaded_def nth_overlay)
  moreover have "seg_data f sg' ?m = seg_data f sg' m" if "sg' \<in> set sgs" "sg_type sg' = 1" for sg'
    using assms(3,4) that sm by (intro seg_data_same) auto
  moreover have "?m ! i = m ! i" if "i < length m" "i < ?d \<or> ?d + unat (sg_memsz sg) \<le> i" for i
    using that fit lx by (auto simp: nth_overlay)
  ultimately show ?thesis using assms(2,5) len by (auto simp: loaded_def)
qed

lemma load_all_loaded:
  assumes "\<forall>sg \<in> set sgs. seg_from f off lo hi m sg" "hi \<le> length m" "apart off sgs" "accepts pre"
  shows "loaded f off m sgs (fst (load_all f off pre post sgs (m, s)))"
  using assms
proof (induction sgs arbitrary: m s)
  case Nil
  then show ?case by (simp add: load_all_def loaded_def)
next
  case (Cons sg sgs)
  show ?case
  proof (cases "sg_type sg = 1")
    case False
    then show ?thesis using Cons by (simp add: load_all_Cons loaded_def)
  next
    case True
    let ?r = "put_segment f off pre post sg (m, s)"
    have r: "fst ?r = overlay m (seg_dest off sg) (seg_data f sg m)" using put_segment_accepted[OF Cons.prems(4)] .
    have ok: "seg_ok f off lo hi sg m" using Cons.prems(1) True by (simp add: seg_from_def)
    have len: "length (fst ?r) = length m" using same_length[OF put_segment_same[OF ok Cons.prems(2)]] .
    have "loaded f off (fst ?r) sgs (fst (load_all f off pre post sgs (fst ?r, snd ?r)))"
      using Cons.prems len by (intro Cons.IH) (auto intro: seg_from_length)
    then have "loaded f off (fst ?r) sgs (fst (load_all f off pre post sgs ?r))" by (simp only: prod.collapse)
    then have "loaded f off (overlay m (seg_dest off sg) (seg_data f sg m)) sgs (fst (load_all f off pre post sgs ?r))"
      by (simp only: r)
    then show ?thesis using Cons.prems True r
      by (intro loaded_Cons[where lo = lo and hi = hi]) (auto simp: load_all_Cons)
  qed
qed

section \<open>Well-formed files\<close>

text \<open>The file header \<open>eh\<close> of \<open>esz\<close> bytes and the program headers \<open>ph\<close> of \<open>sz\<close> bytes in the byte order \<open>le\<close>; all headers end before \<open>hi\<close>.\<close>

definition image :: "(bool \<Rightarrow> u8 \<Rightarrow> bytes \<Rightarrow> u64 \<Rightarrow> elf_file \<Rightarrow> bool) \<Rightarrow> nat \<Rightarrow> (bool \<Rightarrow> bytes \<Rightarrow> u64 \<Rightarrow> segment \<Rightarrow> bool) \<Rightarrow> nat \<Rightarrow>
    bool \<Rightarrow> u8 \<Rightarrow> bytes \<Rightarrow> u64 \<Rightarrow> nat \<Rightarrow> elf_file \<Rightarrow> segment list \<Rightarrow> segment \<Rightarrow> bool" where
  "image eh esz ph sz le d m f hi h sgs x \<longleftrightarrow> eh le d m f h \<and> in_mem m f esz \<and> unat f + esz \<le> hi \<and> hi \<le> length m \<and>
     length sgs = unat (ef_phnum h) \<and> sz \<le> unat (ef_phentsize h) \<and> sg_type x \<noteq> 1 \<and>
     unat (f + ef_phoff h) + (length sgs + 1) * unat (ef_phentsize h) < 2 ^ 64 \<and>
     hdrs_at (ph le) sz (unat f + esz) hi m (ef_phentsize h) (f + ef_phoff h) (sgs @ [x])"

abbreviation image64 :: "bool \<Rightarrow> u8 \<Rightarrow> bytes \<Rightarrow> u64 \<Rightarrow> nat \<Rightarrow> elf_file \<Rightarrow> segment list \<Rightarrow> segment \<Rightarrow> bool" where
  "image64 \<equiv> image ehdr64_in 64 phdr64_in 56"

abbreviation image32 :: "bool \<Rightarrow> u8 \<Rightarrow> bytes \<Rightarrow> u64 \<Rightarrow> nat \<Rightarrow> elf_file \<Rightarrow> segment list \<Rightarrow> segment \<Rightarrow> bool" where
  "image32 \<equiv> image ehdr32_in 52 phdr32_in 32"

definition runnable :: "elf_file \<Rightarrow> bool" where
  "runnable h \<longleftrightarrow> (ef_type h = 2 \<or> ef_type h = 3) \<and> (ef_machine h = 0x14 \<or> ef_machine h = 0x15)"

lemma hdrs_at_widen: "hdrs_at hdr sz lo hi m ent a sgs \<Longrightarrow> lo' \<le> lo \<Longrightarrow> hi \<le> hi' \<Longrightarrow> hdrs_at hdr sz lo' hi' m ent a sgs"
  by (induction sgs arbitrary: a) auto

text \<open>A class of files: its headers, and the functions that turn them round and load the segments. The first two contracts are
  those of its loops.\<close>

locale elf_class = ld: segment_loader "ph False" sz num esz lp + sw: header_swapper "ph True" "ph False" sz num esz swap1 slp
  for ph :: "bool \<Rightarrow> bytes \<Rightarrow> u64 \<Rightarrow> segment \<Rightarrow> bool" and sz num esz
    and lp :: "u64 \<Rightarrow> u64 \<Rightarrow> 's pre_load \<Rightarrow> 's post_load \<Rightarrow> nat \<Rightarrow> u64 \<Rightarrow> bytes \<times> 's \<Rightarrow> (bool \<times> bytes \<times> 's) option" and swap1 slp +
  fixes eh :: "bool \<Rightarrow> u8 \<Rightarrow> bytes \<Rightarrow> u64 \<Rightarrow> elf_file \<Rightarrow> bool"
    and swap_eh :: "bytes \<Rightarrow> u64 \<Rightarrow> bytes option"
    and swap_all :: "bytes \<Rightarrow> u64 \<Rightarrow> bytes option"
    and load_segments :: "u64 \<Rightarrow> u64 \<Rightarrow> 's pre_load \<Rightarrow> 's post_load \<Rightarrow> bytes \<times> 's \<Rightarrow> (u64 \<times> bytes \<times> 's) option"
  assumes esz_16: "16 \<le> esz"
    and eh_same: "eh le d m f h \<Longrightarrow> in_mem m f esz \<Longrightarrow> same (unat f) (unat f + esz) m m' \<Longrightarrow> eh le d m' f h"
    and eh_num: "eh False d m f h \<Longrightarrow> num m f (ef_phnum h) (ef_phentsize h)"
    and swap_eh_ok: "eh True d m f h \<Longrightarrow> in_mem m f esz \<Longrightarrow>
      \<exists>m'. swap_eh m f = Some m' \<and> outside (unat f + 16) (unat f + esz) m m' \<and> eh False d m' f h"
    and swap_all_eq: "swap_eh m f = Some m1 \<Longrightarrow> eh False d m1 f h \<Longrightarrow> swap_all m f = slp f 0 (f + ef_phoff h) m1"
    and load_segments_eq: "eh False d m f h \<Longrightarrow> lp f off pre post 0 (f + ef_phoff h) (m, s) = Some (True, ms) \<Longrightarrow>
      eh False d (fst ms) f h \<Longrightarrow> load_segments f off pre post (m, s) = Some (ef_entry h, ms)"
begin

lemma swap_all_ok:
  assumes "image eh esz ph sz True d m f hi h sgs x"
  shows "\<exists>m'. swap_all m f = Some m' \<and> outside (unat f + 16) hi m m' \<and> image eh esz ph sz False d m' f hi h sgs x"
proof -
  note i = assms[unfolded image_def]
  obtain m1 where m1: "swap_eh m f = Some m1" "outside (unat f + 16) (unat f + esz) m m1" "eh False d m1 f h"
    using swap_eh_ok i by blast
  have len: "length m1 = length m" using outside_length[OF m1(2)] .
  have a: "unat f + esz \<le> unat (f + ef_phoff h)" using i by (cases sgs) auto
  have s1: "same (unat f + esz) hi m m1" using i by (intro outside_same[OF m1(2)]) auto
  have h1: "hdrs_at (ph True) sz (unat f + esz) hi m1 (ef_phentsize h) (f + ef_phoff h) (sgs @ [x])"
    using i by (intro sw.hin_hdrs_same[OF _ s1]) (auto simp: in_mem_def)
  have in1: "in_mem m1 f esz" using i len by (simp add: in_mem_def)
  obtain m' where m': "slp f 0 (f + ef_phoff h) m1 = Some m'" "outside (unat (f + ef_phoff h)) hi m1 m'"
    "hdrs_at (ph False) sz (unat f + esz) hi m' (ef_phentsize h) (f + ef_phoff h) (sgs @ [x])"
    using sw.swap_loop_ok[OF eh_num[OF m1(3)] _ h1 _ in1, of 0] i a len by auto
  have "same (unat f) (unat f + esz) m1 m'" using a i len by (intro outside_same[OF m'(2)]) auto
  then have e': "eh False d m' f h" using eh_same[OF m1(3) in1] by simp
  have o: "outside (unat f + 16) hi m m'" using outside_trans[OF m1(2) m'(2)] a i esz_16 by (auto elim!: outside_mono)
  then have "length m' = length m" by (rule outside_length)
  with e' o m' swap_all_eq[OF m1(1,3)] i show ?thesis by (auto simp: image_def in_mem_def)
qed

lemma segments_ok:
  assumes "image eh esz ph sz False d m f hi h sgs x" "\<forall>sg \<in> set sgs. seg_from f off (unat f) fend m sg" "hi \<le> fend" "fend \<le> length m"
  shows "load_segments f off pre post (m, s) = Some (ef_entry h, load_all f off pre post sgs (m, s))"
    and "eh False d (fst (load_all f off pre post sgs (m, s))) f h"
proof -
  note i = assms(1)[unfolded image_def]
  have n: "num m f (ef_phnum h) (ef_phentsize h)" using i eh_num by blast
  have hd: "hdrs_at (ph False) sz (unat f) fend m (ef_phentsize h) (f + ef_phoff h) (sgs @ [x])"
    using i assms(3) by (auto elim!: hdrs_at_widen)
  have x: "load_all f off pre post (sgs @ [x]) (m, s) = load_all f off pre post sgs (m, s)"
    using i by (simp add: load_all_def)
  have l: "lp f off pre post 0 (f + ef_phoff h) (m, s) = Some (True, load_all f off pre post sgs (m, s))"
    unfolding x[symmetric] using i assms(2-4) by (intro ld.loop_loads[OF n _ hd]) (auto simp: seg_from_def in_mem_def)
  have "same (unat f) fend m (fst (load_all f off pre post sgs (m, s)))" using load_all_same[OF assms(2,4)] .
  then have "same (unat f) (unat f + esz) m (fst (load_all f off pre post sgs (m, s)))" using i assms(3) by (auto elim: same_mono)
  then show e: "eh False d (fst (load_all f off pre post sgs (m, s))) f h" using i eh_same by blast
  show "load_segments f off pre post (m, s) = Some (ef_entry h, load_all f off pre post sgs (m, s))"
    using i l e load_segments_eq by blast
qed

end

interpretation c64: elf_class phdr64_in 56 num64_at 64 load_loop64 swap_phdr64 swap_loop64 ehdr64_in swap_ehdr64
  elf_byteswap_header64 elf_load_segments64
proof (intro elf_class.intro elf_class_axioms.intro, goal_cases)
  case 1 show ?case by (simp add: e64.segment_loader_axioms)
next
  case 2 show ?case by (simp add: s64.header_swapper_axioms)
next
  case 4 then show ?case by (rule ehdr64_same)
next
  case 6 then show ?case by (rule swap_ehdr64_ok)
qed (auto simp: ehdr64_in_def num64_at_def elf_byteswap_header64_def elf_load_segments64_def get_phdr64_def)

interpretation c32: elf_class phdr32_in 32 num32_at 52 load_loop32 swap_phdr32 swap_loop32 ehdr32_in swap_ehdr32
  elf_byteswap_header32 "\<lambda>f off pre post ms. map_option (map_prod ucast id) (elf_load_segments32 f off pre post ms)"
proof (intro elf_class.intro elf_class_axioms.intro, goal_cases)
  case 1 show ?case by (simp add: e32.segment_loader_axioms)
next
  case 2 show ?case by (simp add: s32.header_swapper_axioms)
next
  case 4 then show ?case by (rule ehdr32_same)
next
  case 6 then show ?case by (rule swap_ehdr32_ok)
qed (auto simp: ehdr32_in_def num32_at_def elf_byteswap_header32_def elf_load_segments32_def get_phdr32_def)

lemma check64_ok:
  assumes "image64 le d m f hi h sgs x" "le \<longleftrightarrow> d \<noteq> 2" "runnable h"
  shows "\<exists>m1. elf_check_file m f = Some (2, m1) \<and> outside (unat f + 16) hi m m1 \<and> (d = 2 \<longrightarrow> m1 = m) \<and> image64 False d m1 f hi h sgs x"
proof -
  have e: "ehdr64_in le d m f h" using assms(1) by (simp add: image_def)
  have fin: "elf_check_file m f = Some (2, m1)"
    if "image64 False d m1 f hi h sgs x" "(if 2 \<noteq> d then elf_byteswap_header64 m f else Some m) = Some m1" for m1
    using that e assms(3) by (auto simp: elf_check_file_def ehdr64_in_def image_def runnable_def)
  show ?thesis
  proof (cases "d = 2")
    case True
    then show ?thesis using fin[of m] assms(1,2) by (intro exI[of _ m]) simp
  next
    case False
    then have "image64 True d m f hi h sgs x" using assms(1,2) by simp
    from c64.swap_all_ok[OF this] fin False show ?thesis by auto
  qed
qed

lemma check32_ok:
  assumes "image32 le d m f hi h sgs x" "le \<longleftrightarrow> d \<noteq> 2" "runnable h"
  shows "\<exists>m1. elf_check_file m f = Some (1, m1) \<and> outside (unat f + 16) hi m m1 \<and> (d = 2 \<longrightarrow> m1 = m) \<and> image32 False d m1 f hi h sgs x"
proof -
  have e: "ehdr32_in le d m f h" using assms(1) by (simp add: image_def)
  have fin: "elf_check_file m f = Some (1, m1)"
    if "image32 False d m1 f hi h sgs x" "(if 2 \<noteq> d then elf_byteswap_header32 m f else Some m) = Some m1" for m1
    using that e assms(3) by (auto simp: elf_check_file_def ehdr32_in_def image_def runnable_def)
  show ?thesis
  proof (cases "d = 2")
    case True
    then show ?thesis using fin[of m] assms(1,2) by (intro exI[of _ m]) simp
  next
    case False
    then have "image32 True d m f hi h sgs x" using assms(1,2) by simp
    from c32.swap_all_ok[OF this] fin False show ?thesis by auto
  qed
qed

lemma seg_from_all:
  "\<forall>sg \<in> set sgs. seg_from f off lo hi m sg \<Longrightarrow> outside a b m m1 \<Longrightarrow> \<forall>sg \<in> set sgs. seg_from f off lo hi m1 sg"
  using seg_from_length outside_length by blast

section \<open>Properties\<close>

text \<open>C32: A well-formed 64-bit file in either byte order is loaded: \<open>elf_load_file\<close> returns the type of the file and its entry
  point, every loadable segment is in memory at its address, its data followed by zeros, and the rest of the memory is as before, up
  to the headers, which are turned round in memory if the file has the other byte order.\<close>

theorem elf64_loaded:
  assumes "image64 le d m f hi h sgs x" "le \<longleftrightarrow> d \<noteq> 2" "runnable h" "ef_entry h \<noteq> 0"
    "hi \<le> fend" "fend \<le> length m" "\<forall>sg \<in> set sgs. seg_from f 0 (unat f) fend m sg" "apart 0 sgs" "accepts pre"
  shows "\<exists>m1 m' s'. elf_load_file f e pre post (m, s) =
      Some (if d = 2 then 2 else if ef_flags h AND 3 = 2 then 4 else 3, ef_entry h, m', s') \<and>
    outside (unat f + 16) hi m m1 \<and> (d = 2 \<longrightarrow> m1 = m) \<and> loaded f 0 m1 sgs m'"
proof -
  obtain m1 where m1: "elf_check_file m f = Some (2, m1)" "outside (unat f + 16) hi m m1" "d = 2 \<longrightarrow> m1 = m"
    "image64 False d m1 f hi h sgs x"
    using check64_ok[OF assms(1-3)] by blast
  have len: "length m1 = length m" using outside_length[OF m1(2)] .
  have sf: "\<forall>sg \<in> set sgs. seg_from f 0 (unat f) fend m1 sg" using seg_from_all[OF assms(7) m1(2)] .
  obtain m' s' where r: "load_all f 0 pre post sgs (m1, s) = (m', s')" by fastforce
  have ld: "elf_load_segments64 f 0 pre post (m1, s) = Some (ef_entry h, m', s')" "ehdr64_in False d m' f h"
    using c64.segments_ok[OF m1(4) sf assms(5), of pre post s] assms(6) len r by simp_all
  have "loaded f 0 m1 sgs m'" using load_all_loaded[OF sf _ assms(8,9), of post s] assms(6) len r by simp
  moreover have "elf_load_file f e pre post (m, s) =
      Some (if d = 2 then 2 else if ef_flags h AND 3 = 2 then 4 else 3, ef_entry h, m', s')"
    using m1(1) ld assms(4) by (simp add: elf_load_file_def type64_def elf_get_eflags_64_def ehdr64_in_def)
  ultimately show ?thesis using m1(2,3) by blast
qed

text \<open>The same for 32-bit files.\<close>

theorem elf32_loaded:
  assumes "image32 le d m f hi h sgs x" "le \<longleftrightarrow> d \<noteq> 2" "runnable h" "ef_entry h \<noteq> 0"
    "hi \<le> fend" "fend \<le> length m" "\<forall>sg \<in> set sgs. seg_from f 0 (unat f) fend m sg" "apart 0 sgs" "accepts pre"
  shows "\<exists>m1 m' s'. elf_load_file f e pre post (m, s) = Some (if d = 2 then 1 else 5, ef_entry h, m', s') \<and>
    outside (unat f + 16) hi m m1 \<and> (d = 2 \<longrightarrow> m1 = m) \<and> loaded f 0 m1 sgs m'"
proof -
  obtain m1 where m1: "elf_check_file m f = Some (1, m1)" "outside (unat f + 16) hi m m1" "d = 2 \<longrightarrow> m1 = m"
    "image32 False d m1 f hi h sgs x"
    using check32_ok[OF assms(1-3)] by blast
  have len: "length m1 = length m" using outside_length[OF m1(2)] .
  have sf: "\<forall>sg \<in> set sgs. seg_from f 0 (unat f) fend m1 sg" using seg_from_all[OF assms(7) m1(2)] .
  obtain m' s' where r: "load_all f 0 pre post sgs (m1, s) = (m', s')" by fastforce
  obtain en where ld: "elf_load_segments32 f 0 pre post (m1, s) = Some (en, m', s')" "ucast en = ef_entry h" "ehdr32_in False d m' f h"
    using c32.segments_ok[OF m1(4) sf assms(5), of pre post s] assms(6) len r by auto
  have "loaded f 0 m1 sgs m'" using load_all_loaded[OF sf _ assms(8,9), of post s] assms(6) len r by simp
  moreover have "elf_load_file f e pre post (m, s) = Some (if d = 2 then 1 else 5, ef_entry h, m', s')"
    using m1(1) ld assms(4) by (simp add: elf_load_file_def ehdr32_in_def)
  ultimately show ?thesis using m1(2,3) by blast
qed

section \<open>Sample files\<close>

text \<open>A little-endian 64-bit file at address 0 with one segment of 4 bytes, which goes to address 184, and a big-endian 32-bit one.\<close>

definition le_file :: bytes where
  "le_file = [0x7f, 0x45, 0x4c, 0x46, 2, 1, 1] @ replicate 9 0 @ [2, 0, 0x15, 0, 1, 0, 0, 0] @
     [184, 0, 0, 0, 0, 0, 0, 0] @ [64, 0, 0, 0, 0, 0, 0, 0] @ [0, 0, 0, 0, 0, 0, 0, 0] @ [2, 0, 0, 0, 64, 0, 56, 0, 1, 0, 64, 0, 0, 0, 0, 0] @
     [1, 0, 0, 0, 7, 0, 0, 0] @ [176, 0, 0, 0, 0, 0, 0, 0] @ [184, 0, 0, 0, 0, 0, 0, 0] @ [184, 0, 0, 0, 0, 0, 0, 0] @
     [4, 0, 0, 0, 0, 0, 0, 0] @ [8, 0, 0, 0, 0, 0, 0, 0] @ [8, 0, 0, 0, 0, 0, 0, 0] @ replicate 56 0 @
     [0x60, 1, 2, 3, 255, 255, 255, 255] @ replicate 8 255"

definition le_header :: elf_file where
  "le_header = \<lparr>ef_type = 2, ef_machine = 0x15, ef_entry = 184, ef_phoff = 64, ef_flags = 2, ef_phentsize = 56, ef_phnum = 1\<rparr>"

definition le_segment :: segment where
  "le_segment = \<lparr>sg_type = 1, sg_offset = 176, sg_vaddr = 184, sg_paddr = 184, sg_filesz = 4, sg_memsz = 8\<rparr>"

definition no_segment :: segment where
  "no_segment = \<lparr>sg_type = 0, sg_offset = 0, sg_vaddr = 0, sg_paddr = 0, sg_filesz = 0, sg_memsz = 0\<rparr>"

definition be_file :: bytes where
  "be_file = [0x7f, 0x45, 0x4c, 0x46, 1, 2, 1] @ replicate 9 0 @ [0, 2, 0, 0x14, 0, 0, 0, 1] @
     [0, 0, 0, 128] @ [0, 0, 0, 52] @ [0, 0, 0, 0] @ [0, 0, 0, 0, 0, 52, 0, 32, 0, 1, 0, 40, 0, 0, 0, 0] @
     [0, 0, 0, 1] @ [0, 0, 0, 116] @ [0, 0, 0, 128] @ [0, 0, 0, 128] @ [0, 0, 0, 4] @ [0, 0, 0, 8] @ [0, 0, 0, 7] @ [0, 0, 0, 4] @
     replicate 32 0 @ [0x60, 1, 2, 3] @ replicate 16 255"

definition be_header :: elf_file where
  "be_header = \<lparr>ef_type = 2, ef_machine = 0x14, ef_entry = 128, ef_phoff = 52, ef_flags = 0, ef_phentsize = 32, ef_phnum = 1\<rparr>"

definition be_segment :: segment where
  "be_segment = \<lparr>sg_type = 1, sg_offset = 116, sg_vaddr = 128, sg_paddr = 128, sg_filesz = 4, sg_memsz = 8\<rparr>"

lemmas file_simps = le_file_def le_header_def le_segment_def no_segment_def be_file_def be_header_def be_segment_def

lemmas read_simps = image_def in_mem_def ehdr64_in_def phdr64_in_def ehdr32_in_def phdr32_in_def phdr32_at_def ld8_def ld16_def ld32_def ld64_def
  rd8_def rd16_def rd32_def get_defs nth_append bswap_16_def bswap_32_def bswap_64_def be_simps

lemma le_file_image: "image64 True 1 le_file 0 176 le_header [le_segment] no_segment"
  by (simp add: read_simps file_simps) (simp add: cat16_def cat32_def cat64_def)

lemma be_file_image: "image32 False 2 be_file 0 116 be_header [be_segment] no_segment"
  by (simp add: read_simps file_simps option.map_id) (simp add: cat16_def cat32_def cat64_def)

lemma file_lengths: "length le_file = 192" "length be_file = 136"
  by (simp_all add: file_simps)

theorem elf64_loaded_witness:
  "\<exists>m1 m' s'. elf_load_file 0 0 None None (le_file, ()) = Some (4, 184, m', s') \<and> outside 16 176 le_file m1 \<and> loaded 0 0 m1 [le_segment] m'"
proof -
  have "runnable le_header" "ef_entry le_header \<noteq> 0" "accepts (None :: unit pre_load)"
    by (simp_all add: runnable_def le_header_def accepts_def run_pre_def)
  moreover have "seg_from 0 0 (unat 0) 180 le_file le_segment" "apart 0 [le_segment]"
    by (simp_all add: seg_from_def seg_ok_def le_segment_def file_lengths)
  ultimately show ?thesis
    using elf64_loaded[OF le_file_image, of 180 None 0 None "()"] by (simp add: file_lengths le_header_def)
qed

theorem elf32_loaded_witness:
  "\<exists>m' s'. elf_load_file 0 0 None None (be_file, ()) = Some (1, 128, m', s') \<and> loaded 0 0 be_file [be_segment] m'"
proof -
  have "runnable be_header" "ef_entry be_header \<noteq> 0" "accepts (None :: unit pre_load)"
    by (simp_all add: runnable_def be_header_def accepts_def run_pre_def)
  moreover have "seg_from 0 0 (unat 0) 120 be_file be_segment" "apart 0 [be_segment]"
    by (simp_all add: seg_from_def seg_ok_def be_segment_def file_lengths)
  ultimately show ?thesis
    using elf32_loaded[OF be_file_image, of 120 None 0 None "()"] by (auto simp: file_lengths be_header_def)
qed

end
