(* ===== verification/Elf_Props.thy ===== *)
theory Elf_Props
  imports Elf_Image
begin

text \<open>The size of a file, relocations, and the faults of the loader.\<close>

section \<open>The size of a file\<close>

fun extents :: "bytes \<Rightarrow> u16 \<Rightarrow> u64 \<Rightarrow> u64 \<Rightarrow> u64 \<Rightarrow> u64 \<Rightarrow> (u64 \<times> u64) list \<Rightarrow> bool" where
  "extents m entsize fo fs limit a [] = True"
| "extents m entsize fo fs limit a ((x, y) # es) =
     (ld64 m (a + fo) = Some x \<and> ld64 m (a + fs) = Some y \<and> a + ucast entsize \<le> limit \<and>
      extents m entsize fo fs limit (a + ucast entsize) es)"

definition farthest :: "(u64 \<times> u64) list \<Rightarrow> nat" where
  "farthest es = foldr (\<lambda>(x, y) n. max (unat x + unat y) n) es 0"

lemma farthest_bounds: "(x, y) \<in> set es \<Longrightarrow> unat x + unat y \<le> farthest es"
  by (induction es) (auto simp: farthest_def)

lemma unat_max: "unat (max a b :: u64) = max (unat a) (unat b)"
  by (simp add: max_def word_le_nat_alt)

lemma extent_loop64_ok:
  assumes "ld8 m ehdr = Some d" "extents m entsize fo fs limit a es" "farthest es < 2 ^ 64" "ld8 m (ehdr + 5) = Some 2"
  shows "\<exists>v. extent_loop64 m ehdr limit entsize fo fs (length es) a sz = Some (Some v) \<and> unat v = max (farthest es) (unat sz)"
  using assms(2,3)
proof (induction es arbitrary: a sz)
  case Nil
  then show ?case by (simp add: farthest_def)
next
  case (Cons e es)
  obtain x y where e: "e = (x, y)" by fastforce
  have "unat x + unat y < 2 ^ LENGTH(64)" using Cons.prems(2) e by (simp add: farthest_def)
  then have xy: "unat (x + y) = unat x + unat y" by (simp add: unat_word_ariths)
  obtain v where v: "extent_loop64 m ehdr limit entsize fo fs (length es) (a + ucast entsize) (max (x + y) sz) = Some (Some v)"
    "unat v = max (farthest es) (unat (max (x + y) sz))"
    using Cons.IH[of "a + ucast entsize" "max (x + y) sz"] Cons.prems e by (auto simp: farthest_def)
  have "unat v = max (farthest (e # es)) (unat sz)"
    using v(2) e xy by (simp add: farthest_def unat_max max.commute max.left_commute)
  moreover have "extent_loop64 m ehdr limit entsize fo fs (length (e # es)) a sz =
      extent_loop64 m ehdr limit entsize fo fs (length es) (a + ucast entsize) (max (x + y) sz)"
    using Cons.prems(1) e assms(4) by (simp add: elf64_to_cpu_def not_le[symmetric])
  ultimately show ?case using v(1) by simp
qed

lemma unat_round_up4: "unat x + 3 < 2 ^ 64 \<Longrightarrow> unat (round_up4 x) = (unat x + 3) div 4 * 4"
proof -
  assume a: "unat x + 3 < 2 ^ 64"
  then have "unat (x + 3) = unat x + 3" by (simp add: unat_word_ariths)
  then have d: "unat ((x + 3) div 4) = (unat x + 3) div 4" by (simp add: unat_div)
  have "(unat x + 3) div 4 * 4 \<le> unat x + 3" by simp
  then have "(unat x + 3) div 4 * 4 < 2 ^ LENGTH(64)" using a by simp
  then show ?thesis using d by (simp add: round_up4_def unat_word_ariths)
qed

text \<open>The file header of a big-endian 64-bit file with the tables of program and section headers.\<close>

definition size_header :: "bytes \<Rightarrow> u64 \<Rightarrow> u64 \<Rightarrow> (u64 \<times> u64) list \<Rightarrow> (u64 \<times> u64) list \<Rightarrow> bool" where
  "size_header m f bsz ps ss \<longleftrightarrow> ld32 m f = Some 0x7f454c46 \<and> ld8 m (f + 4) = Some 2 \<and> ld8 m (f + 5) = Some 2 \<and> ld16 m (f + 52) = Some 64 \<and>
     (\<exists>phoff pent shoff sent. ld64 m (f + 32) = Some phoff \<and> ld16 m (f + 54) = Some pent \<and> ld16 m (f + 56) = Some (of_nat (length ps)) \<and>
        length ps < 65536 \<and> ld64 m (f + 40) = Some shoff \<and> ld16 m (f + 58) = Some sent \<and> ld16 m (f + 60) = Some (of_nat (length ss)) \<and>
        length ss < 65536 \<and> extents m pent 8 32 (f + bsz) (f + phoff) ps \<and> extents m sent 24 32 (f + bsz) (f + shoff) ss)"

lemma unat_of_nat16: "n < 65536 \<Longrightarrow> unat (of_nat n :: u16) = n"
  by (simp add: unsigned_of_nat take_bit_nat_eq_self_iff)

lemma file_size64_ok:
  assumes "size_header m f bsz ps ss" "24 \<le> bsz"
  defines "e \<equiv> (max (farthest ps) (farthest ss) + 3) div 4 * 4"
  assumes "e \<le> unat bsz" "unat bsz < 2 ^ 63"
  shows "elf_get_file_size m f bsz = Some (int e)"
proof -
  obtain phoff pent shoff sent where h: "ld64 m (f + 32) = Some phoff" "ld16 m (f + 54) = Some pent" "ld16 m (f + 56) = Some (of_nat (length ps))"
    "length ps < 65536" "ld64 m (f + 40) = Some shoff" "ld16 m (f + 58) = Some sent" "ld16 m (f + 60) = Some (of_nat (length ss))"
    "length ss < 65536" "extents m pent 8 32 (f + bsz) (f + phoff) ps" "extents m sent 24 32 (f + bsz) (f + shoff) ss"
    using assms(1) unfolding size_header_def by blast
  have b: "ld32 m f = Some 0x7f454c46" "ld8 m (f + 4) = Some 2" "ld8 m (f + 5) = Some 2" "ld16 m (f + 52) = Some 64"
    using assms(1) by (simp_all add: size_header_def)
  obtain d0 where d0: "ld8 m f = Some d0" using b(1) by (auto simp: ld32_def rd32_def ld8_def rd8_def split: if_splits)
  have far: "farthest ps \<le> e" "farthest ss \<le> e" "max (farthest ps) (farthest ss) \<le> e" unfolding e_def by linarith+
  have lim: "farthest ps < 2 ^ 64" "farthest ss < 2 ^ 64" using far assms(4,5) by simp_all
  obtain v where v: "extent_loop64 m f (f + bsz) pent 8 32 (length ps) (f + phoff) 0 = Some (Some v)" "unat v = farthest ps"
    using extent_loop64_ok[OF d0 h(9) lim(1) b(3), of 0] by auto
  obtain w where w: "extent_loop64 m f (f + bsz) sent 24 32 (length ss) (f + shoff) v = Some (Some w)" "unat w = max (farthest ss) (farthest ps)"
    using extent_loop64_ok[OF d0 h(10) lim(2) b(3), of v] v(2) by auto
  have r: "unat (round_up4 w) = e"
    using w(2) far(3) assms(4,5) by (subst unat_round_up4) (simp_all add: e_def max.commute)
  have le: "\<not> bsz < round_up4 w" using r assms(4) by (simp add: word_less_nat_alt)
  have u: "uint (round_up4 w) = int e" unfolding r[symmetric] by simp
  have "int e < 2 ^ 63" using assms(4,5) by simp
  then have "sint (round_up4 w) = int e" unfolding sint_uint u by (intro signed_take_bit_int_eq_self) simp_all
  then show ?thesis
    using b h v w le assms(2) unat_of_nat16[OF h(4)] unat_of_nat16[OF h(8)]
    by (simp add: elf_get_file_size_def elf_get_file_size64_def elf64_to_cpu_def elf16_to_cpu_def not_less)
qed

section \<open>Relocations\<close>

text \<open>The values the ABI prescribes for the relocation types, as numbers: \<open>x\<close> is S + A.\<close>

definition abi_value :: "u32 \<Rightarrow> nat \<Rightarrow> nat" where
  "abi_value ty x = (if ty = 4 then x mod 2 ^ 16 else if ty = 5 then x div 2 ^ 16 mod 2 ^ 16
     else if ty = 6 then (x + 2 ^ 15) div 2 ^ 16 mod 2 ^ 16 else if ty = 39 then x div 2 ^ 32 mod 2 ^ 16
     else if ty = 41 then x div 2 ^ 48 mod 2 ^ 16 else if ty = 1 then x mod 2 ^ 32 else x)"

lemma unat_half: "unat (ucast (drop_bit k s) :: u16) = unat (s :: u64) div 2 ^ k mod 2 ^ 16"
  by (simp add: unsigned_ucast_eq take_bit_eq_mod unat_drop_bit_eq drop_bit_eq_div[of k "unat s"])

lemma bit15: "s AND 0x8000 \<noteq> 0 \<longleftrightarrow> odd (unat (s :: u64) div 2 ^ 15)"
proof -
  have "s AND 0x8000 \<noteq> 0 \<longleftrightarrow> bit s 15" using and_exp_eq_0_iff_not_bit[of s 15] by simp
  also have "\<dots> \<longleftrightarrow> bit (unat s) 15" by (simp add: bit_unsigned_iff)
  finally show ?thesis by (simp add: bit_iff_odd)
qed

lemma unat_ha: "unat (ucast (drop_bit 16 s + (if s AND 0x8000 \<noteq> 0 then 1 else 0)) :: u16) = (unat (s :: u64) + 2 ^ 15) div 2 ^ 16 mod 2 ^ 16"
proof -
  let ?c = "if s AND 0x8000 \<noteq> 0 then 1 else 0"
  have d: "unat (drop_bit 16 s) = unat s div 2 ^ 16" by (simp add: unat_drop_bit_eq drop_bit_eq_div[of 16 "unat s"])
  have lt: "unat s div 2 ^ 16 + 1 < 2 ^ 64" using unsigned_less[of s, where 'a=nat] by simp
  have "unat (drop_bit 16 s + ?c) = unat s div 2 ^ 16 + ?c" using d lt by (simp add: unat_word_ariths)
  moreover have "unat s div 2 ^ 16 + ?c = (unat s + 2 ^ 15) div 2 ^ 16"
  proof -
    have "unat s div 2 ^ 16 = unat s div 2 ^ 15 div 2" "(unat s + 2 ^ 15) div 2 ^ 16 = (unat s div 2 ^ 15 + 1) div 2"
      by (simp_all flip: div_mult2_eq)
    moreover have "k div 2 + (if odd k then 1 else 0) = (k + 1) div 2" for k :: nat by presburger
    ultimately show ?thesis unfolding bit15 by presburger
  qed
  ultimately show ?thesis by (simp add: unsigned_ucast_eq take_bit_eq_mod)
qed

definition width :: "u32 \<Rightarrow> nat" where
  "width ty = (if ty = 38 then 8 else if ty = 1 then 4 else 2)"

definition field_value :: "u32 \<Rightarrow> bytes \<Rightarrow> u64 \<Rightarrow> nat option" where
  "field_value ty m a = (if ty = 38 then map_option unat (ld64 m a) else if ty = 1 then map_option unat (ld32 m a)
     else map_option unat (ld16 m a))"

text \<open>A relocation entry and the symbol it refers to.\<close>

record reloc =
  rl_offset :: u64
  rl_info :: u64
  rl_addend :: u64
  rl_value :: u64

definition reloc_at :: "bytes \<Rightarrow> u64 \<Rightarrow> u64 \<Rightarrow> reloc \<Rightarrow> bool" where
  "reloc_at m a y r \<longleftrightarrow> ld64 m a = Some (rl_offset r) \<and> ld64 m (a + 8) = Some (rl_info r) \<and> ld64 m (a + 16) = Some (rl_addend r) \<and>
     ld64 m (y + 8) = Some (rl_value r)"

lemma store_field:
  "unat a + 2 \<le> length m \<Longrightarrow> \<exists>m'. st16 m a v = Some m' \<and> outside (unat a) (unat a + 2) m m' \<and> ld16 m' a = Some v"
  "unat a + 4 \<le> length m \<Longrightarrow> \<exists>m'. st32 m a w = Some m' \<and> outside (unat a) (unat a + 4) m m' \<and> ld32 m' a = Some w"
  "unat a + 8 \<le> length m \<Longrightarrow> \<exists>m'. st64 m a x = Some m' \<and> outside (unat a) (unat a + 8) m m' \<and> ld64 m' a = Some x"
proof -
  have st16: "unat a + 2 \<le> length m \<Longrightarrow> \<exists>m'. st16 m a v = Some m'" by (simp add: st16_def wr16_def wrn_def)
  have st32: "unat a + 4 \<le> length m \<Longrightarrow> \<exists>m'. st32 m a w = Some m'" by (simp add: st32_def wr32_def wrn_def)
  have st64: "unat a + 8 \<le> length m \<Longrightarrow> \<exists>m'. st64 m a x = Some m'" by (simp add: st64_def wrn_def)
  have 2: "st16 m a v = Some m' \<Longrightarrow> outside (unat a) (unat a + 2) m m'" for m'
    by (auto simp: st16_def wr16_def intro!: outsideI)
  have 4: "st32 m a w = Some m' \<Longrightarrow> outside (unat a) (unat a + 4) m m'" for m'
    by (auto simp: st32_def wr32_def intro!: outsideI)
  have 8: "st64 m a x = Some m' \<Longrightarrow> outside (unat a) (unat a + 8) m m'" for m'
    by (auto simp: st64_def intro!: outsideI)
  show "unat a + 2 \<le> length m \<Longrightarrow> \<exists>m'. st16 m a v = Some m' \<and> outside (unat a) (unat a + 2) m m' \<and> ld16 m' a = Some v"
    by (metis 2 ld16_st16 st16)
  show "unat a + 4 \<le> length m \<Longrightarrow> \<exists>m'. st32 m a w = Some m' \<and> outside (unat a) (unat a + 4) m m' \<and> ld32 m' a = Some w"
    by (metis 4 ld32_st32 st32)
  show "unat a + 8 \<le> length m \<Longrightarrow> \<exists>m'. st64 m a x = Some m' \<and> outside (unat a) (unat a + 8) m m' \<and> ld64 m' a = Some x"
    by (metis 8 ld64_st64 st64)
qed

lemma rela_ok:
  fixes off :: u64
  assumes "elf_get_base_addr64 m f = Some base" "reloc_at m a y r" "base \<le> rl_offset r"
  defines "ty \<equiv> ucast (rl_info r) :: u32" and "d \<equiv> rl_offset r + off" and "x \<equiv> rl_value r + off + rl_addend r"
  assumes "ty \<in> {1, 4, 5, 6, 38, 39, 41}" "unat d + width ty \<le> length m"
  shows "\<exists>m'. elf_apply_rela64 f off a y m = Some m' \<and> outside (unat d) (unat d + width ty) m m' \<and>
    field_value ty m' d = Some (abi_value ty (unat x))"
proof -
  have eq: "elf_apply_rela64 f off a y m = (if ty = 1 then st32 m d (ucast x) else if ty = 38 then st64 m d x
      else if ty = 41 then st16 m d (ucast (drop_bit 48 x)) else if ty = 39 then st16 m d (ucast (drop_bit 32 x))
      else if ty = 5 then st16 m d (ucast (drop_bit 16 x)) else if ty = 4 then st16 m d (ucast x)
      else st16 m d (ucast (drop_bit 16 x + (if x AND 0x8000 \<noteq> 0 then 1 else 0))))"
    using assms(1-3,7) unfolding ty_def[symmetric]
    by (auto simp: elf_apply_rela64_def reloc_at_def Let_def d_def x_def simp flip: ty_def)
  have low: "unat (ucast x :: u16) = unat x mod 2 ^ 16" "unat (ucast x :: u32) = unat x mod 2 ^ 32"
    by (simp_all add: unsigned_ucast_eq take_bit_eq_mod)
  consider "ty = 1" | "ty = 38" | "ty \<in> {4, 5, 6, 39, 41}" using assms(7) by auto
  then show ?thesis
  proof cases
    case 1
    then show ?thesis using store_field(2)[of d m "ucast x"] assms(8) low by (auto simp: eq width_def field_value_def abi_value_def)
  next
    case 2
    then show ?thesis using store_field(3)[of d m x] assms(8) by (auto simp: eq width_def field_value_def abi_value_def)
  next
    case 3
    then have w: "width ty = 2" by (auto simp: width_def)
    have "\<exists>v. elf_apply_rela64 f off a y m = st16 m d v \<and> unat v = abi_value ty (unat x)"
      using 3 unfolding eq abi_value_def by (elim insertE emptyE) (simp_all only: unat_half[symmetric] unat_ha[symmetric] low(1)[symmetric], simp_all, blast+)
    then obtain v where v: "elf_apply_rela64 f off a y m = st16 m d v" "unat v = abi_value ty (unat x)" by blast
    from 3 have "field_value ty m' d = map_option unat (ld16 m' d)" for m' by (auto simp: field_value_def)
    with store_field(1)[of d m v] assms(8) v w show ?thesis by (auto simp del: add_2_eq_Suc')
  qed
qed

text \<open>A relocation section whose entries have size 0 and whose entry at \<open>i\<close> changes nothing.\<close>

definition idle_rela :: "u64 \<Rightarrow> u64 \<Rightarrow> u64 \<Rightarrow> u64 \<Rightarrow> u32 \<Rightarrow> bytes \<Rightarrow> bool" where
  "idle_rela f off sh sy i m \<longleftrightarrow> (\<exists>n so info yo. ld64 m (sh + 32) = Some n \<and> ucast i < n \<and> ld64 m (sh + 24) = Some so \<and>
     ld64 m (f + so + ucast i + 8) = Some info \<and> ld64 m (sy + 24) = Some yo \<and>
     elf_apply_rela64 f off (f + so + ucast i) (f + yo + ucast (hi32 info) * 24) m = Some m \<and> ld64 m (sh + 56) = Some 0)"

lemma ucast_ucast_u32: "ucast (ucast (i :: u32) :: u64) = i"
  by (rule bit_word_eqI) (simp add: bit_simps)

lemma rela_loop_stuck:
  assumes "rela_loop f off sh sy i m = Some m'" "idle_rela f off sh sy i m"
  shows False
proof -
  have "\<not> idle_rela f off sh sy i m"
    by (rule rela_loop.raw_induct[where P = "\<lambda>f off sh sy i m m'. \<not> idle_rela f off sh sy i m", OF _ assms(1)])
      (auto simp: idle_rela_def Let_def ucast_ucast_u32)
  with assms(2) show False by blast
qed

section \<open>Properties\<close>

text \<open>\<open>elf_get_file_size\<close> of a big-endian 64-bit file is the end of the farthest segment or section, rounded up to a multiple of 4,
  if this lies inside the buffer.\<close>

theorem elf_size_exact:
  assumes "size_header m f bsz ps ss" "24 \<le> bsz" "(max (farthest ps) (farthest ss) + 3) div 4 * 4 \<le> unat bsz" "unat bsz < 2 ^ 63"
  shows "elf_get_file_size m f bsz = Some (int ((max (farthest ps) (farthest ss) + 3) div 4 * 4))"
  using assms by (rule file_size64_ok)

text \<open>\<open>elf_get_file_size\<close> fails for every well-formed file in the other byte order: the header size is compared without turning it round.\<close>

theorem elf_size_little_endian:
  assumes "ld32 m f = Some 0x7f454c46" "ld8 m (f + 4) = Some 2" "get16 True m (f + 52) = Some 64"
  shows "elf_get_file_size m f bsz = Some (-1)"
proof -
  obtain v where v: "ld16 m (f + 52) = Some v" "bswap_16 v = 64" using assms(3) by (auto simp: get16_def)
  have "v = bswap_16 64" using v(2) bswap_involutive(1)[of v] by simp
  also have "\<dots> \<noteq> 64" by (simp add: bswap_16_def cat16_def lo8_def hi8_def)
  finally show ?thesis using v assms(1,2) by (simp add: elf_get_file_size_def elf_get_file_size64_def)
qed


text \<open>The loops over the program headers run once too often: the bytes behind the last program header are taken for one more, and if they
  look like a loadable segment, it is loaded.\<close>

theorem elf_reads_past_table:
  assumes "ehdr64_in False d m f h" "in_mem m f 64" "length sgs = unat (ef_phnum h)"
    "hdrs_at phdr64_at 56 (unat f) fend m (ef_phentsize h) (f + ef_phoff h) (sgs @ [x])"
    "\<forall>sg \<in> set (sgs @ [x]). seg_from f off (unat f) fend m sg" "unat f + 64 \<le> fend" "fend \<le> length m"
  shows "elf_load_segments64 f off pre post (m, s) = Some (ef_entry h, load_all f off pre post (sgs @ [x]) (m, s))"
proof -
  have n: "num64_at m f (ef_phnum h) (ef_phentsize h)" using assms(1) by (rule c64.eh_num)
  have l: "load_loop64 f off pre post 0 (f + ef_phoff h) (m, s) = Some (True, load_all f off pre post (sgs @ [x]) (m, s))"
    using assms by (intro e64.loop_loads[OF n _ assms(4)]) (auto simp: seg_from_def in_mem_def)
  have "same (unat f) (unat f + 64) m (fst (load_all f off pre post (sgs @ [x]) (m, s)))"
    by (rule same_mono[OF load_all_same[OF assms(5,7)]]) (use assms(6) in auto)
  with l show ?thesis using c64.load_segments_eq[OF assms(1) l] ehdr64_same[OF assms(1,2)] by blast
qed

text \<open>A relocation section with entries of size 0 makes the loader loop forever.\<close>

theorem elf_rela_entsize_zero:
  assumes "idle_rela f off sh sy i m"
  shows "rela_loop f off sh sy i m = None"
  using rela_loop_stuck[OF _ assms] by (cases "rela_loop f off sh sy i m") auto

section \<open>A sample file\<close>

text \<open>A big-endian 64-bit file at address 0 with one program header, followed by bytes that look like another one, the data of the
  segments, the places they go to, a relocation entry, a symbol and a section header.\<close>

definition be64_file :: bytes where
  "be64_file = [0x7f, 0x45, 0x4c, 0x46, 2, 2, 1] @ replicate 9 0 @ [0, 2, 0, 0x15, 0, 0, 0, 1] @
     [0, 0, 0, 0, 0, 0, 0, 184] @ [0, 0, 0, 0, 0, 0, 0, 64] @ [0, 0, 0, 0, 0, 0, 0, 0] @ [0, 0, 0, 0, 0, 64, 0, 56, 0, 1, 0, 64, 0, 0, 0, 0] @
     [0, 0, 0, 1, 0, 0, 0, 7] @ [0, 0, 0, 0, 0, 0, 0, 176] @ [0, 0, 0, 0, 0, 0, 0, 184] @ [0, 0, 0, 0, 0, 0, 0, 184] @
     [0, 0, 0, 0, 0, 0, 0, 4] @ [0, 0, 0, 0, 0, 0, 0, 8] @ [0, 0, 0, 0, 0, 0, 0, 8] @
     [0, 0, 0, 1, 0, 0, 0, 7] @ [0, 0, 0, 0, 0, 0, 0, 180] @ [0, 0, 0, 0, 0, 0, 0, 192] @ [0, 0, 0, 0, 0, 0, 0, 192] @
     [0, 0, 0, 0, 0, 0, 0, 4] @ [0, 0, 0, 0, 0, 0, 0, 4] @ [0, 0, 0, 0, 0, 0, 0, 8] @
     [0x60, 1, 2, 3, 4, 5, 6, 7] @ replicate 16 255 @
     [0, 0, 0, 0, 0, 0, 0, 184] @ [0, 0, 0, 0, 0, 0, 0, 6] @ [0, 0, 0, 0, 0x12, 0x34, 0x80, 0] @ replicate 24 0 @
     replicate 24 0 @ [0, 0, 0, 0, 0, 0, 0, 224] @ [0, 0, 0, 0, 0, 0, 0, 24] @ replicate 24 0"

definition be64_header :: elf_file where
  "be64_header = \<lparr>ef_type = 2, ef_machine = 0x15, ef_entry = 184, ef_phoff = 64, ef_flags = 0, ef_phentsize = 56, ef_phnum = 1\<rparr>"

definition past_segment :: segment where
  "past_segment = \<lparr>sg_type = 1, sg_offset = 180, sg_vaddr = 192, sg_paddr = 192, sg_filesz = 4, sg_memsz = 4\<rparr>"

definition sample_reloc :: reloc where
  "sample_reloc = \<lparr>rl_offset = 184, rl_info = 6, rl_addend = 0x12348000, rl_value = 0\<rparr>"

lemma be64_length: "length be64_file = 312"
  by (simp add: be64_file_def)

lemmas load_simps = ld8_def ld16_def ld32_def ld64_def rd8_def rd16_def rd32_def nth_append be64_file_def

lemma be64_loads:
  "ld32 be64_file 0 = Some 0x7f454c46" "ld8 be64_file 4 = Some 2" "ld8 be64_file 5 = Some 2" "ld16 be64_file 16 = Some 2"
  "ld16 be64_file 18 = Some 0x15" "ld64 be64_file 24 = Some 184" "ld64 be64_file 32 = Some 64" "ld64 be64_file 40 = Some 0"
  "ld32 be64_file 48 = Some 0" "ld16 be64_file 52 = Some 64" "ld16 be64_file 54 = Some 56" "ld16 be64_file 56 = Some 1"
  "ld16 be64_file 58 = Some 64" "ld16 be64_file 60 = Some 0"
  by (simp add: load_simps; simp add: cat16_def cat32_def cat64_def)+

lemma be64_segments: "phdr64_at be64_file 64 le_segment" "phdr64_at be64_file 120 past_segment"
  by (simp add: phdr64_at_def le_segment_def past_segment_def load_simps; simp add: cat16_def cat32_def cat64_def)+

lemma be64_reloc: "reloc_at be64_file 200 224 sample_reloc"
  by (simp add: reloc_at_def sample_reloc_def load_simps; simp add: cat16_def cat32_def cat64_def)

lemma be64_sections:
  "ld64 be64_file 280 = Some 24" "ld64 be64_file 272 = Some 224" "ld64 be64_file 232 = Some 0" "ld64 be64_file 304 = Some 0"
  "ld64 be64_file 224 = Some 0"
  by (simp add: load_simps; simp add: cat16_def cat32_def cat64_def)+

lemma be64_base: "elf_get_base_addr64 be64_file 0 = Some 184"
  using be64_segments(1) by (simp add: elf_get_base_addr64_def get_phdr64_def be64_loads numeral_2_eq_2 phdr64_at_def le_segment_def)

theorem elf_size_exact_witness: "elf_get_file_size be64_file 0 192 = Some 180"
proof -
  have "size_header be64_file 0 192 [(176, 4)] []"
    using be64_segments(1) by (simp add: size_header_def be64_loads phdr64_at_def le_segment_def)
  from elf_size_exact[OF this] show ?thesis by (simp add: farthest_def)
qed

theorem elf_size_little_endian_witness: "elf_get_file_size le_file 0 192 = Some (-1)"
  by (rule elf_size_little_endian)
    (simp_all add: ld8_def ld16_def ld32_def rd8_def rd16_def rd32_def get16_def nth_append le_file_def,
     simp_all add: cat16_def cat32_def bswap_16_def lo8_def hi8_def)


theorem elf_reads_past_table_witness:
  "elf_load_segments64 0 0 None None (be64_file, ()) = Some (184, load_all 0 0 None None [le_segment, past_segment] (be64_file, ()))"
proof -
  have "ehdr64_in False 2 be64_file 0 be64_header" by (simp add: ehdr64_in_def be64_loads be64_header_def)
  moreover have "\<forall>sg \<in> set ([le_segment] @ [past_segment]). seg_from 0 0 (unat 0) 184 be64_file sg"
    by (simp add: seg_from_def seg_ok_def le_segment_def past_segment_def be64_length)
  ultimately show ?thesis
    using elf_reads_past_table[of 2 be64_file 0 be64_header "[le_segment]" 184 past_segment 0 None None "()"] be64_segments
    by (simp add: be64_length be64_header_def in_mem_def)
qed

theorem elf_rela_entsize_zero_witness: "rela_loop 0 0 248 248 0 be64_file = None"
  by (rule elf_rela_entsize_zero) (simp add: idle_rela_def elf_apply_rela64_def be64_sections be64_base)

end
