(* ===== verification/Net_Args.thy ===== *)
theory Net_Args
  imports Libc_Stdlib Net_Dns
begin

text \<open>The arguments of the network boot (\<open>src/lib/libnet/args.c\<close>): strings of arguments separated by commas, and IPv4
  addresses in dotted form. A pointer into an argument string is an offset.\<close>

section \<open>Model\<close>

text \<open>The number of characters before the next comma or the end.\<close>

fun arg_end :: "bytes \<Rightarrow> nat option" where
  "arg_end [] = None"
| "arg_end (c # s) = (if c = 44 \<or> c = 0 then Some 0 else map_option Suc (arg_end s))"

fun get_arg_ptr :: "bytes \<Rightarrow> nat \<Rightarrow> nat \<Rightarrow> nat option option" where
  "get_arg_ptr arg_str pos 0 = Some (Some pos)"
| "get_arg_ptr arg_str pos (Suc k) = do {
     n \<leftarrow> arg_end (drop pos arg_str);
     c \<leftarrow> rd8 arg_str (pos + n);
     if c = 0 then Some None else get_arg_ptr arg_str (pos + n + 1) k }"

partial_function (option) args_count_loop :: "bytes \<Rightarrow> nat \<Rightarrow> u32 \<Rightarrow> u32 option" where
  "args_count_loop arg_str pos count = do {
     r \<leftarrow> get_arg_ptr arg_str pos 1;
     case r of None \<Rightarrow> Some count | Some pos \<Rightarrow> args_count_loop arg_str pos (count + 1) }"

declare args_count_loop.simps [code]

definition get_args_count :: "bytes \<Rightarrow> u32 option" where
  "get_args_count arg_str = args_count_loop arg_str 0 1"

definition get_arg_length :: "bytes \<Rightarrow> nat \<Rightarrow> u32 option" where
  "get_arg_length arg_str pos = map_option of_nat (arg_end (drop pos arg_str))"

text \<open>The result is whether the pointer is not \<open>NULL\<close>, and the buffer.\<close>

definition argncpy :: "bytes \<Rightarrow> u32 \<Rightarrow> bytes \<Rightarrow> u32 \<Rightarrow> (bool \<times> bytes) option" where
  "argncpy arg_str index buffer len = do {
     r \<leftarrow> get_arg_ptr arg_str 0 (unat index);
     case r of None \<Rightarrow> Some (False, buffer)
     | Some ptr \<Rightarrow> do {
         n \<leftarrow> get_arg_length arg_str ptr;
         buffer \<leftarrow> strncpy buffer (drop ptr arg_str) (unat len);
         buffer \<leftarrow> wr8 buffer (unat n) 0;
         Some (True, buffer) } }"

text \<open>One number of an address. The result is \<open>None\<close> inside for a string that is refused; otherwise it has the new \<open>octet\<close>, the rest
  of the string and \<open>has_nn\<close>.\<close>

definition next_octet :: "bytes \<Rightarrow> bytes \<Rightarrow> bool \<Rightarrow> (bytes \<times> bytes \<times> bool) option option" where
  "next_octet octet str has_nn = do {
     dot \<leftarrow> strstr (Some str) (Some [46, 0]);
     case dot of
       Some k \<Rightarrow> (let len = of_nat k :: u16 in
         if sint len < 0 \<or> len \<ge> 10 then Some None
         else do {
           octet \<leftarrow> strncpy octet str (unat len);
           octet \<leftarrow> wr8 octet (unat len) 0;
           Some (Some (octet, drop (unat len) str, has_nn)) })
     | None \<Rightarrow> do {
         bs \<leftarrow> strchr str 92;
         case bs of
           Some k \<Rightarrow> (let len = of_nat k :: u16 in
             if sint len < 0 \<or> len \<ge> 10 then Some None
             else do {
               octet \<leftarrow> strncpy octet str (unat len);
               octet \<leftarrow> wr8 octet (unat len) 0;
               Some (Some (octet, drop (unat len) str, True)) })
         | None \<Rightarrow> do {
             octet \<leftarrow> strncpy octet str 9;
             octet \<leftarrow> wr8 octet 9 0;
             n \<leftarrow> strlen octet;
             Some (Some (octet, drop (unat n) str, has_nn)) } } }"

text \<open>The loop; \<open>k\<close> is the number of octets it still accepts, \<open>i\<close> is 4 less \<open>k\<close>. The result is the value returned, the address and
  the variable behind \<open>netmask\<close>, if there is one.\<close>

fun ip_loop :: "nat \<Rightarrow> bytes \<Rightarrow> bytes \<Rightarrow> bool \<Rightarrow> bytes \<Rightarrow> u32 option \<Rightarrow> (int \<times> bytes \<times> u32 option) option" where
  "ip_loop 0 str octet has_nn ip netmask = do {
     c \<leftarrow> rd8 str 0;
     if c \<noteq> 0 then Some (0, ip, netmask) else Some (-1, ip, netmask) }"
| "ip_loop (Suc k) str octet has_nn ip netmask = do {
     c \<leftarrow> rd8 str 0;
     if c = 0 then Some (0, ip, netmask)
     else if isdigit (uint c) = 0 then Some (0, ip, netmask)
     else do {
       r \<leftarrow> next_octet octet str has_nn;
       case r of None \<Rightarrow> Some (0, ip, netmask)
       | Some (octet, str, has_nn) \<Rightarrow> do {
           (v, _) \<leftarrow> strtol octet 10;
           if s32_of v > 255 \<or> s32_of v < 0 then Some (0, ip, netmask)
           else do {
             ip \<leftarrow> wr8 ip (3 - k) (word_of_int (s32_of v));
             c \<leftarrow> rd8 str 0;
             let str = (if c = 46 then drop 1 str else str);
             if has_nn
             then do {
               let str = drop 1 str;
               octet \<leftarrow> strncpy octet str 9;
               octet \<leftarrow> wr8 octet 9 0;
               (v, _) \<leftarrow> strtol octet 10;
               n \<leftarrow> strlen octet;
               let str = drop (unat n) str;
               if s32_of v > 31 \<or> s32_of v < 1 then Some (0, ip, netmask)
               else ip_loop k str octet has_nn ip (map_option (\<lambda>_. push_bit (nat (32 - s32_of v)) 0xFFFFFFFF) netmask) }
             else ip_loop k str octet has_nn ip netmask } } } }"

definition strtoip_netmask :: "bytes \<Rightarrow> bytes \<Rightarrow> u32 option \<Rightarrow> bytes \<Rightarrow> (int \<times> bytes \<times> u32 option) option" where
  "strtoip_netmask str ip netmask octet = ip_loop 4 str octet False ip netmask"

text \<open>\<open>octet\<close> is the local array, with arbitrary contents.\<close>

definition strtoip :: "bytes \<Rightarrow> bytes \<Rightarrow> bytes \<Rightarrow> (int \<times> bytes) option" where
  "strtoip str ip octet = map_option (\<lambda>(r, ip, _). (r, ip)) (strtoip_netmask str ip None octet)"

section \<open>Addresses in dotted form\<close>

definition dotted_ip :: "nat \<Rightarrow> nat \<Rightarrow> nat \<Rightarrow> nat \<Rightarrow> bytes" where
  "dotted_ip a b c d = numeral_of 10 a @ 46 # numeral_of 10 b @ 46 # numeral_of 10 c @ 46 # numeral_of 10 d @ [0]"

lemma dot_uint: "uint (x :: u8) = 46 \<longleftrightarrow> x = 46"
  by (simp add: word_uint_eq_iff)

lemma isdigit_iff: "isdigit c = 1 \<longleftrightarrow> 48 \<le> c \<and> c \<le> 57"
  unfolding isdigit_def by simp presburger

lemma strstr_dot:
  "46 \<notin> set a \<Longrightarrow> strstr_loop (a @ 46 # s) [46, 0] 1 (length a + Suc k) = Some (Some (length a))"
  by (induction a) (auto simp: strncmp_def dot_uint)

lemma strstr_no_dot: "46 \<notin> set s \<Longrightarrow> k \<le> length s \<Longrightarrow> strstr_loop s [46, 0] 1 k = Some None"
proof (induction k arbitrary: s)
  case (Suc k)
  then obtain x t where "s = x # t" by (cases s) auto
  with Suc show ?case by (auto simp: strncmp_def dot_uint)
qed simp

lemma strchr_absent: "terminated s \<Longrightarrow> 92 \<notin> set s \<Longrightarrow> strchr s 92 = Some None"
  by (induction s) auto

lemma octet_chars:
  assumes "n < 256"
  shows "numeral_of 10 n \<noteq> []" "length (numeral_of 10 n) \<le> 3" "x \<in> set (numeral_of 10 n) \<Longrightarrow> 48 \<le> unat x \<and> unat x \<le> 57"
proof -
  show "numeral_of 10 n \<noteq> []" by (simp add: numeral_of_def digits_nonempty)
  have "digits 10 n = (if n < 10 then [n] else if n < 100 then [n div 10, n mod 10] else [n div 100, n div 10 mod 10, n mod 10])"
  proof -
    have "n div 10 < 10 \<longleftrightarrow> n < 100" "n div 10 div 10 = n div 100" "n div 100 < 10" using assms by (auto simp: div_mult2_eq[symmetric] div_less_iff_less_mult)
    then show ?thesis by (simp add: digits.simps[of 10 n] digits.simps[of 10 "n div 10"] digits.simps[of 10 "n div 100"])
  qed
  then show "length (numeral_of 10 n) \<le> 3" by (simp add: numeral_of_def)
  assume "x \<in> set (numeral_of 10 n)"
  then obtain d where "d \<in> set (digits 10 n)" "x = digit_char d" by (auto simp: numeral_of_def)
  then show "48 \<le> unat x \<and> unat x \<le> 57" using digits_small[of 10 d n] unat_digit_char[of d] by simp
qed

lemma octet_not: "n < 256 \<Longrightarrow> c = 0 \<or> c = 46 \<or> c = 92 \<Longrightarrow> c \<notin> set (numeral_of 10 n)"
  using octet_chars(3)[of n c] by auto

lemma octet_first: "n < 256 \<Longrightarrow> rd8 (numeral_of 10 n @ s) 0 = Some (hd (numeral_of 10 n)) \<and>
  hd (numeral_of 10 n) \<noteq> 0 \<and> isdigit (uint (hd (numeral_of 10 n))) = 1"
proof -
  assume n: "n < 256"
  let ?x = "hd (numeral_of 10 n)"
  have "?x \<in> set (numeral_of 10 n)" using octet_chars(1)[OF n] by simp
  then have r: "48 \<le> unat ?x \<and> unat ?x \<le> 57" using octet_chars(3)[OF n] by simp
  then have "isdigit (uint ?x) = 1" using uint_nat[of ?x] unfolding isdigit_iff by linarith
  moreover have "?x \<noteq> 0" using r by auto
  ultimately show ?thesis using octet_chars(1)[OF n] by (simp add: rd8_def nth_append hd_conv_nth)
qed

lemma strtol_octet:
  assumes "n < 256" "length z = 10"
  shows "strtol (numeral_of 10 n @ 0 # drop (length (numeral_of 10 n) + 1) z) 10 = Some (int n, length (digits 10 n))"
  using strtol_parses[of 10 0 "[]" n "[]" False "drop (length (numeral_of 10 n) + 1) z"] assms(1)
  by (simp add: no_digit_def char_digit_def white_def)

lemma u16_small: "k \<le> 3 \<Longrightarrow> unat (of_nat k :: u16) = k \<and> sint (of_nat k :: u16) = int k \<and> \<not> (of_nat k :: u16) \<ge> 10"
proof -
  assume "k \<le> 3"
  then consider "k = 0" | "k = 1" | "k = 2" | "k = 3" by linarith
  then show ?thesis by cases (simp_all add: word_le_nat_alt)
qed

lemma cstr_prefix: "0 \<notin> set a \<Longrightarrow> cstr (a @ s) = a @ cstr s"
  by (induction a) (auto simp: cstr_def)

lemma next_octet_dot:
  assumes "n < 256" "length z = 10" "terminated s" "length s < 1000"
  shows "next_octet z (numeral_of 10 n @ 46 # s) h =
    Some (Some (numeral_of 10 n @ 0 # drop (length (numeral_of 10 n) + 1) z, 46 # s, h))"
proof -
  let ?a = "numeral_of 10 n"
  have a: "46 \<notin> set ?a" "0 \<notin> set ?a" "length ?a \<le> 3" using octet_not[OF assms(1)] octet_chars(2)[OF assms(1)] by auto
  have t: "terminated (?a @ 46 # s)" using assms(3) by simp
  have c: "cstr (?a @ 46 # s) = ?a @ 46 # cstr s" using a(2) by (simp add: cstr_prefix cstr_simps)
  have "length (cstr s) < 1000" using length_cstr[OF assms(3)] assms(4) by simp
  then have l: "strlen (?a @ 46 # s) = Some (of_nat (length ?a + Suc (length (cstr s))))"
    "unat (of_nat (length ?a + Suc (length (cstr s))) :: u64) = length ?a + Suc (length (cstr s))"
    using strlen_short[OF t] a(3) unfolding c by simp_all
  have n1: "strlen [46, 0] = Some 1" by (simp add: strlen_def)
  have "strstr (Some (?a @ 46 # s)) (Some [46, 0]) = Some (Some (length ?a))"
    using strstr_dot[OF a(1), of s "length (cstr s)"] l n1 by (simp add: strstr_def)
  moreover have "strncpy z (?a @ 46 # s) (length ?a) = Some (?a @ drop (length ?a) z)"
    using t a assms(2) c by (simp add: strncpy_eq_wrn wrn_def)
  ultimately show ?thesis using u16_small[OF a(3)] a(3) assms(2)
    by (simp add: next_octet_def wr8_def wrn_def Let_def drop_Suc)
qed

lemma next_octet_end:
  assumes "n < 256" "length z = 10"
  shows "next_octet z (numeral_of 10 n @ [0]) h =
    Some (Some (numeral_of 10 n @ replicate (10 - length (numeral_of 10 n)) 0, [0], h))"
proof -
  let ?a = "numeral_of 10 n"
  have a: "46 \<notin> set ?a" "0 \<notin> set ?a" "92 \<notin> set ?a" "length ?a \<le> 3" using octet_not[OF assms(1)] octet_chars(2)[OF assms(1)] by auto
  have c: "cstr (?a @ 0 # r) = ?a" for r using a(2) by (simp add: cstr_prefix cstr_simps)
  have l: "strlen (?a @ 0 # r) = Some (of_nat (length ?a))" "unat (of_nat (length ?a) :: u64) = length ?a" for r
    using strlen_short[of "?a @ 0 # r"] a(4) by (simp_all add: c)
  have n1: "strlen [46, 0] = Some 1" by (simp add: strlen_def)
  have "strstr (Some (?a @ [0])) (Some [46, 0]) = Some None"
    using strstr_no_dot[of "?a @ [0]" "length ?a"] a l n1 by (simp add: strstr_def)
  moreover have "strchr (?a @ [0]) 92 = Some None" using a by (intro strchr_absent) auto
  moreover have "strncpy z (?a @ [0]) 9 = Some (?a @ replicate (9 - length ?a) 0 @ drop 9 z)"
    using a assms(2) c[of "[]"] by (simp add: strncpy_eq_wrn wrn_def)
  moreover have "wr8 (?a @ replicate (9 - length ?a) 0 @ drop 9 z) 9 0 = Some (?a @ replicate (10 - length ?a) 0)"
  proof -
    have "drop 10 (?a @ replicate (9 - length ?a) 0 @ drop 9 z) = []" using a(4) assms(2) by simp
    moreover have "replicate (10 - length ?a) (0 :: u8) = replicate (9 - length ?a) 0 @ [0]" 
    proof -
      have "10 - length ?a = Suc (9 - length ?a)" using a(4) by linarith
      then show ?thesis by (simp add: replicate_append_same)
    qed
    ultimately show ?thesis using a(4) assms(2) by (simp add: wr8_def wrn_def)
  qed
  moreover have "replicate (10 - length ?a) (0 :: u8) = 0 # replicate (9 - length ?a) 0" using a(4) by (simp add: Suc_diff_le flip: replicate_Suc)
  ultimately show ?thesis using l(1)[of "replicate (9 - length ?a) 0"] l(2) by (simp add: next_octet_def)
qed

lemma ip_step:
  assumes "n < 256" "length z = 10" "terminated s" "length s < 1000" "length ip = 4" "k \<le> 3"
  shows "\<exists>z'. length z' = 10 \<and> ip_loop (Suc k) (numeral_of 10 n @ 46 # s) z False ip None = ip_loop k s z' False (ip[3 - k := of_nat n]) None"
  using octet_first[OF assms(1), of "46 # s"] next_octet_dot[OF assms(1-4), of False] strtol_octet[OF assms(1,2)] assms(1,2,5,6)
    octet_chars(2)[OF assms(1)]
  by (intro exI[of _ "numeral_of 10 n @ 0 # drop (length (numeral_of 10 n) + 1) z"])
    (simp add: s32_of_id wr8_eq rd8_def[of "46 # s"])

lemma ip_last:
  assumes "n < 256" "length z = 10" "length ip = 4"
  shows "ip_loop 1 (numeral_of 10 n @ [0]) z False ip None = Some (-1, ip[3 := of_nat n], None)"
proof -
  have z: "replicate (10 - length (numeral_of 10 n)) (0 :: u8) = 0 # drop (length (numeral_of 10 n) + 1) (replicate 10 0)"
    using octet_chars(2)[OF assms(1)] by (simp add: Suc_diff_le flip: replicate_Suc)
  show ?thesis
    using octet_first[OF assms(1), of "[0]"] next_octet_end[OF assms(1,2), of False] strtol_octet[OF assms(1), of "replicate 10 0"] assms(1,3)
    unfolding z by (simp add: s32_of_id wr8_eq rd8_def[of "[0]"])
qed

section \<open>Lists of arguments\<close>

text \<open>The string for a list of arguments.\<close>

fun args_str :: "bytes list \<Rightarrow> bytes" where
  "args_str [] = [0]"
| "args_str [a] = a @ [0]"
| "args_str (a # b # as) = a @ 44 # args_str (b # as)"

definition arg_ok :: "bytes \<Rightarrow> bool" where
  "arg_ok a \<longleftrightarrow> 44 \<notin> set a \<and> 0 \<notin> set a"

lemma arg_end_eq: "arg_ok a \<Longrightarrow> c = 44 \<or> c = 0 \<Longrightarrow> arg_end (a @ c # s) = Some (length a)"
  by (induction a) (auto simp: arg_ok_def)

lemma args_str_Cons: "\<exists>c s. args_str (a # as) = a @ c # s \<and> (c = 44 \<or> c = 0) \<and> (c = 0 \<longleftrightarrow> as = []) \<and> (as \<noteq> [] \<longrightarrow> s = args_str as)"
  by (cases as) auto

lemma args_str_terminated: "terminated (args_str as)"
  by (induction as rule: args_str.induct) auto

lemma get_arg_ptr_spec:
  assumes "as \<noteq> []" "\<forall>a \<in> set as. arg_ok a"
  shows "\<exists>r. get_arg_ptr (pre @ args_str as) (length pre) k = Some r \<and>
    (case r of None \<Rightarrow> length as \<le> k | Some p \<Rightarrow> k < length as \<and> drop p (pre @ args_str as) = args_str (drop k as))"
  using assms
proof (induction k arbitrary: pre as)
  case 0
  then show ?case by simp
next
  case (Suc k)
  obtain a as' where as: "as = a # as'" using Suc.prems(1) by (cases as) auto
  obtain c s where cs: "args_str as = a @ c # s" "c = 44 \<or> c = 0" "c = 0 \<longleftrightarrow> as' = []" "as' \<noteq> [] \<longrightarrow> s = args_str as'"
    using args_str_Cons[of a as'] as by auto
  have e: "arg_end (a @ c # s) = Some (length a)" using Suc.prems(2) as cs(2) by (intro arg_end_eq) auto
  have r: "rd8 (pre @ a @ c # s) (length pre + length a) = Some c" by (simp add: rd8_def nth_append)
  show ?case
  proof (cases "as' = []")
    case True
    then show ?thesis using e r cs as by simp
  next
    case False
    have "get_arg_ptr (pre @ args_str as) (length pre) (Suc k) = get_arg_ptr ((pre @ a @ [c]) @ args_str as') (length (pre @ a @ [c])) k"
      using e r cs False by simp
    moreover obtain r where r: "get_arg_ptr ((pre @ a @ [c]) @ args_str as') (length (pre @ a @ [c])) k = Some r"
      "case r of None \<Rightarrow> length as' \<le> k | Some p \<Rightarrow> k < length as' \<and> drop p ((pre @ a @ [c]) @ args_str as') = args_str (drop k as')"
      using Suc.IH[OF False, of "pre @ a @ [c]"] Suc.prems(2) as by auto
    moreover have "pre @ args_str as = (pre @ a @ [c]) @ args_str as'" using cs False by simp
    ultimately have "get_arg_ptr (pre @ args_str as) (length pre) (Suc k) = Some r \<and>
        (case r of None \<Rightarrow> length as \<le> Suc k | Some p \<Rightarrow> Suc k < length as \<and> drop p (pre @ args_str as) = args_str (drop (Suc k) as))"
      unfolding as by (cases r) simp_all
    then show ?thesis by blast
  qed
qed

section \<open>Properties\<close>

text \<open>C40: \<open>strtoip\<close> reads every IPv4 address in dotted decimal form.\<close>

theorem strtoip_dotted:
  assumes "a < 256" "b < 256" "c < 256" "d < 256" "length ip = 4" "length octet = 10"
  shows "strtoip (dotted_ip a b c d) ip octet = Some (-1, [of_nat a, of_nat b, of_nat c, of_nat d])"
proof -
  let ?cd = "numeral_of 10 c @ 46 # numeral_of 10 d @ [0]" and ?d = "numeral_of 10 d @ [0]"
  have len: "length (numeral_of 10 n) \<le> 3" if "n < 256" for n using octet_chars(2)[OF that] .
  obtain z1 where z1: "length z1 = 10"
    "ip_loop 4 (dotted_ip a b c d) octet False ip None = ip_loop 3 (numeral_of 10 b @ 46 # ?cd) z1 False (ip[0 := of_nat a]) None"
    using ip_step[OF assms(1,6) _ _ assms(5), of "numeral_of 10 b @ 46 # ?cd" 3] len[OF assms(2)] len[OF assms(3)] len[OF assms(4)]
    by (auto simp: dotted_ip_def)
  obtain z2 where z2: "length z2 = 10"
    "ip_loop 3 (numeral_of 10 b @ 46 # ?cd) z1 False (ip[0 := of_nat a]) None = ip_loop 2 ?cd z2 False (ip[0 := of_nat a, 1 := of_nat b]) None"
    using ip_step[OF assms(2) z1(1), of ?cd "ip[0 := of_nat a]" 2] len[OF assms(3)] len[OF assms(4)] assms(5)
    by auto
  obtain z3 where z3: "length z3 = 10"
    "ip_loop 2 ?cd z2 False (ip[0 := of_nat a, 1 := of_nat b]) None = ip_loop 1 ?d z3 False (ip[0 := of_nat a, 1 := of_nat b, 2 := of_nat c]) None"
    using ip_step[OF assms(3) z2(1), of ?d "ip[0 := of_nat a, 1 := of_nat b]" 1] len[OF assms(4)] assms(5)
    by (auto simp: numeral_2_eq_2)
  have "ip[0 := of_nat a, 1 := of_nat b, 2 := of_nat c, 3 := of_nat d] = [of_nat a, of_nat b, of_nat c, of_nat d]"
    using assms(5) by (auto simp: length_Suc_conv numeral_eq_Suc)
  then show ?thesis
    using z1(2) z2(2) z3(2) ip_last[OF assms(4) z3(1), of "ip[0 := of_nat a, 1 := of_nat b, 2 := of_nat c]"] assms(5)
    by (simp add: strtoip_def strtoip_netmask_def)
qed

theorem strtoip_dotted_witness: "strtoip (dotted_ip 192 168 0 10) [0, 0, 0, 0] (replicate 10 7) = Some (-1, [192, 168, 0, 10])"
  using strtoip_dotted[of 192 168 0 10 "[0, 0, 0, 0]" "replicate 10 7"] by simp

text \<open>\<open>argncpy\<close> copies the argument with the given index, if it fits into the buffer with its terminator, and returns \<open>NULL\<close> for
  an index beyond the arguments.\<close>

theorem argncpy_argument:
  assumes "as \<noteq> []" "\<forall>a \<in> set as. arg_ok a" "unat i < length as \<Longrightarrow> length (as ! unat i) < unat len" "unat len \<le> length buffer"
  shows "\<exists>b. argncpy (args_str as) i buffer len = Some (unat i < length as, b) \<and> (if unat i < length as then cstr b = as ! unat i else b = buffer)"
proof -
  obtain r where r: "get_arg_ptr (args_str as) 0 (unat i) = Some r"
    "case r of None \<Rightarrow> length as \<le> unat i | Some p \<Rightarrow> unat i < length as \<and> drop p (args_str as) = args_str (drop (unat i) as)"
    using get_arg_ptr_spec[OF assms(1,2), of "[]" "unat i"] by (simp only: append_Nil list.size) blast
  show ?thesis
  proof (cases r)
    case None
    then show ?thesis using r by (simp add: argncpy_def)
  next
    case (Some p)
    then have p: "unat i < length as" "drop p (args_str as) = args_str (drop (unat i) as)" using r(2) by simp_all
    let ?a = "as ! unat i"
    have ok: "arg_ok ?a" using assms(2) p(1) by simp
    have d: "drop (unat i) as = ?a # drop (Suc (unat i)) as" using p(1) by (simp add: Cons_nth_drop_Suc)
    obtain c s where cs: "args_str (drop (unat i) as) = ?a @ c # s" "c = 44 \<or> c = 0"
      using args_str_Cons[of ?a "drop (Suc (unat i)) as"] d by auto
    have lt: "length ?a < unat len" using assms(3) p(1) by simp
    have "length ?a < 2 ^ 32" using lt unsigned_less[of len, where 'a=nat] by simp
    then have n: "get_arg_length (args_str as) p = Some (of_nat (length ?a))" "unat (of_nat (length ?a) :: u32) = length ?a"
      using arg_end_eq[OF ok cs(2), of s] p(2) cs(1) by (simp_all add: get_arg_length_def unsigned_of_nat take_bit_nat_eq_self_iff)
    let ?x = "take (unat len) (cstr (?a @ c # s)) @ replicate (unat len - length (cstr (?a @ c # s))) 0"
    have lx: "length ?x = unat len" by simp
    have pre: "take (length ?a) ?x = ?a" using ok lt by (simp add: cstr_prefix arg_ok_def)
    have "strncpy buffer (args_str (drop (unat i) as)) (unat len) = Some (?x @ drop (unat len) buffer)"
      using args_str_terminated[of "drop (unat i) as"] assms(4) lx cs(1) by (simp add: strncpy_eq_wrn wrn_def)
    moreover have "wr8 (?x @ drop (unat len) buffer) (length ?a) 0 = Some (?a @ 0 # drop (Suc (length ?a)) (?x @ drop (unat len) buffer))"
    proof -
      have "take (length ?a) (?x @ drop (unat len) buffer) = ?a" using pre lt lx by (simp add: take_append del: append_assoc)
      then show ?thesis using lt lx assms(4) by (simp add: wr8_def wrn_def del: append_assoc)
    qed
    ultimately have "argncpy (args_str as) i buffer len = Some (True, ?a @ 0 # drop (Suc (length ?a)) (?x @ drop (unat len) buffer))"
      using r(1) Some p n by (simp add: argncpy_def)
    moreover have "cstr (?a @ 0 # z) = ?a" for z using ok by (simp add: cstr_prefix arg_ok_def)
    ultimately show ?thesis using p(1) by simp
  qed
qed

theorem argncpy_argument_witness:
  "\<exists>b. argncpy (args_str [[49], [50, 51], []]) 1 (replicate 4 7) 4 = Some (True, b) \<and> cstr b = [50, 51]"
  using argncpy_argument[of "[[49], [50, 51], []]" 1 4 "replicate 4 7"] by (simp add: arg_ok_def)

text \<open>The size given to \<open>argncpy\<close> does not bound the terminator: an argument as long as the buffer makes it write behind the buffer.\<close>

theorem argncpy_overflow:
  assumes "as \<noteq> []" "\<forall>a \<in> set as. arg_ok a" "unat i < length as" "length buffer \<le> length (as ! unat i)" "length (as ! unat i) < 2 ^ 32"
  shows "argncpy (args_str as) i buffer len = None"
proof -
  obtain p where p: "get_arg_ptr (args_str as) 0 (unat i) = Some (Some p)" "drop p (args_str as) = args_str (drop (unat i) as)"
    using get_arg_ptr_spec[OF assms(1,2), of "[]" "unat i"] assms(3) by (auto split: option.splits)
  let ?a = "as ! unat i"
  have ok: "arg_ok ?a" using assms(2,3) by simp
  have d: "drop (unat i) as = ?a # drop (Suc (unat i)) as" using assms(3) by (simp add: Cons_nth_drop_Suc)
  obtain c s where cs: "args_str (drop (unat i) as) = ?a @ c # s" "c = 44 \<or> c = 0"
    using args_str_Cons[of ?a "drop (Suc (unat i)) as"] d by auto
  have n: "get_arg_length (args_str as) p = Some (of_nat (length ?a))" "unat (of_nat (length ?a) :: u32) = length ?a"
    using arg_end_eq[OF ok cs(2), of s] p(2) cs(1) assms(5) by (simp_all add: get_arg_length_def unsigned_of_nat take_bit_nat_eq_self_iff)
  have "wr8 b (length ?a) 0 = None" if "strncpy buffer z k = Some b" for b z k
  proof -
    have "length b = length buffer" using that by (auto simp: strncpy_eq_wrn wrn_length split: if_splits)
    then show ?thesis using assms(4) by (simp add: wr8_def wrn_def)
  qed
  then show ?thesis using p n by (cases "strncpy buffer (args_str (drop (unat i) as)) (unat len)") (simp_all add: argncpy_def)
qed

theorem argncpy_overflow_witness: "argncpy (args_str [[49, 50, 51, 52]]) 0 (replicate 4 7) 4 = None"
  by (rule argncpy_overflow) (simp_all add: arg_ok_def)

end
