(* ===== verification/Net_Dhcp.thy ===== *)
theory Net_Dhcp
  imports Net_Tftp Net_Args
begin

text \<open>The DHCP client (\<open>src/lib/libnet/dhcp.c\<close>). A received message is the object from the BootP header on: operation at 0,
  transaction at 4, \<open>yiaddr\<close> at 16, \<open>siaddr\<close> at 20, \<open>chaddr\<close> at 28, \<open>sname\<close> at 44 (64 bytes), \<open>file\<close> at 108 (128 bytes), \<open>vend\<close> at 236 (64 bytes and
  more). The state extends that of the TFTP client. Arguments stand for the configuration of the board (\<open>DHCPARCH\<close>), for whether \<open>malloc\<close> of a size
  succeeds, and for the word that the code reads as the source address: it subtracts 28 from a pointer to a structure of 20 bytes, so it
  reads 560 bytes in front of the message.\<close>

section \<open>State\<close>

record dhcp_options =
  o_flag :: bytes
  request_list :: bytes
  server_ID :: u32
  requested_IP :: u32
  dns_IP :: u32
  router_IP :: u32
  o_subnet_mask :: u32
  msg_type :: u8
  o_overload :: u8
  tftp_server :: bytes
  bootfile :: bytes
  client_arch :: u16

text \<open>After \<open>memset\<close>.\<close>

definition no_options :: dhcp_options where
  "no_options = \<lparr>o_flag = replicate 256 0, request_list = replicate 256 0, server_ID = 0, requested_IP = 0, dns_IP = 0, router_IP = 0,
     o_subnet_mask = 0, msg_type = 0, o_overload = 0, tftp_server = replicate 256 0, bootfile = replicate 256 0, client_arch = 0\<rparr>"

record dhcp = tftp_state +
  dhcp_state :: u8
  d_packet :: bytes
  dhcp_own_ip :: u32
  dhcp_server_ip :: u32
  dhcp_siaddr_ip :: u32
  dhcp_filename :: bytes
  dhcp_tftp_name :: bytes
  dhcp_xid :: u32
  pxelinux_cfgfile :: "bytes option"
  pxelinux_prefix :: "bytes option"
  response_buffer :: "bytes option"

type_synonym 'b dhcp_net = "'b dhcp_scheme net"

definition dhcp_magic :: bytes where
  "dhcp_magic = [0x63, 0x82, 0x53, 0x63]"

definition dhcpv4_generate_transaction_id :: "u64 \<Rightarrow> 'b dhcp_net \<Rightarrow> u64 \<times> 'b dhcp_net" where
  "dhcpv4_generate_transaction_id r st =
     (let (a, r) = rand r; (b, r) = rand r
      in (r, upd_app (dhcp_xid_update (\<lambda>_. push_bit 16 (word_of_int a) XOR word_of_int b)) st))"

section \<open>Options\<close>

text \<open>One option with its data at position \<open>i\<close>; the result has the position behind it.\<close>

definition put_option :: "bytes \<Rightarrow> nat \<Rightarrow> u8 \<Rightarrow> u8 \<Rightarrow> bytes \<Rightarrow> (bytes \<times> nat) option" where
  "put_option b i code len d = do { b \<leftarrow> wrn b i (code # len # d); Some (b, i + 2 + length d) }"

definition put_string_option :: "bytes \<Rightarrow> nat \<Rightarrow> u8 \<Rightarrow> bytes \<Rightarrow> (bytes \<times> nat) option" where
  "put_string_option b i code s = do {
     n \<leftarrow> strlen s;
     let len = (ucast (n + 1) :: u8);
     d \<leftarrow> rdn s 0 (unat len);
     put_option b i code len d }"

definition requested :: "bytes \<Rightarrow> bytes" where
  "requested rl = map of_nat (filter (\<lambda>i. rl ! i \<noteq> 0) [0..<256])"

definition dhcp_encode_options :: "u16 option \<Rightarrow> bytes \<Rightarrow> dhcp_options \<Rightarrow> (int \<times> bytes) option" where
  "dhcp_encode_options arch b opt = do {
     b \<leftarrow> wrn b 0 dhcp_magic;
     if msg_type opt \<notin> {1, 3, 4, 8, 7} then Some (0, b)
     else do {
       (b, i) \<leftarrow> put_option b 4 53 1 [msg_type opt];
       (b, i) \<leftarrow> (if o_overload opt \<noteq> 0 then put_option b i 52 1 [o_overload opt] else Some (b, i));
       (b, i) \<leftarrow> (if o_flag opt ! 50 \<noteq> 0 then put_option b i 50 4 (be32 (requested_IP opt)) else Some (b, i));
       (b, i) \<leftarrow> (if o_flag opt ! 54 \<noteq> 0 then put_option b i 54 4 (be32 (server_ID opt)) else Some (b, i));
       let sm = ((\<Sum>x\<leftarrow>request_list opt. ucast x) :: u16);
       (b, i) \<leftarrow> (if sm \<noteq> 0 then put_option b i 55 (ucast sm) (requested (request_list opt)) else Some (b, i));
       (b, i) \<leftarrow> (if o_flag opt ! 66 \<noteq> 0 then put_string_option b i 66 (tftp_server opt) else Some (b, i));
       (b, i) \<leftarrow> (if o_flag opt ! 67 \<noteq> 0 then put_string_option b i 67 (bootfile opt) else Some (b, i));
       (b, i) \<leftarrow> (if o_flag opt ! 93 \<noteq> 0
         then let a = (case arch of None \<Rightarrow> 0 | Some a \<Rightarrow> a) in put_option b i 93 2 [hi8 a, lo8 a] else Some (b, i));
       b \<leftarrow> wr8 b i 0xFF;
       Some (1, b) } }"

text \<open>The options of a message and the strings for PXELINUX that decoding allocates.\<close>

record decoded =
  opts :: dhcp_options
  new_cfgfile :: "bytes option"
  new_prefix :: "bytes option"

datatype step = Return int | Next u32

text \<open>The string of \<open>n\<close> bytes at \<open>i\<close>, as \<open>memcpy\<close> and the terminator store it in an array of 256 bytes.\<close>

definition string_option :: "bytes \<Rightarrow> bytes \<Rightarrow> nat \<Rightarrow> nat \<Rightarrow> bytes option" where
  "string_option s f i n = do { d \<leftarrow> rdn f i n; s \<leftarrow> wrn s 0 d; wr8 s n 0 }"

definition alloc_option :: "(nat \<Rightarrow> bool) \<Rightarrow> bytes \<Rightarrow> nat \<Rightarrow> nat \<Rightarrow> bytes option option" where
  "alloc_option malloc_ok f i n =
     (if malloc_ok (n + 1) then do { d \<leftarrow> rdn f i n; Some (Some (d @ [0])) } else Some None)"

definition decode_option :: "(nat \<Rightarrow> bool) \<Rightarrow> bytes \<Rightarrow> u32 \<Rightarrow> decoded \<Rightarrow> (step \<times> decoded) option" where
  "decode_option malloc_ok f offs dc = do {
     let i = unat offs;
     code \<leftarrow> rd8 f i;
     let dc = dc\<lparr>opts := (opts dc)\<lparr>o_flag := (o_flag (opts dc))[unat code := 1]\<rparr>\<rparr>;
     if code = 0 then Some (Next (offs + 1), dc)
     else if code = 0xFF then Some (Return 1, dc)
     else if code = 93
     then do {
       h \<leftarrow> rd8 f (i + 2);
       l \<leftarrow> rd8 f (i + 3);
       Some (Next (offs + 4), dc\<lparr>opts := (opts dc)\<lparr>client_arch := cat16 h l\<rparr>\<rparr>) }
     else if code = 53
     then do {
       t \<leftarrow> rd8 f (i + 2);
       if 0 < t \<and> t < 9
       then do { len \<leftarrow> rd8 f (i + 1); Some (Next (offs + (2 + ucast len)), dc\<lparr>opts := (opts dc)\<lparr>msg_type := t\<rparr>\<rparr>) }
       else Some (Return 0, dc) }
     else do {
       len \<leftarrow> rd8 f (i + 1);
       let nxt = Next (offs + (2 + ucast len));
       if code = 52 then do { x \<leftarrow> rd8 f (i + 2); Some (nxt, dc\<lparr>opts := (opts dc)\<lparr>o_overload := x\<rparr>\<rparr>) }
       else if code = 50 then do { x \<leftarrow> rd32 f (i + 2); Some (nxt, dc\<lparr>opts := (opts dc)\<lparr>requested_IP := x\<rparr>\<rparr>) }
       else if code = 1 then do { x \<leftarrow> rd32 f (i + 2); Some (nxt, dc\<lparr>opts := (opts dc)\<lparr>o_subnet_mask := x\<rparr>\<rparr>) }
       else if code = 6 then do { x \<leftarrow> rd32 f (i + 2); Some (nxt, dc\<lparr>opts := (opts dc)\<lparr>dns_IP := x\<rparr>\<rparr>) }
       else if code = 3 then do { x \<leftarrow> rd32 f (i + 2); Some (nxt, dc\<lparr>opts := (opts dc)\<lparr>router_IP := x\<rparr>\<rparr>) }
       else if code = 54 then do { x \<leftarrow> rd32 f (i + 2); Some (nxt, dc\<lparr>opts := (opts dc)\<lparr>server_ID := x\<rparr>\<rparr>) }
       else if code = 66
       then do { s \<leftarrow> string_option (tftp_server (opts dc)) f (i + 2) (unat len); Some (nxt, dc\<lparr>opts := (opts dc)\<lparr>tftp_server := s\<rparr>\<rparr>) }
       else if code = 67
       then do { s \<leftarrow> string_option (bootfile (opts dc)) f (i + 2) (unat len); Some (nxt, dc\<lparr>opts := (opts dc)\<lparr>bootfile := s\<rparr>\<rparr>) }
       else if code = 209 then do { s \<leftarrow> alloc_option malloc_ok f (i + 2) (unat len); Some (nxt, dc\<lparr>new_cfgfile := s\<rparr>) }
       else if code = 210 then do { s \<leftarrow> alloc_option malloc_ok f (i + 2) (unat len); Some (nxt, dc\<lparr>new_prefix := s\<rparr>) }
       else Some (nxt, dc) } }"

partial_function (option) decode_loop :: "(nat \<Rightarrow> bool) \<Rightarrow> bytes \<Rightarrow> u32 \<Rightarrow> u32 \<Rightarrow> decoded \<Rightarrow> (int \<times> decoded) option" where
  "decode_loop malloc_ok f opt_len offs dc =
     (if offs < opt_len
      then do {
        (r, dc) \<leftarrow> decode_option malloc_ok f offs dc;
        case r of Return v \<Rightarrow> Some (v, dc) | Next offs \<Rightarrow> decode_loop malloc_ok f opt_len offs dc }
      else Some (if offs = opt_len then 1 else 0, dc))"

declare decode_loop.simps [code]

definition dhcp_decode_options :: "(nat \<Rightarrow> bool) \<Rightarrow> bytes \<Rightarrow> u32 \<Rightarrow> decoded \<Rightarrow> (int \<times> decoded) option" where
  "dhcp_decode_options malloc_ok f opt_len dc = do {
     let dc = dc\<lparr>opts := no_options\<rparr>;
     c \<leftarrow> memcmp f dhcp_magic 4;
     if c \<noteq> 0 then Some (0, dc) else decode_loop malloc_ok f opt_len 4 dc }"

section \<open>Merging options\<close>

text \<open>The result is the offset, or \<open>None\<close> inside if the option is not found.\<close>

partial_function (option) find_loop :: "bytes \<Rightarrow> u32 \<Rightarrow> u8 \<Rightarrow> u32 \<Rightarrow> u32 option option" where
  "find_loop b len code offs =
     (if offs < len
      then do {
        c \<leftarrow> rd8 b (unat offs);
        if c = code then Some (Some offs)
        else if c = 0xFF then Some None
        else if c = 0 then find_loop b len code (offs + 1)
        else do { l \<leftarrow> rd8 b (unat offs + 1); find_loop b len code (offs + (2 + ucast l)) } }
      else Some None)"

declare find_loop.simps [code]

definition dhcp_find_option :: "bytes \<Rightarrow> u32 \<Rightarrow> u8 \<Rightarrow> u32 option option" where
  "dhcp_find_option b len code = find_loop b len code 0"

text \<open>\<open>f\<close> is the object with the new option at \<open>i\<close>.\<close>

definition dhcp_append_option :: "bytes \<Rightarrow> u32 \<Rightarrow> bytes \<Rightarrow> nat \<Rightarrow> (bytes \<times> u32) option" where
  "dhcp_append_option b len f i = do {
     n \<leftarrow> rd8 f (i + 1);
     d \<leftarrow> rdn f i (2 + unat n);
     b \<leftarrow> wrn b (unat len) d;
     Some (b, len + (2 + ucast n)) }"

definition dhcp_combine_option :: "bytes \<Rightarrow> u32 \<Rightarrow> u32 \<Rightarrow> bytes \<Rightarrow> nat \<Rightarrow> (bytes \<times> u32) option" where
  "dhcp_combine_option b len dst f i = do {
     l \<leftarrow> rd8 b (unat dst + 1);
     let tail_len = len - dst - 2 - ucast l;
     n \<leftarrow> rd8 f (i + 1);
     tl \<leftarrow> rdn b (unat len - unat tail_len) (unat tail_len);
     _ \<leftarrow> wrn (replicate 1024 0) 0 tl;
     b \<leftarrow> wrn b (unat len - unat tail_len + unat n) tl;
     d \<leftarrow> rdn f (i + 2) (unat n);
     b \<leftarrow> wrn b (unat len - unat tail_len) d;
     l \<leftarrow> rd8 b (unat dst + 1);
     b \<leftarrow> wr8 b (unat dst + 1) (l + n);
     Some (b, len + ucast n) }"

partial_function (option) merge_loop :: "bytes \<Rightarrow> u32 \<Rightarrow> bytes \<Rightarrow> u32 \<Rightarrow> u32 \<Rightarrow> (int \<times> bytes \<times> u32) option" where
  "merge_loop b len src src_len offs =
     (if offs < src_len
      then do {
        c \<leftarrow> rd8 src (unat offs);
        if c = 0 then merge_loop b len src src_len (offs + 1)
        else if c = 0xFF then Some (1, b, len)
        else do {
          r \<leftarrow> dhcp_find_option b len c;
          (b, len) \<leftarrow> (case r of Some dst \<Rightarrow> dhcp_combine_option b len dst src (unat offs) | None \<Rightarrow> dhcp_append_option b len src (unat offs));
          n \<leftarrow> rd8 src (unat offs + 1);
          merge_loop b len src src_len (offs + (2 + ucast n)) } }
      else Some (if offs = src_len then 1 else 0, b, len))"

declare merge_loop.simps [code]

definition dhcp_merge_options :: "bytes \<Rightarrow> u32 \<Rightarrow> bytes \<Rightarrow> u32 \<Rightarrow> (int \<times> bytes \<times> u32) option" where
  "dhcp_merge_options b len src src_len = do {
     r \<leftarrow> dhcp_find_option b len 0xFF;
     merge_loop b (case r of Some dst \<Rightarrow> dst | None \<Rightarrow> len) src src_len 0 }"

section \<open>Sending\<close>

text \<open>What the three messages have in common: the BootP header, the options, the UDP and IP headers, and sending. \<open>USE_DHCPARCH\<close> is
  whether \<open>arch\<close> is given.\<close>

abbreviation list_of :: "u16 option \<Rightarrow> nat list \<Rightarrow> bytes" where
  "list_of arch cs \<equiv> (foldl (\<lambda>b i. b[i := 1]) (replicate 256 0) cs)[93 := (if arch = None then 0 else 1)]"

definition btp_header :: "u32 \<Rightarrow> u32 \<Rightarrow> bytes \<Rightarrow> bytes option" where
  "btp_header xid ciaddr mac = do {
     b \<leftarrow> wrn (replicate 300 0) 0 [1, 1, 6];
     b \<leftarrow> wr32 b 4 xid;
     m \<leftarrow> rdn mac 0 6;
     b \<leftarrow> wrn b 28 m;
     wr32 b 12 ciaddr }"

definition dhcp_send :: "u16 option \<Rightarrow> 'b dhcp_scheme sender \<Rightarrow> dhcp_options \<Rightarrow> u32 \<Rightarrow> u32 \<Rightarrow> u32 \<Rightarrow> 'b dhcp_net \<Rightarrow> 'b dhcp_net option" where
  "dhcp_send arch send opt ciaddr src dst st = do {
     p \<leftarrow> memset (d_packet (app st)) 0 328;
     h \<leftarrow> btp_header (dhcp_xid (app st)) ciaddr (get_mac_address st);
     p \<leftarrow> wrn p 28 h;
     (_, v) \<leftarrow> dhcp_encode_options arch (drop (28 + 236) p) opt;
     let p = take (28 + 236) p @ v;
     u \<leftarrow> fill_udphdr (drop 20 p) 308 68 67;
     let p = take 20 p @ u;
     p \<leftarrow> fill_iphdr p 328 17 src dst;
     (_, p, st) \<leftarrow> send (upd_app (d_packet_update (\<lambda>_. p)) st) p 328;
     Some (upd_app (d_packet_update (\<lambda>_. p)) st) }"

definition dhcp_send_discover :: "u16 option \<Rightarrow> 'b dhcp_scheme sender \<Rightarrow> 'b dhcp_net \<Rightarrow> 'b dhcp_net option" where
  "dhcp_send_discover arch send st =
     dhcp_send arch send (no_options\<lparr>msg_type := 1, request_list := list_of arch [1, 6, 3, 66, 67]\<rparr>) 0 (dhcp_own_ip (app st)) 0xFFFFFFFF st"

definition dhcp_send_request :: "u16 option \<Rightarrow> 'b dhcp_scheme sender \<Rightarrow> 'b dhcp_net \<Rightarrow> 'b dhcp_net option" where
  "dhcp_send_request arch send st =
     dhcp_send arch send (no_options\<lparr>msg_type := 3, requested_IP := dhcp_own_ip (app st), server_ID := dhcp_server_ip (app st),
       o_flag := (replicate 256 0)[50 := 1, 54 := 1, 93 := (if arch = None then 0 else 1)],
       request_list := list_of arch [1, 6, 3, 66, 67, 209, 210]\<rparr>) 0 0 0xFFFFFFFF st"

definition dhcp_send_release :: "u16 option \<Rightarrow> 'b dhcp_scheme sender \<Rightarrow> 'b dhcp_net \<Rightarrow> 'b dhcp_net option" where
  "dhcp_send_release arch send st =
     dhcp_send arch send (no_options\<lparr>msg_type := 7, server_ID := dhcp_server_ip (app st), o_flag := (replicate 256 0)[54 := 1]\<rparr>)
       (dhcp_own_ip (app st)) (dhcp_own_ip (app st)) (dhcp_server_ip (app st)) st"

section \<open>Receiving\<close>

text \<open>A name of \<open>n\<close> characters from the message into an array of 256 bytes.\<close>

definition copy_name :: "bytes \<Rightarrow> bytes \<Rightarrow> nat \<Rightarrow> nat \<Rightarrow> bytes option" where
  "copy_name d p i n = do { d \<leftarrow> strncpy d (drop i p) n; wr8 d n 0 }"

text \<open>The settings of a BootP reply.\<close>

definition bootp_settings :: "u32 \<Rightarrow> bytes \<Rightarrow> 'b dhcp_scheme \<Rightarrow> 'b dhcp_scheme option" where
  "bootp_settings ip_src p a = do {
     yiaddr \<leftarrow> rd32 p 16;
     siaddr \<leftarrow> rd32 p 20;
     let a = a\<lparr>dhcp_own_ip := yiaddr, dhcp_siaddr_ip := siaddr, dhcp_server_ip := ip_src\<rparr>;
     n \<leftarrow> strlen (drop 44 p);
     a \<leftarrow> (if n \<noteq> 0 \<and> siaddr = 0
       then do { t \<leftarrow> copy_name (dhcp_tftp_name a) p 44 64; Some (a\<lparr>dhcp_tftp_name := t\<rparr>) } else Some a);
     n \<leftarrow> strlen (drop 108 p);
     a \<leftarrow> (if n \<noteq> 0 then do { t \<leftarrow> copy_name (dhcp_filename a) p 108 128; Some (a\<lparr>dhcp_filename := t\<rparr>) } else Some a);
     Some (a\<lparr>dhcp_state := 3\<rparr>) }"

text \<open>The settings of a DHCP acknowledgement.\<close>

definition ack_settings :: "bytes \<Rightarrow> dhcp_options \<Rightarrow> 'b dhcp_scheme \<Rightarrow> 'b dhcp_scheme option" where
  "ack_settings p opt a = do {
     yiaddr \<leftarrow> rd32 p 16;
     siaddr \<leftarrow> rd32 p 20;
     let a = a\<lparr>dhcp_own_ip := yiaddr, dhcp_server_ip := server_ID opt, dhcp_siaddr_ip := siaddr\<rparr>;
     a \<leftarrow> (if o_flag opt ! 66 \<noteq> 0
       then do { t \<leftarrow> strcpy (dhcp_tftp_name a) (tftp_server opt); Some (a\<lparr>dhcp_tftp_name := t\<rparr>) }
       else do {
         n \<leftarrow> wr8 (dhcp_filename a) 0 0;
         let a = a\<lparr>dhcp_filename := n\<rparr>;
         if o_overload opt \<noteq> 2 \<and> o_overload opt \<noteq> 3 \<and> siaddr = 0
         then do { t \<leftarrow> copy_name (dhcp_tftp_name a) p 44 64; Some (a\<lparr>dhcp_tftp_name := t\<rparr>) } else Some a });
     a \<leftarrow> (if o_flag opt ! 67 \<noteq> 0
       then do { t \<leftarrow> strcpy (dhcp_filename a) (bootfile opt); Some (a\<lparr>dhcp_filename := t\<rparr>) }
       else do {
         n \<leftarrow> wr8 (dhcp_filename a) 0 0;
         let a = a\<lparr>dhcp_filename := n\<rparr>;
         if o_overload opt \<noteq> 1 \<and> o_overload opt \<noteq> 3
         then do {
           l \<leftarrow> strlen (drop 108 p);
           if l \<noteq> 0 then do { t \<leftarrow> copy_name (dhcp_filename a) p 108 128; Some (a\<lparr>dhcp_filename := t\<rparr>) } else Some a }
         else Some a });
     Some (a\<lparr>dhcp_state := 3\<rparr>) }"

text \<open>Overloading: the options in the fields \<open>file\<close> and \<open>sname\<close> are merged behind those of \<open>vend\<close> in a buffer of 1024 bytes. The result is \<open>None\<close> inside if
  the message is refused.\<close>

definition merge_overload :: "bytes \<Rightarrow> int \<Rightarrow> u8 \<Rightarrow> (bytes \<times> u32) option option" where
  "merge_overload p packetsize ov = do {
     let opt_len = (word_of_int (packetsize - 300 + 64 - 4) :: u32);
     d \<leftarrow> rdn p 236 (unat (opt_len + 4));
     options \<leftarrow> wrn (replicate 1024 0) 0 d;
     let b = drop 4 options;
     file \<leftarrow> rdn p 108 128;
     sname \<leftarrow> rdn p 44 64;
     (r, b, len) \<leftarrow> (
       if ov = 1 then dhcp_merge_options b opt_len file 128
       else if ov = 2 then dhcp_merge_options b opt_len sname 64
       else if ov = 3
       then do {
         (r, b, len) \<leftarrow> dhcp_merge_options b opt_len file 128;
         if r = 0 then Some (r, b, len) else dhcp_merge_options b len sname 64 }
       else Some (0, b, opt_len));
     Some (if r = 0 then None else Some (take 4 options @ b, len + 4)) }"

text \<open>The settings that take effect when the client has succeeded.\<close>

definition dhcp_success :: "dhcp_options \<Rightarrow> bytes \<Rightarrow> int \<Rightarrow> 'b dhcp_net \<Rightarrow> 'b dhcp_net option" where
  "dhcp_success opt p packetsize st = do {
     st \<leftarrow> set_ipv4_address (dhcp_own_ip (app st)) st;
     st \<leftarrow> (case response_buffer (app st) of None \<Rightarrow> Some st
       | Some rb \<Rightarrow> do {
           d \<leftarrow> rdn p 0 (if packetsize \<le> 1720 then nat (u64_of packetsize) else 1720);
           rb \<leftarrow> wrn rb 0 d;
           Some (upd_app (response_buffer_update (\<lambda>_. Some rb)) st) });
     st \<leftarrow> (if o_flag opt ! 1 \<noteq> 0 \<and> o_flag opt ! 3 \<noteq> 0
       then do { st \<leftarrow> set_ipv4_router (router_IP opt) st; set_ipv4_netmask (o_subnet_mask opt) st } else Some st);
     if o_flag opt ! 6 \<noteq> 0 then dns_init (dns_IP opt) [] 4 st else Some st }"

text \<open>The state machine for a message with a DHCP message type. The result is \<open>Some r\<close> inside if the handler returns \<open>r\<close> at once.\<close>

definition dhcp_transition :: "u16 option \<Rightarrow> 'b dhcp_scheme sender \<Rightarrow> bytes \<Rightarrow> dhcp_options \<Rightarrow> 'b dhcp_net \<Rightarrow> (int option \<times> 'b dhcp_net) option" where
  "dhcp_transition arch send p opt st =
     (if dhcp_state (app st) = 1
      then (if msg_type opt = 2
        then do {
          yiaddr \<leftarrow> rd32 p 16;
          st \<leftarrow> dhcp_send_request arch send (upd_app (\<lambda>a. a\<lparr>dhcp_own_ip := yiaddr, dhcp_server_ip := server_ID opt\<rparr>) st);
          Some (Some 0, upd_app (dhcp_state_update (\<lambda>_. 2)) st) }
        else Some (Some 0, st))
      else if dhcp_state (app st) = 2
      then (if msg_type opt = 6
        then Some (None, upd_app (\<lambda>a. a\<lparr>dhcp_own_ip := 0, dhcp_server_ip := 0, dhcp_state := 4\<rparr>) st)
        else if msg_type opt = 5
        then do { a \<leftarrow> ack_settings p opt (app st); Some (None, st\<lparr>app := a\<rparr>) }
        else Some (None, st))
      else Some (Some (-1), st))"

abbreviation upd_pxe :: "decoded \<Rightarrow> 'b dhcp_net \<Rightarrow> 'b dhcp_net" where
  "upd_pxe dc st \<equiv> upd_app (\<lambda>a. a\<lparr>pxelinux_cfgfile := new_cfgfile dc, pxelinux_prefix := new_prefix dc\<rparr>) st"

definition handle_dhcp :: "u16 option \<Rightarrow> (nat \<Rightarrow> bool) \<Rightarrow> u32 \<Rightarrow> 'b dhcp_scheme sender \<Rightarrow> 'b dhcp_scheme handler" where
  "handle_dhcp arch malloc_ok ip_src send st p packetsize = do {
     ty \<leftarrow> rd8 p 0;
     xid \<leftarrow> rd32 p 4;
     if ty \<noteq> 2 \<or> xid \<noteq> dhcp_xid (app st) then Some (-1, st)
     else do {
       c \<leftarrow> memcmp (drop 236 p) dhcp_magic 4;
       if c \<noteq> 0
       then do { a \<leftarrow> bootp_settings ip_src p (app st); Some (0, st\<lparr>app := a\<rparr>) }
       else do {
         (r, dc) \<leftarrow> dhcp_decode_options malloc_ok (drop 236 p) (word_of_int (packetsize - 300 + 64))
           \<lparr>opts = no_options, new_cfgfile = pxelinux_cfgfile (app st), new_prefix = pxelinux_prefix (app st)\<rparr>;
         let st = upd_pxe dc st;
         if r = 0 then Some (-1, st)
         else do {
           m \<leftarrow> (if o_overload (opts dc) \<noteq> 0
             then do {
               m \<leftarrow> merge_overload p packetsize (o_overload (opts dc));
               case m of None \<Rightarrow> Some (0, dc)
               | Some (b, len) \<Rightarrow> dhcp_decode_options malloc_ok b len dc }
             else Some (1, dc));
           let dc = snd m;
           let st = upd_pxe dc st;
           let opt = opts dc;
           if fst m = 0 then Some (-1, st)
           else do {
             (r, st) \<leftarrow> (if msg_type opt = 0
               then do { a \<leftarrow> bootp_settings ip_src p (app st); Some (None, st\<lparr>app := a\<rparr>) }
               else dhcp_transition arch send p opt st);
             case r of Some r \<Rightarrow> Some (r, st)
             | None \<Rightarrow> (if dhcp_state (app st) = 3
                 then do { st \<leftarrow> dhcp_success opt p packetsize st; Some (0, st) } else Some (0, st)) } } } } }"

section \<open>The client\<close>

fun dhcp_wait :: "('b dhcp_net \<Rightarrow> (int \<times> 'b dhcp_net) option) \<Rightarrow> nat \<Rightarrow> 'b dhcp_net \<Rightarrow> (int option \<times> 'b dhcp_net) option" where
  "dhcp_wait recv_ether k st = do {
     (_, st) \<leftarrow> recv_ether st;
     if dhcp_state (app st) = 3 then Some (Some 1, st)
     else if dhcp_state (app st) = 4 then Some (Some 0, st)
     else (case k of 0 \<Rightarrow> Some (None, st) | Suc k \<Rightarrow> dhcp_wait recv_ether k st) }"

declare dhcp_wait.simps [simp del]

definition dhcp_attempt :: "u16 option \<Rightarrow> 'b dhcp_scheme sender \<Rightarrow> ('b dhcp_net \<Rightarrow> (int \<times> 'b dhcp_net) option) \<Rightarrow> 'b dhcp_net \<Rightarrow> (int \<times> 'b dhcp_net) option" where
  "dhcp_attempt arch send recv_ether st = do {
     st \<leftarrow> dhcp_send_discover arch send st;
     let (k, st) = set_timer (upd_app (dhcp_state_update (\<lambda>_. 1)) st);
     (r, st) \<leftarrow> dhcp_wait recv_ether k st;
     case r of Some r \<Rightarrow> Some (r, st)
     | None \<Rightarrow> do {
         let (k, st) = set_timer st;
         (r, st) \<leftarrow> dhcp_wait recv_ether k st;
         Some (case r of Some r \<Rightarrow> r | None \<Rightarrow> 0, st) } }"

text \<open>The address of the TFTP server, or the error number. \<open>scratch\<close> is a local array of \<open>strtoip\<close>.\<close>

definition tftp_address :: "bytes \<Rightarrow> bytes \<Rightarrow> 'b dhcp_scheme sender \<Rightarrow> ('b dhcp_net \<Rightarrow> (int \<times> 'b dhcp_net) option) \<Rightarrow> 'b dhcp_net \<Rightarrow> ((int + u32) \<times> 'b dhcp_net) option" where
  "tftp_address own6 scratch send recv_ether st = do {
     n \<leftarrow> strlen (dhcp_tftp_name (app st));
     if n = 0
     then Some (if dhcp_siaddr_ip (app st) = 0 then Inl (-3) else Inr (dhcp_siaddr_ip (app st)), st)
     else do {
       (r, ip) \<leftarrow> strtoip (dhcp_tftp_name (app st)) (replicate 4 0) scratch;
       if r \<noteq> 0 then do { v \<leftarrow> rd32 ip 0; Some (Inr v, st) }
       else do {
         (r, ip, st) \<leftarrow> dns_get_ip own6 send recv_ether (dhcp_tftp_name (app st)) ip 4 st;
         if r \<noteq> 0 then do { v \<leftarrow> rd32 ip 0; Some (Inr v, st) }
         else Some (if dhcp_siaddr_ip (app st) \<noteq> 0 then Inr (dhcp_siaddr_ip (app st)) else Inl (-4), st) } } }"

definition dhcpv4 :: "u16 option \<Rightarrow> bytes \<Rightarrow> bytes \<Rightarrow> 'b dhcp_scheme sender \<Rightarrow> ('b dhcp_net \<Rightarrow> (int \<times> 'b dhcp_net) option) \<Rightarrow>
    bytes option \<Rightarrow> filename_ip \<Rightarrow> 'b dhcp_net \<Rightarrow> (int \<times> filename_ip \<times> 'b dhcp_net) option" where
  "dhcpv4 arch own6 scratch send recv_ether ret_buffer fn st = do {
     f \<leftarrow> strcpy (dhcp_filename (app st)) [0];
     t \<leftarrow> strcpy (dhcp_tftp_name (app st)) [0];
     let st = upd_app (\<lambda>a. a\<lparr>dhcp_filename := f, dhcp_tftp_name := t, pxelinux_cfgfile := None, pxelinux_prefix := None, response_buffer := ret_buffer\<rparr>) st;
     (r, st) \<leftarrow> dhcp_attempt arch send recv_ether st;
     if r = 0 then Some (-1, fn, st)
     else do {
       let st = (if fn_own_ip fn \<noteq> 0 then upd_app (dhcp_own_ip_update (\<lambda>_. fn_own_ip fn)) st else st);
       let st = (if fn_server_ip fn \<noteq> 0 then upd_app (dhcp_siaddr_ip_update (\<lambda>_. fn_server_ip fn)) st else st);
       c \<leftarrow> rd8 (fn_filename fn) 0;
       st \<leftarrow> (if c \<noteq> 0 then do { f \<leftarrow> strcpy (dhcp_filename (app st)) (fn_filename fn); Some (upd_app (dhcp_filename_update (\<lambda>_. f)) st) } else Some st);
       (ip, st) \<leftarrow> tftp_address own6 scratch send recv_ether st;
       case ip of Inl e \<Rightarrow> Some (e, fn, st)
       | Inr v \<Rightarrow> do {
           f \<leftarrow> strcpy (fn_filename fn) (dhcp_filename (app st));
           Some (0, fn\<lparr>fn_own_ip := dhcp_own_ip (app st), fn_server_ip := v, fn_filename := f,
               fn_pl_cfgfile := pxelinux_cfgfile (app st), fn_pl_prefix := pxelinux_prefix (app st)\<rparr>,
             upd_app (\<lambda>a. a\<lparr>pxelinux_cfgfile := None, pxelinux_prefix := None\<rparr>) st) } } }"

end
