(* ===== verification/Net_Options.thy ===== *)
theory Net_Options
  imports Net_Sender Net_Dhcp
begin

text \<open>The options of DHCP messages as a list of codes with data: decoding applies their effects one after the other, encoding
  writes such a list, and the two fit together.\<close>

section \<open>Options as a list\<close>

type_synonym dhcp_opt = "u8 \<times> bytes"

definition tlv :: "dhcp_opt \<Rightarrow> bytes" where
  "tlv x = fst x # of_nat (length (snd x)) # snd x"

abbreviation tlvs :: "dhcp_opt list \<Rightarrow> bytes" where
  "tlvs os \<equiv> concat (map tlv os)"

definition opt_wf :: "dhcp_opt \<Rightarrow> bool" where
  "opt_wf x \<longleftrightarrow> (let c = fst x; d = snd x in c \<noteq> 0 \<and> c \<noteq> 255 \<and> length d < 256 \<and> (c \<in> {52, 53} \<longrightarrow> d \<noteq> []) \<and>
     (c = 53 \<longrightarrow> 0 < d ! 0 \<and> d ! 0 < 9) \<and> (c \<in> {1, 3, 6, 50, 54} \<longrightarrow> 4 \<le> length d) \<and> (c = 93 \<longrightarrow> length d = 2))"

definition word32 :: "bytes \<Rightarrow> u32" where
  "word32 d = cat32 (cat16 (d ! 0) (d ! 1)) (cat16 (d ! 2) (d ! 3))"

abbreviation put_str :: "bytes \<Rightarrow> bytes \<Rightarrow> bytes" where
  "put_str s d \<equiv> d @ 0 # drop (length d + 1) s"

text \<open>The effect of one option, as RFC 2132 gives it.\<close>

definition set_option :: "dhcp_opt \<Rightarrow> dhcp_options \<Rightarrow> dhcp_options" where
  "set_option x o' = (let c = fst x; d = snd x in
     if c = 1 then o'\<lparr>o_subnet_mask := word32 d\<rparr> else if c = 3 then o'\<lparr>router_IP := word32 d\<rparr>
     else if c = 6 then o'\<lparr>dns_IP := word32 d\<rparr> else if c = 50 then o'\<lparr>requested_IP := word32 d\<rparr>
     else if c = 52 then o'\<lparr>o_overload := d ! 0\<rparr> else if c = 53 then o'\<lparr>msg_type := d ! 0\<rparr>
     else if c = 54 then o'\<lparr>server_ID := word32 d\<rparr> else if c = 66 then o'\<lparr>tftp_server := put_str (tftp_server o') d\<rparr>
     else if c = 67 then o'\<lparr>bootfile := put_str (bootfile o') d\<rparr> else if c = 93 then o'\<lparr>client_arch := cat16 (d ! 0) (d ! 1)\<rparr> else o')"

definition take_option :: "(nat \<Rightarrow> bool) \<Rightarrow> dhcp_opt \<Rightarrow> decoded \<Rightarrow> decoded" where
  "take_option malloc_ok x dc = (let c = fst x; d = snd x; s = (if malloc_ok (length d + 1) then Some (d @ [0]) else None) in
     dc\<lparr>opts := set_option x ((opts dc)\<lparr>o_flag := (o_flag (opts dc))[unat c := 1]\<rparr>),
        new_cfgfile := (if c = 209 then s else new_cfgfile dc), new_prefix := (if c = 210 then s else new_prefix dc)\<rparr>)"

definition sized_opts :: "dhcp_options \<Rightarrow> bool" where
  "sized_opts o' \<longleftrightarrow> length (tftp_server o') = 256 \<and> length (bootfile o') = 256 \<and> length (o_flag o') = 256"

lemma sized_no_options: "sized_opts no_options"
  by (simp add: sized_opts_def no_options_def)

lemma sized_take_option: "sized_opts (opts dc) \<Longrightarrow> opt_wf x \<Longrightarrow> sized_opts (opts (take_option malloc_ok x dc))"
  by (auto simp: sized_opts_def take_option_def set_option_def opt_wf_def Let_def)

lemma decode_tlv:
  assumes "opt_wf (c, d)" "sized_opts (opts dc)" "unat offs = length pre"
  shows "decode_option malloc_ok (pre @ tlv (c, d) @ post) offs dc =
    Some (Next (offs + of_nat (length d + 2)), take_option malloc_ok (c, d) dc)"
proof -
  let ?f = "pre @ tlv (c, d) @ post" and ?i = "length pre"
  have len: "length d < 256" using assms(1) by (simp add: opt_wf_def)
  have n: "unat (of_nat (length d) :: u8) = length d" using len by (simp add: unsigned_of_nat take_bit_nat_eq_self_iff)
  have u: "offs + (2 + ucast (of_nat (length d) :: u8)) = offs + of_nat (length d + 2)"
  proof -
    have "(ucast (of_nat (length d) :: u8) :: u32) = of_nat (unat (of_nat (length d) :: u8))" by simp
    then show ?thesis unfolding n by simp
  qed
  have r: "rd8 ?f ?i = Some c" "rd8 ?f (?i + 1) = Some (of_nat (length d))" "rdn ?f (?i + 2) (length d) = Some d"
    by (simp_all add: rd8_def rdn_def tlv_def nth_append)
  have r2: "d \<noteq> [] \<Longrightarrow> rd8 ?f (?i + 2) = Some (d ! 0)" "2 \<le> length d \<Longrightarrow> rd8 ?f (?i + 3) = Some (d ! 1)"
    by (auto simp: rd8_def tlv_def nth_append numeral_eq_Suc)
  have r4: "4 \<le> length d \<Longrightarrow> rd32 ?f (?i + 2) = Some (word32 d)"
    by (auto simp: rd32_def tlv_def nth_append word32_def)
  have s: "string_option t ?f (?i + 2) (length d) = Some (put_str t d)" if "length t = 256" for t
    using r(3) that len by (simp add: string_option_def wrn_def wr8_def)
  have a: "alloc_option malloc_ok ?f (?i + 2) (length d) = Some (if malloc_ok (length d + 1) then Some (d @ [0]) else None)"
    using r(3) by (simp add: alloc_option_def)
  note defs = assms(3) decode_option_def take_option_def set_option_def Let_def
  have e: ?thesis if "c = k" "k \<in> {52, 53}" for k
    using that assms(1) r r2 u by (elim insertE emptyE) (simp_all add: defs opt_wf_def)
  have w: ?thesis if "c = k" "k \<in> {1, 3, 6, 50, 54}" for k
    using that assms(1) r r4 u by (elim insertE emptyE) (simp_all add: defs opt_wf_def)
  have h: ?thesis if "c = 93" using that assms(1) r r2 u by (cases "d = []") (simp_all add: defs opt_wf_def)
  have t: ?thesis if "c = k" "k \<in> {66, 67}" for k
    using that assms(2) r s n u by (elim insertE emptyE) (simp_all add: defs sized_opts_def)
  have p: ?thesis if "c = k" "k \<in> {209, 210}" for k
    using that r a n u by (elim insertE emptyE) (simp_all add: defs)
  have z: ?thesis if "c \<notin> {52, 53, 1, 3, 6, 50, 54, 93, 66, 67, 209, 210}"
    using that assms(1) r u by (simp add: defs opt_wf_def)
  show ?thesis using e w h t p z by blast
qed

definition end_option :: "decoded \<Rightarrow> decoded" where
  "end_option dc = dc\<lparr>opts := (opts dc)\<lparr>o_flag := (o_flag (opts dc))[255 := 1]\<rparr>\<rparr>"

definition take_options :: "(nat \<Rightarrow> bool) \<Rightarrow> dhcp_opt list \<Rightarrow> decoded \<Rightarrow> decoded" where
  "take_options malloc_ok os dc = end_option (fold (take_option malloc_ok) os (dc\<lparr>opts := no_options\<rparr>))"

lemma length_tlv: "length (tlv x) = length (snd x) + 2"
  by (simp add: tlv_def)

lemma decode_loop_tlvs:
  assumes "\<forall>x \<in> set os. opt_wf x" "sized_opts (opts dc)" "unat offs = length pre" "length (pre @ tlvs os) < unat n"
  shows "decode_loop malloc_ok (pre @ tlvs os @ 255 # post) n offs dc = Some (1, end_option (fold (take_option malloc_ok) os dc))"
  using assms
proof (induction os arbitrary: pre offs dc)
  case Nil
  have "offs < n" using Nil by (simp add: word_less_nat_alt)
  moreover have "decode_option malloc_ok (pre @ 255 # post) offs dc = Some (Return 1, end_option dc)"
    using Nil(3) by (simp add: decode_option_def rd8_def nth_append end_option_def)
  ultimately show ?case by (subst decode_loop.simps) simp
next
  case (Cons x os)
  obtain c d where x: "x = (c, d)" by fastforce
  have wf: "opt_wf (c, d)" using Cons.prems(1) x by simp
  have lt: "offs < n" using Cons.prems(3,4) by (simp add: word_less_nat_alt)
  have n: "unat n < 2 ^ 32" using unsigned_less[of n, where 'a=nat] by simp
  have b: "length pre + (length d + 2) < unat n" using Cons.prems(4) x by (simp add: length_tlv)
  have w: "unat (of_nat (length d + 2) :: u32) = length d + 2" using b n by (simp only: unsigned_of_nat) (simp add: take_bit_nat_eq_self_iff)
  have "unat (offs + of_nat (length d + 2)) = unat offs + unat (of_nat (length d + 2) :: u32)"
    using b n Cons.prems(3) unfolding w by (subst unat_word_ariths(1)) (simp only: w, simp)
  then have o: "unat (offs + of_nat (length d + 2)) = length (pre @ tlv x)" using w Cons.prems(3) x by (simp add: length_tlv)
  have "decode_loop malloc_ok (pre @ tlvs (x # os) @ 255 # post) n offs dc =
      decode_loop malloc_ok ((pre @ tlv x) @ tlvs os @ 255 # post) n (offs + of_nat (length d + 2)) (take_option malloc_ok x dc)"
    using decode_tlv[OF wf Cons.prems(2,3), of malloc_ok "tlvs os @ 255 # post"] lt x by (subst decode_loop.simps) simp
  also have "\<dots> = Some (1, end_option (fold (take_option malloc_ok) os (take_option malloc_ok x dc)))"
    using Cons.prems x wf o sized_take_option[OF Cons.prems(2)] by (intro Cons.IH) auto
  finally show ?case by simp
qed

lemma decode_message:
  assumes "\<forall>x \<in> set os. opt_wf x" "length (tlvs os) + 4 < unat n"
  shows "dhcp_decode_options malloc_ok (dhcp_magic @ tlvs os @ 255 # post) n dc = Some (1, take_options malloc_ok os dc)"
proof -
  have "memcmp (dhcp_magic @ tlvs os @ 255 # post) dhcp_magic 4 = Some 0" by (subst memcmp_0_iff) (simp_all add: dhcp_magic_def)
  then show ?thesis
    using decode_loop_tlvs[OF assms(1), of "dc\<lparr>opts := no_options\<rparr>" 4 dhcp_magic n malloc_ok post] assms(2)
    by (simp add: dhcp_decode_options_def take_options_def sized_no_options dhcp_magic_def)
qed

section \<open>Encoding\<close>

text \<open>The options that \<open>dhcp_encode_options\<close> writes, in this order.\<close>

definition encoded :: "u16 option \<Rightarrow> dhcp_options \<Rightarrow> dhcp_opt list" where
  "encoded arch o' =
     [(53, [msg_type o'])] @ (if o_overload o' \<noteq> 0 then [(52, [o_overload o'])] else []) @
     (if o_flag o' ! 50 \<noteq> 0 then [(50, be32 (requested_IP o'))] else []) @
     (if o_flag o' ! 54 \<noteq> 0 then [(54, be32 (server_ID o'))] else []) @
     (if requested (request_list o') \<noteq> [] then [(55, requested (request_list o'))] else []) @
     (if o_flag o' ! 66 \<noteq> 0 then [(66, cstr (tftp_server o') @ [0])] else []) @
     (if o_flag o' ! 67 \<noteq> 0 then [(67, cstr (bootfile o') @ [0])] else []) @
     (if o_flag o' ! 93 \<noteq> 0 then [(93, case arch of None \<Rightarrow> [0, 0] | Some a \<Rightarrow> [hi8 a, lo8 a])] else [])"

definition encodable :: "dhcp_options \<Rightarrow> bool" where
  "encodable o' \<longleftrightarrow> msg_type o' \<in> {1, 3, 4, 7, 8} \<and> length (request_list o') = 256 \<and> set (request_list o') \<subseteq> {0, 1} \<and>
     length (requested (request_list o')) < 256 \<and> terminated (tftp_server o') \<and> terminated (bootfile o') \<and>
     length (tftp_server o') = 256 \<and> length (bootfile o') = 256 \<and> length (cstr (tftp_server o')) < 255 \<and> length (cstr (bootfile o')) < 255"

text \<open>The buffer \<open>b\<close> with \<open>s\<close> at its start.\<close>

definition laid :: "bytes \<Rightarrow> bytes \<Rightarrow> bytes" where
  "laid b s = s @ drop (length s) b"

lemma put_option_laid:
  assumes "n = of_nat (length d)" "length (s @ tlv (c, d)) \<le> length b" "i = length s"
  shows "put_option (laid b s) i c n d = Some (laid b (s @ tlv (c, d)), length (s @ tlv (c, d)))"
  using assms by (simp add: put_option_def laid_def tlv_def wrn_def add.commute)

lemma put_string_laid:
  assumes "terminated t" "length (cstr t) < 255" "length (s @ tlv (c, cstr t @ [0])) \<le> length b" "i = length s"
  shows "put_string_option (laid b s) i c t = Some (laid b (s @ tlv (c, cstr t @ [0])), length (s @ tlv (c, cstr t @ [0])))"
proof -
  let ?n = "length (cstr t)"
  note n = strlen_short[OF assms(1)]
  have "(ucast (of_nat (?n + 1) :: u64) :: u8) = of_nat (unat (of_nat (?n + 1) :: u64))" by simp
  also have "unat (of_nat (?n + 1) :: u64) = ?n + 1" using assms(2) by (simp only: unsigned_of_nat) (simp add: take_bit_nat_eq_self)
  finally have c: "ucast (of_nat ?n + 1 :: u64) = (of_nat (?n + 1) :: u8)" by (simp add: add.commute)
  have u: "unat (of_nat (?n + 1) :: u8) = ?n + 1" using assms(2) by (simp only: unsigned_of_nat) (simp add: take_bit_nat_eq_self)
  obtain rest where r: "t = cstr t @ 0 # rest" using terminated_split[OF assms(1)] by blast
  have "rdn (cstr t @ 0 # rest) 0 (?n + 1) = Some (cstr t @ [0])" by (simp add: rdn_def)
  then have r: "rdn t 0 (?n + 1) = Some (cstr t @ [0])" using r by simp
  have "put_string_option (laid b s) i c t = put_option (laid b s) i c (of_nat (?n + 1)) (cstr t @ [0])"
    using assms(2) by (subst put_string_option_def) (simp only: n(1) c u r Let_def bind.bind_lunit)
  then show ?thesis using assms(3,4) by (simp add: put_option_laid)
qed

text \<open>The length byte of the parameter request list.\<close>

lemma sum_flags:
  assumes "set xs \<subseteq> {0, 1}"
  shows "((\<Sum>x\<leftarrow>xs. ucast (x :: u8)) :: u16) = of_nat (length (filter (\<lambda>x. x \<noteq> 0) xs))"
  using assms by (induction xs) auto

lemma length_requested: "length rl = 256 \<Longrightarrow> length (requested rl) = length (filter (\<lambda>x. x \<noteq> 0) rl)"
proof -
  assume "length rl = 256"
  then have "rl = map ((!) rl) [0..<256]" by (metis map_nth)
  then have "length (filter (\<lambda>x. x \<noteq> 0) rl) = length (filter (\<lambda>x. x \<noteq> 0) (map ((!) rl) [0..<256]))" by simp
  then show ?thesis by (simp add: requested_def filter_map o_def)
qed

lemma sum_request_list:
  assumes "encodable o'"
  shows "((\<Sum>x\<leftarrow>request_list o'. ucast x) :: u16) = of_nat (length (requested (request_list o')))"
    "((\<Sum>x\<leftarrow>request_list o'. ucast x) :: u16) = 0 \<longleftrightarrow> requested (request_list o') = []"
    "(ucast ((\<Sum>x\<leftarrow>request_list o'. ucast x) :: u16) :: u8) = of_nat (length (requested (request_list o')))"
proof -
  let ?k = "length (requested (request_list o'))"
  show s: "((\<Sum>x\<leftarrow>request_list o'. ucast x) :: u16) = of_nat ?k"
    using assms sum_flags length_requested by (simp add: encodable_def)
  have u: "unat (of_nat ?k :: u16) = ?k" using assms by (simp only: unsigned_of_nat) (simp add: take_bit_nat_eq_self encodable_def)
  show "((\<Sum>x\<leftarrow>request_list o'. ucast x) :: u16) = 0 \<longleftrightarrow> requested (request_list o') = []"
    unfolding s unat_eq_0[symmetric] u by simp
  have "(ucast (of_nat ?k :: u16) :: u8) = of_nat (unat (of_nat ?k :: u16))" by simp
  then show "(ucast ((\<Sum>x\<leftarrow>request_list o'. ucast x) :: u16) :: u8) = of_nat ?k" unfolding s u by simp
qed

lemma length_magic [simp]: "length dhcp_magic = 4"
  by (simp add: dhcp_magic_def)

lemma step_laid:
  assumes "n = of_nat (length d)" "length (s @ tlvs (if P then [(c, d)] else [])) \<le> length b"
  shows "(if P then put_option (laid b s) (length s) c n d else Some (laid b s, length s)) =
    Some (laid b (s @ tlvs (if P then [(c, d)] else [])), length (s @ tlvs (if P then [(c, d)] else [])))"
  using assms put_option_laid[of n d s c b "length s"] by auto

lemma string_step_laid:
  assumes "terminated t" "length (cstr t) < 255" "length (s @ tlvs (if P then [(c, cstr t @ [0])] else [])) \<le> length b"
  shows "(if P then put_string_option (laid b s) (length s) c t else Some (laid b s, length s)) =
    Some (laid b (s @ tlvs (if P then [(c, cstr t @ [0])] else [])), length (s @ tlvs (if P then [(c, cstr t @ [0])] else [])))"
  using assms put_string_laid[of t s c b "length s"] by auto

lemma encode_laid:
  assumes e: "encodable o'" and b: "length (tlvs (encoded arch o')) + 5 \<le> length b"
  shows "dhcp_encode_options arch b o' = Some (1, laid b (dhcp_magic @ tlvs (encoded arch o') @ [255]))"
proof -
  let ?r = "requested (request_list o')" and ?a = "case arch of None \<Rightarrow> 0 | Some a \<Rightarrow> a"
  define x1 where "x1 = dhcp_magic @ tlvs [(53, [msg_type o'])]"
  define x2 where "x2 = x1 @ tlvs (if o_overload o' \<noteq> 0 then [(52, [o_overload o'])] else [])"
  define x3 where "x3 = x2 @ tlvs (if o_flag o' ! 50 \<noteq> 0 then [(50, be32 (requested_IP o'))] else [])"
  define x4 where "x4 = x3 @ tlvs (if o_flag o' ! 54 \<noteq> 0 then [(54, be32 (server_ID o'))] else [])"
  define x5 where "x5 = x4 @ tlvs (if ?r \<noteq> [] then [(55, ?r)] else [])"
  define x6 where "x6 = x5 @ tlvs (if o_flag o' ! 66 \<noteq> 0 then [(66, cstr (tftp_server o') @ [0])] else [])"
  define x7 where "x7 = x6 @ tlvs (if o_flag o' ! 67 \<noteq> 0 then [(67, cstr (bootfile o') @ [0])] else [])"
  define x8 where "x8 = x7 @ tlvs (if o_flag o' ! 93 \<noteq> 0 then [(93, [hi8 ?a, lo8 ?a])] else [])"
  note x = x1_def x2_def x3_def x4_def x5_def x6_def x7_def x8_def
  have a: "(case arch of None \<Rightarrow> [0, 0] | Some a \<Rightarrow> [hi8 a, lo8 a]) = [hi8 ?a, lo8 ?a]" by (cases arch) simp_all
  have x8: "x8 = dhcp_magic @ tlvs (encoded arch o')"
    unfolding x encoded_def a by (simp only: map_append concat_append append_assoc)
  have "length x1 \<le> length x2" "length x2 \<le> length x3" "length x3 \<le> length x4" "length x4 \<le> length x5"
    "length x5 \<le> length x6" "length x6 \<le> length x7" "length x7 \<le> length x8"
    unfolding x2_def x3_def x4_def x5_def x6_def x7_def x8_def by (simp_all only: length_append le_add1)
  moreover have l8: "length x8 < length b" using b x8 by simp
  ultimately have l: "length x1 \<le> length b" "length x2 \<le> length b" "length x3 \<le> length b" "length x4 \<le> length b" "length x5 \<le> length b"
    "length x6 \<le> length b" "length x7 \<le> length b" "length x8 \<le> length b" by simp_all
  have m: "wrn b 0 dhcp_magic = Some (laid b dhcp_magic)" using l8 x8 by (simp add: wrn_def laid_def)
  have t: "terminated (tftp_server o')" "length (cstr (tftp_server o')) < 255" "terminated (bootfile o')" "length (cstr (bootfile o')) < 255"
    using e by (simp_all add: encodable_def)
  have s1: "put_option (laid b dhcp_magic) 4 53 1 [msg_type o'] = Some (laid b x1, length x1)"
  proof -
    have x1: "x1 = dhcp_magic @ tlv (53, [msg_type o'])" unfolding x1_def by simp
    show ?thesis unfolding x1 by (rule put_option_laid) (use l(1) x1 in simp_all)
  qed
  have n1: "1 = of_nat (length [v])" and n2: "2 = of_nat (length [v, w])" and n4: "4 = of_nat (length (be32 u))" for v w :: u8 and u by simp_all
  note s2 = step_laid[of 1 "[o_overload o']" x1 "o_overload o' \<noteq> 0" 52 b, folded x2_def, OF n1 l(2)]
  note s3 = step_laid[of 4 "be32 (requested_IP o')" x2 "o_flag o' ! 50 \<noteq> 0" 50 b, folded x3_def, OF n4 l(3)]
  note s4 = step_laid[of 4 "be32 (server_ID o')" x3 "o_flag o' ! 54 \<noteq> 0" 54 b, folded x4_def, OF n4 l(4)]
  note s5 = step_laid[of "of_nat (length ?r)" ?r x4 "?r \<noteq> []" 55 b, folded x5_def, OF refl l(5)]
  note s6 = string_step_laid[OF t(1,2), of x5 "o_flag o' ! 66 \<noteq> 0" 66 b, folded x6_def, OF l(6)]
  note s7 = string_step_laid[OF t(3,4), of x6 "o_flag o' ! 67 \<noteq> 0" 67 b, folded x7_def, OF l(7)]
  note s8 = step_laid[of 2 "[hi8 ?a, lo8 ?a]" x7 "o_flag o' ! 93 \<noteq> 0" 93 b, folded x8_def, OF n2 l(8)]
  have s: "wr8 (laid b x8) (length x8) 0xFF = Some (laid b (x8 @ [255]))" using l8 by (simp add: wr8_def wrn_def laid_def)
  have ty: "msg_type o' \<in> {1, 3, 4, 8, 7}" using e by (auto simp: encodable_def)
  show ?thesis
    unfolding dhcp_encode_options_def m bind.bind_lunit Let_def sum_request_list(2,3)[OF e]
    using ty by (simp only: not_not if_False s1 s2 s3 s4 s5 s6 s7 s8 s bind.bind_lunit case_prod_conv) (simp add: x8)
qed

text \<open>Options with distinct codes take effect independently of each other.\<close>

lemma take_option_fields:
  "msg_type (opts (take_option malloc_ok (c, d) dc)) = (if c = 53 then d ! 0 else msg_type (opts dc))"
  "o_overload (opts (take_option malloc_ok (c, d) dc)) = (if c = 52 then d ! 0 else o_overload (opts dc))"
  "requested_IP (opts (take_option malloc_ok (c, d) dc)) = (if c = 50 then word32 d else requested_IP (opts dc))"
  "server_ID (opts (take_option malloc_ok (c, d) dc)) = (if c = 54 then word32 d else server_ID (opts dc))"
  "router_IP (opts (take_option malloc_ok (c, d) dc)) = (if c = 3 then word32 d else router_IP (opts dc))"
  "o_subnet_mask (opts (take_option malloc_ok (c, d) dc)) = (if c = 1 then word32 d else o_subnet_mask (opts dc))"
  "dns_IP (opts (take_option malloc_ok (c, d) dc)) = (if c = 6 then word32 d else dns_IP (opts dc))"
  "client_arch (opts (take_option malloc_ok (c, d) dc)) = (if c = 93 then cat16 (d ! 0) (d ! 1) else client_arch (opts dc))"
  "tftp_server (opts (take_option malloc_ok (c, d) dc)) = (if c = 66 then put_str (tftp_server (opts dc)) d else tftp_server (opts dc))"
  "bootfile (opts (take_option malloc_ok (c, d) dc)) = (if c = 67 then put_str (bootfile (opts dc)) d else bootfile (opts dc))"
  "o_flag (opts (take_option malloc_ok (c, d) dc)) = (o_flag (opts dc))[unat c := 1]"
  by (simp_all add: take_option_def set_option_def Let_def)

locale option_field =
  fixes get :: "dhcp_options \<Rightarrow> 'v" and code :: u8 and val :: "'v \<Rightarrow> bytes \<Rightarrow> 'v"
  assumes get_take: "get (opts (take_option malloc_ok (c, d) dc)) = (if c = code then val (get (opts dc)) d else get (opts dc))"
    and get_flag: "get (f\<lparr>o_flag := l\<rparr>) = get f"
begin

lemma get_fold:
  assumes "distinct (map fst os)"
  shows "get (opts (fold (take_option malloc_ok) os dc)) = (case map_of os code of None \<Rightarrow> get (opts dc) | Some d \<Rightarrow> val (get (opts dc)) d)"
  using assms
proof (induction os arbitrary: dc)
  case (Cons x os)
  obtain c d where x: "x = (c, d)" by fastforce
  have "c = code \<Longrightarrow> map_of os code = None" using Cons.prems x by (simp add: map_of_eq_None_iff)
  then show ?case using Cons x by (auto simp: get_take split: option.splits)
qed simp

lemma get_options:
  assumes "distinct (map fst os)"
  shows "get (opts (take_options malloc_ok os dc)) = (case map_of os code of None \<Rightarrow> get no_options | Some d \<Rightarrow> val (get no_options) d)"
  using get_fold[OF assms, of malloc_ok "dc\<lparr>opts := no_options\<rparr>"] by (simp add: take_options_def end_option_def get_flag cong: option.case_cong)

end

interpretation type_field: option_field msg_type 53 "\<lambda>_ d. d ! 0"
  by unfold_locales (simp_all add: take_option_fields)

interpretation overload_field: option_field o_overload 52 "\<lambda>_ d. d ! 0"
  by unfold_locales (simp_all add: take_option_fields)

interpretation requested_field: option_field requested_IP 50 "\<lambda>_ d. word32 d"
  by unfold_locales (simp_all add: take_option_fields)

interpretation server_field: option_field server_ID 54 "\<lambda>_ d. word32 d"
  by unfold_locales (simp_all add: take_option_fields)

interpretation router_field: option_field router_IP 3 "\<lambda>_ d. word32 d"
  by unfold_locales (simp_all add: take_option_fields)

interpretation mask_field: option_field o_subnet_mask 1 "\<lambda>_ d. word32 d"
  by unfold_locales (simp_all add: take_option_fields)

interpretation dns_field: option_field dns_IP 6 "\<lambda>_ d. word32 d"
  by unfold_locales (simp_all add: take_option_fields)

interpretation arch_field: option_field client_arch 93 "\<lambda>_ d. cat16 (d ! 0) (d ! 1)"
  by unfold_locales (simp_all add: take_option_fields)

interpretation name_field: option_field tftp_server 66 put_str
  by unfold_locales (simp_all add: take_option_fields)

interpretation file_field: option_field bootfile 67 put_str
  by unfold_locales (simp_all add: take_option_fields)

lemmas option_fields = type_field.get_options overload_field.get_options requested_field.get_options server_field.get_options
  router_field.get_options mask_field.get_options dns_field.get_options arch_field.get_options name_field.get_options file_field.get_options

lemma flag_fold: "length (o_flag (opts dc)) = 256 \<Longrightarrow>
    length (o_flag (opts (fold (take_option malloc_ok) os dc))) = 256 \<and> (\<forall>c < 256. o_flag (opts (fold (take_option malloc_ok) os dc)) ! c =
      (if c \<in> unat ` fst ` set os then 1 else o_flag (opts dc) ! c))"
proof (induction os arbitrary: dc)
  case (Cons x os)
  obtain c d where x: "x = (c, d)" by fastforce
  show ?case using Cons.IH[of "take_option malloc_ok x dc"] Cons.prems by (auto simp: take_option_fields x nth_list_update)
qed simp

lemma flag_options: "c < 255 \<Longrightarrow> o_flag (opts (take_options malloc_ok os dc)) ! c = (if c \<in> unat ` fst ` set os then 1 else 0)"
  using flag_fold[of "dc\<lparr>opts := no_options\<rparr>" malloc_ok os] by (simp add: take_options_def end_option_def no_options_def)

lemma encoded_wf:
  assumes "encodable o'"
  shows "\<forall>x \<in> set (encoded arch o'). opt_wf x" "distinct (map fst (encoded arch o'))" "length (tlvs (encoded arch o')) \<le> 793"
proof -
  show "\<forall>x \<in> set (encoded arch o'). opt_wf x"
    using assms by (auto simp: encoded_def opt_wf_def encodable_def split: if_splits option.splits)
  show "distinct (map fst (encoded arch o'))" by (simp add: encoded_def)
  show "length (tlvs (encoded arch o')) \<le> 793"
    using assms by (simp add: encoded_def length_tlv encodable_def split: option.splits)
qed

text \<open>C37: The round trip of the options: the message that \<open>dhcp_encode_options\<close> writes for a request is read back by
  \<open>dhcp_decode_options\<close>: the type, the overload byte, the addresses, the names and the presence of each of them are those that were
  encoded. 800 bytes are enough for every set of options.\<close>

theorem dhcp_options_roundtrip:
  assumes "encodable o'" "800 \<le> length b" "length b < 4294967296"
  shows "\<exists>b' dc'. dhcp_encode_options arch b o' = Some (1, b') \<and> length b' = length b \<and>
    dhcp_decode_options malloc_ok b' (of_nat (length b')) dc = Some (1, dc') \<and>
    msg_type (opts dc') = msg_type o' \<and> o_overload (opts dc') = o_overload o' \<and>
    (\<forall>c \<in> {50, 54, 66, 67, 93}. o_flag (opts dc') ! c = (if o_flag o' ! c \<noteq> 0 then 1 else 0)) \<and>
    (o_flag o' ! 50 \<noteq> 0 \<longrightarrow> requested_IP (opts dc') = requested_IP o') \<and> (o_flag o' ! 54 \<noteq> 0 \<longrightarrow> server_ID (opts dc') = server_ID o') \<and>
    (o_flag o' ! 66 \<noteq> 0 \<longrightarrow> cstr (tftp_server (opts dc')) = cstr (tftp_server o')) \<and>
    (o_flag o' ! 67 \<noteq> 0 \<longrightarrow> cstr (bootfile (opts dc')) = cstr (bootfile o'))"
proof -
  let ?os = "encoded arch o'" and ?dc = "take_options malloc_ok (encoded arch o') dc"
  note w = encoded_wf[OF assms(1), of arch]
  define b' where "b' = laid b (dhcp_magic @ tlvs ?os @ [255])"
  have e: "dhcp_encode_options arch b o' = Some (1, b')" unfolding b'_def using w(3) assms(2) by (intro encode_laid[OF assms(1)]) simp
  have l: "length b' = length b" using w(3) assms(2) by (simp add: b'_def laid_def)
  have u: "unat (of_nat (length b') :: u32) = length b" using l assms(3) by (simp only: unsigned_of_nat) (simp add: take_bit_nat_eq_self)
  have b': "b' = dhcp_magic @ tlvs ?os @ 255 # drop (length (tlvs ?os) + 5) b" by (simp add: b'_def laid_def add.commute)
  have d: "dhcp_decode_options malloc_ok b' (of_nat (length b')) dc = Some (1, ?dc)"
    unfolding b' by (rule decode_message[OF w(1), unfolded b'[symmetric]]) (use u w(3) assms(2) b' in simp)
  have word: "word32 (be32 v) = v" for v by (simp add: word32_def be32_def be_simps)
  have m: "map_of ?os 53 = Some [msg_type o']" "map_of ?os 52 = (if o_overload o' \<noteq> 0 then Some [o_overload o'] else None)"
    "map_of ?os 50 = (if o_flag o' ! 50 \<noteq> 0 then Some (be32 (requested_IP o')) else None)"
    "map_of ?os 54 = (if o_flag o' ! 54 \<noteq> 0 then Some (be32 (server_ID o')) else None)"
    "map_of ?os 66 = (if o_flag o' ! 66 \<noteq> 0 then Some (cstr (tftp_server o') @ [0]) else None)"
    "map_of ?os 67 = (if o_flag o' ! 67 \<noteq> 0 then Some (cstr (bootfile o') @ [0]) else None)"
    by (simp_all add: encoded_def map_add_def)
  have f: "c \<in> {50, 54, 66, 67, 93} \<Longrightarrow> o_flag (opts ?dc) ! c = (if o_flag o' ! c \<noteq> 0 then 1 else 0)" for c
    by (elim insertE emptyE) (auto simp: flag_options encoded_def image_iff)
  note o = option_fields[OF w(2), of malloc_ok dc, unfolded m]
  have c: "cstr (cstr s @ [0, 0] @ r) = cstr s" for s r using cstr_append[OF cstr_nonzero, of s "0 # r"] by simp
  have "msg_type (opts ?dc) = msg_type o'" "o_overload (opts ?dc) = o_overload o'" using o by (simp_all add: no_options_def)
  moreover have "requested_IP (opts ?dc) = requested_IP o'" if "o_flag o' ! 50 \<noteq> 0" using o that by (simp add: word)
  moreover have "server_ID (opts ?dc) = server_ID o'" if "o_flag o' ! 54 \<noteq> 0" using o that by (simp add: word)
  moreover have "cstr (tftp_server (opts ?dc)) = cstr (tftp_server o')" if "o_flag o' ! 66 \<noteq> 0" using o that c by simp
  moreover have "cstr (bootfile (opts ?dc)) = cstr (bootfile o')" if "o_flag o' ! 67 \<noteq> 0" using o that c by simp
  ultimately show ?thesis using e l d f by blast
qed

theorem dhcp_options_roundtrip_witness:
  "\<exists>b' dc'. dhcp_encode_options None (replicate 1000 0) (no_options\<lparr>msg_type := 3, requested_IP := 5, o_flag := (replicate 256 0)[50 := 1]\<rparr>) = Some (1, b') \<and>
    dhcp_decode_options (\<lambda>_. True) b' (of_nat (length b')) \<lparr>opts = no_options, new_cfgfile = None, new_prefix = None\<rparr> = Some (1, dc') \<and>
    msg_type (opts dc') = 3 \<and> requested_IP (opts dc') = 5"
proof -
  let ?o = "no_options\<lparr>msg_type := 3, requested_IP := 5, o_flag := (replicate 256 0)[50 := 1]\<rparr>"
  have "requested (replicate 256 0) = []" by (simp add: requested_def)
  moreover have "terminated (replicate 256 (0 :: u8))" "cstr (replicate 256 0) = []" by (simp_all add: cstr_def)
  ultimately have "encodable ?o" by (simp add: encodable_def no_options_def)
  then show ?thesis
    using dhcp_options_roundtrip[of ?o "replicate 1000 0" None "\<lambda>_. True" "\<lparr>opts = no_options, new_cfgfile = None, new_prefix = None\<rparr>"] by fastforce
qed

end
