(* ===== verification/Net_Lease.thy ===== *)
theory Net_Lease
  imports Net_Sender Net_Options
begin

text \<open>How the DHCP client obtains a lease: it answers an offer with a request for the offered address, through the whole IP
  layer, and takes its settings from the acknowledgement. Messages with overloaded fields are bounded by a buffer.\<close>

section \<open>The request\<close>

text \<open>The options of a request for the address \<open>ip\<close> of the server \<open>srv\<close>.\<close>

definition request_options :: "u16 option \<Rightarrow> u32 \<Rightarrow> u32 \<Rightarrow> dhcp_options" where
  "request_options arch ip srv = no_options\<lparr>msg_type := 3, requested_IP := ip, server_ID := srv,
       o_flag := (replicate 256 0)[50 := 1, 54 := 1, 93 := (if arch = None then 0 else 1)],
       request_list := list_of arch [1, 6, 3, 66, 67, 209, 210]\<rparr>"

definition bootp_request :: "u32 \<Rightarrow> bytes \<Rightarrow> bytes" where
  "bootp_request xid mac = [1, 1, 6, 0] @ be32 xid @ replicate 20 0 @ mac @ replicate 202 0"

text \<open>The packet with the request; \<open>pad\<close> is what was in the buffer.\<close>

definition request_packet :: "u16 option \<Rightarrow> u32 \<Rightarrow> bytes \<Rightarrow> u32 \<Rightarrow> u32 \<Rightarrow> bytes \<Rightarrow> bytes" where
  "request_packet arch xid mac ip srv pad = ip_header 328 17 0 0xFFFFFFFF @ udp_header 308 68 67 @ bootp_request xid mac @
     laid pad (dhcp_magic @ tlvs (encoded arch (request_options arch ip srv)) @ [255])"

lemma requested_list: "requested (list_of arch [1, 6, 3, 66, 67, 209, 210]) =
    (case arch of None \<Rightarrow> [1, 3, 6, 66, 67, 209, 210] | Some _ \<Rightarrow> [1, 3, 6, 66, 67, 93, 209, 210])"
proof (cases arch)
  case None
  have "requested ((foldl (\<lambda>b i. b[i := 1]) (replicate 256 0) [1, 6, 3, 66, 67, 209, 210])[93 := 0]) = [1, 3, 6, 66, 67, 209, 210]" by code_simp
  then show ?thesis using None by (simp only: refl if_True option.case)
next
  case (Some a)
  have "requested ((foldl (\<lambda>b i. b[i := 1]) (replicate 256 0) [1, 6, 3, 66, 67, 209, 210])[93 := 1]) = [1, 3, 6, 66, 67, 93, 209, 210]" by code_simp
  then show ?thesis using Some by (simp only: option.distinct if_False option.case)
qed

lemma request_fields:
  "request_list (request_options arch ip srv) = list_of arch [1, 6, 3, 66, 67, 209, 210]" "msg_type (request_options arch ip srv) = 3"
  "o_overload (request_options arch ip srv) = 0" "tftp_server (request_options arch ip srv) = replicate 256 0"
  "bootfile (request_options arch ip srv) = replicate 256 0" "requested_IP (request_options arch ip srv) = ip" "server_ID (request_options arch ip srv) = srv"
  "o_flag (request_options arch ip srv) ! 50 = 1" "o_flag (request_options arch ip srv) ! 54 = 1"
  "o_flag (request_options arch ip srv) ! 66 = 0" "o_flag (request_options arch ip srv) ! 67 = 0"
  "o_flag (request_options arch ip srv) ! 93 = (if arch = None then 0 else 1)"
  by (simp_all add: request_options_def no_options_def)

lemma set_flags: "set (foldl (\<lambda>b i. b[i := 1]) (replicate n 0) cs) \<subseteq> {0, 1 :: u8} \<and> length (foldl (\<lambda>b i. b[i := 1]) (replicate n (0 :: u8)) cs) = n"
proof (induction cs rule: rev_induct)
  case (snoc c cs)
  then show ?case using set_update_subset_insert[of "foldl (\<lambda>b i. b[i := 1]) (replicate n (0 :: u8)) cs" c 1] by auto
qed auto

lemma encodable_request: "encodable (request_options arch ip srv)"
proof -
  let ?l = "foldl (\<lambda>b i. b[i := 1]) (replicate 256 (0 :: u8)) [1, 6, 3, 66, 67, 209, 210]"
  have "set ?l \<subseteq> {0, 1}" "length ?l = 256" using set_flags[of 256 "[1, 6, 3, 66, 67, 209, 210]"] by blast+
  then have "set (list_of arch [1, 6, 3, 66, 67, 209, 210]) \<subseteq> {0, 1}" "length (list_of arch [1, 6, 3, 66, 67, 209, 210]) = 256"
    using set_update_subset_insert[of ?l 93 "if arch = None then 0 else 1"] by (simp_all del: foldl.simps split: if_splits) blast+
  moreover have "terminated (replicate 256 (0 :: u8))" "cstr (replicate 256 0) = []" by (simp_all add: cstr_def)
  moreover have "length (case arch of None \<Rightarrow> [1, 3, 6, 66, 67, 209, 210] | Some _ \<Rightarrow> [1, 3, 6, 66, 67, 93, 209, 210 :: u8]) < 256" by (cases arch) simp_all
  ultimately show ?thesis unfolding encodable_def request_fields requested_list by simp
qed

lemma btp_header_eq:
  assumes "length mac = 6"
  shows "btp_header xid 0 mac = Some (bootp_request xid mac @ replicate 64 0)"
proof -
  have r: "replicate 300 (0 :: u8) = replicate 3 0 @ replicate 1 0 @ replicate 4 0 @ replicate 4 0 @ replicate 4 0 @ replicate 12 0 @ replicate 6 0 @ replicate 266 0"
    by (simp only: replicate_add[symmetric]) simp
  let ?t = "replicate 12 (0 :: u8) @ replicate 6 0 @ replicate 266 0" and ?h = "[1, 1, 6] @ replicate 1 (0 :: u8)"
  have 1: "wrn (replicate 300 (0 :: u8)) 0 [1, 1, 6] = Some (?h @ replicate 4 0 @ replicate 4 0 @ replicate 4 0 @ ?t)"
    unfolding r using wrn_app[of "[]" 0 "replicate 3 0" "[1, 1, 6 :: u8]"] by simp
  have 2: "wr32 (?h @ replicate 4 0 @ replicate 4 0 @ replicate 4 0 @ ?t) 4 xid = Some (?h @ be32 xid @ replicate 4 0 @ replicate 4 0 @ ?t)"
    unfolding wr32_def by (rule wrn_app) simp_all
  have 3: "rdn mac 0 6 = Some mac" using assms by (simp add: rdn_def)
  have 4: "wrn ((?h @ be32 xid @ replicate 4 0 @ replicate 4 0 @ replicate 12 0) @ replicate 6 0 @ replicate 266 0) 28 mac =
      Some ((?h @ be32 xid @ replicate 4 0 @ replicate 4 0 @ replicate 12 0) @ mac @ replicate 266 0)"
    by (rule wrn_app) (use assms in simp_all)
  have 5: "wr32 ((?h @ be32 xid @ replicate 4 0) @ replicate 4 0 @ replicate 12 0 @ mac @ replicate 266 0) 12 0 =
      Some ((?h @ be32 xid @ replicate 4 0) @ be32 0 @ replicate 12 0 @ mac @ replicate 266 0)"
    unfolding wr32_def by (rule wrn_app) simp_all
  have z: "be32 0 = replicate 4 0" by (simp add: be32_def hi16_def lo16_def numeral_eq_Suc)
  have "replicate 4 0 @ replicate 4 0 @ replicate 12 (0 :: u8) = replicate 20 0" "replicate 266 (0 :: u8) = replicate 202 0 @ replicate 64 0"
    by (simp_all only: replicate_add[symmetric]) simp_all
  then have f: "(?h @ be32 xid @ replicate 4 0) @ be32 0 @ replicate 12 0 @ mac @ replicate 266 0 = bootp_request xid mac @ replicate 64 0"
    unfolding z bootp_request_def by simp
  show ?thesis
    unfolding btp_header_def 1 bind.bind_lunit 2 3 using 4 5 f by (simp only: append_assoc bind.bind_lunit)
qed

lemma dhcp_send_request_eq:
  assumes "length (d_packet (app st)) = 1518" "length (own_mac st) = 6"
  shows "\<exists>pad. dhcp_send_request arch send st = (do {
     let p = request_packet arch (dhcp_xid (app st)) (own_mac st) (dhcp_own_ip (app st)) (dhcp_server_ip (app st)) pad;
     (_, q, st') \<leftarrow> send (upd_app (d_packet_update (\<lambda>_. p)) st) p 328;
     Some (upd_app (d_packet_update (\<lambda>_. q)) st') }) \<and> length pad = 1254"
proof -
  let ?o = "request_options arch (dhcp_own_ip (app st)) (dhcp_server_ip (app st))" and ?r = "drop 328 (d_packet (app st))"
  let ?b = "bootp_request (dhcp_xid (app st)) (own_mac st)"
  define pad where "pad = replicate 64 0 @ ?r"
  let ?v = "laid pad (dhcp_magic @ tlvs (encoded arch ?o) @ [255])"
  have l: "length ?b = 236" using assms(2) by (simp add: bootp_request_def)
  have p: "length pad = 1254" using assms(1) by (simp add: pad_def)
  have "replicate 328 (0 :: u8) = replicate 28 0 @ replicate 300 0" by (simp only: replicate_add[symmetric]) simp
  then have m: "memset (d_packet (app st)) 0 328 = Some (replicate 28 0 @ replicate 300 0 @ ?r)"
    using assms(1) by (simp add: memset_eq_wrn wrn_def)
  have h: "wrn (replicate 28 0 @ replicate 300 0 @ ?r) 28 (?b @ replicate 64 0) = Some (replicate 28 0 @ (?b @ replicate 64 0) @ ?r)"
    by (rule wrn_app) (use l in simp_all)
  have d: "replicate 28 0 @ (?b @ replicate 64 0) @ ?r = (replicate 28 0 @ ?b) @ pad" by (simp add: pad_def)
  have s: "drop 264 ((replicate 28 0 @ ?b) @ pad) = pad" "take 264 ((replicate 28 0 @ ?b) @ pad) = replicate 28 0 @ ?b"
    using l by (simp_all only: drop_append take_append) simp_all
  have e: "dhcp_encode_options arch pad ?o = Some (1, ?v)"
    using encoded_wf(3)[OF encodable_request, of arch arch "dhcp_own_ip (app st)" "dhcp_server_ip (app st)"] p
    by (intro encode_laid[OF encodable_request]) simp
  have "replicate 28 (0 :: u8) = replicate 20 0 @ replicate 8 0" by (simp only: replicate_add[symmetric]) simp
  then have u: "drop 20 ((replicate 28 0 @ ?b) @ ?v) = replicate 8 0 @ ?b @ ?v" "take 20 ((replicate 28 0 @ ?b) @ ?v) = replicate 20 0" by simp_all
  have "dhcp_send_request arch send st = dhcp_send arch send ?o 0 0 0xFFFFFFFF st"
    unfolding dhcp_send_request_def request_options_def ..
  also have "\<dots> = (do { let p = request_packet arch (dhcp_xid (app st)) (own_mac st) (dhcp_own_ip (app st)) (dhcp_server_ip (app st)) pad;
     (_, q, st') \<leftarrow> send (upd_app (d_packet_update (\<lambda>_. p)) st) p 328;
     Some (upd_app (d_packet_update (\<lambda>_. q)) st') })"
    unfolding dhcp_send_def m bind.bind_lunit get_mac_address_def btp_header_eq[OF assms(2)] h d
    by (simp only: Let_def add_numeral_special numeral_plus_numeral add_num_simps s[unfolded append_assoc] e u[unfolded append_assoc] bind.bind_lunit case_prod_conv fill_iphdr_eq[of "replicate 20 0", OF length_replicate] fill_udphdr_eq[of "replicate 8 0", OF length_replicate] append_assoc request_packet_def)
      
  finally show ?thesis using p by blast
qed

section \<open>Messages\<close>

text \<open>A reply with the options \<open>os\<close> for the transaction \<open>xid\<close>.\<close>

definition dhcp_reply :: "bytes \<Rightarrow> u32 \<Rightarrow> dhcp_opt list \<Rightarrow> bool" where
  "dhcp_reply p xid os \<longleftrightarrow> rd8 p 0 = Some 2 \<and> rd32 p 4 = Some xid \<and> (\<forall>x \<in> set os. opt_wf x) \<and> distinct (map fst os) \<and>
     (\<exists>post. drop 236 p = dhcp_magic @ tlvs os @ 255 # post) \<and> length p < 2147483648"

text \<open>A reply without overloaded fields.\<close>

definition dhcp_message :: "bytes \<Rightarrow> u32 \<Rightarrow> dhcp_opt list \<Rightarrow> bool" where
  "dhcp_message p xid os \<longleftrightarrow> dhcp_reply p xid os \<and> 52 \<notin> fst ` set os"

definition received :: "(nat \<Rightarrow> bool) \<Rightarrow> dhcp_opt list \<Rightarrow> 'b dhcp_net \<Rightarrow> decoded" where
  "received malloc_ok os st = take_options malloc_ok os
     \<lparr>opts = no_options, new_cfgfile = pxelinux_cfgfile (app st), new_prefix = pxelinux_prefix (app st)\<rparr>"

lemma reply_decoded:
  assumes "dhcp_reply p xid os"
  shows "dhcp_decode_options malloc_ok (drop 236 p) (word_of_int (int (length p) - 300 + 64)) dc = Some (1, take_options malloc_ok os dc)"
    "memcmp (drop 236 p) dhcp_magic 4 = Some 0" "240 < length p"
proof -
  obtain post where post: "drop 236 p = dhcp_magic @ tlvs os @ 255 # post" and wf: "\<forall>x \<in> set os. opt_wf x" "distinct (map fst os)"
    and l: "length p < 2147483648" using assms unfolding dhcp_reply_def by blast
  have "length (drop 236 p) = length (tlvs os) + 5 + length post" unfolding post by simp
  then have n: "length (tlvs os) + 4 < length p - 236" "240 < length p" by simp_all
  then show "240 < length p" by simp
  have "(word_of_int (int (length p) - 300 + 64) :: u32) = of_nat (length p - 236)" using n(2) by (simp add: of_nat_diff)
  moreover have "unat (of_nat (length p - 236) :: u32) = length p - 236" using l by (simp only: unsigned_of_nat) (simp add: take_bit_nat_eq_self)
  ultimately show "dhcp_decode_options malloc_ok (drop 236 p) (word_of_int (int (length p) - 300 + 64)) dc = Some (1, take_options malloc_ok os dc)"
    unfolding post using n(1) by (intro decode_message[OF wf(1)]) simp
  show "memcmp (drop 236 p) dhcp_magic 4 = Some 0" unfolding post by (subst memcmp_0_iff) simp_all
qed

lemma handle_message:
  assumes "dhcp_message p (dhcp_xid (app st)) os" "map_of os 53 = Some d"
  shows "handle_dhcp arch malloc_ok ip_src send st p (int (length p)) = (do {
     (r, st') \<leftarrow> dhcp_transition arch send p (opts (received malloc_ok os st)) (upd_pxe (received malloc_ok os st) st);
     case r of Some r \<Rightarrow> Some (r, st')
     | None \<Rightarrow> (if dhcp_state (app st') = 3
         then do { st' \<leftarrow> dhcp_success (opts (received malloc_ok os st)) p (int (length p)) st'; Some (0, st') } else Some (0, st')) })"
proof -
  have r: "dhcp_reply p (dhcp_xid (app st)) os" and wf: "\<forall>x \<in> set os. opt_wf x" "distinct (map fst os)" "52 \<notin> fst ` set os"
    and h: "rd8 p 0 = Some 2" "rd32 p 4 = Some (dhcp_xid (app st))"
    using assms(1) unfolding dhcp_message_def dhcp_reply_def by blast+
  have "map_of os 52 = None" using wf(3) by (simp add: map_of_eq_None_iff)
  then have o: "o_overload (opts (received malloc_ok os st)) = 0" using overload_field.get_options[OF wf(2)] by (simp add: received_def no_options_def)
  have t: "msg_type (opts (received malloc_ok os st)) \<noteq> 0"
    using type_field.get_options[OF wf(2)] assms(2) wf(1) map_of_SomeD[OF assms(2)] by (auto simp: received_def opt_wf_def)
  show ?thesis unfolding handle_dhcp_def h reply_decoded[OF r] received_def[symmetric]
    using o t by (simp add: Let_def cong: option.case_cong if_cong)
qed

lemma resolved_broadcast: "net_ok st \<Longrightarrow> resolved 0xFFFFFFFF st"
  by (simp add: resolved_def route_def)

text \<open>The network is set up and the arrays of the client have their sizes.\<close>

definition dhcp_ok :: "'b dhcp_net \<Rightarrow> bool" where
  "dhcp_ok st \<longleftrightarrow> net_ok st \<and> length (d_packet (app st)) = 1518 \<and> length (dhcp_filename (app st)) = 256 \<and>
     length (dhcp_tftp_name (app st)) = 256 \<and> (\<forall>rb. response_buffer (app st) = Some rb \<longrightarrow> 1720 \<le> length rb)"

lemma request_packet_to:
  assumes "length mac = 6" "length pad = 1254"
  shows "udp_packet_to 0xFFFFFFFF (request_packet arch xid mac ip srv pad) 328" "length (request_packet arch xid mac ip srv pad) = 1518"
proof -
  let ?r = "bootp_request xid mac @ laid pad (dhcp_magic @ tlvs (encoded arch (request_options arch ip srv)) @ [255])"
  have l: "length ?r = 1490" using assms encoded_wf(3)[OF encodable_request, of arch arch ip srv] by (simp add: bootp_request_def laid_def)
  show "udp_packet_to 0xFFFFFFFF (request_packet arch xid mac ip srv pad) 328"
    unfolding request_packet_def using udp_packet_headers[of 308 ?r "0xFFFFFFFF" 328 68 67] l by simp
  show "length (request_packet arch xid mac ip srv pad) = 1518" unfolding request_packet_def using l by simp
qed

lemma dhcp_send_request_ok:
  assumes "dhcp_ok st"
  shows "\<exists>pad r q st1. dhcp_send_request arch (send_ipv4 io recv) st = Some (upd_app (d_packet_update (\<lambda>_. q)) st1) \<and>
    send_ipv4 io recv (upd_app (d_packet_update (\<lambda>_. request_packet arch (dhcp_xid (app st)) (own_mac st) (dhcp_own_ip (app st)) (dhcp_server_ip (app st)) pad)) st)
      (request_packet arch (dhcp_xid (app st)) (own_mac st) (dhcp_own_ip (app st)) (dhcp_server_ip (app st)) pad) 328 = Some (r, q, st1) \<and>
    length q = 1518 \<and> d_packet_update (\<lambda>_. q) (app st1) = d_packet_update (\<lambda>_. q) (app st) \<and> tx st1 \<noteq> tx st \<and> net_ok st1"
proof -
  have mac: "length (own_mac st) = 6" and d: "length (d_packet (app st)) = 1518" using assms by (auto simp: dhcp_ok_def net_ok_def)
  obtain pad where e: "dhcp_send_request arch (send_ipv4 io recv) st = (do {
     let p = request_packet arch (dhcp_xid (app st)) (own_mac st) (dhcp_own_ip (app st)) (dhcp_server_ip (app st)) pad;
     (_, q, st') \<leftarrow> send_ipv4 io recv (upd_app (d_packet_update (\<lambda>_. p)) st) p 328;
     Some (upd_app (d_packet_update (\<lambda>_. q)) st') })" and pad: "length pad = 1254"
    using dhcp_send_request_eq[OF d mac, of arch "send_ipv4 io recv"] by blast
  let ?p = "request_packet arch (dhcp_xid (app st)) (own_mac st) (dhcp_own_ip (app st)) (dhcp_server_ip (app st)) pad"
  let ?st = "upd_app (d_packet_update (\<lambda>_. ?p)) st"
  have "resolved 0xFFFFFFFF ?st" using assms by (intro v4.ready_app resolved_broadcast) (simp add: dhcp_ok_def)
  then obtain r q st1 where s: "send_ipv4 io recv ?st ?p 328 = Some (r, q, st1)" "length q = length ?p" "app st1 = app ?st" "tx st1 \<noteq> tx ?st" "resolved 0xFFFFFFFF st1"
    using v4.send_ok[of "0xFFFFFFFF" ?st ?p 328 io recv] request_packet_to(1)[OF mac pad] by (simp, blast)
  show ?thesis using e s request_packet_to(2)[OF mac pad]
    by (intro exI[of _ pad] exI[of _ r] exI[of _ q] exI[of _ st1]) (simp add: resolved_def)
qed

section \<open>The exchange\<close>

text \<open>A client at its start in the state \<open>ty\<close>, and a reply of the type \<open>ty\<close>, for the witnesses.\<close>

definition dhcp_start :: "u8 \<Rightarrow> dhcp" where
  "dhcp_start ty = tftp_state.extend tftp_start (dhcp.fields ty (replicate 1518 0) 0 0 0 (replicate 256 0) (replicate 256 0) 7 None None None)"

definition sample_reply :: "u8 \<Rightarrow> bytes" where
  "sample_reply ty = [2, 1, 6, 0] @ be32 7 @ replicate 8 0 @ be32 0x0A000005 @ be32 0x0A000001 @ replicate 212 0 @ dhcp_magic @ tlvs [(53, [ty]), (54, [10, 0, 0, 1])] @ [255]"

lemma dhcp_start_fields [simp]: "dhcp_state (dhcp_start ty) = ty" "d_packet (dhcp_start ty) = replicate 1518 0" "dhcp_filename (dhcp_start ty) = replicate 256 0"
  "dhcp_tftp_name (dhcp_start ty) = replicate 256 0" "response_buffer (dhcp_start ty) = None" "dhcp_xid (dhcp_start ty) = 7"
  by (simp_all add: dhcp_start_def tftp_state.extend_def dhcp.fields_def)

lemma dhcp_start_ok: "dhcp_ok (net_start (dhcp_start ty))"
  using net_ok_start[of "dhcp_start ty"] by (simp add: dhcp_ok_def) (simp add: net_start_def)

lemma sample_reply_message:
  assumes "0 < ty" "ty < 9"
  shows "dhcp_message (sample_reply ty) 7 [(53, [ty]), (54, [10, 0, 0, 1])]" "rd32 (sample_reply ty) 16 = Some 0x0A000005"
    "rd32 (sample_reply ty) 20 = Some 0x0A000001" "terminated (drop 108 (sample_reply ty))"
proof -
  let ?os = "[(53, [ty]), (54, [10, 0, 0, 1])] :: dhcp_opt list"
  have r: "rd32 (sample_reply ty) 4 = Some 7"
    unfolding sample_reply_def by (rule rd32_be32) simp
  show "rd32 (sample_reply ty) 16 = Some 0x0A000005"
    unfolding sample_reply_def using rd32_be32[of 16 "[2, 1, 6, 0] @ be32 7 @ replicate 8 0"] by simp
  show "rd32 (sample_reply ty) 20 = Some 0x0A000001"
    unfolding sample_reply_def using rd32_be32[of 20 "[2, 1, 6, 0] @ be32 7 @ replicate 8 0 @ be32 0x0A000005"] by simp
  have "drop 108 (sample_reply ty) = replicate 128 0 @ dhcp_magic @ tlvs ?os @ [255]" by (simp add: sample_reply_def)
  then show "terminated (drop 108 (sample_reply ty))" by simp
  have d: "drop 236 (sample_reply ty) = dhcp_magic @ tlvs ?os @ 255 # []" by (simp add: sample_reply_def)
  have "rd8 (sample_reply ty) 0 = Some 2" by (simp add: sample_reply_def rd8_def)
  moreover have "\<forall>x \<in> set ?os. opt_wf x" using assms by (simp add: opt_wf_def)
  moreover have "length (sample_reply ty) = 250" by (simp add: sample_reply_def tlv_def)
  ultimately show "dhcp_message (sample_reply ty) 7 ?os" unfolding dhcp_message_def dhcp_reply_def using r d by auto
qed

lemma net_start_app [simp]: "app (net_start a) = a"
  by (simp add: net_start_def)

text \<open>C38: An offer is accepted: in the state \<open>SELECT\<close>, an offer for the current transaction makes the client broadcast a DHCP request that names
  the offered address and the server, through the whole IP layer, and wait for the acknowledgement.\<close>

theorem dhcp_offer_requested:
  assumes "dhcp_ok st" "dhcp_state (app st) = 1" "dhcp_message p (dhcp_xid (app st)) os" "map_of os 53 = Some [2]" "map_of os 54 = Some srv"
    "rd32 p 16 = Some ip"
  shows "\<exists>st0 pad r q st1 st'. send_ipv4 io recv st0 (request_packet arch (dhcp_xid (app st)) (own_mac st) ip (word32 srv) pad) 328 = Some (r, q, st1) \<and>
    tx st1 \<noteq> tx st \<and> handle_dhcp arch malloc_ok ip_src (send_ipv4 io recv) st p (int (length p)) = Some (0, st') \<and> tx st' = tx st1 \<and>
    dhcp_ok st' \<and> dhcp_state (app st') = 2 \<and> dhcp_own_ip (app st') = ip \<and> dhcp_server_ip (app st') = word32 srv \<and> dhcp_xid (app st') = dhcp_xid (app st)"
proof -
  let ?dc = "received malloc_ok os st"
  have d: "distinct (map fst os)" using assms(3) by (simp add: dhcp_message_def dhcp_reply_def)
  have o: "msg_type (opts ?dc) = 2" "server_ID (opts ?dc) = word32 srv" using option_fields[OF d] assms(4,5) by (simp_all add: received_def)
  define st0 where "st0 = upd_app (\<lambda>a. a\<lparr>dhcp_own_ip := ip, dhcp_server_ip := word32 srv\<rparr>) (upd_pxe ?dc st)"
  have ok: "dhcp_ok st0" using assms(1) by (simp add: dhcp_ok_def st0_def net_ok_def)
  from dhcp_send_request_ok[OF ok, of arch io recv] obtain pad r q st1 where
    s: "dhcp_send_request arch (send_ipv4 io recv) st0 = Some (upd_app (d_packet_update (\<lambda>_. q)) st1)"
      "send_ipv4 io recv (upd_app (d_packet_update (\<lambda>_. request_packet arch (dhcp_xid (app st)) (own_mac st) ip (word32 srv) pad)) st0)
        (request_packet arch (dhcp_xid (app st)) (own_mac st) ip (word32 srv) pad) 328 = Some (r, q, st1)"
      "length q = 1518" and a: "d_packet_update (\<lambda>_. q) (app st1) = d_packet_update (\<lambda>_. q) (app st0)" and t: "tx st1 \<noteq> tx st0" "net_ok st1"
    by (auto simp: st0_def)
  let ?st' = "upd_app (dhcp_state_update (\<lambda>_. 2)) (upd_app (d_packet_update (\<lambda>_. q)) st1)"
  have h: "handle_dhcp arch malloc_ok ip_src (send_ipv4 io recv) st p (int (length p)) = Some (0, ?st')"
    using handle_message[OF assms(3,4), of arch malloc_ok ip_src "send_ipv4 io recv"] assms(2,6) o s(1)
    by (simp add: dhcp_transition_def st0_def cong: option.case_cong)
  have "app ?st' = (d_packet_update (\<lambda>_. q) (app st0))\<lparr>dhcp_state := 2\<rparr>" using a by simp
  moreover have "dhcp_ok ?st'" using t(2) ok s(3) a by (simp add: dhcp_ok_def net_ok_def)
  ultimately show ?thesis
    using s(2) t(1) h by (intro exI[of _ "upd_app (d_packet_update (\<lambda>_. request_packet arch (dhcp_xid (app st)) (own_mac st) ip (word32 srv) pad)) st0"]
      exI[of _ pad] exI[of _ r] exI[of _ q] exI[of _ st1] exI[of _ ?st']) (simp add: st0_def)
qed

theorem dhcp_offer_requested_witness:
  "\<exists>st'. handle_dhcp None (\<lambda>_. True) 0 (send_ipv4 (\<lambda>_. 0) (\<lambda>_. None)) (net_start (dhcp_start 1)) (sample_reply 2) (int (length (sample_reply 2))) = Some (0, st') \<and>
     dhcp_state (app st') = 2 \<and> dhcp_own_ip (app st') = 0x0A000005"
  using dhcp_offer_requested[OF dhcp_start_ok[of 1], of "sample_reply 2" "[(53, [2]), (54, [10, 0, 0, 1])]" "[10, 0, 0, 1]" "0x0A000005" "\<lambda>_. 0" "\<lambda>_. None" None "\<lambda>_. True" 0]
    sample_reply_message[of 2] by auto

text \<open>Strings from the message.\<close>

lemma strcpy_name:
  assumes "terminated s" "length (cstr s) < 256" "length d = 256"
  shows "\<exists>d'. strcpy d s = Some d' \<and> length d' = 256 \<and> cstr d' = cstr s"
  using assms cstr_append[OF cstr_nonzero, of s] by (simp add: strcpy_eq_wrn wrn_def)

lemma cstr_take: "cstr (take n s) = take n (cstr s)"
  by (induction s arbitrary: n) (auto simp: take_Cons split: nat.splits)

lemma copy_name_ok:
  assumes "n < length (drop i p)" "n < 256" "length d = 256"
  shows "\<exists>d'. copy_name d p i n = Some d' \<and> length d' = 256 \<and> cstr d' = cstr (take n (drop i p))"
proof -
  let ?s = "take n (cstr (drop i p))"
  let ?z = "?s @ replicate (n - length (cstr (drop i p))) 0"
  have l: "length ?z = n" by simp
  have "0 \<notin> set ?s" using cstr_nonzero in_set_takeD by fast
  then have c: "cstr (?z @ 0 # r) = ?s" for r
    by (cases "n - length (cstr (drop i p))") (simp_all add: cstr_append)
  have "copy_name d p i n = Some (?z @ 0 # drop (n + 1) d)"
    using assms l by (simp only: copy_name_def strncpy_eq_wrn) (simp add: wrn_def wr8_def min_def)
  then show ?thesis using assms c l by (simp add: cstr_take)
qed

text \<open>Clearing the ARP table.\<close>

lemma clear_table_ok: "\<forall>e \<in> set es. entry_ok e \<Longrightarrow> \<exists>t. clear_table es = Some t \<and> length t = length es \<and> (\<forall>e \<in> set t. entry_ok e)"
proof (induction es)
  case (Cons e es)
  then obtain e' where "clear_entry e = Some e'" "entry_ok e'" by (auto simp: clear_entry_def entry_ok_def memset_eq_wrn wrn_def)
  then show ?case using Cons by auto
qed simp

lemma ipv4_init_ok:
  assumes "net_ok st"
  shows "\<exists>t. ipv4_init st = Some (st\<lparr>ping_dst_ip := 0, arp_consumer := 0, arp_producer := 0, arp_table := t\<rparr>) \<and>
    net_ok (st\<lparr>ping_dst_ip := 0, arp_consumer := 0, arp_producer := 0, arp_table := t\<rparr>)"
  using assms clear_table_ok[of "arp_table st"] by (auto simp: ipv4_init_def net_ok_def)

lemma set_ipv4_ok:
  assumes "net_ok st"
  shows "\<exists>st'. set_ipv4_address ip st = Some st' \<and> net_ok st' \<and> app st' = app st \<and> own_ip st' = ip \<and> router_ip st' = router_ip st \<and> subnet_mask st' = subnet_mask st"
    "\<exists>st'. set_ipv4_router ip st = Some st' \<and> net_ok st' \<and> app st' = app st \<and> own_ip st' = own_ip st \<and> router_ip st' = ip \<and> subnet_mask st' = subnet_mask st"
    "\<exists>st'. set_ipv4_netmask ip st = Some st' \<and> net_ok st' \<and> app st' = app st \<and> own_ip st' = own_ip st \<and> router_ip st' = router_ip st \<and> subnet_mask st' = ip"
  using ipv4_init_ok[of "st\<lparr>own_ip := ip\<rparr>"] ipv4_init_ok[of "st\<lparr>router_ip := ip\<rparr>"] ipv4_init_ok[of "st\<lparr>subnet_mask := ip\<rparr>"] assms
  by (auto simp: set_ipv4_address_def set_ipv4_router_def set_ipv4_netmask_def net_ok_def)

text \<open>The three settings after a success, one by one.\<close>

lemma response_ok:
  assumes "\<forall>b. response_buffer (app st) = Some b \<longrightarrow> 1720 \<le> length b"
  shows "\<exists>rb. (case response_buffer (app st) of None \<Rightarrow> Some st
       | Some b \<Rightarrow> do {
           d \<leftarrow> rdn p 0 (if int (length p) \<le> 1720 then nat (u64_of (int (length p))) else 1720);
           b \<leftarrow> wrn b 0 d;
           Some (upd_app (response_buffer_update (\<lambda>_. Some b)) st) }) = Some (upd_app (response_buffer_update (\<lambda>_. rb)) st)"
proof (cases "response_buffer (app st)")
  case None
  then show ?thesis by (intro exI[of _ None]) simp
next
  case (Some b)
  let ?n = "if int (length p) \<le> 1720 then nat (u64_of (int (length p))) else 1720"
  have n: "?n \<le> length p" "?n \<le> 1720" by (simp_all add: u64_of_id)
  then have r: "rdn p 0 ?n = Some (take ?n p)" by (simp add: rdn_def del: if_split)
  have w: "wrn b 0 (take ?n p) = Some (take ?n p @ drop ?n b)" using assms Some n by (simp add: wrn_def min_absorb2 del: if_split)
  show ?thesis unfolding Some option.case r bind.bind_lunit w by blast
qed

lemma router_ok:
  assumes "net_ok st"
  shows "\<exists>st'. (if c then do { st \<leftarrow> set_ipv4_router r st; set_ipv4_netmask m st } else Some st) = Some st' \<and> net_ok st' \<and> app st' = app st \<and>
    own_ip st' = own_ip st \<and> (c \<longrightarrow> router_ip st' = r \<and> subnet_mask st' = m)"
proof -
  obtain t where t: "set_ipv4_router r st = Some t" "net_ok t" "app t = app st" "own_ip t = own_ip st" "router_ip t = r"
    using set_ipv4_ok(2)[OF assms, of r] by auto
  then show ?thesis using set_ipv4_ok(3)[OF t(2), of m] assms by auto
qed

lemma dhcp_success_ok:
  assumes "dhcp_ok st"
  shows "\<exists>st'. dhcp_success opt p (int (length p)) st = Some st' \<and> net_ok st' \<and> own_ip st' = dhcp_own_ip (app st) \<and>
    (o_flag opt ! 1 \<noteq> 0 \<and> o_flag opt ! 3 \<noteq> 0 \<longrightarrow> router_ip st' = router_IP opt \<and> subnet_mask st' = o_subnet_mask opt) \<and>
    (o_flag opt ! 6 \<noteq> 0 \<longrightarrow> dns_server_ip (app st') = dns_IP opt) \<and>
    dhcp_state (app st') = dhcp_state (app st) \<and> dhcp_filename (app st') = dhcp_filename (app st) \<and> dhcp_tftp_name (app st') = dhcp_tftp_name (app st) \<and>
    dhcp_own_ip (app st') = dhcp_own_ip (app st) \<and> dhcp_siaddr_ip (app st') = dhcp_siaddr_ip (app st) \<and> dhcp_server_ip (app st') = dhcp_server_ip (app st)"
proof -
  obtain s1 where s1: "set_ipv4_address (dhcp_own_ip (app st)) st = Some s1" "net_ok s1" "app s1 = app st" "own_ip s1 = dhcp_own_ip (app st)"
    using set_ipv4_ok(1)[of st "dhcp_own_ip (app st)"] assms by (auto simp: dhcp_ok_def)
  obtain rb where rb: "(case response_buffer (app s1) of None \<Rightarrow> Some s1
       | Some b \<Rightarrow> do {
           d \<leftarrow> rdn p 0 (if int (length p) \<le> 1720 then nat (u64_of (int (length p))) else 1720);
           b \<leftarrow> wrn b 0 d;
           Some (upd_app (response_buffer_update (\<lambda>_. Some b)) s1) }) = Some (upd_app (response_buffer_update (\<lambda>_. rb)) s1)"
    using response_ok[of s1 p] assms s1(3) unfolding dhcp_ok_def by auto
  let ?s2 = "upd_app (response_buffer_update (\<lambda>_. rb)) s1"
  have "net_ok ?s2" using s1(2) by (simp add: net_ok_def)
  from router_ok[OF this] obtain s3 where s3: "(if o_flag opt ! 1 \<noteq> 0 \<and> o_flag opt ! 3 \<noteq> 0
       then do { st \<leftarrow> set_ipv4_router (router_IP opt) ?s2; set_ipv4_netmask (o_subnet_mask opt) st } else Some ?s2) = Some s3"
      "net_ok s3" "app s3 = app ?s2" "own_ip s3 = own_ip ?s2"
      "o_flag opt ! 1 \<noteq> 0 \<and> o_flag opt ! 3 \<noteq> 0 \<longrightarrow> router_ip s3 = router_IP opt \<and> subnet_mask s3 = o_subnet_mask opt" by blast
  have "dhcp_success opt p (int (length p)) st = (if o_flag opt ! 6 \<noteq> 0 then dns_init (dns_IP opt) [] 4 s3 else Some s3)"
    unfolding dhcp_success_def s1(1) bind.bind_lunit rb s3(1) ..
  moreover have "net_ok (st\<lparr>app := a\<rparr>) = net_ok st" for st :: "'a dhcp_net" and a by (simp add: net_ok_def)
  ultimately show ?thesis using s1 s3(2-5) by (simp add: dns_init_def)
qed

text \<open>The names from an acknowledgement: the option, or else the field of the header.\<close>

lemma clear_name: "length g = 256 \<Longrightarrow> \<exists>g'. wr8 g 0 0 = Some g' \<and> length g' = 256 \<and> cstr g' = []"
  by (cases g) (simp_all add: wr8_def wrn_def)

lemma ack_name:
  assumes n: "length (dhcp_filename a) = 256" "length (dhcp_tftp_name a) = 256" and p: "240 < length p" and ov: "o_overload opt = 0"
    and f: "o_flag opt ! 66 \<noteq> 0 \<Longrightarrow> terminated (tftp_server opt) \<and> length (cstr (tftp_server opt)) < 256"
  shows "\<exists>t g. (if o_flag opt ! 66 \<noteq> 0
       then do { t \<leftarrow> strcpy (dhcp_tftp_name a) (tftp_server opt); Some (a\<lparr>dhcp_tftp_name := t\<rparr>) }
       else do {
         n \<leftarrow> wr8 (dhcp_filename a) 0 0;
         let a = a\<lparr>dhcp_filename := n\<rparr>;
         if o_overload opt \<noteq> 2 \<and> o_overload opt \<noteq> 3 \<and> si = 0
         then do { t \<leftarrow> copy_name (dhcp_tftp_name a) p 44 64; Some (a\<lparr>dhcp_tftp_name := t\<rparr>) } else Some a }) = Some (a\<lparr>dhcp_tftp_name := t, dhcp_filename := g\<rparr>) \<and>
    length t = 256 \<and> length g = 256 \<and>
    (if o_flag opt ! 66 \<noteq> 0 then cstr t = cstr (tftp_server opt) else if (si :: u32) = 0 then cstr t = cstr (take 64 (drop 44 p)) else t = dhcp_tftp_name a)"
proof (cases "o_flag opt ! 66 \<noteq> 0")
  case True
  then obtain t where "strcpy (dhcp_tftp_name a) (tftp_server opt) = Some t" "length t = 256" "cstr t = cstr (tftp_server opt)"
    using strcpy_name[of "tftp_server opt" "dhcp_tftp_name a"] f n by auto
  then show ?thesis using True n by (intro exI[of _ t] exI[of _ "dhcp_filename a"]) simp
next
  case False
  obtain g where g: "wr8 (dhcp_filename a) 0 0 = Some g" "length g = 256" using clear_name[OF n(1)] by blast
  obtain t where t: "copy_name (dhcp_tftp_name a) p 44 64 = Some t" "length t = 256" "cstr t = cstr (take 64 (drop 44 p))"
    using copy_name_ok[of 64 44 p "dhcp_tftp_name a"] n less_diff_conv[of 64 "length p" 44] p by auto
  show ?thesis
  proof (cases "si = 0")
    case True
    then show ?thesis using False g ov t by (intro exI[of _ t] exI[of _ g]) simp
  next
    case si: False
    then show ?thesis using False g ov n(2) by (intro exI[of _ "dhcp_tftp_name a"] exI[of _ g]) simp
  qed
qed

lemma ack_file:
  assumes n: "length (dhcp_filename a) = 256" and p: "terminated (drop 108 p)" "240 < length p" "length p < 2147483648" and ov: "o_overload opt = 0"
    and f: "o_flag opt ! 67 \<noteq> 0 \<Longrightarrow> terminated (bootfile opt) \<and> length (cstr (bootfile opt)) < 256"
  shows "\<exists>g. (if o_flag opt ! 67 \<noteq> 0
       then do { t \<leftarrow> strcpy (dhcp_filename a) (bootfile opt); Some (a\<lparr>dhcp_filename := t\<rparr>) }
       else do {
         n \<leftarrow> wr8 (dhcp_filename a) 0 0;
         let a = a\<lparr>dhcp_filename := n\<rparr>;
         if o_overload opt \<noteq> 1 \<and> o_overload opt \<noteq> 3
         then do {
           l \<leftarrow> strlen (drop 108 p);
           if l \<noteq> 0 then do { t \<leftarrow> copy_name (dhcp_filename a) p 108 128; Some (a\<lparr>dhcp_filename := t\<rparr>) } else Some a }
         else Some a }) = Some (a\<lparr>dhcp_filename := g\<rparr>) \<and>
    length g = 256 \<and> cstr g = (if o_flag opt ! 67 \<noteq> 0 then cstr (bootfile opt) else cstr (take 128 (drop 108 p)))"
proof (cases "o_flag opt ! 67 \<noteq> 0")
  case True
  then obtain g where "strcpy (dhcp_filename a) (bootfile opt) = Some g" "length g = 256" "cstr g = cstr (bootfile opt)"
    using strcpy_name[of "bootfile opt" "dhcp_filename a"] f n by auto
  then show ?thesis using True by (intro exI[of _ g]) simp
next
  case False
  obtain g1 where g1: "wr8 (dhcp_filename a) 0 0 = Some g1" "length g1 = 256" "cstr g1 = []" using clear_name[OF n] by blast
  obtain g where g: "copy_name g1 p 108 128 = Some g" "length g = 256" "cstr g = cstr (take 128 (drop 108 p))"
    using copy_name_ok[of 128 108 p g1] g1(2) less_diff_conv[of 128 "length p" 108] p(2) by auto
  let ?n = "length (cstr (drop 108 p))"
  have "?n < 2147483648" using cstr_length_le[of "drop 108 p"] p(3) by simp
  note s = strlen_short[OF p(1) this]
  have z: "(of_nat ?n :: u64) = 0 \<longleftrightarrow> cstr (drop 108 p) = []" unfolding unat_eq_0[symmetric] s(2) by simp
  show ?thesis
  proof (cases "cstr (drop 108 p) = []")
    case True
    then show ?thesis using False g1 ov s(1) z by (intro exI[of _ g1]) (simp add: cstr_take)
  next
    case c: False
    then show ?thesis using False g1 g ov s(1) z by (intro exI[of _ g]) simp
  qed
qed

lemma ack_settings_ok:
  assumes n: "length (dhcp_filename a) = 256" "length (dhcp_tftp_name a) = 256" and ip: "rd32 p 16 = Some ip" "rd32 p 20 = Some si"
    and p: "terminated (drop 108 p)" "240 < length p" "length p < 2147483648" and ov: "o_overload opt = 0"
    and f: "o_flag opt ! 66 \<noteq> 0 \<Longrightarrow> terminated (tftp_server opt) \<and> length (cstr (tftp_server opt)) < 256"
      "o_flag opt ! 67 \<noteq> 0 \<Longrightarrow> terminated (bootfile opt) \<and> length (cstr (bootfile opt)) < 256"
  shows "\<exists>t g. ack_settings p opt a = Some (a\<lparr>dhcp_own_ip := ip, dhcp_server_ip := server_ID opt, dhcp_siaddr_ip := si, dhcp_tftp_name := t, dhcp_filename := g, dhcp_state := 3\<rparr>) \<and>
    length t = 256 \<and> length g = 256 \<and> cstr g = (if o_flag opt ! 67 \<noteq> 0 then cstr (bootfile opt) else cstr (take 128 (drop 108 p))) \<and>
    (if o_flag opt ! 66 \<noteq> 0 then cstr t = cstr (tftp_server opt) else if si = 0 then cstr t = cstr (take 64 (drop 44 p)) else t = dhcp_tftp_name a)"
proof -
  let ?a = "a\<lparr>dhcp_own_ip := ip, dhcp_server_ip := server_ID opt, dhcp_siaddr_ip := si\<rparr>"
  from ack_name[of ?a p opt si] obtain t g0 where t: "(if o_flag opt ! 66 \<noteq> 0
       then do { t \<leftarrow> strcpy (dhcp_tftp_name ?a) (tftp_server opt); Some (?a\<lparr>dhcp_tftp_name := t\<rparr>) }
       else do {
         n \<leftarrow> wr8 (dhcp_filename ?a) 0 0;
         let a = ?a\<lparr>dhcp_filename := n\<rparr>;
         if o_overload opt \<noteq> 2 \<and> o_overload opt \<noteq> 3 \<and> si = 0
         then do { t \<leftarrow> copy_name (dhcp_tftp_name a) p 44 64; Some (a\<lparr>dhcp_tftp_name := t\<rparr>) } else Some a }) = Some (?a\<lparr>dhcp_tftp_name := t, dhcp_filename := g0\<rparr>)"
    and t': "length t = 256" "length g0 = 256"
    "if o_flag opt ! 66 \<noteq> 0 then cstr t = cstr (tftp_server opt) else if si = 0 then cstr t = cstr (take 64 (drop 44 p)) else t = dhcp_tftp_name a"
    using n p(2) ov f(1) by auto
  let ?b = "?a\<lparr>dhcp_tftp_name := t, dhcp_filename := g0\<rparr>"
  have "length (dhcp_filename ?b) = 256" using t'(2) by simp
  from ack_file[OF this p ov f(2)] obtain g where g: "(if o_flag opt ! 67 \<noteq> 0
       then do { t \<leftarrow> strcpy (dhcp_filename ?b) (bootfile opt); Some (?b\<lparr>dhcp_filename := t\<rparr>) }
       else do {
         n \<leftarrow> wr8 (dhcp_filename ?b) 0 0;
         let a = ?b\<lparr>dhcp_filename := n\<rparr>;
         if o_overload opt \<noteq> 1 \<and> o_overload opt \<noteq> 3
         then do {
           l \<leftarrow> strlen (drop 108 p);
           if l \<noteq> 0 then do { t \<leftarrow> copy_name (dhcp_filename a) p 108 128; Some (a\<lparr>dhcp_filename := t\<rparr>) } else Some a }
         else Some a }) = Some (?b\<lparr>dhcp_filename := g\<rparr>)"
    and g': "length g = 256" "cstr g = (if o_flag opt ! 67 \<noteq> 0 then cstr (bootfile opt) else cstr (take 128 (drop 108 p)))" by blast
  have "ack_settings p opt a = Some (?b\<lparr>dhcp_filename := g, dhcp_state := 3\<rparr>)"
    unfolding ack_settings_def ip bind.bind_lunit Let_def t[unfolded Let_def] g[unfolded Let_def] ..
  then show ?thesis using t' g' by (intro exI[of _ t] exI[of _ g]) simp
qed

lemma put_str_terminated: "length d < 256 \<Longrightarrow> terminated (put_str s d) \<and> length (cstr (put_str s d)) < 256 \<and> cstr (put_str s d) = cstr d"
proof -
  assume "length d < 256"
  moreover have "cstr (d @ 0 # r) = cstr d" for r by (induction d) auto
  ultimately show ?thesis using cstr_length_le[of d] by simp
qed

text \<open>What an option of the message is worth to the client.\<close>

lemma received_flag: "c \<noteq> 255 \<Longrightarrow> o_flag (opts (received malloc_ok os st)) ! unat c \<noteq> 0 \<longleftrightarrow> (\<exists>v. map_of os c = Some v)"
proof -
  assume "c \<noteq> 255"
  then have "unat c < 255" using unsigned_less[of c, where 'a=nat] by (simp add: unat_arith_simps(3))
  then have "o_flag (opts (received malloc_ok os st)) ! unat c \<noteq> 0 \<longleftrightarrow> c \<in> fst ` set os"
    by (auto simp: received_def flag_options word_unat_eq_iff intro: rev_image_eqI)
  then show ?thesis using map_of_eq_None_iff[of os c] by (cases "map_of os c") auto
qed

lemma received_flags:
  "o_flag (opts (received malloc_ok os st)) ! 1 \<noteq> 0 \<longleftrightarrow> (\<exists>v. map_of os 1 = Some v)"
  "o_flag (opts (received malloc_ok os st)) ! 3 \<noteq> 0 \<longleftrightarrow> (\<exists>v. map_of os 3 = Some v)"
  "o_flag (opts (received malloc_ok os st)) ! 6 \<noteq> 0 \<longleftrightarrow> (\<exists>v. map_of os 6 = Some v)"
  "o_flag (opts (received malloc_ok os st)) ! 66 \<noteq> 0 \<longleftrightarrow> (\<exists>v. map_of os 66 = Some v)"
  "o_flag (opts (received malloc_ok os st)) ! 67 \<noteq> 0 \<longleftrightarrow> (\<exists>v. map_of os 67 = Some v)"
  using received_flag[of 1] received_flag[of 3] received_flag[of 6] received_flag[of 66] received_flag[of 67] by simp_all

text \<open>C39: An acknowledgement completes the lease: the client reaches the state of success with the address of the message, the server and the names from
  the options, or else from the header; the interface has the new address, and the router, the netmask and the name server of the options.\<close>

theorem dhcp_ack_leases:
  assumes "dhcp_ok st" "dhcp_state (app st) = 2" "dhcp_message p (dhcp_xid (app st)) os" "map_of os 53 = Some [5]" "map_of os 54 = Some srv"
    "rd32 p 16 = Some ip" "rd32 p 20 = Some si" "terminated (drop 108 p)"
  shows "\<exists>st'. handle_dhcp arch malloc_ok ip_src send st p (int (length p)) = Some (0, st') \<and> net_ok st' \<and> dhcp_state (app st') = 3 \<and>
    own_ip st' = ip \<and> dhcp_own_ip (app st') = ip \<and> dhcp_server_ip (app st') = word32 srv \<and> dhcp_siaddr_ip (app st') = si \<and>
    (\<forall>m r. map_of os 1 = Some m \<and> map_of os 3 = Some r \<longrightarrow> subnet_mask st' = word32 m \<and> router_ip st' = word32 r) \<and>
    (\<forall>d. map_of os 6 = Some d \<longrightarrow> dns_server_ip (app st') = word32 d) \<and>
    cstr (dhcp_filename (app st')) = cstr (case map_of os 67 of Some f \<Rightarrow> f | None \<Rightarrow> take 128 (drop 108 p)) \<and>
    cstr (dhcp_tftp_name (app st')) = cstr (case map_of os 66 of Some t \<Rightarrow> t | None \<Rightarrow> if si = 0 then take 64 (drop 44 p) else dhcp_tftp_name (app st))"
proof -
  let ?dc = "received malloc_ok os st"
  let ?o = "opts ?dc" and ?st = "upd_pxe ?dc st"
  have d: "distinct (map fst os)" and l: "length p < 2147483648" and wf: "\<forall>x \<in> set os. opt_wf x" and ov: "52 \<notin> fst ` set os"
    and r: "dhcp_reply p (dhcp_xid (app st)) os" using assms(3) by (simp_all add: dhcp_message_def dhcp_reply_def)
  have short: "map_of os c = Some v \<Longrightarrow> length v < 256" for c v using map_of_SomeD[of os c v] wf by (auto simp: opt_wf_def)
  have z: "map_of os 52 = None" using ov by (simp add: map_of_eq_None_iff)
  have o: "msg_type ?o = 5" "server_ID ?o = word32 srv" "o_overload ?o = 0" using option_fields[OF d] assms(4,5) z by (simp_all add: received_def no_options_def)
  have m: "map_of os 1 = Some v \<Longrightarrow> o_subnet_mask ?o = word32 v" "map_of os 3 = Some v \<Longrightarrow> router_IP ?o = word32 v" "map_of os 6 = Some v \<Longrightarrow> dns_IP ?o = word32 v"
    "map_of os 66 = Some v \<Longrightarrow> tftp_server ?o = put_str (tftp_server no_options) v" "map_of os 67 = Some v \<Longrightarrow> bootfile ?o = put_str (bootfile no_options) v" for v
    using option_fields[OF d] by (simp_all add: received_def)
  have t: "o_flag ?o ! 66 \<noteq> 0 \<Longrightarrow> terminated (tftp_server ?o) \<and> length (cstr (tftp_server ?o)) < 256"
    "o_flag ?o ! 67 \<noteq> 0 \<Longrightarrow> terminated (bootfile ?o) \<and> length (cstr (bootfile ?o)) < 256"
    using m(4,5) short put_str_terminated unfolding received_flags by metis+
  have n: "length (dhcp_filename (app ?st)) = 256" "length (dhcp_tftp_name (app ?st)) = 256" using assms(1) by (simp_all add: dhcp_ok_def)
  obtain nm g where a: "ack_settings p ?o (app ?st) = Some ((app ?st)\<lparr>dhcp_own_ip := ip, dhcp_server_ip := server_ID ?o, dhcp_siaddr_ip := si, dhcp_tftp_name := nm, dhcp_filename := g, dhcp_state := 3\<rparr>)"
    "length nm = 256" "length g = 256" "cstr g = (if o_flag ?o ! 67 \<noteq> 0 then cstr (bootfile ?o) else cstr (take 128 (drop 108 p)))"
    "if o_flag ?o ! 66 \<noteq> 0 then cstr nm = cstr (tftp_server ?o) else if si = 0 then cstr nm = cstr (take 64 (drop 44 p)) else nm = dhcp_tftp_name (app ?st)"
    using ack_settings_ok[OF n assms(6,7,8) reply_decoded(3)[OF r] l o(3) t] by blast
  let ?s = "?st\<lparr>app := (app ?st)\<lparr>dhcp_own_ip := ip, dhcp_server_ip := server_ID ?o, dhcp_siaddr_ip := si, dhcp_tftp_name := nm, dhcp_filename := g, dhcp_state := 3\<rparr>\<rparr>"
  have tr: "dhcp_transition arch send p ?o ?st = Some (None, ?s)" using a(1) o(1) assms(2) by (simp add: dhcp_transition_def)
  have "dhcp_ok ?s" using assms(1) a(2,3) by (simp add: dhcp_ok_def net_ok_def)
  from dhcp_success_ok[OF this, of ?o p] obtain st' where s: "dhcp_success ?o p (int (length p)) ?s = Some st'" "net_ok st'" "own_ip st' = ip"
    "o_flag ?o ! 1 \<noteq> 0 \<and> o_flag ?o ! 3 \<noteq> 0 \<longrightarrow> router_ip st' = router_IP ?o \<and> subnet_mask st' = o_subnet_mask ?o"
    "o_flag ?o ! 6 \<noteq> 0 \<longrightarrow> dns_server_ip (app st') = dns_IP ?o" and k: "dhcp_state (app st') = 3" "dhcp_filename (app st') = g" "dhcp_tftp_name (app st') = nm"
    "dhcp_own_ip (app st') = ip" "dhcp_siaddr_ip (app st') = si" "dhcp_server_ip (app st') = server_ID ?o" by auto
  have h: "handle_dhcp arch malloc_ok ip_src send st p (int (length p)) = Some (0, st')"
    using handle_message[OF assms(3,4), of arch malloc_ok ip_src send] tr s(1) by simp
  have "cstr g = cstr (case map_of os 67 of Some f \<Rightarrow> f | None \<Rightarrow> take 128 (drop 108 p))"
    using a(4) m(5) short put_str_terminated unfolding received_flags by (cases "map_of os 67") auto
  moreover have "cstr nm = cstr (case map_of os 66 of Some t \<Rightarrow> t | None \<Rightarrow> if si = 0 then take 64 (drop 44 p) else dhcp_tftp_name (app st))"
    using a(5) m(4) short put_str_terminated unfolding received_flags by (cases "map_of os 66") (auto split: if_splits)
  ultimately show ?thesis using h s(2,3) k o(2) s(4,5)[unfolded received_flags] m(1,2,3) by (intro exI[of _ st']) auto
qed

theorem dhcp_ack_leases_witness:
  "\<exists>st'. handle_dhcp None (\<lambda>_. True) 0 (send_ipv4 (\<lambda>_. 0) (\<lambda>_. None)) (net_start (dhcp_start 2)) (sample_reply 5) (int (length (sample_reply 5))) = Some (0, st') \<and>
     dhcp_state (app st') = 3 \<and> own_ip st' = 0x0A000005"
  using dhcp_ack_leases[OF dhcp_start_ok[of 2], of "sample_reply 5" "[(53, [5]), (54, [10, 0, 0, 1])]" "[10, 0, 0, 1]" "0x0A000005" "0x0A000001" None "\<lambda>_. True" 0 "send_ipv4 (\<lambda>_. 0) (\<lambda>_. None)"]
    sample_reply_message[of 5] by auto

section \<open>Overloaded fields\<close>

text \<open>A reply that is longer than 1260 bytes and has the option that overloads the fields \<open>sname\<close> or \<open>file\<close> overflows an array: its options
  are copied into a buffer of 1024 bytes without a check of their length.\<close>

theorem dhcp_overload_overflow:
  assumes "dhcp_reply p (dhcp_xid (app st)) os" "map_of os 52 = Some (ov # d)" "ov \<noteq> 0" "1260 < length p"
  shows "handle_dhcp arch malloc_ok ip_src send st p (int (length p)) = None"
proof -
  have h: "rd8 p 0 = Some 2" "rd32 p 4 = Some (dhcp_xid (app st))" "distinct (map fst os)" and l: "length p < 2147483648"
    using assms(1) unfolding dhcp_reply_def by blast+
  have "o_overload (opts (received malloc_ok os st)) = ov" using overload_field.get_options[OF h(3)] assms(2) by (simp add: received_def)
  moreover have "merge_overload p (int (length p)) v = None" for v
  proof -
    have "(word_of_int (int (length p) - 300 + 64 - 4) :: u32) + 4 = of_nat (length p - 236)" using assms(4) by (simp add: of_nat_diff)
    moreover have "unat (of_nat (length p - 236) :: u32) = length p - 236" using l by (simp only: unsigned_of_nat) (simp add: take_bit_nat_eq_self)
    ultimately have u: "unat ((word_of_int (int (length p) - 300 + 64 - 4) :: u32) + 4) = length p - 236" by simp
    have r: "rdn p 236 (length p - 236) = Some (drop 236 p)" using assms(4) by (simp add: rdn_def)
    have w: "wrn (replicate 1024 0) 0 (drop 236 p) = None" using assms(4) by (auto simp: wrn_def)
    show ?thesis unfolding merge_overload_def Let_def u r bind.bind_lunit w by simp
  qed
  ultimately show ?thesis unfolding handle_dhcp_def h reply_decoded[OF assms(1)] received_def[symmetric]
    using assms(3) by (simp add: Let_def)
qed

theorem dhcp_overload_overflow_witness:
  "handle_dhcp None (\<lambda>_. True) 0 (send_ipv4 (\<lambda>_. 0) (\<lambda>_. None)) (net_start (dhcp_start 1))
     ([2, 1, 6, 0] @ be32 7 @ replicate 228 0 @ dhcp_magic @ [52, 1, 1, 255] @ replicate 1100 0) 1344 = None"
proof -
  let ?p = "[2, 1, 6, 0] @ be32 7 @ replicate 228 0 @ dhcp_magic @ [52, 1, 1, 255] @ replicate 1100 0"
  have "rd32 ?p 4 = Some 7" by (rule rd32_be32) simp
  moreover have "drop 236 ?p = dhcp_magic @ tlvs [(52, [1])] @ 255 # replicate 1100 0" by (simp add: tlv_def)
  moreover have "rd8 ?p 0 = Some 2" by (simp add: rd8_def)
  moreover have "length ?p = 1344" by simp
  moreover have "opt_wf (52, [1])" by (simp add: opt_wf_def)
  ultimately have "dhcp_reply ?p 7 [(52, [1])]" unfolding dhcp_reply_def by (intro conjI exI[of _ "replicate 1100 0"]) simp_all
  then show ?thesis using dhcp_overload_overflow[of ?p "net_start (dhcp_start 1)" "[(52, [1])]" 1 "[]"] by simp
qed

end
