(* ===== verification/Net_Bootp.thy ===== *)
theory Net_Bootp
  imports Net_Sender Net_Tftp
begin

text \<open>The BOOTP client (\<open>src/lib/libnet/bootp.c\<close>). The packet sent starts with the IP header, the packet received with the Ethernet
  header; the BootP header is behind the UDP header: operation at 0, \<open>yiaddr\<close> at 16, \<open>siaddr\<close> at 20, \<open>chaddr\<close> at 28, \<open>file\<close> at 108. The
  number of polls before the timer expires comes from the state of the network, as for the other clients. The static pointer to the
  response buffer is passed along.\<close>

section \<open>Model\<close>

definition bootp_checksum :: "bytes \<Rightarrow> nat \<Rightarrow> u16 option" where
  "bootp_checksum p words = do { c \<leftarrow> sum16 p 0 words 0; Some (NOT (ucast (fold_sum c))) }"

definition send_bootp :: "'a sender \<Rightarrow> filename_ip \<Rightarrow> 'a net \<Rightarrow> 'a net option" where
  "send_bootp send fn st = do {
     p \<leftarrow> fill_iphdr (replicate 342 0) 328 17 0 (fn_server_ip fn);
     u \<leftarrow> fill_udphdr (drop 20 p) 308 68 67;
     let p = take 20 p @ u;
     p \<leftarrow> wrn p 28 [1, 1, 6];
     p \<leftarrow> wrn p 136 [98, 108, 97, 0];
     m \<leftarrow> rdn (get_mac_address st) 0 6;
     p \<leftarrow> wrn p 56 m;
     n \<leftarrow> rd16 p 2;
     (_, _, st) \<leftarrow> send st p (uint n);
     Some st }"

text \<open>\<open>recv\<close> into the packet.\<close>

definition recv_bootp :: "bytes \<Rightarrow> 'a net \<Rightarrow> int \<times> bytes \<times> 'a net" where
  "recv_bootp p st = (case rx st of
       [] \<Rightarrow> (0, p, st)
     | No_packet # r \<Rightarrow> (0, p, st\<lparr>rx := r\<rparr>)
     | Rx_error # r \<Rightarrow> (-1, p, st\<lparr>rx := r\<rparr>)
     | Frame f # r \<Rightarrow> let d = take (length p) f in (int (length d), d @ drop (length d) p, st\<lparr>rx := r\<rparr>))"

text \<open>Whether the packet is the reply; its checksum is cleared.\<close>

definition bootp_answer :: "bytes \<Rightarrow> bytes \<Rightarrow> (bool \<times> bytes) option" where
  "bootp_answer mac p = do {
     old_sum \<leftarrow> rd16 p 24;
     p \<leftarrow> wr16 p 24 0;
     c \<leftarrow> bootp_checksum (drop 14 p) 10;
     if old_sum \<noteq> c then Some (False, p)
     else do {
       proto \<leftarrow> rd8 p 23;
       if proto \<noteq> 17 then Some (False, p)
       else do {
         dport \<leftarrow> rd16 p 36;
         sport \<leftarrow> rd16 p 34;
         if dport \<noteq> 68 \<or> sport \<noteq> 67 then Some (False, p)
         else do {
           op \<leftarrow> rd8 p 42;
           if op \<noteq> 2 then Some (False, p)
           else do { c \<leftarrow> memcmp mac (drop 70 p) 6; Some (c = 0, p) } } } } }"

definition take_reply :: "bytes option \<Rightarrow> filename_ip \<Rightarrow> bytes \<Rightarrow> (bytes option \<times> filename_ip) option" where
  "take_reply rb fn p = do {
     rb \<leftarrow> (case rb of None \<Rightarrow> Some None | Some b \<Rightarrow> do { d \<leftarrow> rdn p 42 1720; b \<leftarrow> wrn b 0 d; Some (Some b) });
     own \<leftarrow> rd32 p 58;
     srv \<leftarrow> rd32 p 62;
     f \<leftarrow> strcpy (fn_filename fn) (drop 150 p);
     Some (rb, fn\<lparr>fn_own_ip := own, fn_server_ip := srv, fn_filename := f\<rparr>) }"

fun bootp_poll :: "nat \<Rightarrow> bytes \<Rightarrow> bytes option \<Rightarrow> filename_ip \<Rightarrow> 'a net \<Rightarrow> (int \<times> bytes option \<times> filename_ip \<times> 'a net) option" where
  "bootp_poll k p rb fn st = do {
     let (len, p, st) = recv_bootp p st;
     (ok, p) \<leftarrow> (if len = 0 then Some (False, p) else bootp_answer (get_mac_address st) p);
     if ok then do { (rb, fn) \<leftarrow> take_reply rb fn p; Some (0, rb, fn, st) }
     else (case k of 0 \<Rightarrow> Some (-1, rb, fn, st) | Suc k \<Rightarrow> bootp_poll k p rb fn st) }"

declare bootp_poll.simps [simp del]

definition receive_bootp :: "bytes option \<Rightarrow> filename_ip \<Rightarrow> 'a net \<Rightarrow> (int \<times> bytes option \<times> filename_ip \<times> 'a net) option" where
  "receive_bootp rb fn st = (let (k, st) = set_timer st in bootp_poll k (replicate 2000 0) rb fn st)"

text \<open>The loop of \<open>bootp\<close>, with the number of requests left.\<close>

fun bootp_loop :: "'a sender \<Rightarrow> nat \<Rightarrow> bytes option \<Rightarrow> filename_ip \<Rightarrow> 'a net \<Rightarrow> (int \<times> bytes option \<times> filename_ip \<times> 'a net) option" where
  "bootp_loop send 0 rb fn st = Some (-1, rb, fn, st)"
| "bootp_loop send (Suc i) rb fn st = do {
     st \<leftarrow> send_bootp send fn st;
     (r, rb, fn, st) \<leftarrow> receive_bootp rb fn st;
     if r \<noteq> 0 then bootp_loop send i rb fn st else Some (0, rb, fn, st) }"

definition bootp :: "'a sender \<Rightarrow> bytes option \<Rightarrow> filename_ip \<Rightarrow> u32 \<Rightarrow> 'a net \<Rightarrow> (int \<times> bytes option \<times> filename_ip \<times> 'a net) option" where
  "bootp send ret_buffer fn retries st = bootp_loop send (unat (retries + 1)) ret_buffer (fn\<lparr>fn_own_ip := 0\<rparr>) st"

section \<open>The request\<close>

lemma send_bootp_ok:
  assumes "resolved (fn_server_ip fn) st"
  shows "\<exists>st'. send_bootp (send_ipv4 io recv) fn st = Some st' \<and> tx st' \<noteq> tx st \<and> resolved (fn_server_ip fn) st' \<and> rx st' = rx st \<and> own_mac st' = own_mac st \<and> app st' = app st"
proof -
  let ?z = "replicate 314 (0 :: u8)" and ?s = "fn_server_ip fn" and ?m = "own_mac st"
  let ?h = "ip_header 328 17 0 ?s @ udp_header 308 68 67"
  have m: "length ?m = 6" using assms by (simp add: resolved_def net_ok_def)
  have "replicate 342 (0 :: u8) = replicate 20 0 @ replicate 8 0 @ ?z" by (simp only: replicate_add[symmetric]) simp
  then have 1: "fill_iphdr (replicate 342 0) 328 17 0 ?s = Some (ip_header 328 17 0 ?s @ replicate 8 0 @ ?z)" by (simp add: fill_iphdr_eq)
  have 2: "fill_udphdr (replicate 8 0 @ ?z) 308 68 67 = Some (udp_header 308 68 67 @ ?z)" by (rule fill_udphdr_eq) simp
  have z: "?z = replicate 3 0 @ replicate 25 0 @ replicate 6 0 @ replicate 74 0 @ replicate 4 0 @ replicate 202 0" by (simp only: replicate_add[symmetric]) simp
  have 3: "wrn (?h @ replicate 3 0 @ replicate 25 0 @ replicate 6 0 @ replicate 74 0 @ replicate 4 0 @ replicate 202 0) 28 [1, 1, 6] =
      Some (?h @ [1, 1, 6] @ replicate 25 0 @ replicate 6 0 @ replicate 74 0 @ replicate 4 0 @ replicate 202 0)" by (rule wrn_app) simp_all
  have 4: "wrn ((?h @ [1, 1, 6] @ replicate 25 0 @ replicate 6 0 @ replicate 74 0) @ replicate 4 0 @ replicate 202 0) 136 [98, 108, 97, 0] =
      Some ((?h @ [1, 1, 6] @ replicate 25 0 @ replicate 6 0 @ replicate 74 0) @ [98, 108, 97, 0] @ replicate 202 0)" by (rule wrn_app) simp_all
  have 5: "wrn ((?h @ [1, 1, 6] @ replicate 25 0) @ replicate 6 0 @ replicate 74 0 @ [98, 108, 97, 0] @ replicate 202 0) 56 ?m =
      Some ((?h @ [1, 1, 6] @ replicate 25 0) @ ?m @ replicate 74 0 @ [98, 108, 97, 0] @ replicate 202 0)" by (rule wrn_app) (use m in simp_all)
  let ?r = "[1, 1, 6] @ replicate 25 0 @ ?m @ replicate 74 0 @ [98, 108, 97, 0] @ replicate 202 0"
  let ?p = "ip_header 328 17 0 ?s @ udp_header 308 68 67 @ ?r"
  have l: "length ?r = 314" using m by simp
  have n: "rd16 ?p 2 = Some 328" by (simp add: rd16_def ip_header_def be_simps)
  have mm: "rdn ?m 0 6 = Some ?m" using m by (simp add: rdn_def)
  have "udp_packet_to ?s ?p 328" using udp_packet_headers[of 308 ?r ?s 328 68 67] l by simp
  then obtain r q st' where s: "send_ipv4 io recv st ?p 328 = Some (r, q, st')" "tx st' \<noteq> tx st" "resolved ?s st'" "same_host st st'" "app st' = app st"
    using v4.send_ok[OF assms, of ?p 328 io recv] by (simp, blast)
  have "send_bootp (send_ipv4 io recv) fn st = Some st'"
    unfolding send_bootp_def 1 get_mac_address_def using 2 3[folded z] 4 5 n mm s(1) by simp
  then show ?thesis using s by (simp add: same_host_def)
qed

section \<open>The reply\<close>

text \<open>A packet with a BootP reply for the MAC address \<open>mac\<close>.\<close>

definition bootp_reply :: "bytes \<Rightarrow> bytes \<Rightarrow> bool" where
  "bootp_reply mac p \<longleftrightarrow> length p = 2000 \<and> wr16 p 24 0 \<bind> (\<lambda>g. bootp_checksum (drop 14 g) 10) = rd16 p 24 \<and>
     rd8 p 23 = Some 17 \<and> rd16 p 36 = Some 68 \<and> rd16 p 34 = Some 67 \<and> rd8 p 42 = Some 2 \<and> take 6 (drop 70 p) = mac \<and>
     0 \<in> set (take 128 (drop 150 p))"

lemma bootp_answer_ok:
  assumes "bootp_reply mac p" "length mac = 6"
  shows "\<exists>g. bootp_answer mac p = Some (True, g) \<and> length g = 2000 \<and> (\<forall>j. 26 \<le> j \<longrightarrow> g ! j = p ! j)"
proof -
  have l: "length p = 2000" and c: "wr16 p 24 0 \<bind> (\<lambda>g. bootp_checksum (drop 14 g) 10) = rd16 p 24" and r: "rd8 p 23 = Some 17" "rd16 p 36 = Some 68" "rd16 p 34 = Some 67"
    "rd8 p 42 = Some 2" "take 6 (drop 70 p) = mac" using assms(1) unfolding bootp_reply_def by blast+
  obtain g where g: "wr16 p 24 0 = Some g" using wr16_Some[of 24 p 0] l by auto
  have lg: "length g = 2000" using wr16_length[OF g] l by simp
  have f: "g ! j = p ! j" if "j \<noteq> 24" "j \<noteq> 25" for j using wr16_frame[OF g, of j] that by simp
  obtain s where s: "rd16 p 24 = Some s" using l by (simp add: rd16_def)
  have n: "drop 70 g = drop 70 p" using l lg f by (intro nth_equalityI) simp_all
  have "memcmp mac (drop 70 g) 6 = Some 0" unfolding n using assms(2) r(5) l by (subst memcmp_0_iff) simp_all
  moreover have "rd8 g 23 = rd8 p 23" "rd16 g 36 = rd16 p 36" "rd16 g 34 = rd16 p 34" "rd8 g 42 = rd8 p 42" using l lg f by (simp_all add: rd8_def rd16_def)
  ultimately have "bootp_answer mac p = Some (True, g)" using c g s r by (simp add: bootp_answer_def)
  then show ?thesis using lg f by auto
qed

lemma cstr_within: "0 \<in> set (take n s) \<Longrightarrow> cstr (take n s) = cstr s \<and> length (cstr s) < n"
  by (induction s arbitrary: n) (auto simp: take_Cons split: nat.splits)

lemma take_reply_ok:
  assumes "length g = 2000" "\<forall>j. 26 \<le> j \<longrightarrow> g ! j = p ! j" "bootp_reply mac p" "length (fn_filename fn) = 256" "\<forall>b. rb = Some b \<longrightarrow> 1720 \<le> length b"
    "rd32 p 58 = Some own" "rd32 p 62 = Some srv"
  shows "\<exists>rb' nm. take_reply rb fn g = Some (rb', fn\<lparr>fn_own_ip := own, fn_server_ip := srv, fn_filename := nm\<rparr>) \<and>
    length nm = 256 \<and> cstr nm = cstr (take 128 (drop 150 p))"
proof -
  have l: "length p = 2000" and z: "0 \<in> set (take 128 (drop 150 p))" using assms(3) by (simp_all add: bootp_reply_def)
  have d: "drop 150 g = drop 150 p" using l assms(1,2) by (intro nth_equalityI) simp_all
  have ip: "rd32 g 58 = Some own" "rd32 g 62 = Some srv" using assms(1,2,6,7) l by (simp_all add: rd32_def)
  have t: "terminated (drop 150 p)" using z in_set_takeD by fast
  have c: "cstr (drop 150 p) = cstr (take 128 (drop 150 p))" and n: "length (cstr (drop 150 p)) < 128" using cstr_within[OF z] by simp_all
  have s: "strcpy (fn_filename fn) (drop 150 g) = Some (cstr (drop 150 p) @ 0 # drop (length (cstr (drop 150 p)) + 1) (fn_filename fn))"
    unfolding d using t n assms(4) by (simp add: strcpy_eq_wrn wrn_def)
  obtain rb' where rb: "(case rb of None \<Rightarrow> Some None | Some b \<Rightarrow> do { d \<leftarrow> rdn g 42 1720; b \<leftarrow> wrn b 0 d; Some (Some b) }) = Some rb'"
    using assms(1,5) by (cases rb) (simp_all add: rdn_def wrn_def)
  show ?thesis using s rb ip n assms(4) cstr_append[OF cstr_nonzero, of "drop 150 p"] by (auto simp: take_reply_def c)
qed

text \<open>A BOOTP request that is answered: the client takes its address, the address of the server and the name of the file from the first valid reply,
  and returns 0.\<close>

theorem bootp_reply_taken:
  assumes "resolved (fn_server_ip fn) st" "rx st = Frame f # es" "length f \<le> 2000" "bootp_reply (own_mac st) (f @ replicate (2000 - length f) 0)" "f \<noteq> []"
    "rd32 (f @ replicate (2000 - length f) 0) 58 = Some own" "rd32 (f @ replicate (2000 - length f) 0) 62 = Some srv"
    "length (fn_filename fn) = 256" "\<forall>b. rb = Some b \<longrightarrow> 1720 \<le> length b" "retries \<noteq> -1"
  shows "\<exists>rb' fn' st'. bootp (send_ipv4 io recv) rb fn retries st = Some (0, rb', fn', st') \<and> fn_own_ip fn' = own \<and> fn_server_ip fn' = srv \<and>
    cstr (fn_filename fn') = cstr (take 128 (drop 150 (f @ replicate (2000 - length f) 0))) \<and> tx st' \<noteq> tx st"
proof -
  let ?p = "f @ replicate (2000 - length f) 0" and ?fn = "fn\<lparr>fn_own_ip := 0\<rparr>"
  have mac: "length (own_mac st) = 6" using assms(1) by (simp add: resolved_def net_ok_def)
  have srv: "resolved (fn_server_ip ?fn) st" using assms(1) by simp
  obtain st1 where s1: "send_bootp (send_ipv4 io recv) ?fn st = Some st1" "tx st1 \<noteq> tx st" "rx st1 = Frame f # es" "own_mac st1 = own_mac st"
    using send_bootp_ok[OF srv, of io recv] assms(2) by auto
  obtain g where g: "bootp_answer (own_mac st) ?p = Some (True, g)" "length g = 2000" "\<forall>j. 26 \<le> j \<longrightarrow> g ! j = ?p ! j"
    using bootp_answer_ok[OF assms(4) mac] by blast
  have "length (fn_filename ?fn) = 256" using assms(8) by simp
  then obtain rb' nm where t: "take_reply rb ?fn g = Some (rb', ?fn\<lparr>fn_own_ip := own, fn_server_ip := srv, fn_filename := nm\<rparr>)" "cstr nm = cstr (take 128 (drop 150 ?p))"
    using take_reply_ok[OF g(2,3) assms(4) _ assms(9,6,7)] by blast
  obtain k st2 where k: "set_timer st1 = (k, st2)" by fastforce
  have st2: "rx st2 = Frame f # es" "own_mac st2 = own_mac st" "tx st2 = tx st1" using k s1(3,4) by (auto simp: set_timer_def split: list.splits)
  have "recv_bootp (replicate 2000 0) st2 = (int (length f), ?p, st2\<lparr>rx := es\<rparr>)" using st2(1) assms(3) by (simp add: recv_bootp_def)
  then have "bootp_poll k (replicate 2000 0) rb ?fn st2 = Some (0, rb', ?fn\<lparr>fn_own_ip := own, fn_server_ip := srv, fn_filename := nm\<rparr>, st2\<lparr>rx := es\<rparr>)"
    using assms(5) g(1) t(1) st2(2) by (subst bootp_poll.simps) (simp add: get_mac_address_def)
  then have "receive_bootp rb ?fn st1 = Some (0, rb', ?fn\<lparr>fn_own_ip := own, fn_server_ip := srv, fn_filename := nm\<rparr>, st2\<lparr>rx := es\<rparr>)"
    using k by (simp add: receive_bootp_def)
  moreover have "retries + 1 \<noteq> 0" using assms(10) by (simp add: add_eq_0_iff2)
  then have "unat (retries + 1) \<noteq> 0" by (simp only: unat_eq_0) simp
  then obtain i where "unat (retries + 1) = Suc i" using not0_implies_Suc by blast
  ultimately show ?thesis using s1(1,2) t(2) st2(3) by (simp add: bootp_def)
qed

lemma sum16_append: "i + 2 * n \<le> length p \<Longrightarrow> sum16 (p @ z) i n c = sum16 p i n c"
  by (induction n arbitrary: i c) (simp_all add: rd16_def nth_append)

lemma sample_checksum: "bootp_checksum ([0, 0, 0, 0, 0, 0, 0, 0, 0, 17, 0, 0, 0, 0, 0, 0, 0, 0, 0, 0] @ r) 10 = Some 0xFFEE"
proof -
  have "bootp_checksum [0, 0, 0, 0, 0, 0, 0, 0, 0, 17, 0, 0, 0, 0, 0, 0, 0, 0, 0, 0] 10 = Some 0xFFEE" by code_simp
  then show ?thesis unfolding bootp_checksum_def by (subst sum16_append) simp_all
qed

theorem bootp_reply_taken_witness:
  "\<exists>rb' fn' st'. bootp (send_ipv4 (\<lambda>_. 0) (\<lambda>_. None)) None
      \<lparr>fn_own_ip = 0, fn_own_ip6 = [], fn_server_ip = 0xFFFFFFFF, fn_server_ip6 = [], fn_dns_ip6 = [], fn_filename = replicate 256 0,
        fn_pl_cfgfile = None, fn_pl_prefix = None, fn_fd = 0, fn_ip_version = 4\<rparr> 3
      ((net_start ())\<lparr>rx := [Frame (replicate 14 0 @ [0, 0, 0, 0, 0, 0, 0, 0, 0, 17, 0xFF, 0xEE, 0, 0, 0, 0, 0, 0, 0, 0] @ [0, 67, 0, 68] @ replicate 4 0 @ [2] @ replicate 15 0 @ be32 5 @ be32 6 @ replicate 276 0)]\<rparr>) =
      Some (0, rb', fn', st') \<and> fn_own_ip fn' = 5 \<and> fn_server_ip fn' = 6"
proof -
  let ?f = "replicate 14 0 @ [0, 0, 0, 0, 0, 0, 0, 0, 0, 17, 0xFF, 0xEE, 0, 0, 0, 0, 0, 0, 0, 0] @ [0, 67, 0, 68] @ replicate 4 0 @ [2] @ replicate 15 0 @ be32 5 @ be32 6 @ replicate 276 0 :: bytes"
  let ?fn = "\<lparr>fn_own_ip = 0, fn_own_ip6 = [], fn_server_ip = 0xFFFFFFFF, fn_server_ip6 = [], fn_dns_ip6 = [], fn_filename = replicate 256 0,
        fn_pl_cfgfile = None, fn_pl_prefix = None, fn_fd = 0, fn_ip_version = 4\<rparr>"
  let ?st = "(net_start ())\<lparr>rx := [Frame ?f]\<rparr>"
  let ?p = "?f @ replicate (2000 - length ?f) 0"
  have "net_ok ?st" using net_ok_start[of "()"] by (simp add: net_ok_def)
  then have r: "resolved 0xFFFFFFFF ?st" by (simp add: resolved_def route_def)
  have l: "length ?f = 342" by simp
  let ?b = "replicate 4 0 @ [2] @ replicate 15 0 @ be32 5 @ be32 6 @ replicate 276 0 :: bytes" and ?z = "replicate (2000 - length ?f) 0 :: bytes"
  have w: "wr16 ?p 24 0 = Some (replicate 14 0 @ [0, 0, 0, 0, 0, 0, 0, 0, 0, 17, 0, 0, 0, 0, 0, 0, 0, 0, 0, 0] @ [0, 67, 0, 68] @ ?b @ ?z)"
    using wrn_app[of "replicate 14 0 @ [0, 0, 0, 0, 0, 0, 0, 0, 0, 17]" 24 "[0xFF, 0xEE]" "[0, 0]" "[0, 0, 0, 0, 0, 0, 0, 0] @ [0, 67, 0, 68] @ ?b @ ?z"] by (simp add: wr16_def)
  have d: "drop 14 (replicate 14 0 @ [0, 0, 0, 0, 0, 0, 0, 0, 0, 17, 0, 0, 0, 0, 0, 0, 0, 0, 0, 0] @ [0, 67, 0, 68] @ ?b @ ?z) = [0, 0, 0, 0, 0, 0, 0, 0, 0, 17, 0, 0, 0, 0, 0, 0, 0, 0, 0, 0] @ [0, 67, 0, 68] @ ?b @ ?z"
    by simp
  have "rd16 ?p 24 = Some 0xFFEE" "rd8 ?p 23 = Some 17" "rd16 ?p 36 = Some 68" "rd16 ?p 34 = Some 67" "rd8 ?p 42 = Some 2"
    by (simp_all add: rd16_def rd8_def nth_append cat16_def)
  moreover have "take 6 (drop 70 ?p) = own_mac ?st" by (simp add: net_start_def)
  moreover have "0 \<in> set (take 128 (drop 150 ?p))" by simp
  ultimately have "bootp_reply (own_mac ?st) ?p" using w d sample_checksum by (simp add: bootp_reply_def)
  moreover have "rd32 ?p 58 = Some 5"
    using rd32_be32[of 58 "replicate 14 0 @ [0, 0, 0, 0, 0, 0, 0, 0, 0, 17, 0xFF, 0xEE, 0, 0, 0, 0, 0, 0, 0, 0] @ [0, 67, 0, 68] @ replicate 4 0 @ [2] @ replicate 15 0" 5 "be32 6 @ replicate 276 0 @ ?z"] by simp
  moreover have "rd32 ?p 62 = Some 6"
    using rd32_be32[of 62 "replicate 14 0 @ [0, 0, 0, 0, 0, 0, 0, 0, 0, 17, 0xFF, 0xEE, 0, 0, 0, 0, 0, 0, 0, 0] @ [0, 67, 0, 68] @ replicate 4 0 @ [2] @ replicate 15 0 @ be32 5" 6 "replicate 276 0 @ ?z"] by simp
  ultimately show ?thesis using bootp_reply_taken[of ?fn ?st ?f "[]" 5 6 None 3 "\<lambda>_. 0" "\<lambda>_. None"] r l by auto
qed

lemma poll_silence: "rx st = [] \<Longrightarrow> bootp_poll k p rb fn st = Some (-1, rb, fn, st)"
  by (induction k) (simp_all add: bootp_poll.simps recv_bootp_def)

text \<open>Without a reply the client returns -1 in the end.\<close>

lemma bootp_gives_up:
  assumes "resolved (fn_server_ip fn) st" "rx st = []"
  shows "\<exists>st'. bootp (send_ipv4 io recv) rb fn retries st = Some (-1, rb, fn\<lparr>fn_own_ip := 0\<rparr>, st') \<and> app st' = app st"
proof -
  have "\<exists>st'. bootp_loop (send_ipv4 io recv) i rb fn st = Some (-1, rb, fn, st') \<and> app st' = app st" if "resolved (fn_server_ip fn) st" "rx st = []" for i fn st
    using that
  proof (induction i arbitrary: st)
    case (Suc i)
    obtain st1 where s1: "send_bootp (send_ipv4 io recv) fn st = Some st1" "resolved (fn_server_ip fn) st1" "rx st1 = []" "app st1 = app st"
      using send_bootp_ok[OF Suc.prems(1), of io recv] Suc.prems(2) by auto
    obtain k st2 where k: "set_timer st1 = (k, st2)" by fastforce
    have st2: "rx st2 = []" "app st2 = app st" "resolved (fn_server_ip fn) st2"
      using k s1(2-4) resolved_cong[OF s1(2), of st2] by (auto simp: set_timer_def resolved_def net_ok_def split: list.splits)
    have "receive_bootp rb fn st1 = Some (-1, rb, fn, st2)" using k poll_silence[OF st2(1)] by (simp add: receive_bootp_def)
    then show ?case using s1(1) Suc.IH[OF st2(3,1)] st2(2) by simp
  qed simp
  from this[of "fn\<lparr>fn_own_ip := 0\<rparr>" st "unat (retries + 1)"] show ?thesis using assms by (simp add: bootp_def)
qed

end
