(* ===== verification/Tcg_Bios.thy ===== *)
theory Tcg_Bios
  imports Sha1 Sha256 Sha512 Libc_Stdlib Libc_Stdio Elf
begin

text \<open>The measured boot (\<open>src/lib/libtpm/tcgbios.c\<close>, \<open>tcgbios_int.h\<close>). The driver below it is an argument: \<open>transmit\<close> stands for
  \<open>spapr_transmit\<close> (the request as an object, the size of the buffer for the response and the duration; the result is \<open>None\<close> for -1 and the bytes
  copied into the buffer for 0), and a field of the state holds what the driver keeps. The log area is the memory at \<open>log_base\<close>, pointers into it
  and into the PCR selection are offsets. \<open>alloc\<close> stands for \<open>SLOF_alloc_mem\<close>: the memory at the address returned, of which the caller owns the
  first \<open>n\<close> bytes. Functions that write to the console have no output here.\<close>

section \<open>Data\<close>

datatype duration = SHORT | MEDIUM | LONG

type_synonym 'd transmit = "u8 \<Rightarrow> bytes \<Rightarrow> u32 \<Rightarrow> duration \<Rightarrow> 'd \<Rightarrow> (bytes option \<times> 'd) option"

type_synonym 'd probe = "'d \<Rightarrow> (bool \<times> 'd) option"

record 'd tpm =
  tpm_probed :: bool
  tpm_found :: bool
  tpm_working :: bool
  log_area :: bytes
  log_area_size :: nat
  log_area_next_entry :: "nat option"
  pcr_selection :: "bytes option"
  pcr_selection_size :: nat
  gpt_data :: "bytes option"
  gpt_data_size :: nat
  drv :: 'd

abbreviation be16 :: "u16 \<Rightarrow> bytes" where
  "be16 v \<equiv> [hi8 v, lo8 v]"

text \<open>The log is little-endian.\<close>

definition cpu_to_log16 :: "u16 \<Rightarrow> u16" where
  "cpu_to_log16 v = cat16 (lo8 v) (hi8 v)"

definition cpu_to_log32 :: "u32 \<Rightarrow> u32" where
  "cpu_to_log32 v = cat32 (cpu_to_log16 (lo16 v)) (cpu_to_log16 (hi16 v))"

definition log32_to_cpu :: "u32 \<Rightarrow> u32" where
  "log32_to_cpu v = cpu_to_log32 v"

record hash_parameters =
  hashalg :: u16
  hashalg_flag :: u8
  hash_buffersize :: nat
  hashalg_name :: bytes
  hashfunc :: "(bytes \<Rightarrow> u32 \<Rightarrow> bytes \<Rightarrow> bytes option) option"

definition hash_table :: "hash_parameters list" where
  "hash_table = [
     \<lparr>hashalg = 0x0004, hashalg_flag = 1, hash_buffersize = 20, hashalg_name = [83, 72, 65, 49, 0], hashfunc = Some (sha1 (replicate 80 0))\<rparr>,
     \<lparr>hashalg = 0x000b, hashalg_flag = 2, hash_buffersize = 32, hashalg_name = [83, 72, 65, 50, 53, 54, 0], hashfunc = Some (sha256 (replicate 64 0))\<rparr>,
     \<lparr>hashalg = 0x000c, hashalg_flag = 4, hash_buffersize = 48, hashalg_name = [83, 72, 65, 51, 56, 52, 0], hashfunc = Some (sha384 (replicate 80 0))\<rparr>,
     \<lparr>hashalg = 0x000d, hashalg_flag = 8, hash_buffersize = 64, hashalg_name = [83, 72, 65, 53, 49, 50, 0], hashfunc = Some (sha512 (replicate 80 0))\<rparr>,
     \<lparr>hashalg = 0x0012, hashalg_flag = 16, hash_buffersize = 32, hashalg_name = [83, 77, 51, 45, 50, 53, 54, 0], hashfunc = None\<rparr>,
     \<lparr>hashalg = 0x0027, hashalg_flag = 32, hash_buffersize = 32, hashalg_name = [83, 72, 65, 51, 45, 50, 53, 54, 0], hashfunc = None\<rparr>,
     \<lparr>hashalg = 0x0028, hashalg_flag = 64, hash_buffersize = 48, hashalg_name = [83, 72, 65, 51, 45, 51, 56, 52, 0], hashfunc = None\<rparr>,
     \<lparr>hashalg = 0x0029, hashalg_flag = 128, hash_buffersize = 64, hashalg_name = [83, 72, 65, 51, 45, 53, 49, 50, 0], hashfunc = None\<rparr>]"

definition tpm20_find_by_hashalg :: "u16 \<Rightarrow> hash_parameters option" where
  "tpm20_find_by_hashalg alg = find (\<lambda>h. hashalg h = alg) hash_table"

definition tpm20_find_by_hashalg_flag :: "u16 \<Rightarrow> hash_parameters option" where
  "tpm20_find_by_hashalg_flag flag = find (\<lambda>h. ucast (hashalg_flag h) = flag) hash_table"

definition tpm20_get_hash_buffersize :: "u16 \<Rightarrow> int" where
  "tpm20_get_hash_buffersize alg = (case tpm20_find_by_hashalg alg of Some h \<Rightarrow> int (hash_buffersize h) | None \<Rightarrow> -1)"

definition tpm20_hashalg_to_flag :: "u16 \<Rightarrow> u8" where
  "tpm20_hashalg_to_flag alg = (case tpm20_find_by_hashalg alg of Some h \<Rightarrow> hashalg_flag h | None \<Rightarrow> 0)"

definition tpm20_hashalg_flag_to_hashalg :: "u8 \<Rightarrow> u16" where
  "tpm20_hashalg_flag_to_hashalg flag = (case tpm20_find_by_hashalg_flag (ucast flag) of Some h \<Rightarrow> hashalg h | None \<Rightarrow> 0)"

definition tpm20_hashalg_flag_to_name :: "u8 \<Rightarrow> bytes option" where
  "tpm20_hashalg_flag_to_name flag = map_option hashalg_name (tpm20_find_by_hashalg_flag (ucast flag))"

fun hash_data_loop :: "hash_parameters list \<Rightarrow> u16 \<Rightarrow> bytes \<Rightarrow> u32 \<Rightarrow> bytes \<Rightarrow> bytes option" where
  "hash_data_loop [] alg data len hash = Some hash"
| "hash_data_loop (h # hs) alg data len hash = do {
     hash \<leftarrow> (if hashalg h = alg
       then (case hashfunc h of Some f \<Rightarrow> f data len hash | None \<Rightarrow> memset hash 0xff (hash_buffersize h))
       else Some hash);
     hash_data_loop hs alg data len hash }"

definition tpm2_hash_data :: "u16 \<Rightarrow> bytes \<Rightarrow> u32 \<Rightarrow> bytes \<Rightarrow> bytes option" where
  "tpm2_hash_data = hash_data_loop hash_table"

text \<open>The loop over the PCR selection \<open>m\<close>, which ends at \<open>e\<close>: \<open>n\<close> rounds are left, the selection at \<open>sel\<close> is next. The log entry \<open>le\<close> has the header of 8 bytes, the
  number of digests and the digests, 368 bytes in all. \<open>None\<close> inside is the return value -1.\<close>

fun digest_loop :: "bytes \<Rightarrow> nat \<Rightarrow> bytes \<Rightarrow> u32 \<Rightarrow> bool \<Rightarrow> nat \<Rightarrow> nat \<Rightarrow> nat \<Rightarrow> u32 \<Rightarrow> bytes \<Rightarrow> ((nat \<times> nat \<times> u32) option \<times> bytes) option" where
  "digest_loop m e data len bigEndian 0 sel dest numAlgs le = Some (Some (sel, dest, numAlgs), le)"
| "digest_loop m e data len bigEndian (Suc n) sel dest numAlgs le = do {
     sizeOfSelect \<leftarrow> rd8 m (sel + 2);
     let nsel = sel + 3 + unat sizeOfSelect;
     if nsel > e then Some (Some (sel, dest, numAlgs), le)
     else do {
       unused \<leftarrow> (if sizeOfSelect = 0 then Some True else do { x \<leftarrow> rd8 m (sel + 3); Some (x = 0) });
       if unused then digest_loop m e data len bigEndian n nsel dest numAlgs le
       else do {
         alg \<leftarrow> rd16 m sel;
         let hsize = tpm20_get_hash_buffersize alg;
         if hsize < 0 then Some (None, le)
         else if dest + 2 + nat hsize > 368 then Some (None, le)
         else do {
           le \<leftarrow> wr16 le dest (if bigEndian then alg else cpu_to_log16 alg);
           h \<leftarrow> tpm2_hash_data alg data len (drop (dest + 2) le);
           digest_loop m e data len bigEndian n nsel (dest + 2 + nat hsize) (numAlgs + 1) (take (dest + 2) le @ h) } } } }"

definition tpm20_build_digest :: "bytes \<Rightarrow> bytes \<Rightarrow> u32 \<Rightarrow> bool \<Rightarrow> 'd tpm \<Rightarrow> (int \<times> bytes) option" where
  "tpm20_build_digest le data len bigEndian st = do {
     m \<leftarrow> pcr_selection st;
     count \<leftarrow> rd32 m 0;
     (r, le) \<leftarrow> digest_loop m (pcr_selection_size st) data len bigEndian (unat count) 4 12 0 le;
     case r of None \<Rightarrow> Some (-1, le)
     | Some (sel, dest, numAlgs) \<Rightarrow>
         if sel \<noteq> pcr_selection_size st then Some (-1, le)
         else do {
           le \<leftarrow> wr32 le 8 (if bigEndian then numAlgs else cpu_to_log32 numAlgs);
           Some (int dest - 8, le) } }"

section \<open>Commands\<close>

definition req_header :: "u16 \<Rightarrow> u32 \<Rightarrow> u32 \<Rightarrow> bytes" where
  "req_header tag totlen ordinal = be16 tag @ be32 totlen @ be32 ordinal"

text \<open>The password session with an empty password.\<close>

definition authblock :: bytes where
  "authblock = be32 0x40000009 @ be16 0 @ [1] @ be16 0"

text \<open>A command with a response that is only a header.\<close>

definition header_cmd :: "'d transmit \<Rightarrow> bytes \<Rightarrow> duration \<Rightarrow> 'd tpm \<Rightarrow> (int \<times> 'd tpm) option" where
  "header_cmd transmit req to_t st = do {
     (r, d) \<leftarrow> transmit 0 req 10 to_t (drv st);
     let st = st\<lparr>drv := d\<rparr>;
     case r of None \<Rightarrow> Some (-1, st)
     | Some rsp \<Rightarrow> if length rsp \<noteq> 10 then Some (-1, st)
         else do { errcode \<leftarrow> rd32 rsp 6; Some (if errcode \<noteq> 0 then -1 else 0, st) } }"

definition tpm_simple_cmd :: "'d transmit \<Rightarrow> u8 \<Rightarrow> u32 \<Rightarrow> nat \<Rightarrow> u16 \<Rightarrow> duration \<Rightarrow> 'd tpm \<Rightarrow> (int \<times> 'd tpm) option" where
  "tpm_simple_cmd transmit locty ordinal param_size param to_t st = do {
     let p = (if param_size = 2 then be16 param else if param_size = 1 then [ucast param, 0] else [0, 0]);
     (r, d) \<leftarrow> transmit locty (req_header 0x8001 (10 + of_nat param_size) ordinal @ p) 64 to_t (drv st);
     let st = st\<lparr>drv := d\<rparr>;
     case r of None \<Rightarrow> Some (-1, st)
     | Some rsp \<Rightarrow> do {
         obuffer \<leftarrow> wrn (replicate 64 0) 0 rsp;
         errcode \<leftarrow> rd32 obuffer 6;
         Some (sint errcode, st) } }"

definition tpm20_getcapability :: "'d transmit \<Rightarrow> u32 \<Rightarrow> u32 \<Rightarrow> u32 \<Rightarrow> bytes \<Rightarrow> u32 \<Rightarrow> 'd tpm \<Rightarrow> (int \<times> bytes \<times> 'd tpm) option" where
  "tpm20_getcapability transmit capability property count rsp rsize st = do {
     (r, d) \<leftarrow> transmit 0 (req_header 0x8001 22 0x17a @ be32 capability @ be32 property @ be32 count) rsize SHORT (drv st);
     let st = st\<lparr>drv := d\<rparr>;
     case r of None \<Rightarrow> Some (-1, rsp, st)
     | Some x \<Rightarrow> do {
         rsp \<leftarrow> wrn rsp 0 x;
         totlen \<leftarrow> rd32 rsp 2;
         if rsize < totlen then Some (-1, rsp, st)
         else do { errcode \<leftarrow> rd32 rsp 6; Some (sint errcode, rsp, st) } } }"

definition tpm20_get_pcrbanks :: "'d transmit \<Rightarrow> (nat \<Rightarrow> bytes option) \<Rightarrow> 'd tpm \<Rightarrow> (int \<times> 'd tpm) option" where
  "tpm20_get_pcrbanks transmit alloc st = do {
     (ret, buffer, st) \<leftarrow> tpm20_getcapability transmit 5 0 8 (replicate 128 0) 128 st;
     if ret \<noteq> 0 then Some (ret, st)
     else do {
       resplen \<leftarrow> rd32 buffer 2;
       if resplen \<le> 15 then Some (-1, st)
       else do {
         let sz = unat resplen - 15;
         if sz < 7 then Some (-1, st)
         else (case alloc sz of None \<Rightarrow> Some (-1, st\<lparr>pcr_selection := None\<rparr>)
           | Some b \<Rightarrow> do {
               d \<leftarrow> rdn buffer 15 sz;
               b \<leftarrow> wrn b 0 d;
               Some (0, st\<lparr>pcr_selection := Some b, pcr_selection_size := sz\<rparr>) }) } } }"

definition tpm20_extend :: "'d transmit \<Rightarrow> bytes \<Rightarrow> int \<Rightarrow> 'd tpm \<Rightarrow> (int \<times> 'd tpm) option" where
  "tpm20_extend transmit le digest_len st = do {
     pcrindex \<leftarrow> rd32 le 0;
     digests \<leftarrow> rdn le 8 (nat digest_len);
     header_cmd transmit (req_header 0x8002 (27 + word_of_int digest_len) 0x182 @ be32 (log32_to_cpu pcrindex) @ be32 9 @ authblock @ digests) SHORT st }"

text \<open>\<open>r\<close> is the state of \<open>rand\<close>.\<close>

definition tpm20_stirrandom :: "'d transmit \<Rightarrow> u64 \<Rightarrow> 'd tpm \<Rightarrow> (int \<times> u64 \<times> 'd tpm) option" where
  "tpm20_stirrandom transmit r st = do {
     let (x, r) = rand r;
     (ret, st) \<leftarrow> header_cmd transmit (req_header 0x8001 20 0x146 @ be16 8 @ be32 0 @ be32 (word_of_int x)) SHORT st;
     Some (ret, r, st) }"

definition tpm20_getrandom :: "'d transmit \<Rightarrow> bytes \<Rightarrow> u16 \<Rightarrow> 'd tpm \<Rightarrow> (int \<times> bytes \<times> 'd tpm) option" where
  "tpm20_getrandom transmit buf buf_len st =
     (if buf_len > 20 then Some (-1, buf, st)
      else do {
        (r, d) \<leftarrow> transmit 0 (req_header 0x8001 12 0x17b @ be16 buf_len) 32 MEDIUM (drv st);
        let st = st\<lparr>drv := d\<rparr>;
        case r of None \<Rightarrow> Some (-1, buf, st)
        | Some rsp \<Rightarrow> if length rsp \<noteq> 32 then Some (-1, buf, st)
            else do {
              errcode \<leftarrow> rd32 rsp 6;
              if errcode \<noteq> 0 then Some (-1, buf, st)
              else do { d \<leftarrow> rdn rsp 12 (unat buf_len); buf \<leftarrow> wrn buf 0 d; Some (0, buf, st) } } })"

definition tpm20_hierarchychangeauth :: "'d transmit \<Rightarrow> bytes \<Rightarrow> 'd tpm \<Rightarrow> (int \<times> 'd tpm) option" where
  "tpm20_hierarchychangeauth transmit auth st = do {
     a \<leftarrow> rdn auth 0 20;
     header_cmd transmit (req_header 0x8002 49 0x129 @ be32 0x4000000c @ be32 9 @ authblock @ be16 20 @ a) MEDIUM st }"

definition tpm20_hierarchycontrol :: "'d transmit \<Rightarrow> u32 \<Rightarrow> u8 \<Rightarrow> 'd tpm \<Rightarrow> (int \<times> 'd tpm) option" where
  "tpm20_hierarchycontrol transmit hierarchy state st =
     header_cmd transmit (req_header 0x8002 32 0x121 @ be32 0x4000000c @ be32 9 @ authblock @ be32 hierarchy @ [state]) MEDIUM st"

section \<open>Setup\<close>

text \<open>\<open>present\<close> stands for \<open>spapr_is_vtpm_present\<close>.\<close>

definition probe_tpm :: "'d probe \<Rightarrow> 'd tpm \<Rightarrow> 'd tpm option" where
  "probe_tpm present st = do {
     (p, d) \<leftarrow> present (drv st);
     Some (st\<lparr>tpm_probed := True, tpm_found := p, tpm_working := p, drv := d\<rparr>) }"

definition tpm_is_working :: "'d probe \<Rightarrow> 'd tpm \<Rightarrow> (bool \<times> 'd tpm) option" where
  "tpm_is_working present st = do {
     st \<leftarrow> (if \<not> tpm_probed st then probe_tpm present st else Some st);
     Some (tpm_working st, st) }"

definition tpm_set_failure :: "'d transmit \<Rightarrow> 'd tpm \<Rightarrow> 'd tpm option" where
  "tpm_set_failure transmit st = do {
     (_, st) \<leftarrow> tpm20_hierarchycontrol transmit 0x4000000b 0 st;
     (_, st) \<leftarrow> tpm20_hierarchycontrol transmit 0x40000001 0 st;
     (_, st) \<leftarrow> tpm20_hierarchycontrol transmit 0x4000000c 0 st;
     Some (st\<lparr>tpm_working := False\<rparr>) }"

definition tpm_log_event_long :: "bytes \<Rightarrow> int \<Rightarrow> bytes \<Rightarrow> u32 \<Rightarrow> 'd tpm \<Rightarrow> (u32 \<times> 'd tpm) option" where
  "tpm_log_event_long entry digest_len event event_length st =
     (case log_area_next_entry st of None \<Rightarrow> Some (1, st)
      | Some nxt \<Rightarrow>
        let n = 8 + nat digest_len; sz = n + 4 + unat event_length
        in if nxt + sz > log_area_size st then Some (1, st)
           else do {
             h \<leftarrow> rdn entry 0 n;
             l \<leftarrow> wrn (log_area st) nxt h;
             l \<leftarrow> wr32 l (nxt + n) (cpu_to_log32 event_length);
             l \<leftarrow> (if event_length \<noteq> 0
               then do { ev \<leftarrow> rdn event 0 (unat event_length); wrn l (nxt + n + 4) ev } else Some l);
             Some (0, st\<lparr>log_area := l, log_area_next_entry := Some (nxt + sz)\<rparr>) })"

text \<open>The event at the start of the log that describes the digests: 28 bytes, then four for each algorithm; the structure has 1504 bytes.\<close>

definition spec_id_event :: bytes where
  "spec_id_event = [83, 112, 101, 99, 32, 73, 68, 32, 69, 118, 101, 110, 116, 48, 51, 0, 0, 0, 0, 0, 0, 2, 2, 2] @ replicate 1480 0"

fun spec_id_loop :: "bytes \<Rightarrow> nat \<Rightarrow> nat \<Rightarrow> nat \<Rightarrow> nat \<Rightarrow> nat \<Rightarrow> bytes \<Rightarrow> (nat \<times> nat \<times> bytes) option option" where
  "spec_id_loop m e count 0 sel numAlgs ev = Some (Some (sel, numAlgs, ev))"
| "spec_id_loop m e count (Suc n) sel numAlgs ev = do {
     sizeOfSelect \<leftarrow> rd8 m (sel + 2);
     let nsel = sel + 3 + unat sizeOfSelect;
     if nsel > e then Some (Some (sel, numAlgs, ev))
     else do {
       unused \<leftarrow> (if sizeOfSelect = 0 then Some True else do { x \<leftarrow> rd8 m (sel + 3); Some (x = 0) });
       if unused then spec_id_loop m e (count + 1) n nsel numAlgs ev
       else do {
         alg \<leftarrow> rd16 m sel;
         let hsize = tpm20_get_hash_buffersize alg;
         if hsize < 0 then Some None
         else if 28 + 4 * (count + 1) > 1503 then Some None
         else do {
           ev \<leftarrow> wr16 ev (28 + 4 * numAlgs) (cpu_to_log16 alg);
           ev \<leftarrow> wr16 ev (28 + 4 * numAlgs + 2) (cpu_to_log16 (word_of_int hsize));
           spec_id_loop m e (count + 1) n nsel (numAlgs + 1) ev } } } }"

definition tpm20_write_EfiSpecIdEventStruct :: "'d tpm \<Rightarrow> (int \<times> 'd tpm) option" where
  "tpm20_write_EfiSpecIdEventStruct st = do {
     m \<leftarrow> pcr_selection st;
     count \<leftarrow> rd32 m 0;
     r \<leftarrow> spec_id_loop m (pcr_selection_size st) 0 (unat count) 4 0 spec_id_event;
     case r of None \<Rightarrow> Some (-1, st)
     | Some (sel, numAlgs, ev) \<Rightarrow>
         if sel \<noteq> pcr_selection_size st then Some (-1, st)
         else do {
           ev \<leftarrow> wr32 ev 24 (cpu_to_log32 (of_nat numAlgs));
           ev \<leftarrow> wr8 ev (28 + 4 * numAlgs) 0;
           (r, st) \<leftarrow> tpm_log_event_long (be32 0 @ be32 (cpu_to_log32 3) @ replicate 360 0) 20 ev (of_nat (29 + 4 * numAlgs)) st;
           Some (uint r, st) } }"

definition tpm20_startup :: "'d transmit \<Rightarrow> (nat \<Rightarrow> bytes option) \<Rightarrow> 'd tpm \<Rightarrow> (int \<times> 'd tpm) option" where
  "tpm20_startup transmit alloc st = do {
     (ret, st) \<leftarrow> tpm_simple_cmd transmit 0 0x144 2 0 SHORT st;
     (ret, st) \<leftarrow> (if ret \<noteq> 0 then Some (ret, st) else tpm_simple_cmd transmit 0 0x143 1 1 LONG st);
     (ret, st) \<leftarrow> (if ret \<noteq> 0 then Some (ret, st) else tpm20_get_pcrbanks transmit alloc st);
     if ret \<noteq> 0 then do { st \<leftarrow> tpm_set_failure transmit st; Some (-1, st) } else Some (0, st) }"

definition tpm_start :: "'d probe \<Rightarrow> 'd transmit \<Rightarrow> (nat \<Rightarrow> bytes option) \<Rightarrow> 'd tpm \<Rightarrow> (u32 \<times> 'd tpm) option" where
  "tpm_start present transmit alloc st = do {
     st \<leftarrow> probe_tpm present st;
     (working, st) \<leftarrow> tpm_is_working present st;
     if \<not> working then Some (4, st)
     else do { (r, st) \<leftarrow> tpm20_startup transmit alloc st; Some (word_of_int r, st) } }"

definition tpm_finalize :: "('d \<Rightarrow> 'd) \<Rightarrow> 'd tpm \<Rightarrow> 'd tpm" where
  "tpm_finalize finalize st = st\<lparr>drv := finalize (drv st)\<rparr>"

definition tpm20_prepboot :: "'d transmit \<Rightarrow> u64 \<Rightarrow> 'd tpm \<Rightarrow> (u64 \<times> 'd tpm) option" where
  "tpm20_prepboot transmit r st = do {
     (ret, r, st) \<leftarrow> tpm20_stirrandom transmit r st;
     (ret, auth, st) \<leftarrow> (if ret \<noteq> 0 then Some (ret, replicate 20 0, st) else tpm20_getrandom transmit (replicate 20 0) 20 st);
     (ret, st) \<leftarrow> (if ret \<noteq> 0 then Some (ret, st) else tpm20_hierarchychangeauth transmit auth st);
     st \<leftarrow> (if ret \<noteq> 0 then tpm_set_failure transmit st else Some st);
     Some (r, st) }"

definition tpm_leave_firmware :: "'d transmit \<Rightarrow> u64 \<Rightarrow> 'd tpm \<Rightarrow> (u32 \<times> u64 \<times> 'd tpm) option" where
  "tpm_leave_firmware transmit r st = do { (r, st) \<leftarrow> tpm20_prepboot transmit r st; Some (0, r, st) }"

end
