(* ===== verification/Tcg_Measure.thy ===== *)
theory Tcg_Measure
  imports Tcg_Bios
begin

text \<open>Measurements, the partition table, and the menu of \<open>src/lib/libtpm/tcgbios.c\<close>.\<close>

section \<open>Measurements\<close>

definition tpm_set_log_parameters :: "'d transmit \<Rightarrow> bytes \<Rightarrow> nat \<Rightarrow> 'd tpm \<Rightarrow> 'd tpm option" where
  "tpm_set_log_parameters transmit area sz st = do {
     (ret, st) \<leftarrow> tpm20_write_EfiSpecIdEventStruct (st\<lparr>log_area := area, log_area_next_entry := Some 0, log_area_size := sz\<rparr>);
     if ret \<noteq> 0 then tpm_set_failure transmit st else Some st }"

definition tpm_get_logsize :: "'d tpm \<Rightarrow> u32 option" where
  "tpm_get_logsize st = map_option of_nat (log_area_next_entry st)"

definition tpm_add_measurement_to_log :: "'d transmit \<Rightarrow> u32 \<Rightarrow> u32 \<Rightarrow> bytes \<Rightarrow> u32 \<Rightarrow> bytes \<Rightarrow> u32 \<Rightarrow> 'd tpm \<Rightarrow> (u32 \<times> 'd tpm) option" where
  "tpm_add_measurement_to_log transmit pcrindex eventtype info infolen hashdata hashdatalen st = do {
     let le = be32 (cpu_to_log32 pcrindex) @ be32 (cpu_to_log32 eventtype) @ replicate 360 0;
     (digest_len, le) \<leftarrow> tpm20_build_digest le hashdata hashdatalen True st;
     if digest_len < 0 then Some (2, st)
     else do {
       (ret, st) \<leftarrow> tpm20_extend transmit le digest_len st;
       if ret \<noteq> 0 then do { st \<leftarrow> tpm_set_failure transmit st; Some (6, st) }
       else do {
         (_, le) \<leftarrow> tpm20_build_digest le hashdata hashdatalen False st;
         tpm_log_event_long le digest_len info infolen st } } }"

text \<open>\<open>strlen\<close>, as an argument of 32 bits.\<close>

abbreviation strlen32 :: "bytes \<Rightarrow> u32 option" where
  "strlen32 s \<equiv> map_option ucast (strlen s)"

definition bad_elf :: bytes where
  "bad_elf = [66, 65, 68, 32, 69, 76, 70, 32, 70, 73, 76, 69, 58, 32, 37, 115, 0]"

definition tpm_hash_log_extend_event_buffer ::
    "'d transmit \<Rightarrow> u32 \<Rightarrow> u32 \<Rightarrow> bytes \<Rightarrow> u64 \<Rightarrow> bytes \<Rightarrow> u32 \<Rightarrow> bool \<Rightarrow> 'd tpm \<Rightarrow> (u32 \<times> 'd tpm) option" where
  "tpm_hash_log_extend_event_buffer transmit pcrindex eventtype data datalen desc desclen is_elf st = do {
     len \<leftarrow> (if is_elf then elf_get_file_size data 0 datalen else Some 0);
     if is_elf \<and> len \<le> 0
     then do {
       (_, b) \<leftarrow> snprintf (\<lambda>_. desc) (Some (replicate 256 0)) 256 (Some bad_elf) [0];
       buf \<leftarrow> b;
       n \<leftarrow> strlen32 buf;
       tpm_add_measurement_to_log transmit pcrindex eventtype buf n buf n st }
     else tpm_add_measurement_to_log transmit pcrindex eventtype desc desclen data (ucast (if is_elf then word_of_int len else datalen)) st }"

definition tpm_2hash_ext_log :: "'d transmit \<Rightarrow> u32 \<Rightarrow> u32 \<Rightarrow> bytes \<Rightarrow> u32 \<Rightarrow> bytes \<Rightarrow> u64 \<Rightarrow> 'd tpm \<Rightarrow> (u32 \<times> 'd tpm) option" where
  "tpm_2hash_ext_log transmit pcrindex eventtype info infolen data datalen st = do {
     (ret, st) \<leftarrow> tpm_add_measurement_to_log transmit pcrindex eventtype info infolen data (ucast datalen) st;
     Some (if ret = 0 then -1 else 0, st) }"

definition tpm_get_maximum_cmd_size :: u32 where
  "tpm_get_maximum_cmd_size = 4096"

definition tpm_pass_through_to_tpm :: "'d transmit \<Rightarrow> bytes \<Rightarrow> u32 \<Rightarrow> 'd tpm \<Rightarrow> (u32 \<times> bytes \<times> 'd tpm) option" where
  "tpm_pass_through_to_tpm transmit buffer cmd_size st =
     (if cmd_size < 10 then Some (0, buffer, st)
      else do {
        totlen \<leftarrow> rd32 buffer 2;
        if cmd_size \<noteq> totlen then Some (0, buffer, st)
        else do {
          (r, d) \<leftarrow> transmit 0 buffer 4096 LONG (drv st);
          let st = st\<lparr>drv := d\<rparr>;
          case r of None \<Rightarrow> Some (0, buffer, st)
          | Some rsp \<Rightarrow> do { b \<leftarrow> wrn buffer 0 rsp; Some (of_nat (length rsp), b, st) } } })"

definition tpm_add_action :: "'d transmit \<Rightarrow> u32 \<Rightarrow> bytes \<Rightarrow> 'd tpm \<Rightarrow> (u32 \<times> 'd tpm) option" where
  "tpm_add_action transmit pcrIndex string st = do {
     len \<leftarrow> strlen32 string;
     tpm_add_measurement_to_log transmit pcrIndex 5 string len string len st }"

abbreviation evt_separator :: bytes where
  "evt_separator \<equiv> [0xff, 0xff, 0xff, 0xff]"

partial_function (option) separators_loop :: "'d transmit \<Rightarrow> u32 \<Rightarrow> u32 \<Rightarrow> 'd tpm \<Rightarrow> (u32 \<times> 'd tpm) option" where
  "separators_loop transmit end_pcr pcrIndex st =
     (if pcrIndex \<le> end_pcr
      then do {
        (rc, st) \<leftarrow> tpm_add_measurement_to_log transmit pcrIndex 4 evt_separator 4 evt_separator 4 st;
        if rc \<noteq> 0 then Some (rc, st) else separators_loop transmit end_pcr (pcrIndex + 1) st }
      else Some (0, st))"

declare separators_loop.simps [code]

definition tpm_add_event_separators :: "'d probe \<Rightarrow> 'd transmit \<Rightarrow> u32 \<Rightarrow> u32 \<Rightarrow> 'd tpm \<Rightarrow> (u32 \<times> 'd tpm) option" where
  "tpm_add_event_separators present transmit start_pcr end_pcr st =
     do { (working, st) \<leftarrow> tpm_is_working present st;
      if \<not> working then Some (2, st)
      else if start_pcr \<ge> 24 \<or> start_pcr > end_pcr then Some (5, st)
      else separators_loop transmit end_pcr start_pcr st }"

text \<open>The descriptions: "Booting BCV device 00h (Floppy)", "Booting BCV device 80h (HDD)", "MBR" and "MBR PARTITION TABLE".\<close>

definition bcv_floppy :: bytes where
  "bcv_floppy = [66, 111, 111, 116, 105, 110, 103, 32, 66, 67, 86, 32, 100, 101, 118, 105, 99, 101, 32, 48, 48, 104, 32, 40, 70, 108, 111, 112, 112, 121, 41, 0]"

definition bcv_hdd :: bytes where
  "bcv_hdd = [66, 111, 111, 116, 105, 110, 103, 32, 66, 67, 86, 32, 100, 101, 118, 105, 99, 101, 32, 56, 48, 104, 32, 40, 72, 68, 68, 41, 0]"

definition mbr_table :: bytes where
  "mbr_table = [77, 66, 82, 32, 80, 65, 82, 84, 73, 84, 73, 79, 78, 32, 84, 65, 66, 76, 69, 0]"

definition tpm_measure_bcv_mbr :: "'d probe \<Rightarrow> 'd transmit \<Rightarrow> u32 \<Rightarrow> bytes \<Rightarrow> u32 \<Rightarrow> 'd tpm \<Rightarrow> (u32 \<times> 'd tpm) option" where
  "tpm_measure_bcv_mbr present transmit bootdrv addr len st =
     do { (working, st) \<leftarrow> tpm_is_working present st;
      if \<not> working then Some (2, st)
      else if len < 0x200 then Some (5, st)
      else do {
        (rc, st) \<leftarrow> tpm_add_action transmit 4 (if bootdrv = 0x80 then bcv_hdd else bcv_floppy) st;
        if rc \<noteq> 0 then Some (rc, st)
        else do {
          (rc, st) \<leftarrow> tpm_add_measurement_to_log transmit 4 13 [77, 66, 82, 0] 3 addr 0x1b8 st;
          if rc \<noteq> 0 then Some (rc, st)
          else tpm_add_measurement_to_log transmit 5 14 mbr_table 19 (drop 0x1b8 addr) 0x48 st } } }"

section \<open>The partition table\<close>

text \<open>The data to measure: the header of 512 bytes, the number of partitions (8 bytes), and entries of 128 bytes.\<close>

definition gpt_count :: "bytes \<Rightarrow> u64 option" where
  "gpt_count g = do { h \<leftarrow> rd32 g 512; l \<leftarrow> rd32 g 516; Some (cat64 h l) }"

definition tpm_gpt_set_lba1 :: "'d probe \<Rightarrow> (nat \<Rightarrow> bytes option) \<Rightarrow> bytes \<Rightarrow> u32 \<Rightarrow> 'd tpm \<Rightarrow> 'd tpm option" where
  "tpm_gpt_set_lba1 present alloc addr len st =
     do { (working, st) \<leftarrow> tpm_is_working present st;
      if \<not> working then Some st
      else (case alloc 520 of None \<Rightarrow> Some (st\<lparr>gpt_data := None, gpt_data_size := 520\<rparr>)
        | Some g \<Rightarrow> do {
            d \<leftarrow> rdn addr 0 (min 512 (unat len));
            g \<leftarrow> wrn g 0 d;
            g \<leftarrow> wrn g 512 (be64 0);
            Some (st\<lparr>gpt_data := Some g, gpt_data_size := 520\<rparr>) }) }"

definition tpm_gpt_add_entry :: "'d probe \<Rightarrow> (nat \<Rightarrow> bytes option) \<Rightarrow> bytes \<Rightarrow> u32 \<Rightarrow> 'd tpm \<Rightarrow> 'd tpm option" where
  "tpm_gpt_add_entry present alloc addr len st =
     do { (working, st) \<leftarrow> tpm_is_working present st;
      case gpt_data st of None \<Rightarrow> Some st
      | Some g \<Rightarrow>
        if \<not> working \<or> len < 128 then Some st
        else do {
          c \<leftarrow> memcmp addr (replicate 16 0) 16;
          if c = 0 then Some st
          else do {
            n \<leftarrow> gpt_count g;
            let sz = unat (520 + (n + 1) * 128);
            r \<leftarrow> (if sz > gpt_data_size st
              then (case alloc sz of None \<Rightarrow> Some None
                | Some t \<Rightarrow> do { d \<leftarrow> rdn g 0 (gpt_data_size st); t \<leftarrow> wrn t 0 d; Some (Some (t, sz)) })
              else Some (Some (g, gpt_data_size st)));
            case r of None \<Rightarrow> Some (st\<lparr>gpt_data := None, gpt_data_size := 0\<rparr>)
            | Some (g, gs) \<Rightarrow> do {
                d \<leftarrow> rdn addr 0 128;
                g \<leftarrow> wrn g (520 + unat n * 128) d;
                g \<leftarrow> wrn g 512 (be64 (n + 1));
                Some (st\<lparr>gpt_data := Some g, gpt_data_size := gs\<rparr>) } } } }"

definition tpm_measure_gpt :: "'d probe \<Rightarrow> 'd transmit \<Rightarrow> 'd tpm \<Rightarrow> (u32 \<times> 'd tpm) option" where
  "tpm_measure_gpt present transmit st =
     do { (working, st) \<leftarrow> tpm_is_working present st;
      if \<not> working then Some (2, st)
      else do {
        g \<leftarrow> gpt_data st;
        n \<leftarrow> gpt_count g;
        let sz = (ucast (520 + n * 128) :: u32);
        tpm_add_measurement_to_log transmit 5 0x80000006 g sz g sz st } }"

text \<open>\<open>version\<close> is the release as a wide string with its terminator, \<open>txt\<close> the text section of the firmware; "S-CRTM Contents".\<close>

definition tpm_measure_scrtm :: "'d transmit \<Rightarrow> u16 list \<Rightarrow> bytes \<Rightarrow> 'd tpm \<Rightarrow> (u32 \<times> 'd tpm) option" where
  "tpm_measure_scrtm transmit version txt st = do {
     let v = concat (map (\<lambda>c. be16 (cpu_to_log16 c)) version);
     (rc, st) \<leftarrow> tpm_add_measurement_to_log transmit 0 8 v (of_nat (length v)) v (of_nat (length v)) st;
     if rc \<noteq> 0 then Some (rc, st)
     else tpm_add_measurement_to_log transmit 0 7 [83, 45, 67, 82, 84, 77, 32, 67, 111, 110, 116, 101, 110, 116, 115, 0] 15 txt (of_nat (length txt)) st }"

definition tpm_driver_get_failure_reason :: "('d \<Rightarrow> int) \<Rightarrow> 'd tpm \<Rightarrow> u32" where
  "tpm_driver_get_failure_reason get_error st = (if \<not> tpm_found st then 0 else word_of_int (get_error (drv st)))"

definition tpm_driver_set_failure_reason :: "(int \<Rightarrow> 'd \<Rightarrow> 'd) \<Rightarrow> u32 \<Rightarrow> 'd tpm \<Rightarrow> 'd tpm" where
  "tpm_driver_set_failure_reason set_error errcode st = (if \<not> tpm_found st then st else st\<lparr>drv := set_error (sint errcode) (drv st)\<rparr>)"

section \<open>PCR banks and the menu\<close>

text \<open>The loop runs until the next selection would end behind the structure, so it reads the size byte at \<open>sel + 2\<close> once more there.\<close>

function suppt_loop :: "bytes \<Rightarrow> nat \<Rightarrow> nat \<Rightarrow> u8 \<Rightarrow> u8 \<Rightarrow> (u8 \<times> u8) option" where
  "suppt_loop m e sel suppt active = do {
     sizeOfSelect \<leftarrow> rd8 m (sel + 2);
     let nsel = sel + 3 + unat sizeOfSelect;
     if nsel > e then Some (suppt, active)
     else do {
       alg \<leftarrow> rd16 m sel;
       let flag = tpm20_hashalg_to_flag alg;
       s \<leftarrow> rdn m (sel + 3) (unat sizeOfSelect);
       suppt_loop m e nsel (suppt OR flag) (if list_ex (\<lambda>x. x \<noteq> 0) s then active OR flag else active) } }"
  by pat_completeness auto
termination by (relation "measure (\<lambda>(m, e, sel, suppt, active). e - sel)") auto

declare suppt_loop.simps [simp del]

definition tpm20_get_suppt_pcrbanks :: "'d tpm \<Rightarrow> (u8 \<times> u8) option" where
  "tpm20_get_suppt_pcrbanks st = do { m \<leftarrow> pcr_selection st; suppt_loop m (pcr_selection_size st) 4 0 0 }"

text \<open>The array \<open>tps\<close> has four entries of 6 bytes.\<close>

fun banks_loop :: "u8 list \<Rightarrow> u8 \<Rightarrow> u32 \<Rightarrow> nat \<Rightarrow> bytes \<Rightarrow> (nat \<times> bytes) option" where
  "banks_loop [] suppt active i tps = Some (i, tps)"
| "banks_loop (flag # flags) suppt active i tps =
     (let alg = tpm20_hashalg_flag_to_hashalg flag in
      if flag AND suppt \<noteq> 0 \<and> alg \<noteq> 0
      then do {
        let mask = (if active AND ucast flag \<noteq> 0 then 0xff else 0);
        tps \<leftarrow> wrn tps (6 * i) (be16 alg @ [3, mask, mask, mask]);
        banks_loop flags suppt active (i + 1) tps }
      else banks_loop flags suppt active i tps)"

abbreviation hash_flags :: "u8 list" where
  "hash_flags \<equiv> [1, 2, 4, 8, 16, 32, 64, 128]"

text \<open>The request has room for 4 bytes of selections at 31.\<close>

definition tpm20_set_pcrbanks :: "'d transmit \<Rightarrow> u32 \<Rightarrow> 'd tpm \<Rightarrow> (int \<times> 'd tpm) option" where
  "tpm20_set_pcrbanks transmit active_banks st = do {
     (suppt, _) \<leftarrow> tpm20_get_suppt_pcrbanks st;
     (i, tps) \<leftarrow> banks_loop hash_flags suppt active_banks 0 (replicate 24 0);
     d \<leftarrow> rdn tps 0 (i * 6);
     let trpa = req_header 0x8002 (31 + of_nat (i * 6)) 0x12b @ be32 0x4000000c @ be32 9 @ authblock @ be32 (of_nat i) @ replicate 4 0;
     trpa \<leftarrow> wrn trpa 31 d;
     (r, d) \<leftarrow> transmit 0 trpa 10 SHORT (drv st);
     let st = st\<lparr>drv := d\<rparr>;
     case r of None \<Rightarrow> Some (-1, st) | Some rsp \<Rightarrow> do { errcode \<leftarrow> rd32 rsp 6; Some (sint errcode, st) } }"

text \<open>The result also says whether the machine is reset.\<close>

definition tpm20_activate_pcrbanks :: "'d transmit \<Rightarrow> u32 \<Rightarrow> 'd tpm \<Rightarrow> (int \<times> bool \<times> 'd tpm) option" where
  "tpm20_activate_pcrbanks transmit active_banks st = do {
     (ret, st) \<leftarrow> tpm20_set_pcrbanks transmit active_banks st;
     (ret, st) \<leftarrow> (if ret = 0 then tpm_simple_cmd transmit 0 0x145 2 0 SHORT st else Some (ret, st));
     Some (ret, ret = 0, st) }"

definition tpm20_clearcontrol :: "'d transmit \<Rightarrow> u8 \<Rightarrow> 'd tpm \<Rightarrow> (int \<times> 'd tpm) option" where
  "tpm20_clearcontrol transmit disable st =
     header_cmd transmit (req_header 0x8002 28 0x127 @ be32 0x4000000c @ be32 9 @ authblock @ [disable]) SHORT st"

definition tpm20_clear :: "'d transmit \<Rightarrow> 'd tpm \<Rightarrow> (int \<times> 'd tpm) option" where
  "tpm20_clear transmit st = header_cmd transmit (req_header 0x8002 27 0x126 @ be32 0x4000000c @ be32 9 @ authblock) MEDIUM st"

text \<open>The menus read the keys of a list: they wait for more, are left with the rest of the keys, or reset the machine.\<close>

datatype menu = Waiting | Left "int list" | Reset

fun change_loop :: "'d transmit \<Rightarrow> u8 \<Rightarrow> u8 \<Rightarrow> int list \<Rightarrow> 'd tpm \<Rightarrow> (menu \<times> 'd tpm) option" where
  "change_loop transmit suppt activate [] st = Some (Waiting, st)"
| "change_loop transmit suppt activate (k # ks) st =
     (if k = 27 then Some (Left ks, st)
      else if 49 \<le> k \<and> k \<le> 53
      then let b = push_bit (nat (k - 49)) 1 in change_loop transmit suppt (if suppt AND b \<noteq> 0 then activate XOR b else activate) ks st
      else if k = 97 \<and> activate \<noteq> 0
      then do {
        (_, reset, st) \<leftarrow> tpm20_activate_pcrbanks transmit (ucast activate) st;
        if reset then Some (Reset, st) else change_loop transmit suppt activate ks st }
      else change_loop transmit suppt activate ks st)"

definition tpm20_menu_change_active_pcrbanks :: "'d transmit \<Rightarrow> int list \<Rightarrow> 'd tpm \<Rightarrow> (menu \<times> 'd tpm) option" where
  "tpm20_menu_change_active_pcrbanks transmit ks st = do {
     (suppt, active) \<leftarrow> tpm20_get_suppt_pcrbanks st;
     change_loop transmit suppt active ks st }"

lemma change_loop_left: "change_loop transmit suppt activate ks st = Some (Left ks', st') \<Longrightarrow> length ks' < length ks"
  by (induction transmit suppt activate ks st rule: change_loop.induct) (fastforce simp: bind_eq_Some_conv Let_def split: if_splits)+

function tpm20_menu :: "'d transmit \<Rightarrow> int list \<Rightarrow> 'd tpm \<Rightarrow> (menu \<times> 'd tpm) option" where
  "tpm20_menu transmit [] st = Some (Waiting, st)"
| "tpm20_menu transmit (k # ks) st =
     (if k = 27 then Some (Left ks, st)
      else if k = 49
      then do {
        (ret, st) \<leftarrow> tpm20_clearcontrol transmit 0 st;
        (ret, st) \<leftarrow> (if ret = 0 then tpm20_clear transmit st else Some (ret, st));
        tpm20_menu transmit ks st }
      else if k = 50
      then (case tpm20_menu_change_active_pcrbanks transmit ks st of None \<Rightarrow> None
        | Some (Left ks', st) \<Rightarrow> tpm20_menu transmit ks' st
        | Some r \<Rightarrow> Some r)
      else tpm20_menu transmit ks st)"
  by pat_completeness auto
termination
  by (relation "measure (\<lambda>(t, ks, st). length ks)")
    (auto simp: tpm20_menu_change_active_pcrbanks_def bind_eq_Some_conv dest!: change_loop_left)

end
