(* ===== verification/Tpm_Driver.thy ===== *)
theory Tpm_Driver
  imports Tcg_Bios
begin

text \<open>The driver of the virtual TPM (\<open>src/lib/libtpm/tpm_drivers.c\<close>). Commands and responses go through a buffer, messages (CRQ) through the hypervisor,
  which answers by writing an entry of a queue. What the hypervisor will do is part of the state: for each message it refuses it, or it is silent, or
  its answer appears after a number of polls. The messages sent are recorded with their type and, for a TPM command, its length and the contents of the
  buffer; the other fields of a message are not initialised. The memory for the queue and for the buffer and the unit number come as arguments.\<close>

section \<open>State\<close>

record crq =
  crq_valid :: u8
  crq_msg :: u8
  crq_len :: u16
  crq_data :: u32

abbreviation no_crq :: crq where
  "no_crq \<equiv> \<lparr>crq_valid = 0, crq_msg = 0, crq_len = 0, crq_data = 0\<rparr>"

text \<open>An answer: the number of polls before it, the message, and the contents of the buffer.\<close>

type_synonym answer = "nat \<times> crq \<times> bytes"

datatype hv_answer = Refused | Silent | Answer answer

record vtpm =
  initialized :: bool
  vtpm_unit :: u64
  queue :: "crq list option"
  curr_q_entry :: nat
  response :: "nat option"
  driver_state :: int
  driver_error :: int
  buffer_size :: nat
  buffer_mem :: "(u32 \<times> bytes) option"
  completed :: bool
  registrations :: "bool list"
  answers :: "hv_answer list"
  pending :: "answer option"
  sent :: "(u8 \<times> u8 \<times> (u16 \<times> bytes) option) list"

definition vtpm_start :: vtpm where
  "vtpm_start = \<lparr>initialized = False, vtpm_unit = 0, queue = None, curr_q_entry = 0, response = None, driver_state = 0, driver_error = -1,
     buffer_size = 0, buffer_mem = None, completed = False, registrations = [], answers = [], pending = None, sent = []\<rparr>"

definition vtpm_drv_state_set :: "int \<Rightarrow> int \<Rightarrow> vtpm \<Rightarrow> vtpm" where
  "vtpm_drv_state_set s e v = v\<lparr>driver_state := s, driver_error := e\<rparr>"

definition vtpm_drv_error_get :: "vtpm \<Rightarrow> int" where
  "vtpm_drv_error_get v = driver_error v"

definition spapr_get_crq :: "crq list \<Rightarrow> nat \<Rightarrow> crq option" where
  "spapr_get_crq q i = (if i < length q then Some (q ! i) else None)"

definition spapr_get_response_crq :: "vtpm \<Rightarrow> (nat \<times> vtpm) option" where
  "spapr_get_response_crq v = do {
     q \<leftarrow> queue v;
     let i = curr_q_entry v;
     _ \<leftarrow> spapr_get_crq q i;
     Some (i, v\<lparr>queue := Some (q[i := no_crq]), curr_q_entry := (if i + 1 = 256 then 0 else i + 1)\<rparr>) }"

section \<open>The hypervisor\<close>

definition hv_send_crq :: "u8 \<times> u8 \<times> (u16 \<times> bytes) option \<Rightarrow> vtpm \<Rightarrow> bool \<times> answer option \<times> vtpm" where
  "hv_send_crq x v0 = (let v = v0\<lparr>sent := sent v0 @ [x]\<rparr> in case answers v of [] \<Rightarrow> (True, None, v)
     | Refused # r \<Rightarrow> (False, None, v\<lparr>answers := r\<rparr>)
     | Silent # r \<Rightarrow> (True, None, v\<lparr>answers := r\<rparr>)
     | Answer a # r \<Rightarrow> (True, Some a, v\<lparr>answers := r\<rparr>))"

definition hv_reg_crq :: "vtpm \<Rightarrow> bool \<times> vtpm" where
  "hv_reg_crq v = (case registrations v of [] \<Rightarrow> (False, v) | b # r \<Rightarrow> (b, v\<lparr>registrations := r\<rparr>))"

text \<open>The answer arrives in the entry \<open>i\<close>.\<close>

definition deliver :: "nat \<Rightarrow> answer \<Rightarrow> vtpm \<Rightarrow> vtpm" where
  "deliver i a v = (case a of (_, c, b) \<Rightarrow>
     v\<lparr>queue := map_option (\<lambda>q. q[i := c]) (queue v),
       buffer_mem := map_option (\<lambda>(addr, m). (addr, take (length m) b @ drop (length b) m)) (buffer_mem v)\<rparr>)"

text \<open>Polling every millisecond: \<open>k\<close> is the number of polls before the answer.\<close>

function poll_loop :: "nat \<Rightarrow> nat \<Rightarrow> nat \<Rightarrow> bool" where
  "poll_loop timeout i k = (if i < timeout then k = 0 \<or> poll_loop timeout (i + 1000) (k - 1) else False)"
  by pat_completeness auto
termination by (relation "measure (\<lambda>(t, i, k). t - i)") auto

declare poll_loop.simps [simp del]

definition answered :: "nat \<Rightarrow> answer option \<Rightarrow> bool" where
  "answered timeout a = (case a of None \<Rightarrow> False | Some (k, c, _) \<Rightarrow> crq_valid c AND 0x80 \<noteq> 0 \<and> poll_loop timeout 0 k)"

definition spapr_send_crq_and_wait :: "u8 \<Rightarrow> u8 \<Rightarrow> nat \<Rightarrow> int \<Rightarrow> int \<Rightarrow> vtpm \<Rightarrow> (nat option \<times> vtpm) option" where
  "spapr_send_crq_and_wait valid msg timeout state1 state2 v = do {
     (i, v) \<leftarrow> spapr_get_response_crq v;
     let v = vtpm_drv_state_set state1 (-1) v;
     let (ok, a, v) = hv_send_crq (valid, msg, None) v;
     if \<not> ok then Some (None, vtpm_drv_state_set 3 10 v)
     else (let v = vtpm_drv_state_set state2 (-1) v in
       if answered timeout a then Some (Some i, deliver i (the a) v)
       else Some (None, vtpm_drv_state_set 5 5 v)) }"

section \<open>Initialisation\<close>

definition spapr_vtpm_get_params :: "(nat \<Rightarrow> (u32 \<times> bytes) option) \<Rightarrow> vtpm \<Rightarrow> (bool \<times> vtpm) option" where
  "spapr_vtpm_get_params alloc v =
     (if completed v then Some (True, v)
      else do {
        (r, v) \<leftarrow> spapr_send_crq_and_wait 0x80 3 10 11 12 v;
        case r of None \<Rightarrow> Some (False, v)
        | Some i \<Rightarrow> do {
            q \<leftarrow> queue v;
            c \<leftarrow> spapr_get_crq q i;
            let v = (vtpm_drv_state_set 13 (-1) v)\<lparr>buffer_size := unat (crq_len c)\<rparr>;
            if buffer_size v < 1024 then Some (False, vtpm_drv_state_set 5 12 v)
            else (case alloc (buffer_size v) of None \<Rightarrow> Some (False, vtpm_drv_state_set 5 12 (v\<lparr>buffer_mem := None\<rparr>))
              | Some b \<Rightarrow> Some (True, v\<lparr>buffer_mem := Some b, completed := True\<rparr>)) } })"

definition spapr_vtpm_activate :: "(nat \<Rightarrow> (u32 \<times> bytes) option) \<Rightarrow> vtpm \<Rightarrow> (bool \<times> vtpm) option" where
  "spapr_vtpm_activate alloc v =
     (if vtpm_drv_error_get v \<noteq> -1 then Some (False, v)
      else let (ok, v) = hv_reg_crq (vtpm_drv_state_set 2 (-1) v) in
        if \<not> ok then Some (False, vtpm_drv_state_set 3 1 v)
        else do {
          let v = v\<lparr>curr_q_entry := 0\<rparr>;
          (ok, v) \<leftarrow> (if initialized v then Some (True, v)
            else do {
              (r, v) \<leftarrow> spapr_send_crq_and_wait 0xC0 1 10 4 6 v;
              Some (case r of None \<Rightarrow> (False, v) | Some _ \<Rightarrow> (True, v\<lparr>initialized := True\<rparr>)) });
          (ok, v) \<leftarrow> (if ok then spapr_vtpm_get_params alloc v else Some (False, v));
          Some (ok, if ok then v else v\<lparr>vtpm_unit := 0\<rparr>) })"

definition spapr_vtpm_finalize :: "vtpm \<Rightarrow> vtpm" where
  "spapr_vtpm_finalize v = (if vtpm_unit v \<noteq> 0 then v\<lparr>vtpm_unit := 0\<rparr> else v)"

definition spapr_vtpm_probe :: "bool \<Rightarrow> u64 \<Rightarrow> (nat \<Rightarrow> (u32 \<times> bytes) option) \<Rightarrow> vtpm \<Rightarrow> (bool \<times> vtpm) option" where
  "spapr_vtpm_probe qmem unit_no alloc v =
     (case queue v of Some _ \<Rightarrow> spapr_vtpm_activate alloc v
      | None \<Rightarrow>
        if \<not> qmem then Some (False, v)
        else let v = v\<lparr>queue := Some (replicate 256 no_crq), vtpm_unit := unit_no\<rparr> in
          if unit_no = 0 then Some (False, v) else spapr_vtpm_activate alloc v)"

section \<open>Commands\<close>

definition spapr_vtpm_senddata :: "bytes \<Rightarrow> u32 \<Rightarrow> vtpm \<Rightarrow> (bool \<times> vtpm) option" where
  "spapr_vtpm_senddata data len v =
     (if vtpm_drv_error_get v \<noteq> -1 then Some (False, v)
      else if unat len > buffer_size v then Some (False, v)
      else do {
        (i, v) \<leftarrow> spapr_get_response_crq v;
        (addr, m) \<leftarrow> buffer_mem v;
        q \<leftarrow> queue v;
        let v = v\<lparr>response := Some i, queue := Some (q[i := no_crq\<lparr>crq_data := addr\<rparr>])\<rparr>;
        d \<leftarrow> rdn data 0 (min (unat len) (buffer_size v));
        m \<leftarrow> wrn m 0 d;
        let v = vtpm_drv_state_set 14 (-1) (v\<lparr>buffer_mem := Some (addr, m)\<rparr>);
        let (ok, a, v) = hv_send_crq (0x80, 2, Some (ucast len, m)) v;
        Some (ok, if ok then vtpm_drv_state_set 15 (-1) (v\<lparr>pending := a\<rparr>) else vtpm_drv_state_set 3 6 (v\<lparr>pending := None\<rparr>)) })"

definition tpm2_durations :: "duration \<Rightarrow> nat" where
  "tpm2_durations to_t = (case to_t of SHORT \<Rightarrow> 750000 | MEDIUM \<Rightarrow> 2000000 | LONG \<Rightarrow> 2000000)"

definition spapr_vtpm_waitresponseready :: "duration \<Rightarrow> vtpm \<Rightarrow> (bool \<times> vtpm) option" where
  "spapr_vtpm_waitresponseready to_t v =
     (if vtpm_drv_error_get v \<noteq> -1 then Some (False, v)
      else do {
        i \<leftarrow> response v;
        if answered (tpm2_durations to_t) (pending v)
        then Some (True, vtpm_drv_state_set 14 (-1) (deliver i (the (pending v)) v\<lparr>pending := None\<rparr>))
        else Some (False, vtpm_drv_state_set 5 5 v) })"

text \<open>The bytes copied; the response is read at the address in the answer.\<close>

definition spapr_vtpm_readresponse :: "u32 \<Rightarrow> vtpm \<Rightarrow> (bytes option \<times> vtpm) option" where
  "spapr_vtpm_readresponse len v =
     (if vtpm_drv_error_get v \<noteq> -1 then Some (None, v)
      else do {
        i \<leftarrow> response v;
        q \<leftarrow> queue v;
        c \<leftarrow> spapr_get_crq q i;
        (addr, m) \<leftarrow> buffer_mem v;
        d \<leftarrow> (if crq_data c = addr then rdn m 0 (min (unat len) (unat (crq_len c))) else None);
        Some (Some d, v\<lparr>response := None\<rparr>) })"

definition spapr_vtpm_get_error :: "vtpm \<Rightarrow> int" where
  "spapr_vtpm_get_error v = vtpm_drv_error_get v"

definition spapr_vtpm_set_error :: "int \<Rightarrow> vtpm \<Rightarrow> vtpm" where
  "spapr_vtpm_set_error errcode v = v\<lparr>driver_error := errcode\<rparr>"

definition spapr_is_vtpm_present :: "bool \<Rightarrow> u64 \<Rightarrow> (nat \<Rightarrow> (u32 \<times> bytes) option) \<Rightarrow> vtpm \<Rightarrow> (bool \<times> vtpm) option" where
  "spapr_is_vtpm_present = spapr_vtpm_probe"

definition spapr_transmit :: "vtpm transmit" where
  "spapr_transmit locty req respbufferlen to_t v =
     (if locty \<noteq> 0 then Some (None, v)
      else do {
        totlen \<leftarrow> rd32 req 2;
        (ok, v) \<leftarrow> spapr_vtpm_senddata req totlen v;
        if \<not> ok then Some (None, v)
        else do {
          (ok, v) \<leftarrow> spapr_vtpm_waitresponseready to_t v;
          if \<not> ok then Some (None, v)
          else do {
            (r, v) \<leftarrow> spapr_vtpm_readresponse respbufferlen v;
            Some (case r of None \<Rightarrow> None | Some d \<Rightarrow> if length d < 10 then None else Some d, v) } } })"

end
