(* ===== verification/Tpm_Transport.thy ===== *)
theory Tpm_Transport
  imports Tpm_Driver
begin

text \<open>The interface between the measured boot and the driver: a command whose length field is right is transmitted without a fault, and the response fits
  into the buffer. The driver provides it as long as the hypervisor answers with the address and at most the size of the buffer it was given.\<close>

locale tpm_transport =
  fixes transmit :: "'d transmit" and inv :: "'d \<Rightarrow> bool"
  assumes total: "inv d \<Longrightarrow> rd32 req 2 = Some n \<Longrightarrow> unat n \<le> length req \<Longrightarrow> \<exists>r d'. transmit locty req len t d = Some (r, d') \<and> inv d'"
    and response: "inv d \<Longrightarrow> transmit locty req len t d = Some (Some rsp, d') \<Longrightarrow> 10 \<le> length rsp \<and> length rsp \<le> unat len"

section \<open>The provider\<close>

definition drv_ok :: "vtpm \<Rightarrow> bool" where
  "drv_ok v \<longleftrightarrow> (\<exists>q. queue v = Some q \<and> length q = 256) \<and> curr_q_entry v < 256 \<and>
     (\<exists>addr m. buffer_mem v = Some (addr, m) \<and> length m = buffer_size v \<and>
        (\<forall>k c b. Answer (k, c, b) \<in> set (answers v) \<longrightarrow> crq_data c = addr \<and> unat (crq_len c) \<le> length m))"

text \<open>A command has been sent, and the answer to it is awaited in the entry \<open>i\<close>.\<close>

definition awaiting :: "vtpm \<Rightarrow> bool" where
  "awaiting v \<longleftrightarrow> drv_ok v \<and> (\<exists>i < 256. response v = Some i) \<and>
     (\<forall>k c b addr m. pending v = Some (k, c, b) \<longrightarrow> buffer_mem v = Some (addr, m) \<longrightarrow> crq_data c = addr \<and> unat (crq_len c) \<le> length m)"

lemma drv_ok_state_set [simp]: "drv_ok (vtpm_drv_state_set s e v) = drv_ok v" "awaiting (vtpm_drv_state_set s e v) = awaiting v"
  by (simp_all add: drv_ok_def awaiting_def vtpm_drv_state_set_def)

lemma senddata_ok:
  assumes "drv_ok v" "unat n \<le> length req"
  shows "\<exists>ok v'. spapr_vtpm_senddata req n v = Some (ok, v') \<and> drv_ok v' \<and> (ok \<longrightarrow> awaiting v')"
proof -
  obtain q addr m where q: "queue v = Some q" "length q = 256" "curr_q_entry v < 256" and m: "buffer_mem v = Some (addr, m)" "length m = buffer_size v"
    and a: "\<And>k c b. Answer (k, c, b) \<in> set (answers v) \<Longrightarrow> crq_data c = addr \<and> unat (crq_len c) \<le> length m"
    using assms(1) unfolding drv_ok_def by blast
  show ?thesis
  proof (cases "driver_error v \<noteq> -1 \<or> unat n > buffer_size v")
    case True
    then show ?thesis using assms(1) by (auto simp: spapr_vtpm_senddata_def vtpm_drv_error_get_def)
  next
    case False
    let ?i = "curr_q_entry v"
    have d: "rdn req 0 (unat n) = Some (take (unat n) req)" using assms(2) by (simp add: rdn_def)
    have w: "wrn m 0 (take (unat n) req) = Some (take (unat n) req @ drop (unat n) m)" using False m(2) assms(2) by (simp add: wrn_def)
    define nx where "nx = (if ?i + 1 = 256 then 0 else ?i + 1)"
    have i: "nx < 256" using q(3) by (auto simp: nx_def)
    have g: "spapr_get_response_crq v = Some (?i, v\<lparr>queue := Some (q[?i := no_crq]), curr_q_entry := nx\<rparr>)"
      using q by (simp add: spapr_get_response_crq_def spapr_get_crq_def Let_def nx_def)
    let ?m = "take (unat n) req @ drop (unat n) m"
    let ?v = "v\<lparr>curr_q_entry := nx, response := Some ?i, queue := Some (q[?i := no_crq\<lparr>crq_data := addr\<rparr>]), buffer_mem := Some (addr, ?m)\<rparr>"
    obtain ok b v' where h: "hv_send_crq (0x80, 2, Some (ucast n, ?m)) (vtpm_drv_state_set 14 (-1) ?v) = (ok, b, v')" by (cases "hv_send_crq (0x80, 2, Some (ucast n, ?m)) (vtpm_drv_state_set 14 (-1) ?v)")
    have e: "spapr_vtpm_senddata req n v = Some (ok, if ok then vtpm_drv_state_set 15 (-1) (v'\<lparr>pending := b\<rparr>) else vtpm_drv_state_set 3 6 (v'\<lparr>pending := None\<rparr>))"
      using False m d w h g by (simp add: spapr_vtpm_senddata_def vtpm_drv_error_get_def min_def Let_def)
    have lm: "length ?m = buffer_size v" using False m(2) assms(2) by simp
    have v': "queue v' = queue ?v" "curr_q_entry v' = curr_q_entry ?v" "response v' = response ?v" "buffer_mem v' = buffer_mem ?v" "buffer_size v' = buffer_size v"
      "set (answers v') \<subseteq> set (answers v)" "\<And>x. b = Some x \<Longrightarrow> Answer x \<in> set (answers v)"
      using h by (auto simp: hv_send_crq_def vtpm_drv_state_set_def Let_def split: list.splits hv_answer.splits)
    have ok': "drv_ok (v'\<lparr>pending := c\<rparr>)" for c
      using v' q i lm a m(2) by (auto simp: drv_ok_def)
    have aw: "awaiting (v'\<lparr>pending := b\<rparr>)" using ok'[of b] v' q(3) a lm m(2) by (auto simp: awaiting_def)
    show ?thesis unfolding e using ok' aw by auto
  qed
qed

lemma waitresponse_ok:
  assumes "awaiting v"
  shows "\<exists>ok v'. spapr_vtpm_waitresponseready t v = Some (ok, v') \<and> drv_ok v' \<and>
    (ok \<longrightarrow> (\<exists>i c q addr m. response v' = Some i \<and> queue v' = Some q \<and> i < length q \<and> q ! i = c \<and> buffer_mem v' = Some (addr, m) \<and> crq_data c = addr \<and> unat (crq_len c) \<le> length m))"
proof -
  obtain q addr m i where q: "queue v = Some q" "length q = 256" "curr_q_entry v < 256" and m: "buffer_mem v = Some (addr, m)" "length m = buffer_size v"
    and a: "\<And>k c b. Answer (k, c, b) \<in> set (answers v) \<Longrightarrow> crq_data c = addr \<and> unat (crq_len c) \<le> length m" and i: "response v = Some i" "i < 256"
    and p: "\<And>k c b. pending v = Some (k, c, b) \<Longrightarrow> crq_data c = addr \<and> unat (crq_len c) \<le> length m" and ok: "drv_ok v"
    using assms unfolding drv_ok_def awaiting_def by blast
  show ?thesis
  proof (cases "driver_error v \<noteq> -1 \<or> \<not> answered (tpm2_durations t) (pending v)")
    case True
    then show ?thesis using ok i(1) by (auto simp: spapr_vtpm_waitresponseready_def vtpm_drv_error_get_def)
  next
    case False
    then obtain k c b where pd: "pending v = Some (k, c, b)" by (auto simp: answered_def split: option.splits)
    let ?v = "deliver i (k, c, b) v\<lparr>pending := None\<rparr>"
    have "spapr_vtpm_waitresponseready t v = Some (True, vtpm_drv_state_set 14 (-1) ?v)"
      using False i(1) pd by (simp add: spapr_vtpm_waitresponseready_def vtpm_drv_error_get_def)
    moreover
    have lb: "min (length b) (buffer_size v) + (buffer_size v - length b) = buffer_size v" by simp
    have "drv_ok ?v" using q m a by (auto simp: drv_ok_def deliver_def lb)
    then have "drv_ok (vtpm_drv_state_set 14 (-1) ?v)" by simp
    moreover have "response ?v = Some i" "queue ?v = Some (q[i := c])" "buffer_mem ?v = Some (addr, take (length m) b @ drop (length b) m)" "i < length (q[i := c])" "q[i := c] ! i = c"
      using q m i by (simp_all add: deliver_def)
    moreover have "length (take (length m) b @ drop (length b) m) = length m" by simp
    ultimately show ?thesis using p[OF pd] by (intro exI[of _ True] exI[of _ "vtpm_drv_state_set 14 (-1) ?v"]) (simp add: vtpm_drv_state_set_def)
  qed
qed

lemma spapr_transmit_ok:
  assumes "drv_ok v" "rd32 req 2 = Some n" "unat n \<le> length req"
  shows "\<exists>r v'. spapr_transmit locty req len t v = Some (r, v') \<and> drv_ok v' \<and> (\<forall>rsp. r = Some rsp \<longrightarrow> 10 \<le> length rsp \<and> length rsp \<le> unat len)"
proof (cases "locty = 0")
  case True
  obtain ok v1 where s: "spapr_vtpm_senddata req n v = Some (ok, v1)" "drv_ok v1" "ok \<Longrightarrow> awaiting v1" using senddata_ok[OF assms(1,3)] by auto
  show ?thesis
  proof (cases ok)
    case ok: True
    obtain ok2 v2 where w: "spapr_vtpm_waitresponseready t v1 = Some (ok2, v2)" "drv_ok v2"
      "ok2 \<Longrightarrow> \<exists>i c q addr m. response v2 = Some i \<and> queue v2 = Some q \<and> i < length q \<and> q ! i = c \<and> buffer_mem v2 = Some (addr, m) \<and> crq_data c = addr \<and> unat (crq_len c) \<le> length m"
      using waitresponse_ok[OF s(3)[OF ok], of t] by auto
    show ?thesis
    proof (cases "ok2 \<and> driver_error v2 = -1")
      case ok2: True
      then obtain i c q addr m where r: "response v2 = Some i" "queue v2 = Some q" "i < length q" "q ! i = c" "buffer_mem v2 = Some (addr, m)" "crq_data c = addr" "unat (crq_len c) \<le> length m"
        using w(3) by auto
      let ?d = "take (min (unat len) (unat (crq_len c))) m"
      have "spapr_vtpm_readresponse len v2 = Some (Some ?d, v2\<lparr>response := None\<rparr>)"
        using ok2 r by (simp add: spapr_vtpm_readresponse_def vtpm_drv_error_get_def spapr_get_crq_def rdn_def)
      moreover have "drv_ok (v2\<lparr>response := None\<rparr>)" using w(2) by (simp add: drv_ok_def)
      ultimately show ?thesis using True ok ok2 s(1) w(1) assms(2) r(7) by (auto simp: spapr_transmit_def)
    next
      case False
      have "\<not> ok2 \<Longrightarrow> ?thesis" using True ok s(1) w(1,2) assms(2) by (auto simp: spapr_transmit_def)
      moreover have "ok2 \<Longrightarrow> ?thesis" using False True ok s(1) w(1,2) assms(2) by (auto simp: spapr_transmit_def spapr_vtpm_readresponse_def vtpm_drv_error_get_def)
      ultimately show ?thesis by blast
    qed
  next
    case False
    then show ?thesis using True s(1,2) assms(2) by (auto simp: spapr_transmit_def)
  qed
next
  case False
  then show ?thesis using assms(1) by (auto simp: spapr_transmit_def)
qed

lemma spapr_transmit_response:
  assumes "spapr_transmit locty req len t v = Some (Some rsp, v')"
  shows "10 \<le> length rsp \<and> length rsp \<le> unat len"
  using assms
  by (auto simp: spapr_transmit_def spapr_vtpm_readresponse_def bind_eq_Some_conv rdn_def split: if_splits option.splits)

interpretation vtpm: tpm_transport spapr_transmit drv_ok
  by unfold_locales (use spapr_transmit_ok spapr_transmit_response in blast)+

end
