(* ===== verification/Tcg_Log.thy ===== *)
theory Tcg_Log
  imports Tcg_Measure Tpm_Transport
begin

text \<open>What the measured boot guarantees: the digests sent to the TPM and those in the log are the hashes of the data in every bank in use, and the log is
  the history of the PCRs.\<close>

section \<open>Digests\<close>

definition supported :: "u16 \<Rightarrow> bool" where
  "supported alg \<longleftrightarrow> alg \<in> {0x4, 0xb, 0xc, 0xd, 0x12, 0x27, 0x28, 0x29}"

definition digest_size :: "u16 \<Rightarrow> nat" where
  "digest_size alg = nat (tpm20_get_hash_buffersize alg)"

text \<open>The hash of \<open>msg\<close>: FIPS 180-4, or a filler for the algorithms that the firmware does not implement.\<close>

definition reference_digest :: "u16 \<Rightarrow> bytes \<Rightarrow> bytes" where
  "reference_digest alg msg = (if alg = 0x4 then fips_sha1 msg else if alg = 0xb then fips_sha256 msg else if alg = 0xc then fips_sha384 msg
     else if alg = 0xd then fips_sha512 msg else replicate (digest_size alg) 0xff)"

lemma buffersize: "tpm20_get_hash_buffersize 0x4 = 20" "tpm20_get_hash_buffersize 0xb = 32" "tpm20_get_hash_buffersize 0xc = 48"
  "tpm20_get_hash_buffersize 0xd = 64" "tpm20_get_hash_buffersize 0x12 = 32" "tpm20_get_hash_buffersize 0x27 = 32"
  "tpm20_get_hash_buffersize 0x28 = 48" "tpm20_get_hash_buffersize 0x29 = 64"
  by (simp_all add: tpm20_get_hash_buffersize_def tpm20_find_by_hashalg_def hash_table_def)

lemma digest_sizes: "digest_size 0x4 = 20" "digest_size 0xb = 32" "digest_size 0xc = 48"
  "digest_size 0xd = 64" "digest_size 0x12 = 32" "digest_size 0x27 = 32" "digest_size 0x28 = 48" "digest_size 0x29 = 64"
  by (simp_all add: digest_size_def buffersize)

lemma supported_cases:
  assumes "supported alg"
  obtains "alg = 0x4" | "alg = 0xb" | "alg = 0xc" | "alg = 0xd" | "alg = 0x12" | "alg = 0x27" | "alg = 0x28" | "alg = 0x29"
  using assms by (auto simp: supported_def)

lemma buffersize_supported: "supported alg \<Longrightarrow> tpm20_get_hash_buffersize alg = int (digest_size alg)"
  by (erule supported_cases) (simp_all add: buffersize digest_sizes)

lemma buffersize_unsupported: "\<not> supported alg \<Longrightarrow> tpm20_get_hash_buffersize alg = -1"
  by (simp add: tpm20_get_hash_buffersize_def tpm20_find_by_hashalg_def hash_table_def supported_def)

lemma length_reference_digest: "supported alg \<Longrightarrow> length (reference_digest alg msg) = digest_size alg"
  by (erule supported_cases) (simp_all add: reference_digest_def digest_sizes length_fips_sha1 length_fips_sha256 length_fips_sha512)

lemma hash_data:
  assumes "supported alg" "unat len \<le> length data" "unat len < 2 ^ 29" "digest_size alg \<le> length hash"
  shows "tpm2_hash_data alg data len hash = Some (reference_digest alg (take (unat len) data) @ drop (digest_size alg) hash)"
proof -
  have f: "memset hash 0xff n = Some (replicate n 0xff @ drop n hash)" if "n \<le> length hash" for n
    using that by (simp add: memset_eq_wrn wrn_def)
  show ?thesis using assms(1)
  proof (cases rule: supported_cases)
    case 1
    then show ?thesis using assms sha1_spec[of "replicate 80 0" len data hash]
      by (simp add: tpm2_hash_data_def hash_table_def reference_digest_def digest_sizes)
  next
    case 2
    then show ?thesis using assms sha256_spec[of "replicate 64 0" len data hash]
      by (simp add: tpm2_hash_data_def hash_table_def reference_digest_def digest_sizes)
  next
    case 3
    then show ?thesis using assms sha384_spec[of "replicate 80 0" len data hash]
      by (simp add: tpm2_hash_data_def hash_table_def reference_digest_def digest_sizes)
  next
    case 4
    then show ?thesis using assms sha512_spec[of "replicate 80 0" len data hash]
      by (simp add: tpm2_hash_data_def hash_table_def reference_digest_def digest_sizes)
  qed (use assms(4) f in \<open>simp_all add: tpm2_hash_data_def hash_table_def reference_digest_def digest_sizes\<close>)
qed

section \<open>The banks of the TPM\<close>

type_synonym bank = "u16 \<times> bytes"

definition bank_bytes :: "bank \<Rightarrow> bytes" where
  "bank_bytes b = be16 (fst b) @ of_nat (length (snd b)) # snd b"

abbreviation banks_bytes :: "bank list \<Rightarrow> bytes" where
  "banks_bytes bs \<equiv> concat (map bank_bytes bs)"

text \<open>The algorithms of the banks that have one of the PCRs 0 to 7.\<close>

definition in_use :: "bank list \<Rightarrow> u16 list" where
  "in_use bs = map fst (filter (\<lambda>b. snd b \<noteq> [] \<and> snd b ! 0 \<noteq> 0) bs)"

definition digest_list :: "bool \<Rightarrow> bytes \<Rightarrow> u16 list \<Rightarrow> bytes" where
  "digest_list bigEndian msg algs = concat (map (\<lambda>a. be16 (if bigEndian then a else cpu_to_log16 a) @ reference_digest a msg) algs)"

definition digests_size :: "u16 list \<Rightarrow> nat" where
  "digests_size algs = (\<Sum>a\<leftarrow>algs. 2 + digest_size a)"

text \<open>The selection structure is well formed, the algorithms are known and the digests fit into a log entry.\<close>

definition banks_ok :: "bank list \<Rightarrow> bool" where
  "banks_ok bs \<longleftrightarrow> (\<forall>b \<in> set bs. length (snd b) < 256) \<and> (\<forall>a \<in> set (in_use bs). supported a) \<and> digests_size (in_use bs) \<le> 356 \<and> length bs < 2 ^ 32"

lemma length_digest_list: "\<forall>a \<in> set algs. supported a \<Longrightarrow> length (digest_list b msg algs) = digests_size algs"
  by (induction algs) (auto simp: digest_list_def digests_size_def length_reference_digest)

lemma digest_loop_banks:
  assumes "\<forall>b \<in> set bs. length (snd b) < 256" "\<forall>a \<in> set (in_use bs). supported a" "length le = 368" "dest + digests_size (in_use bs) \<le> 368"
    "unat len \<le> length data" "unat len < 2 ^ 29"
  shows "digest_loop (pre @ banks_bytes bs @ post) (length (pre @ banks_bytes bs)) data len be (length bs) (length pre) dest n le =
    Some (Some (length (pre @ banks_bytes bs), dest + digests_size (in_use bs), n + of_nat (length (in_use bs))),
      take dest le @ digest_list be (take (unat len) data) (in_use bs) @ drop (dest + digests_size (in_use bs)) le)"
  using assms(1-4)
proof (induction bs arbitrary: pre dest n le)
  case Nil
  then show ?case by (simp add: in_use_def digests_size_def digest_list_def)
next
  case (Cons b bs)
  obtain a s where b: "b = (a, s)" by fastforce
  let ?m = "pre @ banks_bytes (b # bs) @ post" and ?e = "length (pre @ banks_bytes (b # bs))"
  have ls: "length s < 256" using Cons.prems(1) b by simp
  have us: "unat (of_nat (length s) :: u8) = length s" using ls by (simp add: unsigned_of_nat take_bit_nat_eq_self_iff)
  have z: "(of_nat (length s) :: u8) = 0 \<longleftrightarrow> s = []" using us by (metis length_0_conv unat_eq_0)
  have r: "rd8 ?m (length pre + 2) = Some (of_nat (length s))" "rd16 ?m (length pre) = Some a" by (simp_all add: b bank_bytes_def rd8_def rd16_def nth_append be_simps)
  have r3: "s \<noteq> [] \<Longrightarrow> rd8 ?m (length pre + 3) = Some (s ! 0)" by (auto simp: b bank_bytes_def rd8_def nth_append numeral_eq_Suc)
  have nx: "length pre + 3 + length s = length (pre @ bank_bytes b)" by (simp add: b bank_bytes_def)
  have le: "\<not> ?e < length pre + 3 + length s" by (simp add: b bank_bytes_def)
  have ih: "digest_loop ?m ?e data len be (length bs) (length pre + 3 + length s) dest' n' le' =
      Some (Some (?e, dest' + digests_size (in_use bs), n' + of_nat (length (in_use bs))),
        take dest' le' @ digest_list be (take (unat len) data) (in_use bs) @ drop (dest' + digests_size (in_use bs)) le')"
    if "length le' = 368" "dest' + digests_size (in_use bs) \<le> 368" for dest' n' le'
    using Cons.IH[of le' dest' "pre @ bank_bytes b" n'] that Cons.prems(1,2) unfolding nx by (simp add: in_use_def)
  show ?case
  proof (cases "s \<noteq> [] \<and> s ! 0 \<noteq> 0")
    case False
    then have u: "in_use (b # bs) = in_use bs" by (auto simp: in_use_def b)
    have "digest_loop ?m ?e data len be (length (b # bs)) (length pre) dest n le = digest_loop ?m ?e data len be (length bs) (length pre + 3 + length s) dest n le"
      using r r3 le us z False by (cases "s = []") simp_all
    then show ?thesis using ih[OF Cons.prems(3)] Cons.prems(4) unfolding u by simp
  next
    case True
    then have u: "in_use (b # bs) = a # in_use bs" by (simp add: in_use_def b)
    have sup: "supported a" and d: "dest + (2 + digest_size a) + digests_size (in_use bs) \<le> 368" using Cons.prems(2,4) unfolding u by (simp_all add: digests_size_def)
    let ?k = "digest_size a" and ?x = "be16 (if be then a else cpu_to_log16 a)" and ?h = "reference_digest a (take (unat len) data)"
    have w: "wr16 le dest (if be then a else cpu_to_log16 a) = Some (take dest le @ ?x @ drop (dest + 2) le)"
      using d Cons.prems(3) by (simp add: wr16_def wrn_def)
    have t: "take (dest + 2) (take dest le @ ?x @ drop (dest + 2) le) = take dest le @ ?x" "drop (dest + 2) (take dest le @ ?x @ drop (dest + 2) le) = drop (dest + 2) le"
      using d Cons.prems(3) by simp_all
    have h: "tpm2_hash_data a data len (drop (dest + 2) le) = Some (?h @ drop (dest + 2 + ?k) le)"
      using hash_data[OF sup assms(5,6), of "drop (dest + 2) le"] d Cons.prems(3) by (simp add: add.commute add.left_commute)
    let ?le = "(take dest le @ ?x) @ ?h @ drop (dest + 2 + ?k) le"
    have lh: "length ?h = ?k" by (rule length_reference_digest[OF sup])
    have ll: "length ?le = 368" using d Cons.prems(3) lh by simp
    have "digest_loop ?m ?e data len be (length (b # bs)) (length pre) dest n le =
        digest_loop ?m ?e data len be (length bs) (length pre + 3 + length s) (dest + 2 + ?k) (n + 1) ?le"
      using r r3 le us z True w t h buffersize_supported[OF sup] d by simp
    also have "\<dots> = Some (Some (?e, dest + 2 + ?k + digests_size (in_use bs), n + 1 + of_nat (length (in_use bs))),
        take (dest + 2 + ?k) ?le @ digest_list be (take (unat len) data) (in_use bs) @ drop (dest + 2 + ?k + digests_size (in_use bs)) ?le)"
      using d by (intro ih[OF ll]) simp
    also have "take (dest + 2 + ?k) ?le = take dest le @ ?x @ ?h" using lh d Cons.prems(3) by simp
    also have "drop (dest + 2 + ?k + digests_size (in_use bs)) ?le = drop (dest + digests_size (a # in_use bs)) le"
      using lh d Cons.prems(3) by (simp add: digests_size_def ac_simps)
    finally show ?thesis unfolding u by (simp add: digest_list_def digests_size_def add.assoc add.commute)
  qed
qed

text \<open>The state has the banks \<open>bs\<close>.\<close>

definition has_banks :: "bank list \<Rightarrow> 'd tpm \<Rightarrow> bool" where
  "has_banks bs st \<longleftrightarrow> banks_ok bs \<and> (\<exists>post. pcr_selection st = Some (be32 (of_nat (length bs)) @ banks_bytes bs @ post)) \<and>
     pcr_selection_size st = 4 + length (banks_bytes bs)"

text \<open>The structure \<open>TPML_DIGEST_VALUES\<close>.\<close>

definition digest_values :: "bool \<Rightarrow> bytes \<Rightarrow> bank list \<Rightarrow> bytes" where
  "digest_values bigEndian msg bs = be32 (if bigEndian then of_nat (length (in_use bs)) else cpu_to_log32 (of_nat (length (in_use bs)))) @
     digest_list bigEndian msg (in_use bs)"

lemma rd32_be32_0: "rd32 (be32 v @ r) 0 = Some v"
  by (simp add: rd32_def be32_def be_simps)

lemma length_digest_values: "banks_ok bs \<Longrightarrow> length (digest_values be msg bs) = 4 + digests_size (in_use bs)"
  by (simp add: digest_values_def length_digest_list banks_ok_def)

lemma build_digest:
  assumes "has_banks bs st" "length hdr = 8" "length rest = 360" "unat len \<le> length data" "unat len < 2 ^ 29"
  shows "tpm20_build_digest (hdr @ rest) data len be st =
    Some (int (length (digest_values be (take (unat len) data) bs)),
      hdr @ digest_values be (take (unat len) data) bs @ drop (length (digest_values be (take (unat len) data) bs)) rest)"
proof -
  obtain post where ok: "banks_ok bs" and m: "pcr_selection st = Some (be32 (of_nat (length bs)) @ banks_bytes bs @ post)" and e: "pcr_selection_size st = 4 + length (banks_bytes bs)"
    using assms(1) by (auto simp: has_banks_def)
  have bo: "\<forall>b \<in> set bs. length (snd b) < 256" "\<forall>a \<in> set (in_use bs). supported a" "digests_size (in_use bs) \<le> 356" "length bs < 2 ^ 32"
    using ok by (simp_all add: banks_ok_def)
  let ?k = "digests_size (in_use bs)" and ?msg = "take (unat len) data" and ?n = "of_nat (length (in_use bs)) :: u32"
  let ?d = "digest_list be ?msg (in_use bs)" and ?c = "if be then ?n else cpu_to_log32 ?n"
  have u: "unat (of_nat (length bs) :: u32) = length bs" using bo(4) by (simp only: unsigned_of_nat) (simp add: take_bit_nat_eq_self)
  have l: "digest_loop (be32 (of_nat (length bs)) @ banks_bytes bs @ post) (4 + length (banks_bytes bs)) data len be (length bs) 4 12 0 (hdr @ rest) =
      Some (Some (4 + length (banks_bytes bs), 12 + ?k, ?n), take 12 (hdr @ rest) @ ?d @ drop (12 + ?k) (hdr @ rest))"
    using digest_loop_banks[OF bo(1,2) _ _ assms(4,5), of "hdr @ rest" 12 "be32 (of_nat (length bs))" post be 0] bo(3) assms(2,3) by simp
  have x: "take 12 (hdr @ rest) @ ?d @ drop (12 + ?k) (hdr @ rest) = hdr @ take 4 rest @ ?d @ drop (4 + ?k) rest" using assms(2) by simp
  have w: "wr32 (hdr @ take 4 rest @ ?d @ drop (4 + ?k) rest) 8 ?c = Some (hdr @ be32 ?c @ ?d @ drop (4 + ?k) rest)"
    using assms(2,3) by (simp add: wr32_def wrn_def)
  have v: "digest_values be ?msg bs = be32 ?c @ ?d" by (simp add: digest_values_def)
  show ?thesis unfolding length_digest_values[OF ok]
    using m e u l[unfolded x] w rd32_be32_0[of "of_nat (length bs)" "banks_bytes bs @ post"] by (simp add: tpm20_build_digest_def v)
qed

section \<open>Measurements\<close>

text \<open>The command that extends the PCR with the digests of \<open>msg\<close>, and the event in the log.\<close>

definition extend_command :: "bank list \<Rightarrow> u32 \<Rightarrow> bytes \<Rightarrow> bytes" where
  "extend_command bs pcr msg = (let d = digest_values True msg bs in
     req_header 0x8002 (of_nat (27 + length d)) 0x182 @ be32 pcr @ be32 9 @ authblock @ d)"

definition log_event :: "bank list \<Rightarrow> u32 \<Rightarrow> u32 \<Rightarrow> bytes \<Rightarrow> bytes \<Rightarrow> bytes" where
  "log_event bs pcr ty msg info = be32 (cpu_to_log32 pcr) @ be32 (cpu_to_log32 ty) @ digest_values False msg bs @
     be32 (cpu_to_log32 (of_nat (length info))) @ info"

lemma log32_involutive [simp]: "log32_to_cpu (cpu_to_log32 v) = v"
  by (simp add: log32_to_cpu_def cpu_to_log32_def cpu_to_log16_def be_simps)

lemma extend_sent:
  assumes "has_banks bs st" "length rest = 360"
  shows "tpm20_extend transmit ((be32 (cpu_to_log32 pcr) @ be32 ty) @ digest_values True msg bs @ drop (length (digest_values True msg bs)) rest)
      (int (length (digest_values True msg bs))) st' = header_cmd transmit (extend_command bs pcr msg) SHORT st'"
proof -
  let ?d = "digest_values True msg bs" and ?h = "be32 (cpu_to_log32 pcr) @ be32 ty"
  have "rdn (?h @ ?d @ drop (length ?d) rest) 8 (length ?d) = Some ?d" by (simp add: rdn_def)
  moreover have "rd32 (?h @ ?d @ drop (length ?d) rest) 0 = Some (cpu_to_log32 pcr)" by (simp add: rd32_be32_0)
  ultimately show ?thesis by (simp add: tpm20_extend_def extend_command_def Let_def)
qed

lemma log_event_appended:
  assumes "log_area_next_entry st = Some nxt" "nxt + length (h @ d) + 4 + unat infolen \<le> log_area_size st" "log_area_size st \<le> length (log_area st)"
    "length h = 8" "unat infolen \<le> length info"
  shows "tpm_log_event_long (h @ d @ r) (int (length d)) info infolen st =
    Some (0, st\<lparr>log_area := take nxt (log_area st) @ (h @ d @ be32 (cpu_to_log32 infolen) @ take (unat infolen) info) @
        drop (nxt + length (h @ d) + 4 + unat infolen) (log_area st),
      log_area_next_entry := Some (nxt + length (h @ d) + 4 + unat infolen)\<rparr>)"
proof -
  let ?l = "log_area st" and ?n = "unat infolen" and ?k = "length (h @ d)"
  have b: "nxt + ?k + 4 + ?n \<le> length ?l" using assms(2,3) by simp
  have r: "rdn (h @ d @ r) 0 (8 + length d) = Some (h @ d)" using assms(4) by (simp add: rdn_def)
  have w1: "wrn ?l nxt (h @ d) = Some (take nxt ?l @ (h @ d) @ drop (nxt + ?k) ?l)" using b by (simp add: wrn_def)
  have w2: "wr32 (take nxt ?l @ (h @ d) @ drop (nxt + ?k) ?l) (nxt + ?k) v = Some (take nxt ?l @ (h @ d) @ be32 v @ drop (nxt + ?k + 4) ?l)" for v
    using b by (simp add: wr32_def wrn_def ac_simps)
  have w3: "wrn (take nxt ?l @ (h @ d) @ be32 v @ drop (nxt + ?k + 4) ?l) (nxt + ?k + 4) (take ?n info) =
      Some (take nxt ?l @ (h @ d) @ be32 v @ take ?n info @ drop (nxt + ?k + 4 + ?n) ?l)" for v
    using b assms(5) by (simp add: wrn_def ac_simps)
  have i: "rdn info 0 ?n = Some (take ?n info)" using assms(5) by (simp add: rdn_def)
  have z: "infolen = 0 \<Longrightarrow> ?n = 0" by simp
  have k: "8 + length d = ?k" using assms(4) by simp
  show ?thesis
  proof (cases "infolen = 0")
    case True
    then show ?thesis using assms(1,2) r w1 w2 by (simp add: tpm_log_event_long_def Let_def k del: length_append)
  next
    case False
    then show ?thesis using assms(1,2) r w1 w2 w3 i by (simp add: tpm_log_event_long_def Let_def k del: length_append)
  qed
qed

text \<open>The TPM accepts a command: the state of the driver behind it.\<close>

definition accept :: "'d transmit \<Rightarrow> bytes \<Rightarrow> 'd \<Rightarrow> 'd option" where
  "accept transmit req d = (case transmit 0 req 10 SHORT d of Some (Some rsp, d') \<Rightarrow> if rd32 rsp 6 = Some 0 then Some d' else None | _ \<Rightarrow> None)"

definition log_contents :: "'d tpm \<Rightarrow> bytes" where
  "log_contents st = (case log_area_next_entry st of None \<Rightarrow> [] | Some n \<Rightarrow> take n (log_area st))"

text \<open>A request whose length field is its length.\<close>

definition request_ok :: "bytes \<Rightarrow> bool" where
  "request_ok req \<longleftrightarrow> rd32 req 2 = Some (of_nat (length req)) \<and> length req < 2 ^ 32"

lemma request_ok_header: "length (req_header tag n ord @ r) < 2 ^ 32 \<Longrightarrow> n = of_nat (length (req_header tag n ord @ r)) \<Longrightarrow> request_ok (req_header tag n ord @ r)"
  by (simp add: request_ok_def req_header_def rd32_def be32_def nth_append be_simps)

lemma length_req_header [simp]: "length (req_header tag n ord) = 10" "length authblock = 9"
  by (simp_all add: req_header_def authblock_def)

lemma extend_request_ok: "banks_ok bs \<Longrightarrow> request_ok (extend_command bs pcr msg)"
  unfolding extend_command_def Let_def by (rule request_ok_header) (auto simp: length_digest_values banks_ok_def)

lemma hierarchy_request_ok: "request_ok (req_header 0x8002 32 0x121 @ be32 0x4000000c @ be32 9 @ authblock @ be32 h @ [s])"
  by (rule request_ok_header) simp_all

context tpm_transport
begin

lemma header_cmd_cases:
  assumes "inv (drv st)" "request_ok req"
  shows "\<exists>r d'. header_cmd transmit req t st = Some (r, st\<lparr>drv := d'\<rparr>) \<and> inv d' \<and> (t = SHORT \<longrightarrow> (if r = 0 then accept transmit req (drv st) = Some d' else accept transmit req (drv st) = None))"
proof -
  have n: "unat (of_nat (length req) :: u32) = length req" using assms(2) by (simp only: unsigned_of_nat) (simp add: take_bit_nat_eq_self request_ok_def)
  then obtain x d' where x: "transmit 0 req 10 t (drv st) = Some (x, d')" "inv d'"
    using total[OF assms(1), of req "of_nat (length req)"] assms(2) unfolding request_ok_def by force
  show ?thesis
  proof (cases x)
    case None
    then show ?thesis using x by (auto simp: header_cmd_def accept_def)
  next
    case (Some rsp)
    have l: "length rsp = 10" using response[OF assms(1), of 0 req 10 t rsp d'] x Some by simp
    then obtain e where "rd32 rsp 6 = Some e" by (simp add: rd32_def)
    then show ?thesis using x Some l by (auto simp: header_cmd_def accept_def)
  qed
qed

lemma hierarchycontrol_total:
  assumes "inv d"
  shows "\<exists>r d'. tpm20_hierarchycontrol transmit h s (st\<lparr>drv := d\<rparr>) = Some (r, st\<lparr>drv := d'\<rparr>) \<and> inv d'"
  using header_cmd_cases[of "st\<lparr>drv := d\<rparr>" _ MEDIUM, OF _ hierarchy_request_ok[of h s]] assms unfolding tpm20_hierarchycontrol_def by auto

lemma set_failure_total:
  assumes "inv d"
  shows "\<exists>d'. tpm_set_failure transmit (st\<lparr>drv := d\<rparr>) = Some (st\<lparr>drv := d', tpm_working := False\<rparr>) \<and> inv d'"
proof -
  obtain r1 d1 where 1: "tpm20_hierarchycontrol transmit 0x4000000b 0 (st\<lparr>drv := d\<rparr>) = Some (r1, st\<lparr>drv := d1\<rparr>)" "inv d1"
    using hierarchycontrol_total[OF assms] by blast
  obtain r2 d2 where 2: "tpm20_hierarchycontrol transmit 0x40000001 0 (st\<lparr>drv := d1\<rparr>) = Some (r2, st\<lparr>drv := d2\<rparr>)" "inv d2"
    using hierarchycontrol_total[OF 1(2)] by blast
  obtain r3 d3 where 3: "tpm20_hierarchycontrol transmit 0x4000000c 0 (st\<lparr>drv := d2\<rparr>) = Some (r3, st\<lparr>drv := d3\<rparr>)" "inv d3"
    using hierarchycontrol_total[OF 2(2)] by blast
  show ?thesis using 1 2 3 by (intro exI[of _ d3]) (simp add: tpm_set_failure_def)
qed

lemma measurement_cases:
  assumes "inv (drv st)" "has_banks bs st" "log_area_next_entry st = Some nxt" "log_area_size st \<le> length (log_area st)"
    "unat len \<le> length data" "unat len < 2 ^ 29" "unat infolen \<le> length info"
  shows "\<exists>d'. inv d' \<and>
    (if accept transmit (extend_command bs pcr (take (unat len) data)) (drv st) = None
     then tpm_add_measurement_to_log transmit pcr ty info infolen data len st = Some (6, st\<lparr>drv := d', tpm_working := False\<rparr>)
     else accept transmit (extend_command bs pcr (take (unat len) data)) (drv st) = Some d' \<and>
       (let e = log_event bs pcr ty (take (unat len) data) (take (unat infolen) info) in
        tpm_add_measurement_to_log transmit pcr ty info infolen data len st =
        (if nxt + length e > log_area_size st then Some (1, st\<lparr>drv := d'\<rparr>)
         else Some (0, st\<lparr>drv := d', log_area := take nxt (log_area st) @ e @ drop (nxt + length e) (log_area st), log_area_next_entry := Some (nxt + length e)\<rparr>))))"
proof -
  let ?msg = "take (unat len) data" and ?info = "take (unat infolen) info" and ?h = "be32 (cpu_to_log32 pcr) @ be32 (cpu_to_log32 ty)"
  let ?z = "replicate 360 (0 :: u8)" and ?cmd = "extend_command bs pcr (take (unat len) data)"
  let ?D = "digest_values True ?msg bs" and ?d = "digest_values False ?msg bs" and ?e = "log_event bs pcr ty ?msg ?info"
  have ok: "banks_ok bs" using assms(2) by (simp add: has_banks_def)
  have b1: "tpm20_build_digest (?h @ ?z) data len True st = Some (int (length ?D), ?h @ ?D @ drop (length ?D) ?z)"
    by (rule build_digest[OF assms(2) _ _ assms(5,6)]) simp_all
  have x: "tpm20_extend transmit (?h @ ?D @ drop (length ?D) ?z) (int (length ?D)) st = header_cmd transmit ?cmd SHORT st"
    by (rule extend_sent[OF assms(2)]) simp
  obtain r d' where hc: "header_cmd transmit ?cmd SHORT st = Some (r, st\<lparr>drv := d'\<rparr>)" "inv d'"
    "if r = 0 then accept transmit ?cmd (drv st) = Some d' else accept transmit ?cmd (drv st) = None"
    using header_cmd_cases[OF assms(1) extend_request_ok[OF ok], of pcr ?msg SHORT] by auto
  show ?thesis
  proof (cases "r = 0")
    case False
    obtain d'' where "tpm_set_failure transmit (st\<lparr>drv := d'\<rparr>) = Some (st\<lparr>drv := d'', tpm_working := False\<rparr>)" "inv d''"
      using set_failure_total[OF hc(2)] by blast
    then show ?thesis using False b1 x hc by (intro exI[of _ d'']) (simp add: tpm_add_measurement_to_log_def)
  next
    case True
    let ?st = "st\<lparr>drv := d'\<rparr>" and ?le = "?D @ drop (length ?D) ?z"
    have hb: "has_banks bs ?st" using assms(2) by (simp add: has_banks_def)
    have ll: "length ?D = length ?d" "length ?d \<le> 360" using ok by (simp_all add: length_digest_values) (simp add: banks_ok_def)
    have b2: "tpm20_build_digest (?h @ ?le) data len False ?st = Some (int (length ?d), ?h @ ?d @ drop (length ?d) ?le)"
      by (rule build_digest[OF hb _ _ assms(5,6)]) (use ll in simp_all)
    have m: "tpm_add_measurement_to_log transmit pcr ty info infolen data len st = tpm_log_event_long (?h @ ?d @ drop (length ?d) ?le) (int (length ?d)) info infolen ?st"
      using True b1 x hc(1) b2 ll(1) by (simp add: tpm_add_measurement_to_log_def)
    have e: "?e = ?h @ ?d @ be32 (cpu_to_log32 infolen) @ ?info" using assms(7) by (simp add: log_event_def)
    have le: "nxt + length ?e = nxt + length (?h @ ?d) + 4 + unat infolen" unfolding e using assms(7) by simp
    show ?thesis
    proof (cases "nxt + length ?e > log_area_size st")
      case big: True
      have "tpm_log_event_long (?h @ ?d @ drop (length ?d) ?le) (int (length ?d)) info infolen ?st = Some (1, ?st)"
        using assms(3) big unfolding le by (simp add: tpm_log_event_long_def)
      then show ?thesis using True hc m big by (intro exI[of _ d']) (simp add: Let_def)
    next
      case False
      have "tpm_log_event_long (?h @ ?d @ drop (length ?d) ?le) (int (length ?d)) info infolen ?st =
          Some (0, ?st\<lparr>log_area := take nxt (log_area st) @ ?e @ drop (nxt + length ?e) (log_area st), log_area_next_entry := Some (nxt + length ?e)\<rparr>)"
        using log_event_appended[of ?st nxt ?h ?d infolen info "drop (length ?d) ?le"] assms(3,4,7) False unfolding le unfolding e by simp
      then show ?thesis using True hc m False by (intro exI[of _ d']) (simp add: Let_def)
    qed
  qed
qed

end

section \<open>The log is the history of the PCRs\<close>

type_synonym measurement = "u32 \<times> u32 \<times> bytes \<times> bytes"

text \<open>A measurement: the PCR, the type of the event, its description and the data. The caller gives the lengths.\<close>

definition measure_event :: "'d transmit \<Rightarrow> measurement \<Rightarrow> 'd tpm \<Rightarrow> (u32 \<times> 'd tpm) option" where
  "measure_event transmit x st = (case x of (pcr, ty, info, data) \<Rightarrow>
     tpm_add_measurement_to_log transmit pcr ty info (of_nat (length info)) data (of_nat (length data)) st)"

fun measure_all :: "'d transmit \<Rightarrow> measurement list \<Rightarrow> 'd tpm \<Rightarrow> (u32 list \<times> 'd tpm) option" where
  "measure_all transmit [] st = Some ([], st)"
| "measure_all transmit (x # xs) st = do {
     (rc, st) \<leftarrow> measure_event transmit x st;
     (rcs, st) \<leftarrow> measure_all transmit xs st;
     Some (rc # rcs, st) }"

fun accept_all :: "'d transmit \<Rightarrow> bytes list \<Rightarrow> 'd \<Rightarrow> 'd option" where
  "accept_all transmit [] d = Some d"
| "accept_all transmit (c # cs) d = do { d \<leftarrow> accept transmit c d; accept_all transmit cs d }"

definition event_of :: "bank list \<Rightarrow> measurement \<Rightarrow> bytes" where
  "event_of bs x = (case x of (pcr, ty, info, data) \<Rightarrow> log_event bs pcr ty data info)"

definition extend_of :: "bank list \<Rightarrow> measurement \<Rightarrow> bytes" where
  "extend_of bs x = (case x of (pcr, ty, info, data) \<Rightarrow> extend_command bs pcr data)"

definition sizes_ok :: "measurement \<Rightarrow> bool" where
  "sizes_ok x \<longleftrightarrow> (case x of (pcr, ty, info, data) \<Rightarrow> length info < 2 ^ 32 \<and> length data < 2 ^ 29)"

text \<open>The log of a working TPM.\<close>

definition log_ok :: "'d tpm \<Rightarrow> bool" where
  "log_ok st \<longleftrightarrow> (\<exists>nxt. log_area_next_entry st = Some nxt \<and> nxt \<le> log_area_size st) \<and> log_area_size st \<le> length (log_area st)"

context tpm_transport
begin

lemma measure_event_cases:
  assumes "inv (drv st)" "has_banks bs st" "log_ok st" "sizes_ok x"
  shows "\<exists>rc st'. measure_event transmit x st = Some (rc, st') \<and> inv (drv st') \<and> has_banks bs st' \<and> log_ok st' \<and> log_area_size st' = log_area_size st \<and>
    (rc = 0 \<and> accept transmit (extend_of bs x) (drv st) = Some (drv st') \<and> log_contents st' = log_contents st @ event_of bs x \<or>
     rc = 1 \<and> accept transmit (extend_of bs x) (drv st) = Some (drv st') \<and> log_contents st' = log_contents st \<and> length (log_contents st @ event_of bs x) > log_area_size st \<or>
     rc = 6 \<and> accept transmit (extend_of bs x) (drv st) = None \<and> log_contents st' = log_contents st \<and> \<not> tpm_working st')"
proof -
  obtain pcr ty info data where x: "x = (pcr, ty, info, data)" by (cases x) auto
  obtain nxt where n: "log_area_next_entry st = Some nxt" "nxt \<le> log_area_size st" "log_area_size st \<le> length (log_area st)" using assms(3) by (auto simp: log_ok_def)
  have u: "unat (of_nat (length info) :: u32) = length info" "unat (of_nat (length data) :: u32) = length data"
    using assms(4) by (simp_all only: unsigned_of_nat) (simp_all add: take_bit_nat_eq_self sizes_ok_def x)
  have "unat (of_nat (length data) :: u32) \<le> length data" "unat (of_nat (length data) :: u32) < 2 ^ 29" "unat (of_nat (length info) :: u32) \<le> length info"
    using u assms(4) by (simp_all add: sizes_ok_def x)
  note m = measurement_cases[OF assms(1,2) n(1,3) this, of pcr ty, unfolded u take_all[OF order_refl] Let_def]
  let ?e = "log_event bs pcr ty data info"
  have e: "event_of bs x = ?e" "extend_of bs x = extend_command bs pcr data" "measure_event transmit x st = tpm_add_measurement_to_log transmit pcr ty info (of_nat (length info)) data (of_nat (length data)) st"
    by (simp_all add: event_of_def extend_of_def measure_event_def x)
  have l: "log_contents st = take nxt (log_area st)" "length (log_contents st) = nxt" using n by (simp_all add: log_contents_def)
  obtain d' where d: "inv d'" and c: "if accept transmit (extend_command bs pcr data) (drv st) = None
     then measure_event transmit x st = Some (6, st\<lparr>drv := d', tpm_working := False\<rparr>)
     else accept transmit (extend_command bs pcr data) (drv st) = Some d' \<and> measure_event transmit x st =
        (if nxt + length ?e > log_area_size st then Some (1, st\<lparr>drv := d'\<rparr>)
         else Some (0, st\<lparr>drv := d', log_area := take nxt (log_area st) @ ?e @ drop (nxt + length ?e) (log_area st), log_area_next_entry := Some (nxt + length ?e)\<rparr>))"
    using m unfolding e(3) by blast
  show ?thesis
  proof (cases "accept transmit (extend_command bs pcr data) (drv st) = None")
    case True
    then show ?thesis using c d assms(2,3) l by (auto simp: e has_banks_def log_ok_def log_contents_def)
  next
    case False
    then show ?thesis
    proof (cases "nxt + length ?e > log_area_size st")
      case True
      then show ?thesis using c d False assms(2,3) l by (auto simp: e has_banks_def log_ok_def log_contents_def)
    next
      case fits: False
      then show ?thesis using c d False assms(2) n by (auto simp: e has_banks_def log_ok_def log_contents_def)
    qed
  qed
qed

lemma measure_all_log:
  assumes "inv (drv st)" "has_banks bs st" "log_ok st" "\<forall>x \<in> set xs. sizes_ok x"
  shows "\<exists>rcs st'. measure_all transmit xs st = Some (rcs, st') \<and> inv (drv st') \<and> log_ok st' \<and> length rcs = length xs \<and>
    (set rcs \<subseteq> {0} \<longrightarrow> log_contents st' = log_contents st @ concat (map (event_of bs) xs) \<and> accept_all transmit (map (extend_of bs) xs) (drv st) = Some (drv st'))"
  using assms
proof (induction xs arbitrary: st)
  case (Cons x xs)
  obtain rc st1 where s: "measure_event transmit x st = Some (rc, st1)" "inv (drv st1)" "has_banks bs st1" "log_ok st1"
    "rc = 0 \<Longrightarrow> accept transmit (extend_of bs x) (drv st) = Some (drv st1) \<and> log_contents st1 = log_contents st @ event_of bs x"
    using measure_event_cases[of st bs x] Cons.prems by auto
  obtain rcs st' where t: "measure_all transmit xs st1 = Some (rcs, st')" "inv (drv st')" "log_ok st'" "length rcs = length xs"
    "set rcs \<subseteq> {0} \<Longrightarrow> log_contents st' = log_contents st1 @ concat (map (event_of bs) xs) \<and> accept_all transmit (map (extend_of bs) xs) (drv st1) = Some (drv st')"
    using Cons.IH[OF s(2-4)] Cons.prems(4) by auto
  show ?case using s t by auto
qed simp

end

text \<open>A TPM with a bank for SHA-256 whose hypervisor answers the next command with \<open>answer\<close>, for the witnesses.\<close>

definition sample_tpm :: "nat \<Rightarrow> vtpm tpm" where
  "sample_tpm k = \<lparr>tpm_probed = True, tpm_found = True, tpm_working = True, log_area = replicate k 0, log_area_size = k, log_area_next_entry = Some 0,
     pcr_selection = Some (be32 1 @ [0, 11, 1, 255]), pcr_selection_size = 8, gpt_data = None, gpt_data_size = 0,
     drv = vtpm_start\<lparr>queue := Some (replicate 256 no_crq), vtpm_unit := 1, buffer_size := 1024, buffer_mem := Some (4096, replicate 1024 0), completed := True, initialized := True,
       answers := [Answer (0, \<lparr>crq_valid = 0x80, crq_msg = 2, crq_len = 10, crq_data = 4096\<rparr>, replicate 10 0)]\<rparr>\<rparr>"

lemma sample_tpm_ok: "drv_ok (drv (sample_tpm k))" "has_banks [(11, [255])] (sample_tpm k)" "log_ok (sample_tpm k)" "drv (sample_tpm k) = drv (sample_tpm 0)"
proof -
  show "drv_ok (drv (sample_tpm k))" by (simp add: sample_tpm_def drv_ok_def vtpm_start_def)
  have "hi8 11 = 0" "lo8 11 = 11" by (simp_all add: hi8_def lo8_def)
  then show "has_banks [(11, [255])] (sample_tpm k)"
    by (simp add: has_banks_def sample_tpm_def banks_ok_def in_use_def supported_def digests_size_def digest_sizes bank_bytes_def)
qed (simp_all add: log_ok_def sample_tpm_def)

text \<open>The command is answered at once.\<close>

lemma answered_accept:
  assumes "answers v = Answer (0, c, b) # r" "driver_error v = -1" "queue v = Some q" "curr_q_entry v < length q" "buffer_mem v = Some (crq_data c, m)"
    "buffer_size v = length m" "request_ok req" "length req \<le> length m" "crq_valid c AND 0x80 \<noteq> 0" "crq_len c = 10" "10 \<le> length b" "10 \<le> length m" "rd32 b 6 = Some 0"
  shows "\<exists>d'. accept spapr_transmit req v = Some d'"
proof -
  let ?i = "curr_q_entry v"
  have n: "unat (of_nat (length req) :: u32) = length req" "rd32 req 2 = Some (of_nat (length req))"
    using assms(7) by (simp_all only: unsigned_of_nat request_ok_def) (simp add: take_bit_nat_eq_self)
  have p: "poll_loop t 0 0" if "0 < t" for t using that by (simp add: poll_loop.simps)
  obtain v1 where s: "spapr_vtpm_senddata req (of_nat (length req)) v = Some (True, v1)" "response v1 = Some ?i" "pending v1 = Some (0, c, b)" "driver_error v1 = -1"
    "\<exists>q'. queue v1 = Some q' \<and> length q' = length q" "\<exists>m'. buffer_mem v1 = Some (crq_data c, m') \<and> length m' = length m"
    using assms n by (simp add: spapr_vtpm_senddata_def vtpm_drv_error_get_def spapr_get_response_crq_def spapr_get_crq_def rdn_def wrn_def
      hv_send_crq_def vtpm_drv_state_set_def min_def Let_def)
  obtain q' m' where q: "queue v1 = Some q'" "length q' = length q" "buffer_mem v1 = Some (crq_data c, m')" "length m' = length m" using s(5,6) by blast
  have w: "spapr_vtpm_waitresponseready SHORT v1 = Some (True, vtpm_drv_state_set 14 (-1) (deliver ?i (0, c, b) v1\<lparr>pending := None\<rparr>))"
    using s assms(9) p[of 750000] by (simp add: spapr_vtpm_waitresponseready_def vtpm_drv_error_get_def answered_def tpm2_durations_def)
  let ?d = "take 10 (take (length m') b @ drop (length b) m')"
  have r: "rd32 ?d 6 = Some 0" using assms(11-13) q(4) by (simp add: rd32_def nth_append)
  have "spapr_vtpm_readresponse 10 (vtpm_drv_state_set 14 (-1) (deliver ?i (0, c, b) v1\<lparr>pending := None\<rparr>)) =
      Some (Some ?d, vtpm_drv_state_set 14 (-1) (deliver ?i (0, c, b) v1\<lparr>pending := None\<rparr>)\<lparr>response := None\<rparr>)"
    using q s(2) assms(4,10,12) by (simp add: spapr_vtpm_readresponse_def vtpm_drv_error_get_def vtpm_drv_state_set_def deliver_def spapr_get_crq_def rdn_def)
  then show ?thesis using n(2) s(1) w r assms(12) q(4) by (simp add: accept_def spapr_transmit_def)
qed

lemma log_contents_le: "log_ok st \<Longrightarrow> length (log_contents st) \<le> log_area_size st"
  by (auto simp: log_ok_def log_contents_def)

text \<open>A measurement of three bytes.\<close>

definition sample_event :: measurement where
  "sample_event = (0, 8, [49], [97, 98, 99])"

lemma sample_lengths: "length (extend_of [(11, [255])] sample_event) = 65" "length (event_of [(11, [255])] sample_event) = 51"
proof -
  have ok: "banks_ok [(11, [255])]" using sample_tpm_ok(2) by (simp add: has_banks_def)
  have "length (digest_values b msg [(11, [255])]) = 38" for b msg using length_digest_values[OF ok, of b msg] by (simp add: in_use_def digests_size_def digest_sizes)
  then show "length (extend_of [(11, [255])] sample_event) = 65" "length (event_of [(11, [255])] sample_event) = 51"
    by (simp_all add: extend_of_def event_of_def extend_command_def log_event_def Let_def sample_event_def)
qed

lemma sample_accepts: "\<exists>d. accept spapr_transmit (extend_of [(11, [255])] sample_event) (drv (sample_tpm k)) = Some d"
proof -
  have ok: "banks_ok [(11, [255])]" using sample_tpm_ok(2) by (simp add: has_banks_def)
  have r: "request_ok (extend_of [(11, [255])] sample_event)" unfolding extend_of_def sample_event_def by (simp add: extend_request_ok[OF ok])
  show ?thesis
    by (rule answered_accept[OF _ _ _ _ _ _ r, where r = "[]" and b = "replicate 10 0" and q = "replicate 256 no_crq" and m = "replicate 1024 0" and
      c = "\<lparr>crq_valid = 0x80, crq_msg = 2, crq_len = 10, crq_data = 4096\<rparr>"])
      (use sample_lengths in \<open>simp_all add: sample_tpm_def vtpm_start_def rd32_def cat32_def cat16_def\<close>)
qed

text \<open>C34: Measured boot over the virtual TPM: whatever is measured, no call leaves an object; and if every call returns 0, the log has grown by exactly one event for each measurement,
  in order, with the digests of the data in every bank in use, and the TPM has accepted exactly the commands that extend the PCRs with the same digests, in the same order.\<close>

theorem measured_boot_log:
  fixes st :: "vtpm tpm"
  assumes "drv_ok (drv st)" "has_banks bs st" "log_ok st" "\<forall>x \<in> set xs. sizes_ok x"
  shows "\<exists>rcs st'. measure_all spapr_transmit xs st = Some (rcs, st') \<and> drv_ok (drv st') \<and> log_ok st' \<and> length rcs = length xs \<and>
    (set rcs \<subseteq> {0} \<longrightarrow> log_contents st' = log_contents st @ concat (map (event_of bs) xs) \<and>
       accept_all spapr_transmit (map (extend_of bs) xs) (drv st) = Some (drv st'))"
  using assms by (rule vtpm.measure_all_log)

theorem measured_boot_log_witness:
  "\<exists>st'. measure_all spapr_transmit [sample_event] (sample_tpm 500) = Some ([0], st') \<and> log_contents st' = event_of [(11, [255])] sample_event \<and>
     accept_all spapr_transmit [extend_of [(11, [255])] sample_event] (drv (sample_tpm 500)) = Some (drv st')"
proof -
  have sz: "sizes_ok sample_event" by (simp add: sizes_ok_def sample_event_def)
  have e: "log_contents (sample_tpm 500) = []" "log_area_size (sample_tpm 500) = 500" by (simp_all add: log_contents_def sample_tpm_def)
  obtain st1 where "measure_event spapr_transmit sample_event (sample_tpm 500) = Some (0, st1)"
    using vtpm.measure_event_cases[OF sample_tpm_ok(1-3) sz, of 500] sample_accepts[of 500] sample_lengths e by auto
  then have "measure_all spapr_transmit [sample_event] (sample_tpm 500) = Some ([0], st1)" by simp
  then show ?thesis using measured_boot_log[OF sample_tpm_ok(1-3), of "[sample_event]" 500] sz e by auto
qed

text \<open>C35: When the log is full, a measurement is not logged, but its PCR has already been extended: the call returns \<open>TCGBIOS_LOGOVERFLOW\<close>, and from then on the PCR does not follow from the log.\<close>

theorem extended_but_not_logged:
  fixes st :: "vtpm tpm"
  assumes "drv_ok (drv st)" "has_banks bs st" "log_ok st" "sizes_ok x" "accept spapr_transmit (extend_of bs x) (drv st) = Some d"
    "log_area_size st < length (log_contents st @ event_of bs x)"
  shows "\<exists>st'. measure_event spapr_transmit x st = Some (1, st') \<and> drv st' = d \<and> log_contents st' = log_contents st"
proof -
  obtain rc st' where m: "measure_event spapr_transmit x st = Some (rc, st')" "log_ok st'" "log_area_size st' = log_area_size st"
    "rc = 0 \<and> accept spapr_transmit (extend_of bs x) (drv st) = Some (drv st') \<and> log_contents st' = log_contents st @ event_of bs x \<or>
     rc = 1 \<and> accept spapr_transmit (extend_of bs x) (drv st) = Some (drv st') \<and> log_contents st' = log_contents st \<or>
     rc = 6 \<and> accept spapr_transmit (extend_of bs x) (drv st) = None"
    using vtpm.measure_event_cases[OF assms(1-4)] by auto
  have "length (log_contents st') \<le> log_area_size st" using log_contents_le[OF m(2)] m(3) by simp
  then show ?thesis using m assms(5,6) by auto
qed

theorem extended_but_not_logged_witness:
  "\<exists>st'. measure_event spapr_transmit sample_event (sample_tpm 20) = Some (1, st') \<and> log_contents st' = log_contents (sample_tpm 20)"
proof -
  obtain d where "accept spapr_transmit (extend_of [(11, [255])] sample_event) (drv (sample_tpm 20)) = Some d" using sample_accepts by blast
  from extended_but_not_logged[OF sample_tpm_ok(1-3) _ this] show ?thesis using sample_lengths by (auto simp: sizes_ok_def sample_tpm_def sample_event_def)
qed

section \<open>PCR banks\<close>

text \<open>The walk over the banks reads behind the structure.\<close>

lemma suppt_loop_banks:
  assumes "\<forall>b \<in> set bs. length (snd b) < 256"
  shows "suppt_loop (pre @ banks_bytes bs) (length (pre @ banks_bytes bs)) (length pre) s a = None"
  using assms
proof (induction bs arbitrary: pre s a)
  case Nil
  then show ?case by (simp add: suppt_loop.simps rd8_def)
next
  case (Cons b bs)
  obtain al sl where b: "b = (al, sl)" by fastforce
  let ?m = "pre @ banks_bytes (b # bs)"
  have us: "unat (of_nat (length sl) :: u8) = length sl" using Cons.prems b by (simp add: unsigned_of_nat take_bit_nat_eq_self_iff)
  have r: "rd8 ?m (length pre + 2) = Some (of_nat (length sl))" "rd16 ?m (length pre) = Some al" "rdn ?m (length pre + 3) (length sl) = Some sl"
    by (simp_all add: b bank_bytes_def rd8_def rd16_def rdn_def nth_append be_simps)
  have nx: "length pre + 3 + length sl = length (pre @ bank_bytes b)" by (simp add: b bank_bytes_def)
  have le: "\<not> length ?m < length (pre @ bank_bytes b)" by simp
  have "suppt_loop ?m (length ?m) (length pre) s a =
      suppt_loop ((pre @ bank_bytes b) @ banks_bytes bs) (length ((pre @ bank_bytes b) @ banks_bytes bs)) (length (pre @ bank_bytes b)) (s OR tpm20_hashalg_to_flag al)
        (if list_ex (\<lambda>x. x \<noteq> 0) sl then a OR tpm20_hashalg_to_flag al else a)"
    by (subst suppt_loop.simps) (use r us nx le in \<open>simp add: Let_def del: length_append\<close>)
  then show ?case using Cons.IH[of "pre @ bank_bytes b"] Cons.prems by simp
qed

text \<open>Listing the PCR banks reads two bytes behind the structure from the TPM: after the last bank the loop fetches the size byte of one more.\<close>

theorem pcrbanks_overread:
  assumes "\<forall>b \<in> set bs. length (snd b) < 256" "pcr_selection st = Some (be32 (of_nat (length bs)) @ banks_bytes bs)" "pcr_selection_size st = 4 + length (banks_bytes bs)"
  shows "tpm20_get_suppt_pcrbanks st = None"
  using suppt_loop_banks[OF assms(1), of "be32 (of_nat (length bs))" 0 0] assms(2,3) by (simp add: tpm20_get_suppt_pcrbanks_def)

theorem pcrbanks_overread_witness: "tpm20_get_suppt_pcrbanks (sample_tpm 500) = None"
proof -
  have "hi8 11 = 0" "lo8 11 = 11" by (simp_all add: hi8_def lo8_def)
  then show ?thesis using pcrbanks_overread[of "[(11, [255])]" "sample_tpm 500"] by (simp add: sample_tpm_def bank_bytes_def)
qed

lemma banks_loop_count:
  assumes "banks_loop flags suppt active i tps = Some (j, tps')"
  shows "length tps' = length tps \<and> (i \<le> j) \<and> ((\<exists>f \<in> set flags. f AND suppt \<noteq> 0 \<and> tpm20_hashalg_flag_to_hashalg f \<noteq> 0) \<longrightarrow> i < j)"
  using assms
proof (induction flags suppt active i tps rule: banks_loop.induct)
  case (2 flag flags suppt active i tps)
  show ?case
  proof (cases "flag AND suppt \<noteq> 0 \<and> tpm20_hashalg_flag_to_hashalg flag \<noteq> 0")
    case True
    then obtain t where "wrn tps (6 * i) (be16 (tpm20_hashalg_flag_to_hashalg flag) @ [3, if active AND ucast flag \<noteq> 0 then 0xff else 0,
        if active AND ucast flag \<noteq> 0 then 0xff else 0, if active AND ucast flag \<noteq> 0 then 0xff else 0]) = Some t" "banks_loop flags suppt active (i + 1) t = Some (j, tps')"
      using "2.prems" by (auto simp: Let_def bind_eq_Some_conv)
    then show ?thesis using "2.IH"(1)[OF refl True refl, of t] wrn_length by fastforce
  next
    case False
    then have "banks_loop flags suppt active i tps = Some (j, tps')" using "2.prems" by (auto simp: Let_def)
    then show ?thesis using "2.IH"(2)[OF refl False] False by auto
  qed
qed simp

lemma flags_known: "f \<in> set hash_flags \<Longrightarrow> tpm20_hashalg_flag_to_hashalg f \<noteq> 0"
  by (auto simp: tpm20_hashalg_flag_to_hashalg_def tpm20_find_by_hashalg_flag_def hash_table_def)

lemma some_flag: "suppt \<noteq> 0 \<Longrightarrow> \<exists>f \<in> set hash_flags. f AND suppt \<noteq> 0"
proof -
  assume "suppt \<noteq> 0"
  then obtain n where n: "bit suppt n" by (metis bit_eqI bit_0_eq bot_apply bot_bool_def)
  then have "n < 8" using bit_imp_le_length[OF n] by simp
  then have f: "(push_bit n 1 :: u8) \<in> set hash_flags" by (auto simp: less_Suc_eq numeral_eq_Suc push_bit_Suc)
  have "bit (push_bit n 1 AND suppt) n" using n \<open>n < 8\<close> by (simp add: bit_simps)
  then have "push_bit n 1 AND suppt \<noteq> 0" by (metis bit_0_eq bot_apply bot_bool_def)
  then show ?thesis using f by blast
qed

text \<open>C36: Changing the active banks always overflows: the request has room for 4 bytes of selections and each bank needs 6.\<close>

theorem set_pcrbanks_overflow:
  assumes "tpm20_get_suppt_pcrbanks st = Some (suppt, active)" "suppt \<noteq> 0"
  shows "tpm20_set_pcrbanks transmit banks st = None"
proof (cases "banks_loop hash_flags suppt banks 0 (replicate 24 0)")
  case None
  then show ?thesis using assms(1) by (simp add: tpm20_set_pcrbanks_def)
next
  case (Some r)
  obtain i tps where r: "r = (i, tps)" by fastforce
  have i: "0 < i" using banks_loop_count[OF Some[unfolded r]] some_flag[OF assms(2)] flags_known by blast
  have "wrn (req_header 0x8002 (31 + of_nat (i * 6)) 0x12b @ be32 0x4000000c @ be32 9 @ authblock @ be32 (of_nat i) @ replicate 4 0) 31 (take (i * 6) tps) = None"
    if "i * 6 \<le> length tps" using that i by (simp add: wrn_def)
  then show ?thesis using assms(1) Some r by (simp add: tpm20_set_pcrbanks_def rdn_def Let_def del: banks_loop.simps)
qed

theorem set_pcrbanks_overflow_witness:
  "tpm20_set_pcrbanks spapr_transmit 2 ((sample_tpm 500)\<lparr>pcr_selection := Some (be32 1 @ [0, 11, 1, 255, 0, 0, 0])\<rparr>) = None"
proof (rule set_pcrbanks_overflow)
  show "tpm20_get_suppt_pcrbanks ((sample_tpm 500)\<lparr>pcr_selection := Some (be32 1 @ [0, 11, 1, 255, 0, 0, 0])\<rparr>) = Some (2, 2)"
    by code_simp
qed simp

end
