(* ===== verification/Spec2Isabelle.thy ===== *)
theory Spec2Isabelle
  imports Libc_String Libc_Malloc Nvram_Partitions Envvar Libc_Stdio Allocator Sha_Constants Net_Transfer Elf_Props Net_Lease Net_Bootp Tcg_Log
begin

text \<open>
  A verification development of SLOF, the Slimline Open Firmware for PowerPC machines
  (the sources are under \<open>src/\<close>).

  \<^bold>\<open>The program.\<close> SLOF starts a machine and loads an operating system. Its Forth part (the \<open>.fs\<close> files) builds
  the device tree and calls C libraries: a small C library (\<open>lib/libc\<close>), the NVRAM code (\<open>lib/libnvram\<close>), the
  network stack for booting over Ethernet (\<open>lib/libnet\<close>), hash functions for measured boot (\<open>lib/libtpm\<close>), an
  allocator for DMA windows (\<open>slof/allocator.c\<close>), and drivers. The C library is used by all others; the
  environment variables of \<open>envvar.c\<close> live in a partition of \<open>nvram.c\<close>; in the network stack \<open>ethernet.c\<close> passes
  received frames to \<open>ipv4.c\<close>, which resolves addresses with ARP, reassembles fragments and passes datagrams to
  \<open>udp.c\<close>, and this to the clients such as \<open>dns.c\<close>, which send through \<open>ipv4.c\<close> again.

  \<^bold>\<open>How C is modelled.\<close> Theory \<open>Prelude\<close>: the target is big-endian with 32-bit \<open>int\<close>, 64-bit \<open>long\<close> and unsigned
  \<open>char\<close>. A C object is a list of bytes, a pointer into it an offset; each read and write is checked and gives
  \<open>None\<close> outside the object, so a theorem that an operation returns \<open>Some\<close> is also one about memory safety. Static
  variables are records passed through the operations. Integers are words where bits or wrap-around matter, and
  elsewhere \<open>int\<close> with the conversions written out. A loop that need not end is a \<open>partial_function\<close> into
  \<open>option\<close>; there too the theorems say that it returns, or exactly that it does not.

  \<^bold>\<open>Theories.\<close>
  \<^item> \<open>Libc_String\<close>: \<open>lib/libc/string\<close> and \<open>lib/libc/ctype\<close>, each function on byte objects, with the exact results of the
    copying, comparing and searching functions and of \<open>strtok\<close>.
  \<^item> \<open>Libc_Stdlib\<close>: \<open>strtol\<close>, \<open>strtoul\<close>, \<open>atoi\<close>, \<open>atol\<close>, \<open>rand\<close>; numerals of every base are read exactly.
  \<^item> \<open>Libc_Stdio\<close>: \<open>vsnprintf.c\<close> and its wrappers; output stays in the buffer for safe formats, \<open>%ld\<close> is inverse to
    \<open>strtol\<close>, and a width on \<open>%c\<close> overruns the buffer.
  \<^item> \<open>Byte_Store\<close> (a locale): what clients of the NVRAM access functions rely on. \<open>Nvram\<close> models \<open>nvram.c\<close> and
    interprets it; \<open>Nvram_Partitions\<close> has the abstract partition list, the refinement of \<open>get_partition\<close>, the
    invariant of \<open>new_nvram_partition\<close>, the factory layout, termination of the walks and two faults; \<open>Envvar\<close> models
    \<open>envvar.c\<close> over the interface, with the refinement of lookups and the round trip of \<open>nvram_add_env\<close>.
  \<^item> \<open>Alloc_Interface\<close> (a locale): an allocator of windows, its runs as an inductive relation, and what holds along
    every run. \<open>Allocator\<close> models \<open>slof/allocator.c\<close> on 64-bit words and interprets it: live windows are disjoint,
    allocation is first fit, releasing everything restores the initial state.
  \<^item> \<open>Sha_Block\<close> (the locales \<open>word_array\<close> and \<open>block_hash\<close>): the shared shape of the hash functions and the padding
    of FIPS 180-4. \<open>Sha1\<close>, \<open>Sha256\<close> and \<open>Sha512\<close> model \<open>sha.c\<close>, \<open>sha256.c\<close> and \<open>sha512.c\<close>, interpret the locales and
    prove the equivalence with the standard; \<open>Sha_Constants\<close> checks the tables against the roots of primes.
  \<^item> \<open>Net_State\<close>: the state of the network stack and \<open>ethernet.c\<close>. The socket is the list of results that \<open>recv\<close>
    will deliver and the list of frames given to \<open>send\<close>; each \<open>set_timer\<close> takes from \<open>polls\<close> how many rounds the
    timer allows. \<open>Net_Ipv4\<close> models \<open>ipv4.c\<close>, \<open>udp.c\<close> and \<open>tcp.c\<close>; the protocols above and IPv6 are the record
    \<open>upper\<close>. \<open>Net_Checksum\<close>: outgoing checksums are valid. \<open>Net_Arp\<close>: the invariant of the ARP table, memory safety
    of ARP and of sending, and two faults. \<open>Net_Recv\<close>: the filter, reassembly, and the unchecked lengths.
  \<^item> \<open>Net_Dns\<close>: \<open>dns.c\<close>; names survive encoding and decoding, the answer is taken from the message, and
    self-referring names and names of 255 characters break the client.

  \<^bold>\<open>Bounds and fuel.\<close> \<open>receive_ether\<close> and \<open>send_ipv4\<close> call each other; \<open>receive_ether\<close> takes fuel, and every nested
  call has consumed a queued frame, so fuel above the number of queued events is enough. Packet handlers get the
  object from the header on, so an access beyond the Ethernet buffer of 1518 bytes is \<open>None\<close>. The hash theorems hold
  for all lengths of the 32-bit length argument (below 512 MiB for SHA-256, whose bit counter has 32 bits).

  \<^bold>\<open>Not modelled.\<close> The Forth sources and the threaded-code engine (\<open>slof/fs\<close>, \<open>slof/paflof.c\<close>: generated tables and
  computed jumps); assembly; drivers whose behaviour is that of the hardware or hypervisor (\<open>libbcm\<close>, \<open>libe1k\<close>,
  \<open>libusb\<close>, \<open>libveth\<close>, \<open>libvirtio\<close>, \<open>u4mem.c\<close>, \<open>tpm_drivers.c\<close>, RTAS); the BIOS emulation, which drives an external
  library; host tools. Next in the plan: the heap of \<open>malloc.c\<close>, \<open>tftp.c\<close>, \<open>dhcp.c\<close>, \<open>args.c\<close>, IPv6, the ELF loader,
  \<open>vsscanf.c\<close>, the 9p marshalling and the event log of \<open>tcgbios.c\<close>.
\<close>

end
